(* ===== verification/Prelude.thy ===== *)
theory Prelude
  imports Main "HOL-Library.AList"
begin

text \<open>
  What every component shares: the exceptions of the program as values, results that are
  either an exception or a value, Python's insertion-ordered dictionaries as association
  lists, Python's sets as duplicate-free lists, and the order of elements in a list.

  A Python \<open>set\<close> is modelled by the list of its elements in the order an iteration
  yields them. That order is Python's choice: no property of the development depends on it,
  and results that are sets are compared by \<^const>\<open>set\<close>.
\<close>

named_theorems res_simps "rewriting of results: bind, traverse"
named_theorems dict_simps "lookups and keys of updated dictionaries"

section \<open>Exceptions and results\<close>

text \<open>
  Exceptions cross components (a lifecycle re-raises what an injection raised), so they are
  one type: the language's own, then the program's, then whatever the code of an
  application raises (\<open>AppError\<close>).
\<close>

datatype exn =
    AssertionError
  | TypeError
  | KeyError
  | ValueError
  | IndexError
  | AttributeError
  | RuntimeError
  | KeyboardInterrupt
  | SystemExit
  | NoneValueException
  | WrongIterableSizeException nat nat
  | EmptyIterableException
  | UnreachableInstructionException
  | TypeOrderingException nat nat
  | ConcreteTypeExpectedException "nat option"
  | InvalidInternalTypeException
  | DependencyArityMismatch
  | NonePrimaryImplementationException nat
  | ConfiguratorPhaseMismatchException nat
  | ExceptionGroup "exn list"
  | DependencyValidationFailureException "(string \<times> exn list) list"
  | CyclicDependencyGraphException "nat list list"
  | UnknownTypesException "nat list"
  | ValueDuplicationError
  | ToBeContinuedException string
  | PollingFailureException int
  | WritingDisabledException "string option"
  | UnmanagedWritesWarning
  | InvalidModuleStyleException string bool bool
  | NotImplementedError
  | ZeroDivisionError
  | OSError
  | ProgrammingError int
  | OperationalError "int option"
  | DatabaseError
  | ImageNotFound
  | NotFound
  | AppError nat

text \<open>
  \<open>except Exception\<close> catches every exception but those that derive from
  \<open>BaseException\<close> only.
\<close>

fun is_exception :: "exn \<Rightarrow> bool" where
  "is_exception KeyboardInterrupt = False"
| "is_exception SystemExit = False"
| "is_exception _ = True"

type_synonym 'a res = "exn + 'a"

fun rbind :: "'e + 'a \<Rightarrow> ('a \<Rightarrow> 'e + 'b) \<Rightarrow> 'e + 'b" where
  "rbind (Inl e) f = Inl e"
| "rbind (Inr x) f = f x"

lemma rbind_cong [fundef_cong]:
  "m = m' \<Longrightarrow> (\<And>x. m' = Inr x \<Longrightarrow> f x = f' x) \<Longrightarrow> rbind m f = rbind m' f'"
  by (cases m') auto

lemma rbind_Inr_iff [res_simps]: "rbind m f = Inr y \<longleftrightarrow> (\<exists>x. m = Inr x \<and> f x = Inr y)"
  by (cases m) auto

lemma rbind_Inl_iff [res_simps]:
  "rbind m f = Inl e \<longleftrightarrow> m = Inl e \<or> (\<exists>x. m = Inr x \<and> f x = Inl e)"
  by (cases m) auto

lemma rbind_assoc: "rbind (rbind m f) g = rbind m (\<lambda>x. rbind (f x) g)"
  by (cases m) auto

definition guard_that :: "bool \<Rightarrow> exn \<Rightarrow> unit res" where
  "guard_that b e = (if b then Inr () else Inl e)"

lemma guard_that_Inr_iff [res_simps]: "guard_that b e = Inr u \<longleftrightarrow> b"
  by (simp add: guard_that_def)

lemma guard_that_Inl_iff [res_simps]: "guard_that b e = Inl e' \<longleftrightarrow> \<not> b \<and> e' = e"
  by (auto simp: guard_that_def)

text \<open>A comprehension whose element expression may raise: it stops at the first exception.\<close>

fun traverse :: "('a \<Rightarrow> 'e + 'b) \<Rightarrow> 'a list \<Rightarrow> 'e + 'b list" where
  "traverse f [] = Inr []"
| "traverse f (x # xs) = rbind (f x) (\<lambda>y. rbind (traverse f xs) (\<lambda>ys. Inr (y # ys)))"

lemma traverse_cong [fundef_cong]:
  "xs = ys \<Longrightarrow> (\<And>x. x \<in> set ys \<Longrightarrow> f x = g x) \<Longrightarrow> traverse f xs = traverse g ys"
  by (induction ys arbitrary: xs) auto

lemma traverse_Inr_iff [res_simps]:
  "traverse f xs = Inr ys \<longleftrightarrow> list_all2 (\<lambda>x y. f x = Inr y) xs ys"
  by (induction xs arbitrary: ys) (auto simp: res_simps list_all2_Cons1)

lemma traverse_total: "(\<And>x. x \<in> set xs \<Longrightarrow> \<exists>y. f x = Inr y) \<Longrightarrow> \<exists>ys. traverse f xs = Inr ys"
  by (induction xs) (fastforce simp: res_simps)+

lemma traverse_InlE:
  assumes "traverse f xs = Inl e"
  obtains x where "x \<in> set xs" and "f x = Inl e"
  using assms by (induction xs) (auto simp: res_simps)

lemma traverse_Inr_map: "traverse (\<lambda>x. Inr (f x)) xs = Inr (map f xs)"
  by (induction xs) auto

section \<open>Dictionaries\<close>

text \<open>
  A Python dictionary keeps its keys in insertion order; assigning to a present key keeps
  the key's place. \<^const>\<open>AList.update\<close> and \<^const>\<open>AList.delete\<close> do the same.
\<close>

type_synonym ('k, 'v) dict = "('k \<times> 'v) list"

definition keys :: "('k, 'v) dict \<Rightarrow> 'k set" where
  "keys d = set (map fst d)"

definition dict_ok :: "('k, 'v) dict \<Rightarrow> bool" where
  "dict_ok d \<longleftrightarrow> distinct (map fst d)"

definition map_values :: "('k \<Rightarrow> 'v \<Rightarrow> 'w) \<Rightarrow> ('k, 'v) dict \<Rightarrow> ('k, 'w) dict" where
  "map_values f d = map (\<lambda>(k, v). (k, f k v)) d"

lemma keys_Nil [simp]: "keys [] = {}"
  by (simp add: keys_def)

lemma keys_Cons [simp]: "keys (p # d) = insert (fst p) (keys d)"
  by (simp add: keys_def)

lemma keys_append [simp]: "keys (d @ e) = keys d \<union> keys e"
  by (simp add: keys_def)

lemma keys_map_Pair [simp]: "keys (map (\<lambda>x. (x, f x)) xs) = set xs"
  by (induction xs) auto

lemma finite_keys [simp]: "finite (keys d)"
  by (simp add: keys_def)

lemma in_keysI: "(k, v) \<in> set d \<Longrightarrow> k \<in> keys d"
  by (force simp: keys_def)

lemma keys_update [dict_simps]: "keys (AList.update k v d) = insert k (keys d)"
  by (induction d) auto

lemma keys_delete [dict_simps]: "keys (AList.delete k d) = keys d - {k}"
  by (auto simp: AList.delete_eq keys_def)

lemma keys_map_values [dict_simps]: "keys (map_values f d) = keys d"
  by (induction d) (auto simp: map_values_def)

lemma map_of_map_values [dict_simps]:
  "map_of (map_values f d) k = map_option (f k) (map_of d k)"
  by (induction d) (auto simp: map_values_def)

lemma dict_ok_Nil [simp]: "dict_ok []"
  by (simp add: dict_ok_def)

lemma dict_ok_append [simp]: "dict_ok (d @ e) \<longleftrightarrow> dict_ok d \<and> dict_ok e \<and> keys d \<inter> keys e = {}"
  by (simp add: dict_ok_def keys_def)

lemma dict_ok_map_Pair [simp]: "dict_ok (map (\<lambda>x. (x, f x)) xs) \<longleftrightarrow> distinct xs"
  by (simp add: dict_ok_def comp_def)

lemma dict_ok_update [dict_simps, intro]: "dict_ok d \<Longrightarrow> dict_ok (AList.update k v d)"
  by (simp add: dict_ok_def distinct_update)

lemma dict_ok_delete [dict_simps, intro]: "dict_ok d \<Longrightarrow> dict_ok (AList.delete k d)"
  by (simp add: dict_ok_def distinct_delete)

lemma dict_ok_map_values [dict_simps, intro]: "dict_ok d \<Longrightarrow> dict_ok (map_values f d)"
  by (simp add: dict_ok_def map_values_def comp_def case_prod_unfold)

lemma map_of_update [dict_simps]: "map_of (AList.update k v d) = (map_of d)(k \<mapsto> v)"
  by (rule update_conv')

lemma map_of_delete [dict_simps]: "map_of (AList.delete k d) = (map_of d)(k := None)"
  by (rule delete_conv')

lemma keys_iff_map_of: "k \<in> keys d \<longleftrightarrow> (\<exists>v. map_of d k = Some v)"
  by (induction d) auto

lemma not_keys_iff_map_of: "k \<notin> keys d \<longleftrightarrow> map_of d k = None"
  by (auto simp: keys_iff_map_of)

lemma map_of_in_keys: "map_of d k = Some v \<Longrightarrow> k \<in> keys d"
  by (auto simp: keys_iff_map_of)

lemma dict_ok_map_of: "dict_ok d \<Longrightarrow> map_of d k = Some v \<longleftrightarrow> (k, v) \<in> set d"
  by (simp add: dict_ok_def)

section \<open>Sets as duplicate-free lists\<close>

text \<open>\<open>s.add(x)\<close> and \<open>s.update(xs)\<close>.\<close>

definition set_add :: "'a \<Rightarrow> 'a list \<Rightarrow> 'a list" where
  "set_add x xs = (if x \<in> set xs then xs else xs @ [x])"

definition set_update :: "'a list \<Rightarrow> 'a list \<Rightarrow> 'a list" where
  "set_update ys xs = fold set_add ys xs"

lemma set_set_add [simp]: "set (set_add x xs) = insert x (set xs)"
  by (auto simp: set_add_def)

lemma distinct_set_add [simp, intro]: "distinct xs \<Longrightarrow> distinct (set_add x xs)"
  by (auto simp: set_add_def)

lemma set_set_update [simp]: "set (set_update ys xs) = set xs \<union> set ys"
  unfolding set_update_def by (induction ys arbitrary: xs) auto

lemma distinct_set_update [simp, intro]: "distinct xs \<Longrightarrow> distinct (set_update ys xs)"
  unfolding set_update_def by (induction ys arbitrary: xs) auto

lemma set_add_idem: "x \<in> set xs \<Longrightarrow> set_add x xs = xs"
  by (simp add: set_add_def)

section \<open>Order in a list\<close>

fun before :: "'a \<Rightarrow> 'a \<Rightarrow> 'a list \<Rightarrow> bool" where
  "before x y [] = False"
| "before x y (z # zs) = ((z = x \<and> y \<in> set zs) \<or> before x y zs)"

lemma before_in_set: "before x y xs \<Longrightarrow> x \<in> set xs \<and> y \<in> set xs"
  by (induction xs) auto

lemma before_append:
  "before x y (xs @ ys) \<longleftrightarrow> before x y xs \<or> before x y ys \<or> (x \<in> set xs \<and> y \<in> set ys)"
  by (induction xs) auto

lemma before_filter: "before x y xs \<Longrightarrow> P x \<Longrightarrow> P y \<Longrightarrow> before x y (filter P xs)"
  by (induction xs) auto

lemma before_map: "before x y xs \<Longrightarrow> before (f x) (f y) (map f xs)"
  by (induction xs) auto

lemma before_antisym: "distinct xs \<Longrightarrow> before x y xs \<Longrightarrow> \<not> before y x xs"
  by (induction xs) (auto dest: before_in_set)

lemma before_irrefl: "distinct xs \<Longrightarrow> \<not> before x x xs"
  by (induction xs) (auto dest: before_in_set)

lemma before_trans: "distinct xs \<Longrightarrow> before x y xs \<Longrightarrow> before y z xs \<Longrightarrow> before x z xs"
  by (induction xs) (auto dest: before_in_set)

lemma before_nthI:
  "i < j \<Longrightarrow> j < length xs \<Longrightarrow> xs ! i = x \<Longrightarrow> xs ! j = y \<Longrightarrow> before x y xs"
proof (induction xs arbitrary: i j)
  case Nil
  then show ?case by simp
next
  case (Cons z zs)
  then obtain j' where j: "j = Suc j'" by (cases j) auto
  show ?case
  proof (cases i)
    case 0
    with Cons.prems j show ?thesis by auto
  next
    case (Suc i')
    with Cons.prems j Cons.IH [of i' j'] show ?thesis by auto
  qed
qed

lemma before_rev: "before x y (rev xs) \<longleftrightarrow> before y x xs"
  by (induction xs) (auto simp: before_append dest: before_in_set)

end
