(* ===== verification/Guards.thy ===== *)
theory Guards
  imports Prelude
begin

text \<open>
  The guard classes of \<open>thinking_programming/exceptions.py\<close>, the argument collector of
  \<open>thinking_programming/collectable.py\<close> and the outcomes of
  \<open>thinking_programming/outcome.py\<close>: small operations that every other component calls.
\<close>

section \<open>Guards\<close>

definition NoneValueException_guard :: "'a option \<Rightarrow> 'a res" where
  "NoneValueException_guard val = (case val of None \<Rightarrow> Inl NoneValueException | Some v \<Rightarrow> Inr v)"

definition WrongIterableSizeException_guard :: "'a list \<Rightarrow> nat \<Rightarrow> 'a list res" where
  "WrongIterableSizeException_guard i e =
     (if length i \<noteq> e then Inl (WrongIterableSizeException (length i) e) else Inr i)"

definition EmptyIterableException_guard :: "'a list \<Rightarrow> unit res" where
  "EmptyIterableException_guard i = (if length i = 0 then Inl EmptyIterableException else Inr ())"

definition UnreachableInstructionException_guard :: "'a res" where
  "UnreachableInstructionException_guard = Inl UnreachableInstructionException"

lemma NoneValue_guard_Inr_iff [res_simps]: "NoneValueException_guard val = Inr v \<longleftrightarrow> val = Some v"
  by (auto simp: NoneValueException_guard_def split: option.splits)

lemma WrongIterableSize_guard_Inr_iff [res_simps]:
  "WrongIterableSizeException_guard i e = Inr xs \<longleftrightarrow> length i = e \<and> xs = i"
  by (auto simp: WrongIterableSizeException_guard_def)

section \<open>Groups of guards\<close>

text \<open>
  \<open>Group\<close> runs guards one after the other and keeps what they raise; its state is the list
  \<open>self.exceptions\<close>. \<open>guard\<close> catches \<open>Exception\<close> only, so an interrupt leaves the
  group at once. Leaving the \<open>with\<close> block raises the group when it holds an exception,
  whatever the block itself raised.
\<close>

fun Group_guard :: "exn list \<Rightarrow> 'a res \<Rightarrow> exn list res" where
  "Group_guard exceptions (Inr _) = Inr exceptions"
| "Group_guard exceptions (Inl e) = (if is_exception e then Inr (exceptions @ [e]) else Inl e)"

definition Group_exit :: "exn list \<Rightarrow> exn option \<Rightarrow> unit res" where
  "Group_exit exceptions body_exn =
     (if exceptions \<noteq> [] then Inl (ExceptionGroup exceptions)
      else case body_exn of None \<Rightarrow> Inr () | Some e \<Rightarrow> Inl e)"

fun Group_run :: "exn list \<Rightarrow> unit res list \<Rightarrow> unit res" where
  "Group_run exceptions [] = Group_exit exceptions None"
| "Group_run exceptions (g # gs) =
     (case Group_guard exceptions g of
        Inl e \<Rightarrow> Group_exit exceptions (Some e)
      | Inr exceptions' \<Rightarrow> Group_run exceptions' gs)"

lemma Group_run_Inr_iff:
  "Group_run es gs = Inr u \<longleftrightarrow> es = [] \<and> (\<forall>g \<in> set gs. g = Inr ())"
proof (induction gs arbitrary: es)
  case Nil
  then show ?case by (simp add: Group_exit_def)
next
  case (Cons g gs)
  then show ?case by (cases g) (auto simp: Group_exit_def split: if_splits)
qed

declare Group_run.simps [simp del]

section \<open>Collecting arguments\<close>

text \<open>
  \<open>collect(t, *collectable)\<close> is a generator: it yields what it meets and raises at the
  first element of a wrong type, after its consumer has handled the elements before. It is
  modelled by the elements it yields and how it ends. An argument is a single object or an
  iterable of objects; \<open>inst\<close> is the test \<open>isinstance(x, t)\<close>.
\<close>

datatype 'a collectable = One 'a | Many "'a list"

fun collect_many :: "('a \<Rightarrow> bool) \<Rightarrow> 'a list \<Rightarrow> 'a list \<times> exn option" where
  "collect_many inst [] = ([], None)"
| "collect_many inst (x # xs) =
     (if inst x then let (ys, e) = collect_many inst xs in (x # ys, e)
      else ([], Some AssertionError))"

fun collect :: "('a \<Rightarrow> bool) \<Rightarrow> 'a collectable list \<Rightarrow> 'a list \<times> exn option" where
  "collect inst [] = ([], None)"
| "collect inst (One c # cs) =
     (if inst c then let (ys, e) = collect inst cs in (c # ys, e)
      else ([], Some TypeError))"
| "collect inst (Many xs # cs) =
     (case collect_many inst xs of
        (ys, Some e) \<Rightarrow> (ys, Some e)
      | (ys, None) \<Rightarrow> let (zs, e) = collect inst cs in (ys @ zs, e))"

fun flatten_collectable :: "'a collectable \<Rightarrow> 'a list" where
  "flatten_collectable (One c) = [c]"
| "flatten_collectable (Many xs) = xs"

lemma collect_many_ok: "\<forall>x \<in> set xs. inst x \<Longrightarrow> collect_many inst xs = (xs, None)"
  by (induction xs) auto

lemma collect_many_insts: "x \<in> set (fst (collect_many inst xs)) \<Longrightarrow> inst x"
  by (induction xs) (auto split: if_splits prod.splits)

lemma collect_ok:
  "\<forall>c \<in> set cs. \<forall>x \<in> set (flatten_collectable c). inst x \<Longrightarrow>
   collect inst cs = (concat (map flatten_collectable cs), None)"
  by (induction inst cs rule: collect.induct) (auto simp: collect_many_ok)

lemma collect_insts: "x \<in> set (fst (collect inst cs)) \<Longrightarrow> inst x"
  by (induction inst cs rule: collect.induct)
    (auto split: if_splits prod.splits option.splits dest: collect_many_insts
      dest!: arg_cong [where f = fst])

section \<open>Outcomes\<close>

datatype 'r outcome =
    Result "'r option"
  | Failure exn
  | ToBeContinued string
  | Interrupted

fun is_Success :: "'r outcome \<Rightarrow> bool" where
  "is_Success (Result _) = True"
| "is_Success _ = False"

definition outcome_of :: "'r option \<Rightarrow> exn option \<Rightarrow> 'r outcome res" where
  "outcome_of result exception =
     (case exception of
        Some e \<Rightarrow>
          (if result \<noteq> None then Inl AssertionError
           else case e of
                  ToBeContinuedException comment \<Rightarrow> Inr (ToBeContinued comment)
                | KeyboardInterrupt \<Rightarrow> Inr Interrupted
                | _ \<Rightarrow> Inr (Failure e))
      | None \<Rightarrow> Inr (Result result))"

lemma outcome_of_exception: "\<exists>out. outcome_of None (Some e) = Inr out \<and> \<not> is_Success out"
  by (cases e) (simp_all add: outcome_of_def)

lemma outcome_of_result [simp]: "outcome_of r None = Inr (Result r)"
  by (simp add: outcome_of_def)

end
