(* ===== verification/Py_Types.thy ===== *)
theory Py_Types
  imports Guards
begin

text \<open>
  The types a program hands to the framework, as Python's \<open>type\<close> machinery shows them
  to the code, and the marks that \<open>thinking_reflection/discovery.py\<close> and
  \<open>thinking_reflection/interfaces.py\<close> keep about them.

  Every object used as a type (a class, a union, a parametrised generic) has an identity, a
  number. What Python knows of an object is its \<open>class_info\<close>; the objects that exist
  are the keys of \<open>classes\<close>. \<open>ci_supers\<close> lists the types other than the class itself
  for which \<open>issubclass\<close> answers \<open>True\<close>, nominal and structural alike; \<open>ci_none\<close>
  says whether \<open>isinstance(None, t)\<close> holds for the class (it does for \<open>object\<close> and for
  a runtime-checkable protocol without members).
\<close>

type_synonym ty = nat

datatype shape =
    PlainClass
  | NoneTypeClass
  | NoneLiteral
  | TypingUnion "ty list"
  | BarUnion "ty list"
  | ListAlias "ty list"
  | OtherAlias

text \<open>What \<open>inspect.getfullargspec\<close> says of a function, as far as the code reads it.\<close>

record argspec =
  args :: "string list"
  defaults :: "nat option"
  kwonlyargs :: "string list"
  kwonlydefaults :: "string list option"
  annotations :: "(string, ty) dict"

record class_info =
  ci_name :: string
  ci_shape :: shape
  ci_supers :: "ty list"
  ci_none :: bool
  ci_inject :: "argspec option"

record world =
  classes :: "(ty, class_info) dict"
  guard_cls :: ty
  DISCOVERED_TYPES :: "ty list"
  INTERFACES :: "ty list"
  PRIMARY_DATA :: "(ty, ty) dict"
  FALLBACK_DATA :: "(ty, ty) dict"

definition opaque_info :: class_info where
  "opaque_info = \<lparr>ci_name = [], ci_shape = OtherAlias, ci_supers = [], ci_none = False,
     ci_inject = None\<rparr>"

definition info :: "world \<Rightarrow> ty \<Rightarrow> class_info" where
  "info w t = (case map_of (classes w) t of None \<Rightarrow> opaque_info | Some i \<Rightarrow> i)"

definition is_alias :: "world \<Rightarrow> ty \<Rightarrow> bool" where
  "is_alias w t = (case ci_shape (info w t) of ListAlias _ \<Rightarrow> True | OtherAlias \<Rightarrow> True | _ \<Rightarrow> False)"

definition is_type :: "world \<Rightarrow> ty \<Rightarrow> bool" where
  "is_type w t =
     (case ci_shape (info w t) of PlainClass \<Rightarrow> True | NoneTypeClass \<Rightarrow> True | _ \<Rightarrow> False)"

text \<open>\<open>issubclass(a, b)\<close>: a \<open>TypeError\<close> unless both arguments are of an accepted kind.\<close>

definition class_sub :: "world \<Rightarrow> ty \<Rightarrow> ty \<Rightarrow> bool" where
  "class_sub w a b \<longleftrightarrow> a = b \<or> b \<in> set (ci_supers (info w a))"

fun any_sub :: "world \<Rightarrow> ty \<Rightarrow> ty list \<Rightarrow> bool res" where
  "any_sub w a [] = Inr False"
| "any_sub w a (b # bs) =
     (if \<not> is_type w b then Inl TypeError
      else if class_sub w a b then Inr True else any_sub w a bs)"

definition py_issubclass :: "world \<Rightarrow> ty \<Rightarrow> ty \<Rightarrow> bool res" where
  "py_issubclass w a b =
     (if \<not> is_type w a then Inl TypeError
      else case ci_shape (info w b) of
             TypingUnion bs \<Rightarrow> any_sub w a bs
           | BarUnion bs \<Rightarrow> (if \<exists>c \<in> set bs. is_alias w c then Inl TypeError else any_sub w a bs)
           | _ \<Rightarrow> (if is_type w b then Inr (class_sub w a b) else Inl TypeError))"

lemma py_issubclass_types:
  "is_type w a \<Longrightarrow> is_type w b \<Longrightarrow> py_issubclass w a b = Inr (class_sub w a b)"
  by (auto simp: py_issubclass_def is_type_def split: shape.splits)

text \<open>\<open>isinstance(None, t)\<close>, with the \<open>TypeError\<close> it raises for what is not a class.\<close>

definition none_is_instance_of_class :: "world \<Rightarrow> ty \<Rightarrow> bool res" where
  "none_is_instance_of_class w t =
     (case ci_shape (info w t) of
        PlainClass \<Rightarrow> Inr (ci_none (info w t))
      | NoneTypeClass \<Rightarrow> Inr True
      | _ \<Rightarrow> Inl TypeError)"

fun none_in_any :: "world \<Rightarrow> ty list \<Rightarrow> bool res" where
  "none_in_any w [] = Inr False"
| "none_in_any w (t # ts) =
     rbind (none_is_instance_of_class w t) (\<lambda>b. if b then Inr True else none_in_any w ts)"

definition none_isinstance :: "world \<Rightarrow> ty \<Rightarrow> bool res" where
  "none_isinstance w t =
     (case ci_shape (info w t) of
        TypingUnion ts \<Rightarrow> none_in_any w ts
      | BarUnion ts \<Rightarrow> (if \<exists>c \<in> set ts. is_alias w c then Inl TypeError else none_in_any w ts)
      | _ \<Rightarrow> none_is_instance_of_class w t)"

section \<open>Discovery\<close>

definition discover :: "world \<Rightarrow> ty \<Rightarrow> world \<times> ty res" where
  "discover w t =
     (if \<not> is_type w t then (w, Inl AssertionError)
      else (w\<lparr>DISCOVERED_TYPES := set_add t (DISCOVERED_TYPES w)\<rparr>, Inr t))"

definition discovered_types :: "world \<Rightarrow> ty list" where
  "discovered_types w = DISCOVERED_TYPES w"

text \<open>
  \<open>PrimaryImplementation\<close> and \<open>FallbackImplementation\<close> keep a \<open>bidict\<close>, a container of
  another package: \<open>bidict_put\<close> stands for its assignment, which may refuse a value that
  another key already has.
\<close>

type_synonym bidict_put = "(ty, ty) dict \<Rightarrow> ty \<Rightarrow> ty \<Rightarrow> (ty, ty) dict res"

definition PrimaryImplementation_get :: "world \<Rightarrow> ty \<Rightarrow> ty option" where
  "PrimaryImplementation_get w base = map_of (PRIMARY_DATA w) base"

definition PrimaryImplementation_set :: "bidict_put \<Rightarrow> world \<Rightarrow> ty \<Rightarrow> ty \<Rightarrow> world \<times> ty res" where
  "PrimaryImplementation_set put w base impl =
     (if PrimaryImplementation_get w base \<noteq> None then (w, Inl AssertionError)
      else case py_issubclass w impl base of
             Inl e \<Rightarrow> (w, Inl e)
           | Inr False \<Rightarrow> (w, Inl AssertionError)
           | Inr True \<Rightarrow>
               (case put (PRIMARY_DATA w) base impl of
                  Inl e \<Rightarrow> (w, Inl e)
                | Inr d \<Rightarrow> (w\<lparr>PRIMARY_DATA := d\<rparr>, Inr impl)))"

definition FallbackImplementation_get :: "world \<Rightarrow> ty \<Rightarrow> ty option" where
  "FallbackImplementation_get w base = map_of (FALLBACK_DATA w) base"

definition FallbackImplementation_set :: "bidict_put \<Rightarrow> world \<Rightarrow> ty \<Rightarrow> ty \<Rightarrow> world \<times> ty res" where
  "FallbackImplementation_set put w base impl =
     (if FallbackImplementation_get w base \<noteq> None then (w, Inl AssertionError)
      else case py_issubclass w impl base of
             Inl e \<Rightarrow> (w, Inl e)
           | Inr False \<Rightarrow> (w, Inl AssertionError)
           | Inr True \<Rightarrow>
               (case put (FALLBACK_DATA w) base impl of
                  Inl e \<Rightarrow> (w, Inl e)
                | Inr d \<Rightarrow> (w\<lparr>FALLBACK_DATA := d\<rparr>, Inr impl)))"

section \<open>Interfaces\<close>

definition known_interfaces :: "world \<Rightarrow> ty list" where
  "known_interfaces w = INTERFACES w"

text \<open>
  \<open>interface(t)\<close>: making a protocol runtime-checkable changes nothing the code reads, then
  the type is marked, then discovered; the mark stays when discovery refuses the type.
\<close>

definition interface :: "world \<Rightarrow> ty \<Rightarrow> world \<times> ty res" where
  "interface w t = discover (w\<lparr>INTERFACES := set_add t (INTERFACES w)\<rparr>) t"

definition is_interface :: "world \<Rightarrow> ty \<Rightarrow> bool" where
  "is_interface w t \<longleftrightarrow> t \<in> set (INTERFACES w)"

definition is_concrete :: "world \<Rightarrow> ty \<Rightarrow> bool" where
  "is_concrete w t \<longleftrightarrow> \<not> is_interface w t"

text \<open>The same test on an expression that may be \<open>None\<close>, which is neither.\<close>

fun is_concrete_opt :: "world \<Rightarrow> ty option \<Rightarrow> bool" where
  "is_concrete_opt w None = False"
| "is_concrete_opt w (Some t) = is_concrete w t"

lemma interface_makes_interface: "is_interface (fst (interface w t)) t"
  by (auto simp: interface_def discover_def is_interface_def)

lemma interface_frame:
  "u \<noteq> t \<Longrightarrow> is_interface (fst (interface w t)) u \<longleftrightarrow> is_interface w u"
  by (auto simp: interface_def discover_def is_interface_def)

lemma info_interface [simp]: "info (fst (interface w t)) u = info w u"
  by (simp add: interface_def discover_def info_def)

lemma PrimaryImplementation_set_hint:
  assumes "PrimaryImplementation_set put w base impl = (w', Inr r)"
    and put: "\<And>d. put (PRIMARY_DATA w) base impl = Inr d \<Longrightarrow> map_of d = (map_of (PRIMARY_DATA w))(base \<mapsto> impl)"
  shows "PrimaryImplementation_get w base = None" and "r = impl"
    and "py_issubclass w impl base = Inr True"
    and "PrimaryImplementation_get w' = (PrimaryImplementation_get w)(base \<mapsto> impl)"
  using assms
  by (auto simp: PrimaryImplementation_set_def PrimaryImplementation_get_def fun_eq_iff
      split: if_splits sum.splits bool.splits)

end
