(* ===== verification/Dependency_Kinds.thy ===== *)
theory Dependency_Kinds
  imports Py_Types
begin

text \<open>
  \<open>thinking_injection/common/dependencies.py\<close>: the three kinds of dependency (how the
  types to inject are chosen, validated and turned into a value) and the parsing of an
  injection method's signature into dependencies. \<open>ImplementationDetails\<close> is
  \<open>thinking_injection/common/implementations.py\<close>.
\<close>

record implementation_details =
  det_implementations :: "ty list"
  det_primary :: "ty option"

datatype arity = EXACTLY_ONE | ZERO_OR_ONE | ANY_NUMBER

fun arity_matches :: "arity \<Rightarrow> nat \<Rightarrow> bool" where
  "arity_matches EXACTLY_ONE x = (x = 1)"
| "arity_matches ZERO_OR_ONE x = (x \<in> {0, 1})"
| "arity_matches ANY_NUMBER x = (x \<ge> 0)"

datatype dependency_kind = SIMPLE | OPTIONAL | COLLECTIVE

record dependency =
  dep_name :: string
  dep_type :: ty
  dep_kind :: dependency_kind

section \<open>Guards of the validation\<close>

definition DependencyArityMismatch_guard :: "'a list \<Rightarrow> arity \<Rightarrow> 'a list res" where
  "DependencyArityMismatch_guard to_inject expected =
     (if \<not> arity_matches expected (length to_inject) then Inl DependencyArityMismatch
      else Inr to_inject)"

definition NonePrimaryImplementation_guard :: "ty \<Rightarrow> 'a option list \<Rightarrow> 'a option list res" where
  "NonePrimaryImplementation_guard target to_inject =
     (case to_inject of
        [] \<Rightarrow> Inl IndexError
      | x # _ \<Rightarrow> (if x = None then Inl (NonePrimaryImplementationException target) else Inr to_inject))"

definition discard :: "'a res \<Rightarrow> unit res" where
  "discard r = rbind r (\<lambda>_. Inr ())"

lemma discard_Inr_iff [res_simps]: "discard r = Inr u \<longleftrightarrow> (\<exists>x. r = Inr x)"
  by (auto simp: discard_def res_simps)

section \<open>The kinds\<close>

text \<open>
  A chosen type may be \<open>None\<close> (a simple dependency on a type without primary); it is the
  validation that rejects it. An optional dependency tests the truth of the primary, and a
  class is always true.
\<close>

fun choose_injected_types :: "dependency_kind \<Rightarrow> implementation_details \<Rightarrow> ty option list" where
  "choose_injected_types SIMPLE details = [det_primary details]"
| "choose_injected_types OPTIONAL details =
     (if det_primary details \<noteq> None then [det_primary details] else [])"
| "choose_injected_types COLLECTIVE details = map Some (det_implementations details)"

fun validate_injected_types :: "dependency_kind \<Rightarrow> ty \<Rightarrow> ty option list \<Rightarrow> unit res" where
  "validate_injected_types SIMPLE target to_inject =
     Group_run []
       [discard (DependencyArityMismatch_guard to_inject EXACTLY_ONE),
        discard (NonePrimaryImplementation_guard target to_inject)]"
| "validate_injected_types OPTIONAL target to_inject =
     Group_run []
       (discard (DependencyArityMismatch_guard to_inject ZERO_OR_ONE) #
        (if to_inject \<noteq> [] then [discard (NonePrimaryImplementation_guard target to_inject)]
         else []))"
| "validate_injected_types COLLECTIVE target to_inject =
     Group_run [] [discard (DependencyArityMismatch_guard to_inject ANY_NUMBER)]"

text \<open>The value that is injected: one object, \<open>None\<close>, or the list of objects.\<close>

datatype 'o injected = TheObject 'o | NoObject | TheObjects "'o list"

fun as_injected_value :: "dependency_kind \<Rightarrow> 'o list \<Rightarrow> 'o injected res" where
  "as_injected_value SIMPLE vs = (case vs of [] \<Rightarrow> Inl IndexError | v # _ \<Rightarrow> Inr (TheObject v))"
| "as_injected_value OPTIONAL vs =
     (case vs of [] \<Rightarrow> Inr NoObject | v # _ \<Rightarrow> Inr (TheObject v))"
| "as_injected_value COLLECTIVE vs = Inr (TheObjects vs)"

section \<open>Type hints\<close>

fun union_members :: "world \<Rightarrow> ty \<Rightarrow> ty list" where
  "union_members w t =
     (case ci_shape (info w t) of TypingUnion ts \<Rightarrow> ts | BarUnion ts \<Rightarrow> ts | _ \<Rightarrow> [t])"

definition is_none_type :: "world \<Rightarrow> ty \<Rightarrow> bool" where
  "is_none_type w t =
     (case ci_shape (info w t) of NoneTypeClass \<Rightarrow> True | NoneLiteral \<Rightarrow> True | _ \<Rightarrow> False)"

text \<open>
  \<open>Union[*ts, Guard].__args__\<close>: nested unions are spliced, later duplicates dropped; then
  \<open>NoneType\<close> (which a literal \<open>None\<close> becomes) and \<open>Guard\<close> are left out.
\<close>

definition flatten_types :: "world \<Rightarrow> ty list \<Rightarrow> ty list" where
  "flatten_types w ts =
     filter (\<lambda>x. \<not> is_none_type w x \<and> x \<noteq> guard_cls w)
       (set_update (concat (map (union_members w) (ts @ [guard_cls w]))) [])"

definition nonthrowing_isinstance_none :: "world \<Rightarrow> ty \<Rightarrow> bool" where
  "nonthrowing_isinstance_none w t = (case none_isinstance w t of Inr b \<Rightarrow> b | Inl _ \<Rightarrow> False)"

fun matches_hint :: "world \<Rightarrow> dependency_kind \<Rightarrow> ty \<Rightarrow> bool" where
  "matches_hint w SIMPLE t = True"
| "matches_hint w OPTIONAL t = nonthrowing_isinstance_none w t"
| "matches_hint w COLLECTIVE t = (case ci_shape (info w t) of ListAlias _ \<Rightarrow> True | _ \<Rightarrow> False)"

definition single_type :: "ty list \<Rightarrow> ty res" where
  "single_type ts = rbind (WrongIterableSizeException_guard ts 1) (\<lambda>xs. Inr (hd xs))"

fun unpack_hint :: "world \<Rightarrow> dependency_kind \<Rightarrow> ty \<Rightarrow> ty res" where
  "unpack_hint w SIMPLE t = Inr t"
| "unpack_hint w OPTIONAL t = single_type (flatten_types w [t])"
| "unpack_hint w COLLECTIVE t =
     single_type (flatten_types w (case ci_shape (info w t) of ListAlias ts \<Rightarrow> ts | _ \<Rightarrow> []))"

fun unpack_dependency_from :: "world \<Rightarrow> ty \<Rightarrow> dependency_kind list \<Rightarrow> (ty \<times> dependency_kind) res" where
  "unpack_dependency_from w t [] = Inl NotImplementedError"
| "unpack_dependency_from w t (k # ks) =
     (if matches_hint w k t then rbind (unpack_hint w k t) (\<lambda>u. Inr (u, k))
      else unpack_dependency_from w t ks)"

definition unpack_dependency :: "world \<Rightarrow> ty \<Rightarrow> (ty \<times> dependency_kind) res" where
  "unpack_dependency w t = unpack_dependency_from w t [OPTIONAL, COLLECTIVE, SIMPLE]"

section \<open>Signatures\<close>

text \<open>
  The loop over the positional arguments of a signature, with the running \<open>result\<close> and
  \<open>missing\<close> of the code. A dependency is recorded only while nothing is missing.
\<close>

fun scan_args ::
  "world \<Rightarrow> argspec \<Rightarrow> bool \<Rightarrow> int \<Rightarrow> nat \<Rightarrow> string list \<Rightarrow> dependency list \<Rightarrow> string list \<Rightarrow>
   (dependency list \<times> string list) res" where
  "scan_args w spec skip_first no_default_count i [] result missing = Inr (result, missing)"
| "scan_args w spec skip_first no_default_count i (a # as) result missing =
     (if i = 0 \<and> skip_first
      then scan_args w spec skip_first no_default_count (Suc i) as result missing
      else
        let missing' = (if int i \<ge> no_default_count \<and> map_of (annotations spec) a = None
                        then missing @ [a] else missing)
        in case map_of (annotations spec) a of
             Some t \<Rightarrow>
               (if missing' = []
                then rbind (unpack_dependency w t)
                  (\<lambda>(u, k). scan_args w spec skip_first no_default_count (Suc i) as
                     (set_add \<lparr>dep_name = a, dep_type = u, dep_kind = k\<rparr> result) missing')
                else scan_args w spec skip_first no_default_count (Suc i) as result missing')
           | None \<Rightarrow> scan_args w spec skip_first no_default_count (Suc i) as result missing')"

text \<open>
  The two exceptions about a signature are built by calling the superclass initialiser
  without \<open>self\<close>, which is itself a \<open>TypeError\<close>; that is what the caller sees.
\<close>

definition get_any_function_dependencies :: "world \<Rightarrow> argspec \<Rightarrow> bool \<Rightarrow> dependency list res" where
  "get_any_function_dependencies w spec skip_first =
     rbind
       (if kwonlyargs spec \<noteq> []
        then (case kwonlydefaults spec of
                None \<Rightarrow> Inl TypeError
              | Some ds \<Rightarrow>
                  (if filter (\<lambda>kw. kw \<notin> set ds) (kwonlyargs spec) \<noteq> [] then Inl TypeError
                   else Inr ()))
        else Inr ())
       (\<lambda>_. let no_default_count =
                  int (length (args spec)) - int (case defaults spec of None \<Rightarrow> 0 | Some n \<Rightarrow> n)
            in rbind (scan_args w spec skip_first no_default_count 0 (args spec) [] [])
                 (\<lambda>(result, missing). if missing \<noteq> [] then Inl TypeError else Inr result))"

definition get_non_method_dependencies :: "world \<Rightarrow> argspec \<Rightarrow> dependency list res" where
  "get_non_method_dependencies w spec = get_any_function_dependencies w spec False"

definition get_method_dependencies :: "world \<Rightarrow> argspec \<Rightarrow> dependency list res" where
  "get_method_dependencies w spec = get_any_function_dependencies w spec True"

definition get_type_dependencies :: "world \<Rightarrow> ty \<Rightarrow> dependency list res" where
  "get_type_dependencies w t =
     (case ci_inject (info w t) of
        None \<Rightarrow> Inr []
      | Some inject_method \<Rightarrow> get_method_dependencies w inject_method)"

section \<open>The contract of a kind\<close>

text \<open>
  The interface \<open>KindDefinition\<close> promises its callers: what is validated is a list of real
  types, and as many objects as there are validated types always yield a value.
\<close>

locale kind_definition =
  fixes chosen :: "implementation_details \<Rightarrow> ty option list"
    and validate :: "ty \<Rightarrow> ty option list \<Rightarrow> unit res"
    and as_value :: "'o list \<Rightarrow> 'o injected res"
    and admits :: "implementation_details \<Rightarrow> bool"
  assumes chosen_from:
      "Some i \<in> set (chosen d) \<Longrightarrow> det_primary d = Some i \<or> i \<in> set (det_implementations d)"
    and validated_real: "validate target (chosen d) = Inr () \<Longrightarrow> None \<notin> set (chosen d)"
    and validates_iff: "validate target (chosen d) = Inr () \<longleftrightarrow> admits d"
    and value_total:
      "validate target (chosen d) = Inr () \<Longrightarrow> length vs = length (chosen d) \<Longrightarrow>
       \<exists>v. as_value vs = Inr v"
begin

lemma validated_types:
  assumes "validate target (chosen d) = Inr ()"
  obtains ts where "chosen d = map Some ts"
    and "set ts \<subseteq> set_option (det_primary d) \<union> set (det_implementations d)"
proof -
  have *: "\<And>xs :: ty option list. None \<notin> set xs \<Longrightarrow> map Some (map the xs) = xs"
    by (rule nth_equalityI) (auto simp: in_set_conv_nth)
  let ?ts = "map the (chosen d)"
  from assms have real: "None \<notin> set (chosen d)" by (rule validated_real)
  then have eq: "chosen d = map Some ?ts" using * by metis
  moreover have "set ?ts \<subseteq> set_option (det_primary d) \<union> set (det_implementations d)"
  proof
    fix t assume "t \<in> set ?ts"
    then have "Some t \<in> set (map Some ?ts)" by (simp only: set_map imageI)
    then have "Some t \<in> set (chosen d)" using eq by metis
    from chosen_from [OF this] show "t \<in> set_option (det_primary d) \<union> set (det_implementations d)"
      by auto
  qed
  ultimately show thesis by (rule that)
qed

lemma inject_total:
  assumes "admits d" and "length vs = length (chosen d)"
  shows "\<exists>v. as_value vs = Inr v"
  using assms value_total validates_iff by blast

end

lemma exceptions_of_guards [res_simps]:
  "DependencyArityMismatch_guard xs a = Inr ys \<longleftrightarrow> arity_matches a (length xs) \<and> ys = xs"
  "NonePrimaryImplementation_guard t zs = Inr zs' \<longleftrightarrow> (\<exists>v vs. zs = Some v # vs) \<and> zs' = zs"
  by (auto simp: DependencyArityMismatch_guard_def NonePrimaryImplementation_guard_def
      split: list.splits option.splits if_splits)

interpretation simple: kind_definition "choose_injected_types SIMPLE"
  "validate_injected_types SIMPLE" "as_injected_value SIMPLE" "\<lambda>d. det_primary d \<noteq> None"
  by unfold_locales (auto simp: Group_run_Inr_iff res_simps neq_Nil_conv length_Suc_conv
      split: list.splits)

interpretation optional: kind_definition "choose_injected_types OPTIONAL"
  "validate_injected_types OPTIONAL" "as_injected_value OPTIONAL" "\<lambda>d. True"
  by unfold_locales (auto simp: Group_run_Inr_iff res_simps split: list.splits if_splits)

interpretation collective: kind_definition "choose_injected_types COLLECTIVE"
  "validate_injected_types COLLECTIVE" "as_injected_value COLLECTIVE" "\<lambda>d. True"
  by unfold_locales (auto simp: Group_run_Inr_iff res_simps)

definition admits :: "dependency_kind \<Rightarrow> implementation_details \<Rightarrow> bool" where
  "admits k d \<longleftrightarrow> (k = SIMPLE \<longrightarrow> det_primary d \<noteq> None)"

text \<open>One instance for all kinds: the contract holds for whichever kind a dependency has.\<close>

interpretation kind: kind_definition "choose_injected_types k"
  "validate_injected_types k" "as_injected_value k" "admits k" for k
proof (cases k)
  case SIMPLE
  have "admits SIMPLE = (\<lambda>d. det_primary d \<noteq> None)" by (simp add: admits_def fun_eq_iff)
  with SIMPLE show "kind_definition (choose_injected_types k) (validate_injected_types k)
      (as_injected_value k) (admits k)"
    using simple.kind_definition_axioms by simp
next
  case OPTIONAL
  have "admits OPTIONAL = (\<lambda>d. True)" by (simp add: admits_def fun_eq_iff)
  with OPTIONAL show "kind_definition (choose_injected_types k) (validate_injected_types k)
      (as_injected_value k) (admits k)"
    using optional.kind_definition_axioms by simp
next
  case COLLECTIVE
  have "admits COLLECTIVE = (\<lambda>d. True)" by (simp add: admits_def fun_eq_iff)
  with COLLECTIVE show "kind_definition (choose_injected_types k) (validate_injected_types k)
      (as_injected_value k) (admits k)"
    using collective.kind_definition_axioms by simp
qed

section \<open>What the parsing of a signature yields\<close>

text \<open>
  \<open>declares w spec a d\<close>: argument \<open>a\<close> is annotated and its hint unpacks to
  dependency \<open>d\<close>. \<open>considered\<close> enumerates the arguments the loop looks at.
\<close>

definition declares :: "world \<Rightarrow> argspec \<Rightarrow> string \<Rightarrow> dependency \<Rightarrow> bool" where
  "declares w spec a d \<longleftrightarrow>
     dep_name d = a \<and>
     (\<exists>t. map_of (annotations spec) a = Some t \<and>
          unpack_dependency w t = Inr (dep_type d, dep_kind d))"

definition considered :: "bool \<Rightarrow> nat \<Rightarrow> string list \<Rightarrow> (nat \<times> string) set" where
  "considered skip_first i as = {(j, a) \<in> set (enumerate i as). \<not> (j = 0 \<and> skip_first)}"

lemma considered_Nil [simp]: "considered sf i [] = {}"
  by (simp add: considered_def)

lemma considered_Cons:
  "considered sf i (a # as) =
     (if i = 0 \<and> sf then {} else {(i, a)}) \<union> considered sf (Suc i) as"
  by (auto simp: considered_def)

lemma declares_dependency:
  "declares w spec a \<lparr>dep_name = a', dep_type = u, dep_kind = k\<rparr> \<longleftrightarrow>
   a = a' \<and> (\<exists>t. map_of (annotations spec) a = Some t \<and> unpack_dependency w t = Inr (u, k))"
  by (auto simp: declares_def)

lemma declares_unique:
  "map_of (annotations spec) a = Some t \<Longrightarrow> unpack_dependency w t = Inr (u, k) \<Longrightarrow>
   declares w spec a d \<longleftrightarrow> d = \<lparr>dep_name = a, dep_type = u, dep_kind = k\<rparr>"
  by (cases d) (auto simp: declares_def)

lemma scan_args_missing: "scan_args w spec sf nd i as result missing = Inr (r, []) \<Longrightarrow> missing = []"
  by (induction w spec sf nd i as result missing rule: scan_args.induct)
    (auto simp: Let_def res_simps split: if_splits option.splits prod.splits)

lemma scan_args_ok:
  "scan_args w spec sf nd i as result missing = Inr (r, []) \<Longrightarrow>
   set r = set result \<union> {d. \<exists>(j, a) \<in> considered sf i as. declares w spec a d} \<and>
   (\<forall>(j, a) \<in> considered sf i as. int j \<ge> nd \<longrightarrow> map_of (annotations spec) a \<noteq> None)"
proof (induction w spec sf nd i as result missing rule: scan_args.induct)
  case (1 w spec sf nd i result missing)
  then show ?case by simp
next
  case (2 w spec sf nd i a as result missing)
  show ?case
  proof (cases "i = 0 \<and> sf")
    case True
    with 2 show ?thesis by (simp add: considered_Cons)
  next
    case skipped: False
    from 2(5) scan_args_missing have "missing = []" by blast
    show ?thesis
    proof (cases "map_of (annotations spec) a")
      case None
      with skipped 2(5) have "\<not> int i \<ge> nd"
        by (auto simp: Let_def dest: scan_args_missing)
      with None skipped 2(5) \<open>missing = []\<close>
      have "scan_args w spec sf nd (Suc i) as result [] = Inr (r, [])"
        by (auto simp: Let_def split: if_splits)
      with 2(2) [OF skipped refl None] None \<open>\<not> int i \<ge> nd\<close> \<open>missing = []\<close> skipped
      show ?thesis by (auto simp: considered_Cons declares_def)
    next
      case (Some t)
      with skipped 2(5) \<open>missing = []\<close> obtain u k where
        u: "unpack_dependency w t = Inr (u, k)" and
        rest: "scan_args w spec sf nd (Suc i) as
          (set_add \<lparr>dep_name = a, dep_type = u, dep_kind = k\<rparr> result) [] = Inr (r, [])"
        by (auto simp: res_simps)
      from 2(3) [OF skipped refl Some, of "(u, k)" u k] u rest Some \<open>missing = []\<close>
      have "set r = insert \<lparr>dep_name = a, dep_type = u, dep_kind = k\<rparr> (set result) \<union>
          {d. \<exists>(j, a) \<in> considered sf (Suc i) as. declares w spec a d} \<and>
        (\<forall>(j, a) \<in> considered sf (Suc i) as. int j \<ge> nd \<longrightarrow> map_of (annotations spec) a \<noteq> None)"
        by simp
      with skipped Some u show ?thesis
        by (auto simp: considered_Cons declares_unique)
    qed
  qed
qed

lemma get_any_function_dependencies_Inr:
  assumes "get_any_function_dependencies w spec sf = Inr deps"
  shows "set deps = {d. \<exists>(j, a) \<in> considered sf 0 (args spec). declares w spec a d}"
    and "\<And>j a. (j, a) \<in> considered sf 0 (args spec) \<Longrightarrow>
      length (args spec) \<le> j + (case defaults spec of None \<Rightarrow> 0 | Some n \<Rightarrow> n) \<Longrightarrow>
      map_of (annotations spec) a \<noteq> None"
proof -
  let ?n = "case defaults spec of None \<Rightarrow> 0 | Some n \<Rightarrow> n"
  from assms have "scan_args w spec sf (int (length (args spec)) - int ?n) 0 (args spec) [] [] = Inr (deps, [])"
    by (auto simp: get_any_function_dependencies_def Let_def res_simps split: if_splits)
  from scan_args_ok [OF this]
  show "set deps = {d. \<exists>(j, a) \<in> considered sf 0 (args spec). declares w spec a d}"
    and "\<And>j a. (j, a) \<in> considered sf 0 (args spec) \<Longrightarrow> length (args spec) \<le> j + ?n \<Longrightarrow>
      map_of (annotations spec) a \<noteq> None"
    by auto
qed

end
