(* ===== verification/Registry.thy ===== *)
theory Registry
  imports Dependency_Kinds
begin

text \<open>
  \<open>SimpleRegistry\<close> of \<open>thinking_injection/registry/simple.py\<close>: the mutable graph of
  registered types. Its state is the dictionary \<open>self.data\<close> from a type to its mutable
  descriptor. Operations that may raise return the state they leave behind together with
  the result, because the registry outlives the exception.
\<close>

record mutable_descriptor =
  md_dependencies :: "dependency list"
  md_implementations :: "ty list"
  md_forced_primary :: "ty option"

type_synonym registry = "(ty, mutable_descriptor) dict"

section \<open>Registering\<close>

text \<open>
  The nested function \<open>scan\<close> of \<open>register\<close> is a depth-first recursion. Its pending
  calls are kept as a stack: the calls for the dependencies of a type come before the ones
  that were already waiting. \<open>scan_append\<close> below gives back the recursive reading. The
  new descriptor is stored before the dependencies are read, so it stays when reading
  raises.
\<close>

definition first_descriptor :: "world \<Rightarrow> ty \<Rightarrow> mutable_descriptor" where
  "first_descriptor w x =
     \<lparr>md_dependencies = [], md_implementations = (if is_concrete w x then [x] else []),
      md_forced_primary = None\<rparr>"

definition followed :: "dependency list \<Rightarrow> ty list" where
  "followed deps = map dep_type (filter (\<lambda>d. dep_kind d \<noteq> OPTIONAL) deps)"

text \<open>
  The recursion ends: a type object that exists is scanned once, and one that does not
  exist has no dependencies.
\<close>

lemma get_type_dependencies_unknown:
  "x \<notin> keys (classes w) \<Longrightarrow> get_type_dependencies w x = Inr []"
  by (simp add: get_type_dependencies_def info_def opaque_info_def not_keys_iff_map_of)

function scan :: "world \<Rightarrow> ty list \<Rightarrow> registry \<Rightarrow> ty list \<Rightarrow> (registry \<times> ty list) \<times> unit res" where
  "scan w [] data out = ((data, out), Inr ())"
| "scan w (x # rest) data out =
     (if x \<in> keys data then scan w rest data out
      else case get_type_dependencies w x of
             Inl e \<Rightarrow> ((AList.update x (first_descriptor w x) data, set_add x out), Inl e)
           | Inr deps \<Rightarrow>
               scan w (followed deps @ rest)
                 (AList.update x ((first_descriptor w x)\<lparr>md_dependencies := deps\<rparr>) data)
                 (set_add x out))"
  by pat_completeness auto

termination
proof (relation "measures [\<lambda>(w, xs, data, out). card (keys (classes w) - keys data),
    \<lambda>(w, xs, data, out). length xs]")
  fix w x rest and data :: registry and out deps
  assume new: "x \<notin> keys data" and deps: "get_type_dependencies w x = Inr deps"
  let ?data = "AList.update x ((first_descriptor w x)\<lparr>md_dependencies := deps\<rparr>) data"
  have "keys (classes w) - keys ?data = keys (classes w) - keys data - {x}"
    by (auto simp: dict_simps)
  then show "((w, followed deps @ rest, ?data, set_add x out), w, x # rest, data, out)
      \<in> measures [\<lambda>(w, xs, data, out). card (keys (classes w) - keys data),
          \<lambda>(w, xs, data, out). length xs]"
  proof (cases "x \<in> keys (classes w)")
    case True
    with new have "card (keys (classes w) - keys data - {x}) < card (keys (classes w) - keys data)"
      by (intro card_Diff1_less) auto
    then show ?thesis using \<open>keys (classes w) - keys ?data = _\<close> by simp
  next
    case False
    with deps have "followed deps = []"
      by (simp add: get_type_dependencies_unknown followed_def)
    with False \<open>keys (classes w) - keys ?data = _\<close> show ?thesis by simp
  qed
qed auto

declare scan.simps(2) [simp del]

text \<open>The subclass links between the newly scanned types and all types of the registry.\<close>

definition add_implementation :: "ty \<Rightarrow> ty \<Rightarrow> registry \<Rightarrow> registry" where
  "add_implementation t impl data =
     AList.map_entry t (\<lambda>d. d\<lparr>md_implementations := set_add impl (md_implementations d)\<rparr>) data"

definition link_if_implements :: "world \<Rightarrow> ty \<Rightarrow> ty \<Rightarrow> registry \<Rightarrow> registry \<times> unit res" where
  "link_if_implements w impl t data =
     (if is_concrete w impl
      then case py_issubclass w impl t of
             Inl e \<Rightarrow> (data, Inl e)
           | Inr b \<Rightarrow> ((if b then add_implementation t impl data else data), Inr ())
      else (data, Inr ()))"

fun link :: "world \<Rightarrow> (ty \<times> ty) list \<Rightarrow> registry \<Rightarrow> registry \<times> unit res" where
  "link w [] data = (data, Inr ())"
| "link w ((newly_scanned, already_scanned) # pairs) data =
     (case link_if_implements w newly_scanned already_scanned data of
        (data1, Inl e) \<Rightarrow> (data1, Inl e)
      | (data1, Inr _) \<Rightarrow>
          (case link_if_implements w already_scanned newly_scanned data1 of
             (data2, Inl e) \<Rightarrow> (data2, Inl e)
           | (data2, Inr _) \<Rightarrow> link w pairs data2))"

definition link_pairs :: "ty list \<Rightarrow> registry \<Rightarrow> (ty \<times> ty) list" where
  "link_pairs out data =
     [(newly, already). newly \<leftarrow> out, already \<leftarrow> map fst data, already \<noteq> newly]"

definition register :: "world \<Rightarrow> ty collectable list \<Rightarrow> registry \<Rightarrow> registry \<times> ty list res" where
  "register w t data =
     (let (xs, stop) = collect (is_type w) t
      in case scan w xs data [] of
           ((data1, out), Inl e) \<Rightarrow> (data1, Inl e)
         | ((data1, out), Inr _) \<Rightarrow>
             (case stop of
                Some e \<Rightarrow> (data1, Inl e)
              | None \<Rightarrow>
                  (case link w (link_pairs out data1) data1 of
                     (data2, Inl e) \<Rightarrow> (data2, Inl e)
                   | (data2, Inr _) \<Rightarrow> (data2, Inr out))))"

text \<open>The constructor registers into an empty dictionary.\<close>

definition SimpleRegistry :: "world \<Rightarrow> ty collectable list \<Rightarrow> registry res" where
  "SimpleRegistry w t =
     (case register w t [] of (data, Inr _) \<Rightarrow> Inr data | (_, Inl e) \<Rightarrow> Inl e)"

section \<open>Removing\<close>

text \<open>
  A type is deleted with its descriptor, and every other descriptor forgets it. Unknown
  types are collected in a local variable that nothing reads.
\<close>

definition forget :: "ty \<Rightarrow> mutable_descriptor \<Rightarrow> mutable_descriptor" where
  "forget x v =
     v\<lparr>md_dependencies := filter (\<lambda>d. dep_type d \<noteq> x) (md_dependencies v),
       md_implementations := filter (\<lambda>i. i \<noteq> x) (md_implementations v),
       md_forced_primary := (if md_forced_primary v = Some x then None else md_forced_primary v)\<rparr>"

definition remove_one :: "ty \<Rightarrow> registry \<Rightarrow> registry" where
  "remove_one x data = map_values (\<lambda>_. forget x) (AList.delete x data)"

definition remove :: "world \<Rightarrow> ty collectable list \<Rightarrow> registry \<Rightarrow> registry \<times> unit res" where
  "remove w t data =
     (let (xs, stop) = collect (is_type w) t; data' = fold remove_one xs data
      in (data', case stop of None \<Rightarrow> Inr () | Some e \<Rightarrow> Inl e))"

definition known_types :: "registry \<Rightarrow> ty list" where
  "known_types data = map fst data"

section \<open>Primary implementations and the frozen index\<close>

definition figure_out_primary :: "world \<Rightarrow> registry \<Rightarrow> ty \<Rightarrow> ty option res" where
  "figure_out_primary w data t =
     (case map_of data t of
        None \<Rightarrow> Inl AssertionError
      | Some d \<Rightarrow>
          (let impls = md_implementations d; hint = PrimaryImplementation_get w t
           in if hint \<in> Some ` set impls then Inr hint
              else if length impls = 1 then Inr (Some (hd impls))
              else if is_concrete w t
                   then (if t \<in> set impls then Inr (Some t) else Inl AssertionError)
              else Inr None))"

record type_descriptor =
  td_dependencies :: "dependency list"
  td_implementations :: "ty list"
  td_primary :: "ty option"

type_synonym type_index = "(ty, type_descriptor) dict"

definition freeze_descriptor :: "mutable_descriptor \<Rightarrow> ty option res \<Rightarrow> type_descriptor res" where
  "freeze_descriptor d primary_provider =
     rbind (case md_forced_primary d of Some p \<Rightarrow> Inr (Some p) | None \<Rightarrow> primary_provider)
       (\<lambda>p. Inr \<lparr>td_dependencies = md_dependencies d, td_implementations = md_implementations d,
                 td_primary = p\<rparr>)"

definition type_index :: "world \<Rightarrow> registry \<Rightarrow> type_index res" where
  "type_index w data =
     traverse (\<lambda>(t, desc). rbind (freeze_descriptor desc (figure_out_primary w data t))
                            (\<lambda>td. Inr (t, td))) data"

section \<open>Customizing and cloning\<close>

text \<open>
  \<open>customizer().implementations[t]\<close>: for a type that is not registered the code means to
  raise \<open>UnknownTypeException\<close>, whose initialiser calls \<open>super\<close> with a string and so
  raises \<open>TypeError\<close> itself. For a registered type it gives access to the descriptor.
\<close>

definition implementations_of :: "registry \<Rightarrow> ty \<Rightarrow> mutable_descriptor res" where
  "implementations_of data t =
     (case map_of data t of None \<Rightarrow> Inl TypeError | Some d \<Rightarrow> Inr d)"

definition customizer_all :: "registry \<Rightarrow> ty \<Rightarrow> ty list res" where
  "customizer_all data t = rbind (implementations_of data t) (\<lambda>d. Inr (md_implementations d))"

definition customizer_primary :: "world \<Rightarrow> registry \<Rightarrow> ty \<Rightarrow> ty option res" where
  "customizer_primary w data t =
     rbind (implementations_of data t)
       (\<lambda>d. case md_forced_primary d of
              Some p \<Rightarrow> Inr (Some p)
            | None \<Rightarrow> figure_out_primary w data t)"

definition customizer_set_primary :: "ty \<Rightarrow> ty option \<Rightarrow> registry \<Rightarrow> registry res" where
  "customizer_set_primary t p data =
     rbind (implementations_of data t)
       (\<lambda>_. Inr (AList.map_entry t (\<lambda>d. d\<lparr>md_forced_primary := p\<rparr>) data))"

text \<open>
  \<open>clone()\<close> hands a dictionary of cloned descriptors to the constructor, which collects
  types: iterating a dictionary yields its keys, and the descriptors are not used.
\<close>

definition clone_registry :: "world \<Rightarrow> registry \<Rightarrow> registry res" where
  "clone_registry w data = SimpleRegistry w [Many (map fst data)]"

end
