(* ===== verification/Registry_Correct.thy ===== *)
theory Registry_Correct
  imports Registry
begin

text \<open>
  What the operations of the registry promise: scanning adds exactly the types reachable
  through dependencies that are not optional; registering and removing keep the invariant
  that the implementations of a registered type are the registered concrete types that are
  its subclasses; a primary implementation is one of the implementations.
\<close>

section \<open>Scanning\<close>

definition needs :: "world \<Rightarrow> ty \<Rightarrow> ty \<Rightarrow> bool" where
  "needs w x y \<longleftrightarrow> (\<exists>deps. get_type_dependencies w x = Inr deps \<and> y \<in> set (followed deps))"

definition scanned :: "world \<Rightarrow> ty \<Rightarrow> mutable_descriptor" where
  "scanned w x = (first_descriptor w x)\<lparr>md_dependencies :=
     (case get_type_dependencies w x of Inr deps \<Rightarrow> deps | Inl _ \<Rightarrow> [])\<rparr>"

lemma update_fresh: "k \<notin> keys d \<Longrightarrow> AList.update k v d = d @ [(k, v)]"
  by (induction d) auto

text \<open>The stack reads as the recursion: what is pushed first is finished first.\<close>

lemma scan_append:
  "scan w (xs @ ys) data out =
     (case scan w xs data out of
        (s, Inl e) \<Rightarrow> (s, Inl e)
      | ((data', out'), Inr _) \<Rightarrow> scan w ys data' out')"
proof (induction w xs data out rule: scan.induct)
  case (1 w data out)
  then show ?case by simp
next
  case (2 w x rest data out)
  show ?case
  proof (cases "x \<in> keys data")
    case True
    with 2(1) show ?thesis by (simp add: scan.simps(2))
  next
    case False
    show ?thesis
    proof (cases "get_type_dependencies w x")
      case (Inl e)
      with False show ?thesis by (simp add: scan.simps(2))
    next
      case (Inr deps)
      from 2(2) [OF False Inr] False Inr show ?thesis by (simp add: scan.simps(2))
    qed
  qed
qed

lemma scan_spec:
  "scan w xs data out = ((data', out'), Inr u) \<Longrightarrow> set out \<subseteq> keys data \<Longrightarrow>
   \<exists>ns. data' = data @ map (\<lambda>n. (n, scanned w n)) ns \<and> out' = out @ ns \<and> distinct ns \<and>
     set ns \<inter> keys data = {} \<and> set xs \<subseteq> keys data' \<and>
     (\<forall>n \<in> set ns. \<exists>deps. get_type_dependencies w n = Inr deps \<and> set (followed deps) \<subseteq> keys data') \<and>
     (\<forall>n \<in> set ns. \<exists>x \<in> set xs. (needs w)\<^sup>*\<^sup>* x n)"
proof (induction w xs data out rule: scan.induct)
  case (1 w data out)
  then show ?case by (intro exI [of _ "[]"]) simp
next
  case (2 w x rest data out)
  show ?case
  proof (cases "x \<in> keys data")
    case True
    with 2(3) have "scan w rest data out = ((data', out'), Inr u)" by (simp add: scan.simps(2))
    from 2(1) [OF True this 2(4)] obtain ns where ns:
      "data' = data @ map (\<lambda>n. (n, scanned w n)) ns" "out' = out @ ns" "distinct ns"
      "set ns \<inter> keys data = {}" "set rest \<subseteq> keys data'"
      "\<forall>n \<in> set ns. \<exists>deps. get_type_dependencies w n = Inr deps \<and> set (followed deps) \<subseteq> keys data'"
      "\<forall>n \<in> set ns. \<exists>x \<in> set rest. (needs w)\<^sup>*\<^sup>* x n" by blast
    from True ns(1) have "x \<in> keys data'" by auto
    with ns show ?thesis by (intro exI [of _ ns]) auto
  next
    case False
    with 2(3) obtain deps where deps: "get_type_dependencies w x = Inr deps"
      by (auto simp: scan.simps(2) split: sum.splits)
    let ?data = "data @ [(x, scanned w x)]"
    from deps False have upd:
      "AList.update x ((first_descriptor w x)\<lparr>md_dependencies := deps\<rparr>) data = ?data"
      by (simp add: update_fresh scanned_def)
    from False 2(4) have out: "set_add x out = out @ [x]" by (auto simp: set_add_def)
    from 2(3) False deps upd out
    have rec: "scan w (followed deps @ rest) ?data (out @ [x]) = ((data', out'), Inr u)"
      by (simp add: scan.simps(2))
    have sub: "set (out @ [x]) \<subseteq> keys ?data" using 2(4) by auto
    from 2(2) [OF False deps] upd out rec sub obtain ns where ns:
      "data' = ?data @ map (\<lambda>n. (n, scanned w n)) ns" "out' = (out @ [x]) @ ns" "distinct ns"
      "set ns \<inter> keys ?data = {}" "set (followed deps @ rest) \<subseteq> keys data'"
      "\<forall>n \<in> set ns. \<exists>deps. get_type_dependencies w n = Inr deps \<and> set (followed deps) \<subseteq> keys data'"
      "\<forall>n \<in> set ns. \<exists>y \<in> set (followed deps @ rest). (needs w)\<^sup>*\<^sup>* y n" by auto
    have reach: "\<exists>y \<in> set (x # rest). (needs w)\<^sup>*\<^sup>* y n" if "n \<in> set ns" for n
    proof -
      from ns(7) that obtain y where y: "y \<in> set (followed deps @ rest)" "(needs w)\<^sup>*\<^sup>* y n" by blast
      show ?thesis
      proof (cases "y \<in> set (followed deps)")
        case True
        with deps have "needs w x y" by (auto simp: needs_def)
        with y(2) have "(needs w)\<^sup>*\<^sup>* x n" by (rule converse_rtranclp_into_rtranclp [rotated])
        then show ?thesis by auto
      next
        case False
        with y show ?thesis by auto
      qed
    qed
    from ns deps False reach show ?thesis by (intro exI [of _ "x # ns"]) auto
  qed
qed

lemma scan_known: "set xs \<subseteq> keys data \<Longrightarrow> scan w xs data out = ((data, out), Inr ())"
  by (induction xs) (auto simp: scan.simps(2))

section \<open>Linking\<close>

definition implements :: "world \<Rightarrow> ty \<Rightarrow> ty \<Rightarrow> bool" where
  "implements w c t \<longleftrightarrow> is_concrete w c \<and> py_issubclass w c t = Inr True"

definition grows :: "mutable_descriptor \<Rightarrow> ty set \<Rightarrow> mutable_descriptor \<Rightarrow> bool" where
  "grows d added d' \<longleftrightarrow>
     d' = d\<lparr>md_implementations := md_implementations d'\<rparr> \<and>
     set (md_implementations d') = set (md_implementations d) \<union> added \<and>
     (distinct (md_implementations d) \<longrightarrow> distinct (md_implementations d'))"

lemma grows_refl: "grows d {} d"
  by (simp add: grows_def)

lemma grows_trans:
  assumes "grows d a d1" and "grows d1 b d2"
  shows "grows d (a \<union> b) d2"
proof -
  from assms have "d2 = d1\<lparr>md_implementations := md_implementations d2\<rparr>"
    and "d1 = d\<lparr>md_implementations := md_implementations d1\<rparr>" by (auto simp: grows_def)
  then have "d2 = d\<lparr>md_implementations := md_implementations d2\<rparr>" by (metis mutable_descriptor.update_convs(2) mutable_descriptor.surjective)
  with assms show ?thesis by (auto simp: grows_def)
qed

lemma grows_add: "grows d {i} (d\<lparr>md_implementations := set_add i (md_implementations d)\<rparr>)"
  by (simp add: grows_def)

definition linked :: "registry \<Rightarrow> registry \<Rightarrow> (ty \<Rightarrow> ty set) \<Rightarrow> bool" where
  "linked data data' added \<longleftrightarrow>
     map fst data' = map fst data \<and>
     (\<forall>t d. map_of data t = Some d \<longrightarrow>
        (\<exists>d'. map_of data' t = Some d' \<and> grows d (added t) d'))"

lemma linked_refl: "linked data data (\<lambda>_. {})"
  by (auto simp: linked_def grows_refl)

lemma linked_trans:
  assumes "linked data data1 a" and "linked data1 data2 b"
  shows "linked data data2 (\<lambda>t. a t \<union> b t)"
  using assms unfolding linked_def by (metis grows_trans)

lemma map_fst_map_entry: "map fst (AList.map_entry k f d) = map fst d"
  by (induction d) auto

lemma linked_add: "linked data (add_implementation t i data) (\<lambda>u. if u = t then {i} else {})"
  unfolding linked_def add_implementation_def
  by (auto simp: map_fst_map_entry map_of_map_entry grows_add grows_refl)

lemma link_if_implements_linked:
  "link_if_implements w i t data = (data', Inr u) \<Longrightarrow>
   linked data data' (\<lambda>v. if v = t \<and> implements w i t then {i} else {})"
  using linked_add [of data t i] linked_refl [of data]
  by (auto simp: link_if_implements_def implements_def cong: if_cong split: if_splits sum.splits)

lemma link_linked:
  "link w pairs data = (data', Inr u) \<Longrightarrow>
   linked data data'
     (\<lambda>t. {i. implements w i t \<and> ((i, t) \<in> set pairs \<or> (t, i) \<in> set pairs)})"
proof (induction w pairs data arbitrary: data' rule: link.induct)
  case (1 w data)
  then show ?case using linked_refl by simp
next
  case (2 w n a pairs data)
  from 2(2) obtain d1 d2 where
    d1: "link_if_implements w n a data = (d1, Inr ())" and
    d2: "link_if_implements w a n d1 = (d2, Inr ())" and
    rest: "link w pairs d2 = (data', Inr u)"
    by (auto split: prod.splits sum.splits)
  note l = linked_trans [OF linked_trans [OF link_if_implements_linked [OF d1]
      link_if_implements_linked [OF d2]] 2(1) [OF d1 [symmetric] refl d2 [symmetric] refl rest]]
  show ?case
    by (rule back_subst [of "linked data data'", OF l]) (auto simp: fun_eq_iff)
qed

section \<open>The invariant\<close>

definition registry_ok :: "world \<Rightarrow> registry \<Rightarrow> bool" where
  "registry_ok w data \<longleftrightarrow>
     dict_ok data \<and>
     (\<forall>t d. map_of data t = Some d \<longrightarrow>
        distinct (md_implementations d) \<and>
        set (md_implementations d) =
          {c \<in> keys data. is_concrete w c \<and> (c = t \<or> py_issubclass w c t = Inr True)})"

lemma registry_ok_Nil [simp]: "registry_ok w []"
  by (simp add: registry_ok_def)

lemma registry_okD:
  assumes "registry_ok w data" and "map_of data t = Some d"
  shows "distinct (md_implementations d)"
    and "c \<in> set (md_implementations d) \<longleftrightarrow>
      c \<in> keys data \<and> is_concrete w c \<and> (c = t \<or> py_issubclass w c t = Inr True)"
  using assms by (auto simp: registry_ok_def)

lemma registry_ok_dict [dest]: "registry_ok w data \<Longrightarrow> dict_ok data"
  by (simp add: registry_ok_def)

lemma register_parts:
  assumes "register w t data = (data', Inr out)"
  obtains xs data1 u where "collect (is_type w) t = (xs, None)"
    and "scan w xs data [] = ((data1, out), Inr ())"
    and "link w (link_pairs out data1) data1 = (data', Inr u)"
  using assms that
  by (auto simp: register_def Let_def split: prod.splits sum.splits option.splits)

lemma map_of_scanned:
  "distinct ns \<Longrightarrow> map_of (map (\<lambda>n. (n, f n)) ns) t = (if t \<in> set ns then Some (f t) else None)"
  by (induction ns) auto

lemma md_implementations_scanned:
  "md_implementations (scanned w x) = (if is_concrete w x then [x] else [])"
  by (simp add: scanned_def first_descriptor_def)

lemma register_ok:
  assumes ok: "registry_ok w data" and reg: "register w t data = (data', Inr out)"
  shows "registry_ok w data'"
proof -
  from reg obtain xs data1 u where
    s: "scan w xs data [] = ((data1, out), Inr ())" and
    l: "link w (link_pairs out data1) data1 = (data', Inr u)"
    by (rule register_parts)
  from scan_spec [OF s] obtain ns where
    ns: "data1 = data @ map (\<lambda>n. (n, scanned w n)) ns" "out = ns" "distinct ns"
      "set ns \<inter> keys data = {}" by auto
  note lk = link_linked [OF l]
  from lk have keys': "map fst data' = map fst data1" by (simp add: linked_def)
  have ok1: "dict_ok data1"
    using ok ns by (auto simp: registry_ok_def)
  have k1: "keys data1 = keys data \<union> set ns" using ns by auto
  have k': "keys data' = keys data1" using keys' by (simp add: keys_def)
  show ?thesis
    unfolding registry_ok_def
  proof (intro conjI allI impI)
    show "dict_ok data'" using ok1 keys' by (simp add: dict_ok_def)
    fix x d' assume "map_of data' x = Some d'"
    then have x1: "x \<in> keys data1" using k' by (auto dest: map_of_in_keys)
    then obtain d1 where d1: "map_of data1 x = Some d1" by (auto simp: keys_iff_map_of)
    with lk \<open>map_of data' x = Some d'\<close> have "grows d1
        {i. implements w i x \<and> ((i, x) \<in> set (link_pairs out data1) \<or> (x, i) \<in> set (link_pairs out data1))} d'"
      unfolding linked_def by fastforce
    then have impls':
      "set (md_implementations d') = set (md_implementations d1) \<union>
         {i. implements w i x \<and> ((i, x) \<in> set (link_pairs out data1) \<or> (x, i) \<in> set (link_pairs out data1))}"
      "distinct (md_implementations d1) \<Longrightarrow> distinct (md_implementations d')"
      by (auto simp: grows_def)
    have pairs: "(i, j) \<in> set (link_pairs out data1) \<longleftrightarrow> i \<in> set ns \<and> j \<in> keys data1 \<and> j \<noteq> i" for i j
      using ns(2) by (force simp: link_pairs_def keys_def)
    have "distinct (md_implementations d1) \<and>
      set (md_implementations d') =
        {c \<in> keys data1. is_concrete w c \<and> (c = x \<or> py_issubclass w c x = Inr True)}"
    proof (cases "x \<in> set ns")
      case True
      with ns have "x \<notin> keys data" by auto
      with True ns d1 have "d1 = scanned w x"
        by (auto simp: map_add_def map_of_scanned not_keys_iff_map_of)
      with True x1 k1 impls' pairs show ?thesis
        by (auto simp: md_implementations_scanned implements_def)
    next
      case False
      with ns d1 have d: "map_of data x = Some d1"
        by (auto simp: map_add_def map_of_scanned split: option.splits)
      from registry_okD [OF ok d] impls'(1) pairs k1 False x1 show ?thesis
        by (auto simp: implements_def)
    qed
    with impls'(2) k' show "distinct (md_implementations d')"
      and "set (md_implementations d') =
        {c \<in> keys data'. is_concrete w c \<and> (c = x \<or> py_issubclass w c x = Inr True)}"
      by auto
  qed
qed

lemma remove_one_keys [dict_simps]: "keys (remove_one x data) = keys data - {x}"
  by (simp add: remove_one_def dict_simps)

lemma map_of_remove_one [dict_simps]:
  "map_of (remove_one x data) t = (if t = x then None else map_option (forget x) (map_of data t))"
  by (simp add: remove_one_def dict_simps)

lemma remove_one_ok: "registry_ok w data \<Longrightarrow> registry_ok w (remove_one x data)"
  by (auto simp: registry_ok_def dict_simps forget_def remove_one_def split: if_splits)

lemma remove_ok: "registry_ok w data \<Longrightarrow> registry_ok w (fold remove_one xs data)"
  by (induction xs arbitrary: data) (auto intro: remove_one_ok)

lemma keys_fold_remove [dict_simps]: "keys (fold remove_one xs data) = keys data - set xs"
  by (induction xs arbitrary: data) (auto simp: dict_simps)

text \<open>No descriptor that is left mentions a removed type.\<close>

definition mentions :: "ty \<Rightarrow> mutable_descriptor \<Rightarrow> bool" where
  "mentions x d \<longleftrightarrow> x \<in> dep_type ` set (md_dependencies d) \<or> x \<in> set (md_implementations d) \<or>
     md_forced_primary d = Some x"

lemma mentions_forget: "mentions y (forget x d) \<longleftrightarrow> mentions y d \<and> y \<noteq> x"
  by (auto simp: mentions_def forget_def)

lemma fold_remove_mentions:
  "map_of (fold remove_one xs data) t = Some d' \<Longrightarrow>
   \<exists>d. map_of data t = Some d \<and> (\<forall>y. mentions y d' \<longleftrightarrow> mentions y d \<and> y \<notin> set xs)"
proof (induction xs arbitrary: data)
  case Nil
  then show ?case by simp
next
  case (Cons x xs)
  from Cons.IH [of "remove_one x data"] Cons.prems obtain d1 where
    d1: "map_of (remove_one x data) t = Some d1"
    "\<forall>y. mentions y d' \<longleftrightarrow> mentions y d1 \<and> y \<notin> set xs" by auto
  then obtain d where "map_of data t = Some d" "d1 = forget x d"
    by (auto simp: dict_simps split: if_splits)
  with d1 show ?case by (auto simp: mentions_forget)
qed

section \<open>Primary implementations\<close>

lemma figure_out_primary_total:
  assumes ok: "registry_ok w data" and t: "t \<in> keys data"
  obtains p where "figure_out_primary w data t = Inr p"
    and "\<And>i. p = Some i \<Longrightarrow> i \<in> keys data \<and> is_concrete w i \<and> (i = t \<or> py_issubclass w i t = Inr True)"
    and "is_concrete w t \<Longrightarrow> p \<noteq> None"
proof -
  from t obtain d where d: "map_of data t = Some d" by (auto simp: keys_iff_map_of)
  note impls = registry_okD [OF ok d]
  have self: "is_concrete w t \<Longrightarrow> t \<in> set (md_implementations d)" using t impls(2) by blast
  have hd: "length (md_implementations d) = 1 \<Longrightarrow> hd (md_implementations d) \<in> set (md_implementations d)"
    by (cases "md_implementations d") auto
  from d self hd have "\<exists>p. figure_out_primary w data t = Inr p \<and>
      (\<forall>i. p = Some i \<longrightarrow> i \<in> set (md_implementations d)) \<and> (is_concrete w t \<longrightarrow> p \<noteq> None)"
    by (auto simp: figure_out_primary_def Let_def)
  with impls(2) that show thesis by blast
qed

lemma type_index_total:
  assumes "registry_ok w data"
  shows "\<exists>idx. type_index w data = Inr idx"
  unfolding type_index_def
proof (rule traverse_total)
  fix x assume x: "x \<in> set data"
  obtain t d where x_def: "x = (t, d)" by (cases x)
  with x have "t \<in> keys data" by (auto intro: in_keysI)
  with assms obtain p where "figure_out_primary w data t = Inr p"
    by (rule figure_out_primary_total)
  with x_def show "\<exists>y. (case x of (t, desc) \<Rightarrow>
      rbind (freeze_descriptor desc (figure_out_primary w data t)) (\<lambda>td. Inr (t, td))) = Inr y"
    by (auto simp: freeze_descriptor_def split: option.splits)
qed

lemma type_index_lookup:
  assumes "type_index w data = Inr idx"
  shows "map fst idx = map fst data"
    and "map_of data t = Some d \<Longrightarrow>
      \<exists>p. freeze_descriptor d (figure_out_primary w data t) = Inr p \<and> map_of idx t = Some p"
    and "map_of data t = None \<Longrightarrow> map_of idx t = None"
proof -
  let ?R = "\<lambda>x y. (\<lambda>(t, desc). rbind (freeze_descriptor desc (figure_out_primary w data t))
    (\<lambda>td. Inr (t, td))) x = (Inr y :: _ res)"
  from assms have all: "list_all2 ?R data idx" by (simp add: type_index_def traverse_Inr_iff)
  have gen: "list_all2 ?R xs ys \<Longrightarrow>
      map fst ys = map fst xs \<and>
      (\<forall>d. map_of xs t = Some d \<longrightarrow>
        (\<exists>p. freeze_descriptor d (figure_out_primary w data t) = Inr p \<and> map_of ys t = Some p))" for xs ys
    by (induction xs ys rule: list_all2_induct) (auto simp: rbind_Inr_iff)
  from gen [OF all] show "map fst idx = map fst data"
    and "map_of data t = Some d \<Longrightarrow>
      \<exists>p. freeze_descriptor d (figure_out_primary w data t) = Inr p \<and> map_of idx t = Some p"
    by auto
  then have "keys idx = keys data" by (simp add: keys_def)
  then show "map_of data t = None \<Longrightarrow> map_of idx t = None" by (metis not_keys_iff_map_of)
qed

end
