(* ===== verification/Topological.thy ===== *)
theory Topological
  imports Prelude "HOL-Library.List_Lexorder" "HOL-Library.Char_ord"
begin

text \<open>
  The part of the package \<open>networkx\<close> that the type index calls. It is not code of this
  repository, so it is a parameter: a record of two functions over a graph with nodes
  \<open>0 ..< n\<close> and a list of edges. \<open>topo_contract\<close> is what its documentation says of the
  topological sort: it yields the nodes of an acyclic graph in an order that follows the
  edges, and raises \<open>NetworkXUnfeasible\<close> on a cyclic one. The sort is a generator, so it
  is modelled by what it yields and whether it ends by raising.
  \<open>kahn\<close> is a concrete sort that meets the contract; it is there to show that the
  contract can be met, and properties that assume the contract are witnessed with it.
\<close>

record networkx =
  lexicographical_topological_sort ::
    "nat \<Rightarrow> (nat \<times> nat) list \<Rightarrow> (nat \<Rightarrow> string) \<Rightarrow> nat list \<times> bool"
  simple_cycles :: "nat \<Rightarrow> (nat \<times> nat) list \<Rightarrow> nat list list"

definition follows_edges :: "(nat \<times> nat) list \<Rightarrow> nat list \<Rightarrow> bool" where
  "follows_edges edges xs \<longleftrightarrow> (\<forall>(i, j) \<in> set edges. before i j xs)"

definition topo_contract :: "networkx \<Rightarrow> bool" where
  "topo_contract nx \<longleftrightarrow>
     (\<forall>n edges key. set edges \<subseteq> {..<n} \<times> {..<n} \<longrightarrow>
        (case lexicographical_topological_sort nx n edges key of (out, unfeasible) \<Rightarrow>
           (if acyclic (set edges)
            then \<not> unfeasible \<and> distinct out \<and> set out = {..<n} \<and> follows_edges edges out
            else unfeasible)))"

lemma topo_contractD:
  assumes "topo_contract nx" and "set edges \<subseteq> {..<n} \<times> {..<n}"
    and "lexicographical_topological_sort nx n edges key = (out, unfeasible)"
  shows "unfeasible \<longleftrightarrow> \<not> acyclic (set edges)"
    and "\<not> unfeasible \<Longrightarrow> distinct out \<and> set out = {..<n} \<and> follows_edges edges out"
proof -
  from assms(1,2) have "case lexicographical_topological_sort nx n edges key of
      (out, unfeasible) \<Rightarrow>
      (if acyclic (set edges)
       then \<not> unfeasible \<and> distinct out \<and> set out = {..<n} \<and> follows_edges edges out
       else unfeasible)"
    by (rule topo_contract_def [THEN iffD1, rule_format])
  with assms(3) have "if acyclic (set edges)
      then \<not> unfeasible \<and> distinct out \<and> set out = {..<n} \<and> follows_edges edges out
      else unfeasible" by simp
  then show "unfeasible \<longleftrightarrow> \<not> acyclic (set edges)"
    and "\<not> unfeasible \<Longrightarrow> distinct out \<and> set out = {..<n} \<and> follows_edges edges out"
    by (auto split: if_splits)
qed

text \<open>An order that follows every edge shows that there is no cycle.\<close>

lemma follows_edges_acyclic:
  assumes "distinct xs" and "follows_edges edges xs"
  shows "acyclic (set edges)"
proof -
  have "(i, j) \<in> (set edges)\<^sup>+ \<Longrightarrow> before i j xs" for i j
    by (induction rule: trancl_induct)
      (use assms in \<open>auto simp: follows_edges_def intro: before_trans\<close>)
  then show ?thesis
    using before_irrefl [OF assms(1)] by (auto simp: acyclic_def)
qed

section \<open>A concrete sort\<close>

definition ready :: "(nat \<times> nat) list \<Rightarrow> nat list \<Rightarrow> nat list" where
  "ready edges remaining =
     filter (\<lambda>j. \<forall>(i, k) \<in> set edges. k = j \<longrightarrow> i \<notin> set remaining) remaining"

fun least_by :: "(nat \<Rightarrow> string) \<Rightarrow> nat \<Rightarrow> nat list \<Rightarrow> nat" where
  "least_by key m [] = m"
| "least_by key m (x # xs) = least_by key (if key x < key m then x else m) xs"

lemma least_by_in: "least_by key m xs \<in> insert m (set xs)"
proof (induction xs arbitrary: m)
  case Nil
  then show ?case by simp
next
  case (Cons x xs)
  from Cons [of x] Cons [of m] show ?case by auto
qed

fun kahn :: "nat \<Rightarrow> (nat \<times> nat) list \<Rightarrow> (nat \<Rightarrow> string) \<Rightarrow> nat list \<Rightarrow> nat list \<times> bool" where
  "kahn 0 edges key remaining = ([], remaining \<noteq> [])"
| "kahn (Suc k) edges key remaining =
     (case ready edges remaining of
        [] \<Rightarrow> ([], remaining \<noteq> [])
      | r # rs \<Rightarrow>
          let m = least_by key r rs; (out, unfeasible) = kahn k edges key (remove1 m remaining)
          in (m # out, unfeasible))"

definition kahn_networkx :: networkx where
  "kahn_networkx =
     \<lparr>lexicographical_topological_sort = (\<lambda>n edges key. kahn n edges key [0..<n]),
      simple_cycles = (\<lambda>n edges. [])\<rparr>"

lemma ready_subset: "j \<in> set (ready edges remaining) \<Longrightarrow> j \<in> set remaining"
  by (simp add: ready_def)

lemma kahn_sound:
  "kahn k edges key remaining = (out, False) \<Longrightarrow> distinct remaining \<Longrightarrow>
   distinct out \<and> set out = set remaining \<and>
   (\<forall>(i, j) \<in> set edges. i \<in> set remaining \<longrightarrow> j \<in> set remaining \<longrightarrow> before i j out)"
proof (induction k arbitrary: remaining out)
  case 0
  then show ?case by auto
next
  case (Suc k)
  show ?case
  proof (cases "ready edges remaining")
    case Nil
    with Suc.prems show ?thesis by auto
  next
    case (Cons r rs)
    define m where "m = least_by key r rs"
    have m: "m \<in> set (ready edges remaining)" using least_by_in [of key r rs] Cons m_def by simp
    then have m_in: "m \<in> set remaining" by (rule ready_subset)
    obtain out' where rec: "kahn k edges key (remove1 m remaining) = (out', False)"
      and out: "out = m # out'"
      using Suc.prems(1) Cons by (auto simp: Let_def m_def split: prod.splits)
    from Suc.IH [OF rec] Suc.prems(2) have
      "distinct out'" "set out' = set remaining - {m}"
      "\<forall>(i, j) \<in> set edges. i \<in> set remaining - {m} \<longrightarrow> j \<in> set remaining - {m} \<longrightarrow> before i j out'"
      by auto
    moreover have "j \<noteq> m" if "(i, j) \<in> set edges" "i \<in> set remaining" for i j
      using m that by (auto simp: ready_def)
    ultimately show ?thesis using out m_in by fastforce
  qed
qed

lemma kahn_complete:
  "acyclic (set edges) \<Longrightarrow> length remaining \<le> k \<Longrightarrow> \<not> snd (kahn k edges key remaining)"
proof (induction k arbitrary: remaining)
  case 0
  then show ?case by auto
next
  case (Suc k)
  show ?case
  proof (cases "remaining = []")
    case True
    then show ?thesis by (simp add: ready_def)
  next
    case False
    have "wf (set edges)" using Suc.prems(1) by (intro finite_acyclic_wf) auto
    moreover obtain x where "x \<in> set remaining" using False by (cases remaining) auto
    ultimately obtain z where z: "z \<in> set remaining"
      "\<And>y. (y, z) \<in> set edges \<Longrightarrow> y \<notin> set remaining" by (rule wfE_min) blast
    then have "z \<in> set (ready edges remaining)" by (auto simp: ready_def)
    then obtain r rs where rs: "ready edges remaining = r # rs"
      by (cases "ready edges remaining") auto
    define m where "m = least_by key r rs"
    have "m \<in> set (ready edges remaining)" using least_by_in [of key r rs] rs m_def by simp
    then have "m \<in> set remaining" by (rule ready_subset)
    with Suc.prems(2) have "length (remove1 m remaining) \<le> k" by (simp add: length_remove1)
    from Suc.IH [OF Suc.prems(1) this] rs show ?thesis
      by (auto simp: Let_def m_def split: prod.splits)
  qed
qed

lemma kahn_contract: "topo_contract kahn_networkx"
  unfolding topo_contract_def
proof (intro allI impI)
  fix n and edges :: "(nat \<times> nat) list" and key
  assume bounds: "set edges \<subseteq> {..<n} \<times> {..<n}"
  obtain out unf where k: "kahn n edges key [0..<n] = (out, unf)" by fastforce
  have sound: "distinct out \<and> set out = {..<n} \<and> follows_edges edges out" if "\<not> unf"
    using kahn_sound [of n edges key "[0..<n]" out] k that bounds
    by (fastforce simp: follows_edges_def atLeast0LessThan)
  have "unf \<longleftrightarrow> \<not> acyclic (set edges)"
    using kahn_complete [of edges "[0..<n]" n key] k sound follows_edges_acyclic by auto
  with k sound show "case lexicographical_topological_sort kahn_networkx n edges key of
      (out, unfeasible) \<Rightarrow>
        (if acyclic (set edges)
         then \<not> unfeasible \<and> distinct out \<and> set out = {..<n} \<and> follows_edges edges out
         else unfeasible)"
    by (simp add: kahn_networkx_def)
qed

end
