(* ===== verification/Type_Index.thy ===== *)
theory Type_Index
  imports Registry_Correct Topological
begin

text \<open>
  \<open>SimpleTypeIndex\<close> of \<open>thinking_injection/registry/simple.py\<close>: the immutable view of
  a registry. Which concrete types a type requires, and the order in which the concrete
  types are to be initialised.
\<close>

section \<open>Queries\<close>

definition idx_dependencies :: "type_index \<Rightarrow> ty \<Rightarrow> dependency list" where
  "idx_dependencies data t = (case map_of data t of None \<Rightarrow> [] | Some d \<Rightarrow> td_dependencies d)"

definition idx_implementations :: "type_index \<Rightarrow> ty \<Rightarrow> ty list" where
  "idx_implementations data t = (case map_of data t of None \<Rightarrow> [] | Some d \<Rightarrow> td_implementations d)"

definition primary_implementation :: "type_index \<Rightarrow> ty \<Rightarrow> ty option" where
  "primary_implementation data t = (case map_of data t of None \<Rightarrow> None | Some d \<Rightarrow> td_primary d)"

definition idx_known_types :: "type_index \<Rightarrow> ty list" where
  "idx_known_types data = map fst data"

definition known_concrete_types :: "world \<Rightarrow> type_index \<Rightarrow> ty list" where
  "known_concrete_types w data = filter (is_concrete w) (idx_known_types data)"

definition idx_details :: "type_index \<Rightarrow> ty \<Rightarrow> implementation_details" where
  "idx_details data t =
     \<lparr>det_implementations = idx_implementations data t,
      det_primary = primary_implementation data t\<rparr>"

section \<open>Prerequisites\<close>

definition ConcreteTypeExpected_guard :: "world \<Rightarrow> ty option \<Rightarrow> ty res" where
  "ConcreteTypeExpected_guard w subject =
     (case subject of
        None \<Rightarrow> Inl (ConcreteTypeExpectedException None)
      | Some t \<Rightarrow> (if is_concrete w t then Inr t else Inl (ConcreteTypeExpectedException subject)))"

fun gather_requirements ::
  "type_index \<Rightarrow> dependency list \<Rightarrow> ty option list \<Rightarrow> ty option list res" where
  "gather_requirements data [] requirements = Inr requirements"
| "gather_requirements data (d # ds) requirements =
     (let prereqs = choose_injected_types (dep_kind d) (idx_details data (dep_type d))
      in rbind (validate_injected_types (dep_kind d) (dep_type d) prereqs)
           (\<lambda>_. gather_requirements data ds (set_update prereqs requirements)))"

definition prerequisites :: "world \<Rightarrow> type_index \<Rightarrow> ty \<Rightarrow> ty list res" where
  "prerequisites w data t =
     rbind (if is_concrete w t then gather_requirements data (idx_dependencies data t) []
            else Inr [])
       (traverse (ConcreteTypeExpected_guard w))"

section \<open>Order\<close>

text \<open>
  \<open>type_to_idx\<close> numbers the known types. An edge from a prerequisite to the type that
  requires it is added for every known concrete type; a prerequisite that is not a known
  type is a \<open>KeyError\<close>. \<open>order\<close> is a generator: it is modelled by the types it yields
  and the exception it ends with, if any.
\<close>

definition type_to_idx :: "ty list \<Rightarrow> ty \<Rightarrow> nat res" where
  "type_to_idx types t =
     (case map_of (zip types [0..<length types]) t of None \<Rightarrow> Inl KeyError | Some i \<Rightarrow> Inr i)"

definition edges_to :: "world \<Rightarrow> type_index \<Rightarrow> ty \<Rightarrow> (nat \<times> nat) list res" where
  "edges_to w data t =
     rbind (prerequisites w data t)
       (traverse (\<lambda>prerequisite.
          rbind (type_to_idx (idx_known_types data) prerequisite)
            (\<lambda>i. rbind (type_to_idx (idx_known_types data) t) (\<lambda>j. Inr (i, j)))))"

definition requirement_graph :: "world \<Rightarrow> type_index \<Rightarrow> (nat \<times> nat) list res" where
  "requirement_graph w data =
     rbind (traverse (edges_to w data) (known_concrete_types w data)) (\<lambda>ess. Inr (concat ess))"

definition order :: "networkx \<Rightarrow> world \<Rightarrow> type_index \<Rightarrow> ty list \<times> exn option" where
  "order nx w data =
     (let idx_to_type = idx_known_types data; n = length idx_to_type
      in case requirement_graph w data of
           Inl e \<Rightarrow> ([], Some e)
         | Inr edges \<Rightarrow>
             (case lexicographical_topological_sort nx n edges
                     (\<lambda>i. ci_name (info w (idx_to_type ! i))) of
                (is, unfeasible) \<Rightarrow>
                  (filter (is_concrete w) (map ((!) idx_to_type) is),
                   if unfeasible
                   then Some (CyclicDependencyGraphException
                          (map (map ((!) idx_to_type)) (simple_cycles nx n edges)))
                   else None)))"

section \<open>Leaving types out\<close>

definition descriptor_without :: "ty list \<Rightarrow> type_descriptor \<Rightarrow> type_descriptor" where
  "descriptor_without ts d =
     \<lparr>td_dependencies = filter (\<lambda>x. dep_type x \<notin> set ts) (td_dependencies d),
      td_implementations = filter (\<lambda>x. x \<notin> set ts) (td_implementations d),
      td_primary = (case td_primary d of None \<Rightarrow> None | Some p \<Rightarrow> if p \<in> set ts then None else Some p)\<rparr>"

definition idx_without :: "world \<Rightarrow> ty collectable list \<Rightarrow> type_index \<Rightarrow> type_index res" where
  "idx_without w t data =
     (case collect (is_type w) t of
        (ts, Some e) \<Rightarrow> Inl e
      | (ts, None) \<Rightarrow>
          Inr (map (\<lambda>(k, v). (k, descriptor_without ts v)) (filter (\<lambda>(k, v). k \<notin> set ts) data)))"

section \<open>What is required\<close>

lemma kind_validates:
  "validate_injected_types k t (choose_injected_types k d) = Inr u \<longleftrightarrow> admits k d"
  using kind.validates_iff [of k t d] by auto

lemma gather_requirements_Inr:
  "gather_requirements data ds req = Inr r \<longleftrightarrow>
   (\<forall>d \<in> set ds. admits (dep_kind d) (idx_details data (dep_type d))) \<and>
   r = fold (\<lambda>d. set_update (choose_injected_types (dep_kind d) (idx_details data (dep_type d)))) ds req"
  by (induction data ds req rule: gather_requirements.induct)
    (auto simp: Let_def res_simps kind_validates)

lemma set_fold_update:
  "set (fold (\<lambda>d. set_update (f d)) ds req) = set req \<union> (\<Union>d \<in> set ds. set (f d))"
  by (induction ds arbitrary: req) auto

lemma distinct_fold_update: "distinct req \<Longrightarrow> distinct (fold (\<lambda>d. set_update (f d)) ds req)"
  by (induction ds arbitrary: req) auto

lemma traverse_concrete:
  "traverse (ConcreteTypeExpected_guard w) rs = Inr ps \<longleftrightarrow>
   rs = map Some ps \<and> (\<forall>p \<in> set ps. is_concrete w p)"
proof (induction rs arbitrary: ps)
  case Nil
  then show ?case by auto
next
  case (Cons r rs)
  have guard: "ConcreteTypeExpected_guard w r = Inr p \<longleftrightarrow> r = Some p \<and> is_concrete w p" for p
    by (auto simp: ConcreteTypeExpected_guard_def split: option.splits)
  show ?case by (cases ps) (auto simp: rbind_Inr_iff guard Cons.IH)
qed

definition chosen_types :: "type_index \<Rightarrow> dependency \<Rightarrow> ty set" where
  "chosen_types data d =
     {i. Some i \<in> set (choose_injected_types (dep_kind d) (idx_details data (dep_type d)))}"

lemma prerequisites_Inr:
  assumes "prerequisites w data t = Inr ps"
  shows "distinct ps" and "\<And>p. p \<in> set ps \<Longrightarrow> is_concrete w p"
    and "is_concrete w t \<Longrightarrow> set ps = (\<Union>d \<in> set (idx_dependencies data t). chosen_types data d)"
    and "is_concrete w t \<Longrightarrow> d \<in> set (idx_dependencies data t) \<Longrightarrow>
      admits (dep_kind d) (idx_details data (dep_type d))"
    and "\<not> is_concrete w t \<Longrightarrow> ps = []"
proof -
  let ?c = "\<lambda>d. choose_injected_types (dep_kind d) (idx_details data (dep_type d))"
  let ?rs = "fold (\<lambda>d. set_update (?c d)) (idx_dependencies data t) []"
  from assms have cases: "(is_concrete w t \<and> ?rs = map Some ps \<and>
      (\<forall>d \<in> set (idx_dependencies data t). admits (dep_kind d) (idx_details data (dep_type d))) \<or>
      \<not> is_concrete w t \<and> ps = []) \<and> (\<forall>p \<in> set ps. is_concrete w p)"
    by (auto simp: prerequisites_def rbind_Inr_iff gather_requirements_Inr traverse_concrete
        split: if_splits)
  have dist: "distinct ?rs" by (rule distinct_fold_update) simp
  have "set (map Some ps) = (\<Union>d \<in> set (idx_dependencies data t). set (?c d))" if "?rs = map Some ps"
    using set_fold_update [of ?c "idx_dependencies data t" "[]"] that by simp
  then have "set ps = (\<Union>d \<in> set (idx_dependencies data t). chosen_types data d)" if "?rs = map Some ps"
    using that by (auto simp: chosen_types_def set_eq_iff)
  with cases dist show "distinct ps" and "\<And>p. p \<in> set ps \<Longrightarrow> is_concrete w p"
    and "is_concrete w t \<Longrightarrow> set ps = (\<Union>d \<in> set (idx_dependencies data t). chosen_types data d)"
    and "is_concrete w t \<Longrightarrow> d \<in> set (idx_dependencies data t) \<Longrightarrow>
      admits (dep_kind d) (idx_details data (dep_type d))"
    and "\<not> is_concrete w t \<Longrightarrow> ps = []"
    by (auto simp: distinct_map)
qed

definition requires :: "world \<Rightarrow> type_index \<Rightarrow> (ty \<times> ty) set" where
  "requires w data =
     {(p, t). t \<in> keys data \<and> is_concrete w t \<and>
        (\<exists>ps. prerequisites w data t = Inr ps \<and> p \<in> set ps)}"

section \<open>The graph\<close>

lemma type_to_idx_Inr:
  assumes "distinct types"
  shows "type_to_idx types t = Inr i \<longleftrightarrow> i < length types \<and> types ! i = t"
proof -
  have "map_of (zip types [0..<length types]) t = Some i \<longleftrightarrow> i < length types \<and> types ! i = t"
  proof -
    have "distinct (map fst (zip types [0..<length types]))" using assms by simp
    then have "map_of (zip types [0..<length types]) t = Some i \<longleftrightarrow>
        (t, i) \<in> set (zip types [0..<length types])" by (rule map_of_eq_Some_iff)
    also have "\<dots> \<longleftrightarrow> i < length types \<and> types ! i = t" by (auto simp: set_zip)
    finally show ?thesis .
  qed
  then show ?thesis by (auto simp: type_to_idx_def split: option.splits)
qed

lemma edges_to_Inr:
  assumes "distinct (idx_known_types data)" and "edges_to w data t = Inr es"
  shows "(i, j) \<in> set es \<longleftrightarrow>
    i < length (idx_known_types data) \<and> j < length (idx_known_types data) \<and>
    idx_known_types data ! j = t \<and>
    (\<exists>ps. prerequisites w data t = Inr ps \<and> idx_known_types data ! i \<in> set ps)"
proof -
  let ?ty = "idx_known_types data"
  from assms(2) obtain ps where ps: "prerequisites w data t = Inr ps"
    and all: "list_all2 (\<lambda>p e. rbind (type_to_idx ?ty p)
      (\<lambda>i. rbind (type_to_idx ?ty t) (\<lambda>j. Inr (i, j))) = Inr e) ps es"
    by (auto simp: edges_to_def rbind_Inr_iff traverse_Inr_iff)
  from all have "(i, j) \<in> set es \<longleftrightarrow>
      i < length ?ty \<and> j < length ?ty \<and> ?ty ! j = t \<and> ?ty ! i \<in> set ps"
    by (induction ps es rule: list_all2_induct)
      (auto simp: rbind_Inr_iff type_to_idx_Inr [OF assms(1)] nth_eq_iff_index_eq [OF assms(1)])
  with ps show ?thesis by auto
qed

lemma requirement_graph_Inr:
  assumes ok: "dict_ok data" and g: "requirement_graph w data = Inr edges"
  shows "(i, j) \<in> set edges \<longleftrightarrow>
    i < length data \<and> j < length data \<and>
    (idx_known_types data ! i, idx_known_types data ! j) \<in> requires w data"
proof -
  let ?ty = "idx_known_types data"
  have dist: "distinct ?ty" using ok by (simp add: idx_known_types_def dict_ok_def)
  have len: "length ?ty = length data" by (simp add: idx_known_types_def)
  from g obtain ess where all: "list_all2 (\<lambda>t es. edges_to w data t = Inr es) (known_concrete_types w data) ess"
    and edges: "edges = concat ess"
    by (auto simp: requirement_graph_def rbind_Inr_iff traverse_Inr_iff)
  have "(i, j) \<in> set (concat ess) \<longleftrightarrow>
      (\<exists>t \<in> set (known_concrete_types w data). \<exists>es. edges_to w data t = Inr es \<and> (i, j) \<in> set es)"
    using all by (induction rule: list_all2_induct) auto
  also have "\<dots> \<longleftrightarrow> i < length data \<and> j < length data \<and> ?ty ! j \<in> set (known_concrete_types w data) \<and>
      (\<exists>ps. prerequisites w data (?ty ! j) = Inr ps \<and> ?ty ! i \<in> set ps)"
    (is "?lhs \<longleftrightarrow> ?rhs")
  proof
    assume ?lhs
    then show ?rhs using edges_to_Inr [OF dist] len by fastforce
  next
    assume r: ?rhs
    then obtain k where k: "k < length (known_concrete_types w data)"
      "known_concrete_types w data ! k = ?ty ! j" by (auto simp: in_set_conv_nth)
    from list_all2_nthD [OF all k(1)] k(2)
    obtain es where es: "edges_to w data (?ty ! j) = Inr es" by auto
    from edges_to_Inr [OF dist es] r len have "(i, j) \<in> set es" by simp
    with es r show ?lhs by blast
  qed
  also have "\<dots> \<longleftrightarrow> i < length data \<and> j < length data \<and> (?ty ! i, ?ty ! j) \<in> requires w data"
    by (auto simp: requires_def known_concrete_types_def idx_known_types_def keys_def)
  finally show ?thesis by (simp add: edges)
qed

end
