(* ===== verification/Init_Order.thy ===== *)
theory Init_Order
  imports Type_Index
begin

text \<open>
  The order of initialisation: under the documented contract of the topological sort,
  \<open>order\<close> lists every known concrete type once, after everything it requires; it fails
  exactly on a cycle, a dependency that cannot be satisfied, or a prerequisite that is not
  registered. For the index of a registry whose forced primaries are sane, the last of
  these cannot happen.
\<close>

lemma acyclic_pullback:
  assumes inj: "inj_on f A" and dom: "r \<subseteq> f ` A \<times> f ` A"
  shows "acyclic {(i, j). i \<in> A \<and> j \<in> A \<and> (f i, f j) \<in> r} \<longleftrightarrow> acyclic r"
proof -
  let ?e = "{(i, j). i \<in> A \<and> j \<in> A \<and> (f i, f j) \<in> r}"
  have fwd: "(i, j) \<in> ?e\<^sup>+ \<Longrightarrow> (f i, f j) \<in> r\<^sup>+" for i j
    by (induction rule: trancl_induct) (auto intro: trancl_into_trancl)
  have bwd: "(x, y) \<in> r\<^sup>+ \<Longrightarrow> \<exists>i \<in> A. \<exists>j \<in> A. x = f i \<and> y = f j \<and> (i, j) \<in> ?e\<^sup>+" for x y
  proof (induction rule: trancl_induct)
    case (base y)
    with dom show ?case by blast
  next
    case (step y z)
    then obtain i j where ij: "i \<in> A" "j \<in> A" "x = f i" "y = f j" "(i, j) \<in> ?e\<^sup>+" by blast
    from step(2) dom obtain k where "k \<in> A" "z = f k" by blast
    with step(2) ij have "(j, k) \<in> ?e" by auto
    with ij(5) have "(i, k) \<in> ?e\<^sup>+" by (rule trancl_into_trancl)
    with ij \<open>k \<in> A\<close> \<open>z = f k\<close> show ?case by blast
  qed
  have "(i, i) \<in> ?e\<^sup>+" if "(x, x) \<in> r\<^sup>+" "x = f i" "i \<in> A" for x i
    using bwd [OF that(1)] that inj by (auto dest: inj_onD)
  with fwd bwd show ?thesis unfolding acyclic_def by meson
qed

lemma prerequisites_known_edges:
  assumes "requirement_graph w data = Inr edges" and ok: "dict_ok data"
    and t: "t \<in> keys data" "is_concrete w t"
  obtains ps where "prerequisites w data t = Inr ps" and "set ps \<subseteq> keys data"
proof -
  let ?ty = "idx_known_types data"
  have dist: "distinct ?ty" using ok by (simp add: idx_known_types_def dict_ok_def)
  from assms(1) obtain ess where "list_all2 (\<lambda>t es. edges_to w data t = Inr es) (known_concrete_types w data) ess"
    by (auto simp: requirement_graph_def rbind_Inr_iff traverse_Inr_iff)
  moreover have "t \<in> set (known_concrete_types w data)"
    using t by (simp add: known_concrete_types_def idx_known_types_def keys_def)
  ultimately obtain es where "edges_to w data t = Inr es"
    by (auto simp: in_set_conv_nth dest!: list_all2_nthD)
  then obtain ps where ps: "prerequisites w data t = Inr ps"
    and all: "list_all2 (\<lambda>p e. rbind (type_to_idx ?ty p)
      (\<lambda>i. rbind (type_to_idx ?ty t) (\<lambda>j. Inr (i, j))) = Inr e) ps es"
    by (auto simp: edges_to_def rbind_Inr_iff traverse_Inr_iff)
  have "p \<in> keys data" if "p \<in> set ps" for p
  proof -
    from that obtain k where "k < length ps" "ps ! k = p" by (auto simp: in_set_conv_nth)
    with all obtain i where "type_to_idx ?ty p = Inr i"
      by (auto dest: list_all2_nthD simp: rbind_Inr_iff)
    then have "p \<in> set ?ty" by (auto simp: type_to_idx_Inr [OF dist])
    then show ?thesis by (simp add: idx_known_types_def keys_def)
  qed
  with ps that show thesis by blast
qed

lemma requires_subset:
  assumes "requirement_graph w data = Inr edges" and "dict_ok data"
  shows "requires w data \<subseteq> set (idx_known_types data) \<times> set (idx_known_types data)"
proof -
  have "p \<in> keys data \<and> t \<in> keys data" if pt: "(p, t) \<in> requires w data" for p t
  proof -
    from pt have t: "t \<in> keys data" "is_concrete w t" by (auto simp: requires_def)
    from prerequisites_known_edges [OF assms t] obtain ps where
      "prerequisites w data t = Inr ps" "set ps \<subseteq> keys data" .
    with pt t show ?thesis by (auto simp: requires_def)
  qed
  then show ?thesis by (auto simp: idx_known_types_def keys_def)
qed

lemma acyclic_edges_iff:
  assumes g: "requirement_graph w data = Inr edges" and ok: "dict_ok data"
  shows "acyclic (set edges) \<longleftrightarrow> acyclic (requires w data)"
proof -
  let ?ty = "idx_known_types data"
  have len: "length ?ty = length data" by (simp add: idx_known_types_def)
  have dist: "distinct ?ty" using ok by (simp add: idx_known_types_def dict_ok_def)
  have inj: "inj_on ((!) ?ty) {..<length data}"
    using dist len by (auto simp: inj_on_def nth_eq_iff_index_eq)
  have img: "(!) ?ty ` {..<length data} = set ?ty"
    using len by (auto simp: set_conv_nth)
  have "set edges = {(i, j). i \<in> {..<length data} \<and> j \<in> {..<length data} \<and> (?ty ! i, ?ty ! j) \<in> requires w data}"
    using requirement_graph_Inr [OF ok g] by auto
  with acyclic_pullback [OF inj, of "requires w data"] requires_subset [OF g ok] img
  show ?thesis by simp
qed

section \<open>What the order yields\<close>

lemma order_yields:
  assumes nx: "topo_contract nx" and ok: "dict_ok data"
    and o: "order nx w data = (ts, None)"
  shows "distinct ts" and "set ts = {t \<in> keys data. is_concrete w t}"
    and "\<And>p t. (p, t) \<in> requires w data \<Longrightarrow> before p t ts"
    and "\<And>t. t \<in> set ts \<Longrightarrow> \<exists>ps. prerequisites w data t = Inr ps \<and> (\<forall>p \<in> set ps. before p t ts)"
proof -
  let ?ty = "idx_known_types data" and ?n = "length data"
  have len: "length ?ty = ?n" by (simp add: idx_known_types_def)
  have dist: "distinct ?ty" using ok by (simp add: idx_known_types_def dict_ok_def)
  from o obtain edges nodes where g: "requirement_graph w data = Inr edges"
    and s: "lexicographical_topological_sort nx ?n edges (\<lambda>i. ci_name (info w (?ty ! i))) = (nodes, False)"
    and ts: "ts = filter (is_concrete w) (map ((!) ?ty) nodes)"
    by (auto simp: order_def Let_def len split: sum.splits prod.splits if_splits)
  have bounds: "set edges \<subseteq> {..<?n} \<times> {..<?n}" using requirement_graph_Inr [OF ok g] by auto
  from topo_contractD [OF nx bounds s] have nodes: "distinct nodes" "set nodes = {..<?n}" "follows_edges edges nodes"
    by auto
  have inj: "inj_on ((!) ?ty) {..<?n}" using dist len by (auto simp: inj_on_def nth_eq_iff_index_eq)
  show "distinct ts" using nodes inj by (simp add: ts distinct_map)
  have img: "(!) ?ty ` {..<?n} = set ?ty" using len by (auto simp: set_conv_nth)
  show set_ts: "set ts = {t \<in> keys data. is_concrete w t}"
    using nodes(2) img by (auto simp: ts idx_known_types_def keys_def)
  show bef: "before p t ts" if pt: "(p, t) \<in> requires w data" for p t
  proof -
    from requires_subset [OF g ok] pt have "p \<in> set ?ty" "t \<in> set ?ty" by auto
    then obtain i j where ij: "i < ?n" "?ty ! i = p" "j < ?n" "?ty ! j = t"
      using len by (auto simp: in_set_conv_nth)
    with pt have "(i, j) \<in> set edges" using requirement_graph_Inr [OF ok g, of i j] by simp
    with nodes(3) have "before i j nodes" by (auto simp: follows_edges_def)
    then have "before (?ty ! i) (?ty ! j) (map ((!) ?ty) nodes)" by (rule before_map)
    moreover have "is_concrete w p" "is_concrete w t"
      using pt prerequisites_Inr(2) by (auto simp: requires_def)
    ultimately show ?thesis using ij by (auto simp: ts intro: before_filter)
  qed
  show "\<exists>ps. prerequisites w data t = Inr ps \<and> (\<forall>p \<in> set ps. before p t ts)" if "t \<in> set ts" for t
  proof -
    from that set_ts have t: "t \<in> keys data" "is_concrete w t" by auto
    from prerequisites_known_edges [OF g ok t] obtain ps where "prerequisites w data t = Inr ps" .
    with t bef show ?thesis by (auto simp: requires_def)
  qed
qed

lemma order_ends:
  assumes nx: "topo_contract nx" and ok: "dict_ok data"
    and all: "\<And>t. t \<in> keys data \<Longrightarrow> is_concrete w t \<Longrightarrow>
      \<exists>ps. prerequisites w data t = Inr ps \<and> set ps \<subseteq> keys data"
  shows "snd (order nx w data) = None \<longleftrightarrow> acyclic (requires w data)"
    and "\<not> acyclic (requires w data) \<Longrightarrow>
      \<exists>cs. snd (order nx w data) = Some (CyclicDependencyGraphException cs)"
proof -
  let ?ty = "idx_known_types data" and ?n = "length data"
  have len: "length ?ty = ?n" by (simp add: idx_known_types_def)
  have dist: "distinct ?ty" using ok by (simp add: idx_known_types_def dict_ok_def)
  have lookup: "\<exists>i. type_to_idx ?ty t = Inr i" if "t \<in> keys data" for t
  proof -
    from that have "t \<in> set ?ty" by (simp add: idx_known_types_def keys_def)
    then obtain i where "i < length ?ty" "?ty ! i = t" by (auto simp only: in_set_conv_nth)
    with type_to_idx_Inr [OF dist] show ?thesis by blast
  qed
  have "\<exists>es. edges_to w data t = Inr es" if t: "t \<in> set (known_concrete_types w data)" for t
  proof -
    from t have tk: "t \<in> keys data" "is_concrete w t"
      by (auto simp: known_concrete_types_def idx_known_types_def keys_def)
    with all obtain ps where ps: "prerequisites w data t = Inr ps" "set ps \<subseteq> keys data" by blast
    have "\<exists>es. traverse (\<lambda>p. rbind (type_to_idx ?ty p)
        (\<lambda>i. rbind (type_to_idx ?ty t) (\<lambda>j. Inr (i, j)))) ps = Inr es"
      by (rule traverse_total) (use ps(2) tk lookup in \<open>fastforce simp: rbind_Inr_iff\<close>)
    with ps show ?thesis by (auto simp: edges_to_def)
  qed
  then obtain ess where "traverse (edges_to w data) (known_concrete_types w data) = Inr ess"
    using traverse_total by blast
  then obtain edges where g: "requirement_graph w data = Inr edges"
    by (auto simp: requirement_graph_def)
  obtain nodes unf where s: "lexicographical_topological_sort nx ?n edges
      (\<lambda>i. ci_name (info w (?ty ! i))) = (nodes, unf)" by fastforce
  have bounds: "set edges \<subseteq> {..<?n} \<times> {..<?n}" using requirement_graph_Inr [OF ok g] by auto
  from topo_contractD(1) [OF nx bounds s] acyclic_edges_iff [OF g ok]
  have "unf \<longleftrightarrow> \<not> acyclic (requires w data)" by simp
  with g s len show "snd (order nx w data) = None \<longleftrightarrow> acyclic (requires w data)"
    and "\<not> acyclic (requires w data) \<Longrightarrow>
      \<exists>cs. snd (order nx w data) = Some (CyclicDependencyGraphException cs)"
    by (auto simp: order_def Let_def)
qed

section \<open>The index of a registry\<close>

definition forced_ok :: "world \<Rightarrow> registry \<Rightarrow> bool" where
  "forced_ok w data \<longleftrightarrow>
     (\<forall>t d p. map_of data t = Some d \<longrightarrow> md_forced_primary d = Some p \<longrightarrow>
        p \<in> keys data \<and> is_concrete w p)"

lemma type_index_entry:
  assumes ok: "registry_ok w data" and f: "forced_ok w data"
    and idx: "type_index w data = Inr idx"
  shows "dict_ok idx" and "keys idx = keys data"
    and "i \<in> set (idx_implementations idx t) \<Longrightarrow> i \<in> keys idx \<and> is_concrete w i"
    and "primary_implementation idx t = Some i \<Longrightarrow> i \<in> keys idx \<and> is_concrete w i"
    and "t \<in> keys idx \<Longrightarrow> is_concrete w t \<Longrightarrow> primary_implementation idx t \<noteq> None"
proof -
  note l = type_index_lookup [OF idx]
  show "dict_ok idx" using l(1) ok by (auto simp: dict_ok_def registry_ok_def)
  show k: "keys idx = keys data" using l(1) by (simp add: keys_def)
  show "i \<in> keys idx \<and> is_concrete w i" if "i \<in> set (idx_implementations idx t)"
  proof (cases "map_of data t")
    case None
    with that l(3) show ?thesis by (simp add: idx_implementations_def)
  next
    case (Some d)
    from l(2) [OF Some] that have "i \<in> set (md_implementations d)"
      by (auto simp: idx_implementations_def freeze_descriptor_def rbind_Inr_iff)
    with registry_okD(2) [OF ok Some] k show ?thesis by auto
  qed
  have prim: "\<exists>d q. map_of data t = Some d \<and> primary_implementation idx t = q \<and>
      (md_forced_primary d = q \<and> q \<noteq> None \<or>
       md_forced_primary d = None \<and> figure_out_primary w data t = Inr q)" if t: "t \<in> keys idx"
  proof -
    from t k obtain d where d: "map_of data t = Some d" by (auto simp: keys_iff_map_of)
    from l(2) [OF d] show ?thesis
      by (auto simp: primary_implementation_def freeze_descriptor_def rbind_Inr_iff d
          split: option.splits)
  qed
  show "i \<in> keys idx \<and> is_concrete w i" if p: "primary_implementation idx t = Some i"
  proof -
    from p have t: "t \<in> keys idx"
      by (auto simp: primary_implementation_def keys_iff_map_of split: option.splits)
    with k have t': "t \<in> keys data" by simp
    from figure_out_primary_total [OF ok t'] obtain q where
      q: "figure_out_primary w data t = Inr q" "\<And>i. q = Some i \<Longrightarrow> i \<in> keys data \<and> is_concrete w i"
      by metis
    from prim [OF t] p q f k show ?thesis by (auto simp: forced_ok_def)
  qed
  show "primary_implementation idx t \<noteq> None" if "t \<in> keys idx" "is_concrete w t"
  proof -
    from that k have "t \<in> keys data" by simp
    from figure_out_primary_total [OF ok this] obtain q where
      "figure_out_primary w data t = Inr q" "is_concrete w t \<Longrightarrow> q \<noteq> None" by metis
    with prim [OF that(1)] that show ?thesis
      by (cases "primary_implementation idx t") auto
  qed
qed

text \<open>
  A well-formed index: what \<open>type_index\<close> yields, and all that the context relies on. The
  chosen types of a dependency are then known and concrete.
\<close>

definition index_ok :: "world \<Rightarrow> type_index \<Rightarrow> bool" where
  "index_ok w idx \<longleftrightarrow> dict_ok idx \<and>
     (\<forall>t i. i \<in> set (idx_implementations idx t) \<longrightarrow> i \<in> keys idx \<and> is_concrete w i) \<and>
     (\<forall>t i. primary_implementation idx t = Some i \<longrightarrow> i \<in> keys idx \<and> is_concrete w i)"

lemma type_index_ok:
  "registry_ok w data \<Longrightarrow> forced_ok w data \<Longrightarrow> type_index w data = Inr idx \<Longrightarrow> index_ok w idx"
  using type_index_entry [of w data idx] by (auto simp: index_ok_def)

lemma index_ok_dict [dest]: "index_ok w idx \<Longrightarrow> dict_ok idx"
  by (simp add: index_ok_def)

lemma chosen_known:
  assumes "index_ok w idx" and "i \<in> chosen_types idx d"
  shows "i \<in> keys idx" and "is_concrete w i"
  using assms kind.chosen_from [of i "dep_kind d" "idx_details idx (dep_type d)"]
  by (auto simp: chosen_types_def index_ok_def idx_details_def)

lemma prerequisites_total:
  assumes ok: "index_ok w idx"
    and adm: "\<And>d. d \<in> set (idx_dependencies idx t) \<Longrightarrow> admits (dep_kind d) (idx_details idx (dep_type d))"
  shows "\<exists>ps. prerequisites w idx t = Inr ps \<and> set ps \<subseteq> keys idx"
proof (cases "is_concrete w t")
  case False
  then show ?thesis by (simp add: prerequisites_def)
next
  case True
  let ?c = "\<lambda>d. choose_injected_types (dep_kind d) (idx_details idx (dep_type d))"
  let ?ds = "idx_dependencies idx t"
  let ?rs = "fold (\<lambda>d. set_update (?c d)) ?ds []"
  have elems: "\<exists>p. r = Some p \<and> p \<in> keys idx \<and> is_concrete w p" if "r \<in> set ?rs" for r
  proof -
    from that set_fold_update [of ?c ?ds "[]"] obtain d where d: "d \<in> set ?ds" "r \<in> set (?c d)" by auto
    from adm [OF d(1)] have "None \<notin> set (?c d)"
      using kind.validated_real kind_validates by blast
    with d obtain p where "r = Some p" "p \<in> chosen_types idx d"
      by (cases r) (auto simp: chosen_types_def)
    with chosen_known [OF ok] show ?thesis by blast
  qed
  define ps where "ps = map the ?rs"
  have rs: "?rs = map Some ps" unfolding ps_def map_map
    by (rule map_idI [symmetric]) (use elems in fastforce)
  have ps: "\<forall>p \<in> set ps. p \<in> keys idx \<and> is_concrete w p" using elems by (fastforce simp: ps_def)
  have "gather_requirements idx ?ds [] = Inr ?rs" using adm by (simp add: gather_requirements_Inr)
  moreover have "traverse (ConcreteTypeExpected_guard w) ?rs = Inr ps"
    using rs ps by (simp only: traverse_concrete) auto
  ultimately show ?thesis using True ps by (auto simp: prerequisites_def)
qed

end
