(* ===== verification/Lifecycle.thy ===== *)
theory Lifecycle
  imports Prelude
begin

text \<open>
  Lifecycles as context managers: \<open>thinking_injection/lifecycle.py\<close> and the object
  lifecycles of \<open>thinking_injection/context/simple.py\<close>. Running a \<open>with\<close> block is
  modelled by its trace (the calls made on the managed objects, in order) and by the
  exception that leaves it, if any. A context manager is what entering it does and what
  leaving it does, given the exception of the body.

  What the objects themselves do is the application's: a record of functions says which of
  their methods raises what.
\<close>

datatype 'o event =
    Inject 'o
  | Initialize 'o
  | Deinitialize 'o "exn option"
  | Reset 'o
  | Enter 'o
  | Exit 'o "exn option"
  | Configure 'o
  | Act nat

type_synonym 'o block = "'o event list \<times> exn option"

record 'o manager =
  mg_enter :: "'o block"
  mg_exit :: "exn option \<Rightarrow> 'o block"

definition with_block :: "'o manager \<Rightarrow> 'o block \<Rightarrow> 'o block" where
  "with_block m body =
     (case mg_enter m of
        (tr, Some e) \<Rightarrow> (tr, Some e)
      | (tr, None) \<Rightarrow>
          (case body of (tb, r) \<Rightarrow>
             (case mg_exit m r of (tx, r') \<Rightarrow> (tr @ tb @ tx, r'))))"

record 'o behaviour =
  initialize_raises :: "'o \<Rightarrow> exn option"
  deinitialize_raises :: "'o \<Rightarrow> exn option \<Rightarrow> exn option"
  reset_raises :: "'o \<Rightarrow> exn option"
  enter_raises :: "'o \<Rightarrow> exn option"
  exit_result :: "'o \<Rightarrow> exn option \<Rightarrow> exn option"
  is_initializable :: "'o \<Rightarrow> bool"
  is_resettable :: "'o \<Rightarrow> bool"

text \<open>
  \<open>Initializable.lifecycle\<close>: \<open>initialize\<close> runs outside the \<open>try\<close>, so when it raises
  nothing is deinitialised. \<open>except Exception\<close> notes the exception for \<open>deinitialize\<close>;
  an interrupt is not noted. An exception of \<open>deinitialize\<close> replaces the block's.
\<close>

definition noted :: "exn option \<Rightarrow> exn option" where
  "noted r = (case r of Some e \<Rightarrow> (if is_exception e then Some e else None) | None \<Rightarrow> None)"

definition initializable_lifecycle :: "'o behaviour \<Rightarrow> 'o \<Rightarrow> 'o manager" where
  "initializable_lifecycle b x =
     \<lparr>mg_enter = ([Initialize x], initialize_raises b x),
      mg_exit = (\<lambda>r. ([Deinitialize x (noted r)],
        case deinitialize_raises b x (noted r) of Some e \<Rightarrow> Some e | None \<Rightarrow> r))\<rparr>"

text \<open>A lifecycle of the application's own making; its exit may swallow an exception.\<close>

definition custom_lifecycle :: "'o behaviour \<Rightarrow> 'o \<Rightarrow> 'o manager" where
  "custom_lifecycle b x =
     \<lparr>mg_enter = ([Enter x], enter_raises b x),
      mg_exit = (\<lambda>r. ([Exit x r], exit_result b x r))\<rparr>"

definition target_lifecycle :: "'o behaviour \<Rightarrow> 'o \<Rightarrow> 'o manager" where
  "target_lifecycle b x =
     (if is_initializable b x then initializable_lifecycle b x else custom_lifecycle b x)"

section \<open>Object lifecycles\<close>

text \<open>
  An instance is held as a plain value, through its own lifecycle, or (an injectable one)
  injected first and, whatever happens next, reset last if it can be. \<open>injector\<close> is the
  exception the injection raises, if any.
\<close>

datatype lifecycle_kind = ValueLifecycle | LifecycleDelegator | InitializableLifecycle

definition value_lifecycle :: "'o manager" where
  "value_lifecycle = \<lparr>mg_enter = ([], None), mg_exit = (\<lambda>r. ([], r))\<rparr>"

definition delegator_lifecycle :: "'o behaviour \<Rightarrow> 'o \<Rightarrow> 'o manager" where
  "delegator_lifecycle b x =
     \<lparr>mg_enter = mg_enter (target_lifecycle b x), mg_exit = mg_exit (target_lifecycle b x)\<rparr>"

definition reset_finally :: "'o behaviour \<Rightarrow> 'o \<Rightarrow> 'o block \<Rightarrow> 'o block" where
  "reset_finally b x blk =
     (case blk of (tr, r) \<Rightarrow>
        if is_resettable b x
        then (tr @ [Reset x], case reset_raises b x of Some e \<Rightarrow> Some e | None \<Rightarrow> r)
        else (tr, r))"

definition injected_lifecycle :: "'o behaviour \<Rightarrow> exn option \<Rightarrow> 'o \<Rightarrow> 'o manager" where
  "injected_lifecycle b injector x =
     \<lparr>mg_enter =
        (case injector of
           Some e \<Rightarrow> reset_finally b x ([Inject x], Some e)
         | None \<Rightarrow>
             (case mg_enter (target_lifecycle b x) of
                (tr, Some e) \<Rightarrow> reset_finally b x (Inject x # tr, Some e)
              | (tr, None) \<Rightarrow> (Inject x # tr, None))),
      mg_exit = (\<lambda>r. reset_finally b x (mg_exit (target_lifecycle b x) r))\<rparr>"

fun object_lifecycle ::
  "'o behaviour \<Rightarrow> ('o \<Rightarrow> exn option) \<Rightarrow> lifecycle_kind \<times> 'o \<Rightarrow> 'o manager" where
  "object_lifecycle b injs (ValueLifecycle, x) = value_lifecycle"
| "object_lifecycle b injs (LifecycleDelegator, x) = delegator_lifecycle b x"
| "object_lifecycle b injs (InitializableLifecycle, x) = injected_lifecycle b (injs x) x"

section \<open>Composite lifecycles\<close>

text \<open>
  \<open>composite_lifecycle\<close> enters its delegates on an \<open>ExitStack\<close>, which leaves them in
  reverse order. When a delegate fails to enter, the ones entered before are left with its
  exception; should one of them swallow it, the generator ends without having yielded,
  which \<open>contextmanager\<close> reports as a \<open>RuntimeError\<close>.
\<close>

fun unwind :: "'o manager list \<Rightarrow> exn option \<Rightarrow> 'o block" where
  "unwind [] r = ([], r)"
| "unwind (m # ms) r =
     (case mg_exit m r of (t, r') \<Rightarrow> (case unwind ms r' of (t', r'') \<Rightarrow> (t @ t', r'')))"

fun enter_all :: "'o manager list \<Rightarrow> 'o manager list \<Rightarrow> 'o block" where
  "enter_all [] stack = ([], None)"
| "enter_all (d # ds) stack =
     (case mg_enter d of
        (t, None) \<Rightarrow> (case enter_all ds (d # stack) of (t', r) \<Rightarrow> (t @ t', r))
      | (t, Some e) \<Rightarrow>
          (case unwind stack (Some e) of
             (t', None) \<Rightarrow> (t @ t', Some RuntimeError)
           | (t', Some e') \<Rightarrow> (t @ t', Some e')))"

definition composite_lifecycle :: "'o manager list \<Rightarrow> 'o manager" where
  "composite_lifecycle delegates =
     \<lparr>mg_enter = enter_all delegates [], mg_exit = unwind (rev delegates)\<rparr>"

text \<open>The trace of entering managers that do not fail.\<close>

fun entered :: "'o manager list \<Rightarrow> 'o event list" where
  "entered [] = []"
| "entered (m # ms) = fst (mg_enter m) @ entered ms"

lemma enter_all_ok:
  "enter_all ds stack = (t, None) \<Longrightarrow>
   t = entered ds \<and> (\<forall>d \<in> set ds. snd (mg_enter d) = None)"
  by (induction ds stack arbitrary: t rule: enter_all.induct)
    (auto split: prod.splits option.splits)

lemma enter_all_fail:
  "enter_all ds stack = (t, Some e) \<Longrightarrow>
   \<exists>ds1 d ds2 td e0 tx r. ds = ds1 @ d # ds2 \<and> (\<forall>d \<in> set ds1. snd (mg_enter d) = None) \<and>
     mg_enter d = (td, Some e0) \<and> unwind (rev ds1 @ stack) (Some e0) = (tx, r) \<and>
     t = entered ds1 @ td @ tx \<and>
     e = (case r of None \<Rightarrow> RuntimeError | Some e' \<Rightarrow> e')"
proof (induction ds stack arbitrary: t e rule: enter_all.induct)
  case (1 stack)
  then show ?case by simp
next
  case (2 d ds stack)
  show ?case
  proof (cases "mg_enter d")
    case (Pair td en)
    show ?thesis
    proof (cases en)
      case None
      with 2(2) Pair obtain t' where rec: "enter_all ds (d # stack) = (t', Some e)" and t: "t = td @ t'"
        by (auto split: prod.splits)
      from 2(1) [OF Pair [symmetric] None rec] obtain ds1 d' ds2 td' e0 tx r where f:
        "ds = ds1 @ d' # ds2" "\<forall>d \<in> set ds1. snd (mg_enter d) = None"
        "mg_enter d' = (td', Some e0)" "unwind (rev ds1 @ d # stack) (Some e0) = (tx, r)"
        "t' = entered ds1 @ td' @ tx"
        "e = (case r of None \<Rightarrow> RuntimeError | Some e' \<Rightarrow> e')" by blast
      from f(1) have p1: "d # ds = (d # ds1) @ d' # ds2" by simp
      from f(2) Pair None have p2: "\<forall>d \<in> set (d # ds1). snd (mg_enter d) = None" by simp
      from f(4) have p3: "unwind (rev (d # ds1) @ stack) (Some e0) = (tx, r)" by simp
      from f(5) t Pair have p4: "t = entered (d # ds1) @ td' @ tx" by simp
      from p1 p2 f(3) p3 p4 f(6) show ?thesis by blast
    next
      case (Some e0)
      obtain tx r where u: "unwind stack (Some e0) = (tx, r)" by fastforce
      with 2(2) Pair Some have "t = td @ tx" and "e = (case r of None \<Rightarrow> RuntimeError | Some e' \<Rightarrow> e')"
        by (auto split: option.splits)
      moreover have "d # ds = [] @ d # ds" and "\<forall>d \<in> set []. snd (mg_enter d) = None" by simp_all
      moreover have "mg_enter d = (td, Some e0)" using Pair Some by simp
      moreover have "unwind (rev [] @ stack) (Some e0) = (tx, r)" using u by simp
      moreover have "td @ tx = entered [] @ td @ tx" by simp
      ultimately show ?thesis by blast
    qed
  qed
qed

section \<open>Nesting\<close>

text \<open>
  What must be closed and what closes it, as tokens: a successful \<open>initialize\<close> by a
  \<open>deinitialize\<close>, an injection of a resettable object by a \<open>reset\<close>, a custom enter by
  its exit. \<open>nests\<close> runs tokens on a stack of what is open and fails when something is
  closed that is not the innermost open one.
\<close>

datatype 'o token = Open nat 'o | Close nat 'o

fun token_of :: "'o behaviour \<Rightarrow> 'o event \<Rightarrow> 'o token list" where
  "token_of b (Inject x) = (if is_resettable b x then [Open 1 x] else [])"
| "token_of b (Reset x) = [Close 1 x]"
| "token_of b (Initialize x) = (if initialize_raises b x = None then [Open 0 x] else [])"
| "token_of b (Deinitialize x r) = [Close 0 x]"
| "token_of b (Enter x) = (if enter_raises b x = None then [Open 2 x] else [])"
| "token_of b (Exit x r) = [Close 2 x]"
| "token_of b (Configure x) = []"
| "token_of b (Act n) = []"

fun nests :: "'o token list \<Rightarrow> (nat \<times> 'o) list \<Rightarrow> (nat \<times> 'o) list option" where
  "nests [] stack = Some stack"
| "nests (Open k x # ts) stack = nests ts ((k, x) # stack)"
| "nests (Close k x # ts) [] = None"
| "nests (Close k x # ts) (s # stack) = (if s = (k, x) then nests ts stack else None)"

definition nests_trace :: "'o behaviour \<Rightarrow> 'o event list \<Rightarrow> (nat \<times> 'o) list \<Rightarrow> (nat \<times> 'o) list option" where
  "nests_trace b tr stack = nests (concat (map (token_of b) tr)) stack"

definition well_nested :: "'o behaviour \<Rightarrow> 'o event list \<Rightarrow> bool" where
  "well_nested b tr \<longleftrightarrow> nests_trace b tr [] = Some []"

lemma nests_append: "nests (ts @ us) stack = Option.bind (nests ts stack) (nests us)"
  by (induction ts stack rule: nests.induct) auto

lemma nests_under: "nests ts stack = Some stack' \<Longrightarrow> nests ts (stack @ base) = Some (stack' @ base)"
  by (induction ts stack rule: nests.induct) (auto split: if_splits)

lemma nests_trace_append:
  "nests_trace b (t @ u) stack = Option.bind (nests_trace b t stack) (nests_trace b u)"
proof -
  have "nests_trace b u = nests (concat (map (token_of b) u))"
    by (simp add: fun_eq_iff nests_trace_def)
  then show ?thesis by (simp add: nests_trace_def nests_append)
qed

lemma well_nested_under: "well_nested b tr \<Longrightarrow> nests_trace b tr stack = Some stack"
  using nests_under [of "concat (map (token_of b) tr)" "[]" "[]" stack]
  by (simp add: well_nested_def nests_trace_def)

lemma well_nested_append: "well_nested b t \<Longrightarrow> well_nested b u \<Longrightarrow> well_nested b (t @ u)"
  by (simp add: well_nested_def nests_trace_append)

lemma nests_trace_Nil [simp]: "nests_trace b [] stack = Some stack"
  by (simp add: nests_trace_def)

text \<open>
  The contract of \<open>HasLifecycle\<close>, as the framework needs it: entering opens something and
  leaving closes exactly that, whichever way the body ended; a failed entering leaves
  nothing open.
\<close>

locale lifecycle_contract =
  fixes b :: "'o behaviour" and m :: "'o manager"
  assumes failed_enter: "mg_enter m = (te, Some e) \<Longrightarrow> well_nested b te"
    and enter_exit: "mg_enter m = (te, None) \<Longrightarrow>
      \<exists>opened. nests_trace b te [] = Some opened \<and>
        (\<forall>r. nests_trace b (fst (mg_exit m r)) opened = Some [])"
begin

lemma block_well_nested:
  assumes body: "well_nested b tb"
  shows "well_nested b (fst (with_block m (tb, r)))"
proof (cases "mg_enter m")
  case (Pair te en)
  show ?thesis
  proof (cases en)
    case (Some e)
    with Pair failed_enter show ?thesis by (simp add: with_block_def)
  next
    case None
    from enter_exit [of te] Pair None obtain opened where
      o: "nests_trace b te [] = Some opened"
      "\<And>r. nests_trace b (fst (mg_exit m r)) opened = Some []" by auto
    obtain tx r' where x: "mg_exit m r = (tx, r')" by fastforce
    from o(2) [of r] x have "nests_trace b tx opened = Some []" by simp
    with Pair None x o(1) well_nested_under [OF body, of opened] show ?thesis
      by (simp add: with_block_def well_nested_def nests_trace_append)
  qed
qed

end

lemma closed_under:
  "nests_trace b t stack = Some stack' \<Longrightarrow> nests_trace b t (stack @ base) = Some (stack' @ base)"
  by (simp add: nests_trace_def nests_under)

text \<open>Leaving a stack of managers closes what they opened, from the top.\<close>

inductive opened_by :: "'o behaviour \<Rightarrow> 'o manager list \<Rightarrow> (nat \<times> 'o) list \<Rightarrow> bool" for b where
  "opened_by b [] []"
| "(\<And>r. nests_trace b (fst (mg_exit m r)) opened = Some []) \<Longrightarrow> opened_by b ms base \<Longrightarrow>
   opened_by b (m # ms) (opened @ base)"

lemma unwind_closes:
  "opened_by b ms stack \<Longrightarrow> nests_trace b (fst (unwind ms r)) stack = Some []"
proof (induction ms stack arbitrary: r rule: opened_by.induct)
  case 1
  then show ?case by simp
next
  case (2 m opened ms base)
  obtain t r' where x: "mg_exit m r = (t, r')" by fastforce
  from 2(1) [of r] x have "nests_trace b t (opened @ base) = Some base"
    using closed_under [of b t opened "[]" base] by simp
  with 2(3) [of r'] x show ?case
    by (auto simp: nests_trace_append split: prod.splits)
qed

lemma opened_by_entering:
  assumes "\<And>m. m \<in> set ms \<Longrightarrow> lifecycle_contract b m"
    and "\<forall>m \<in> set ms. snd (mg_enter m) = None" and "opened_by b stack open0"
  shows "\<exists>open1. nests_trace b (entered ms) open0 = Some open1 \<and>
    opened_by b (rev ms @ stack) open1"
  using assms
proof (induction ms arbitrary: stack open0)
  case Nil
  then show ?case by auto
next
  case (Cons m ms)
  obtain te where e: "mg_enter m = (te, None)" using Cons.prems(2) by (cases "mg_enter m") auto
  from Cons.prems(1) [of m] lifecycle_contract.enter_exit [OF _ e]
  obtain opened where o: "nests_trace b te [] = Some opened"
    "\<And>r. nests_trace b (fst (mg_exit m r)) opened = Some []" by force
  from o(2) Cons.prems(3) have ob: "opened_by b (m # stack) (opened @ open0)"
    by (rule opened_by.intros)
  have "\<exists>open1. nests_trace b (entered ms) (opened @ open0) = Some open1 \<and>
      opened_by b (rev ms @ (m # stack)) open1"
    by (rule Cons.IH) (use Cons.prems(1,2) ob in auto)
  with closed_under [OF o(1), of open0] e show ?case by (auto simp: nests_trace_append)
qed

lemma composite_contract:
  assumes ms: "\<And>m. m \<in> set ms \<Longrightarrow> lifecycle_contract b m"
  shows "lifecycle_contract b (composite_lifecycle ms)"
proof
  fix te e assume "mg_enter (composite_lifecycle ms) = (te, Some e)"
  then have "enter_all ms [] = (te, Some e)" by (simp add: composite_lifecycle_def)
  from enter_all_fail [OF this] obtain ms1 m ms2 td e0 tx r where f:
    "ms = ms1 @ m # ms2" "\<forall>m \<in> set ms1. snd (mg_enter m) = None" "mg_enter m = (td, Some e0)"
    "unwind (rev ms1 @ []) (Some e0) = (tx, r)"
    "te = entered ms1 @ td @ tx" by blast
  have "\<exists>open1. nests_trace b (entered ms1) [] = Some open1 \<and>
      opened_by b (rev ms1 @ []) open1"
    by (rule opened_by_entering) (use ms f in \<open>auto intro: opened_by.intros\<close>)
  then obtain open1 where o: "nests_trace b (entered ms1) [] = Some open1"
    "opened_by b (rev ms1) open1" by auto
  have "well_nested b td" using ms [of m] f by (auto dest: lifecycle_contract.failed_enter)
  with o unwind_closes [OF o(2), of "Some e0"] f(4,5) show "well_nested b te"
    by (simp add: well_nested_def nests_trace_append well_nested_under)
next
  fix te assume "mg_enter (composite_lifecycle ms) = (te, None)"
  then have "enter_all ms [] = (te, None)" by (simp add: composite_lifecycle_def)
  from enter_all_ok [OF this] have te: "te = entered ms"
    "\<forall>m \<in> set ms. snd (mg_enter m) = None" by auto
  have "\<exists>open1. nests_trace b te [] = Some open1 \<and> opened_by b (rev ms @ []) open1"
    unfolding te(1) by (rule opened_by_entering) (use ms te(2) in \<open>auto intro: opened_by.intros\<close>)
  then show "\<exists>opened. nests_trace b te [] = Some opened \<and>
      (\<forall>r. nests_trace b (fst (mg_exit (composite_lifecycle ms) r)) opened = Some [])"
    using unwind_closes by (fastforce simp: composite_lifecycle_def)
qed

interpretation value_lc: lifecycle_contract b value_lifecycle for b
  by unfold_locales (auto simp: value_lifecycle_def)

lemma target_contract: "lifecycle_contract b (target_lifecycle b x)"
  by unfold_locales
    (auto simp: target_lifecycle_def initializable_lifecycle_def custom_lifecycle_def
      well_nested_def nests_trace_def split: if_splits)

interpretation delegator_lc: lifecycle_contract b "delegator_lifecycle b x" for b x
  using target_contract [of b x] by (cases "target_lifecycle b x") (simp add: delegator_lifecycle_def)

interpretation injected_lc: lifecycle_contract b "injected_lifecycle b injs x" for b injs x
  by unfold_locales
    (auto simp: injected_lifecycle_def target_lifecycle_def initializable_lifecycle_def
      custom_lifecycle_def reset_finally_def well_nested_def nests_trace_def
      split: option.splits if_splits)

interpretation object_lc: lifecycle_contract b "object_lifecycle b injs ko" for b injs ko
  by (cases "(b, injs, ko)" rule: object_lifecycle.cases)
    (auto intro: value_lc.lifecycle_contract_axioms delegator_lc.lifecycle_contract_axioms
      injected_lc.lifecycle_contract_axioms)

interpretation objects_lc:
  lifecycle_contract b "composite_lifecycle (map (object_lifecycle b injs) kos)" for b injs kos
  by (rule composite_contract) (auto intro: object_lc.lifecycle_contract_axioms)

section \<open>How a block ends\<close>

text \<open>
  With objects whose tear-down never raises nor swallows, a \<open>with\<close> block ends with the
  first failure of an entering or else the way its body ended.
\<close>

definition quiet :: "'o manager \<Rightarrow> bool" where
  "quiet m \<longleftrightarrow> (\<forall>r. snd (mg_exit m r) = r)"

lemma unwind_quiet: "\<forall>m \<in> set ms. quiet m \<Longrightarrow> snd (unwind ms r) = r"
  by (induction ms arbitrary: r) (auto simp: quiet_def split: prod.splits, metis snd_conv)

lemma composite_quiet: "\<forall>m \<in> set ms. quiet m \<Longrightarrow> quiet (composite_lifecycle ms)"
  by (simp add: quiet_def composite_lifecycle_def unwind_quiet [unfolded quiet_def])

end
