(* ===== verification/Instance_Index.thy ===== *)
theory Instance_Index
  imports Init_Order Lifecycle
begin

text \<open>
  \<open>SimpleInstanceIndex\<close> of \<open>thinking_injection/context/simple.py\<close>: for the time of a
  \<open>with\<close> block there is one instance of every concrete type of the index. The instances
  are made in the order of the index and then entered in that order, which injects and
  initialises them; a dependency is resolved by looking instances up.

  The classes of an application are a parameter: which of its constructors and injection
  methods raise, and how its objects behave in their lifecycle. An object is named by its
  class and a serial number, so two instances of a class are two objects.
\<close>

datatype obj = Instance (cls_of: ty) (serial: nat)

type_synonym lifecycles = "(ty, lifecycle_kind \<times> obj) dict"
type_synonym kwargs = "(string, obj injected) dict"

record application =
  Injectable_cls :: ty
  HasLifecycle_cls :: ty
  constructor_raises :: "ty \<Rightarrow> exn option"
  inject_requirements_raises :: "obj \<Rightarrow> kwargs \<Rightarrow> exn option"
  objects :: "obj behaviour"
  is_loopback :: "ty \<Rightarrow> bool"

section \<open>Making the instances\<close>

definition make_lifecycle :: "world \<Rightarrow> application \<Rightarrow> nat \<Rightarrow> ty \<Rightarrow> (lifecycle_kind \<times> obj) res" where
  "make_lifecycle w a n t =
     (case constructor_raises a t of
        Some e \<Rightarrow> Inl e
      | None \<Rightarrow>
          rbind (py_issubclass w t (Injectable_cls a))
            (\<lambda>injectable.
               if injectable then Inr (InitializableLifecycle, Instance t n)
               else rbind (py_issubclass w t (HasLifecycle_cls a))
                      (\<lambda>has_lifecycle.
                         if has_lifecycle then Inr (LifecycleDelegator, Instance t n)
                         else Inr (ValueLifecycle, Instance t n))))"

fun make_lifecycles ::
  "world \<Rightarrow> application \<Rightarrow> nat \<Rightarrow> ty list \<Rightarrow> (lifecycle_kind \<times> obj) list \<Rightarrow> lifecycles \<Rightarrow>
   ((lifecycle_kind \<times> obj) list \<times> lifecycles) res" where
  "make_lifecycles w a n [] made d = Inr (made, d)"
| "make_lifecycles w a n (t # ts) made d =
     rbind (make_lifecycle w a n t)
       (\<lambda>lc. make_lifecycles w a (Suc n) ts (made @ [lc]) (AList.update t lc d))"

section \<open>Looking instances up\<close>

definition lifecycle_target :: "lifecycles \<Rightarrow> ty option \<Rightarrow> obj res" where
  "lifecycle_target d i =
     (case Option.bind i (map_of d) of None \<Rightarrow> Inl KeyError | Some (k, x) \<Rightarrow> Inr x)"

definition instance_of :: "type_index \<Rightarrow> lifecycles \<Rightarrow> ty \<Rightarrow> bool \<Rightarrow> obj option res" where
  "instance_of index d t required =
     (case primary_implementation index t of
        None \<Rightarrow> (if required then Inl AssertionError else Inr None)
      | Some p \<Rightarrow> rbind (lifecycle_target d (Some p)) (\<lambda>x. Inr (Some x)))"

definition instances_of :: "type_index \<Rightarrow> lifecycles \<Rightarrow> ty \<Rightarrow> obj list res" where
  "instances_of index d t =
     rbind (traverse (\<lambda>x. lifecycle_target d (Some x)) (idx_implementations index t))
       (\<lambda>xs. Inr (set_update xs []))"

definition resolve_requirement ::
  "type_index \<Rightarrow> lifecycles \<Rightarrow> ty \<Rightarrow> dependency_kind \<Rightarrow> obj injected res" where
  "resolve_requirement index d t kind =
     (let chosen = choose_injected_types kind (idx_details index t)
      in case validate_injected_types kind t chosen of
           Inl (ExceptionGroup es) \<Rightarrow>
             Inl (DependencyValidationFailureException [(''self'', es)])
         | Inl e \<Rightarrow> Inl e
         | Inr _ \<Rightarrow> rbind (traverse (lifecycle_target d) chosen) (as_injected_value kind))"

definition resolve_dependency :: "type_index \<Rightarrow> lifecycles \<Rightarrow> dependency \<Rightarrow> obj injected res" where
  "resolve_dependency index d dep = resolve_requirement index d (dep_type dep) (dep_kind dep)"

section \<open>Injection\<close>

fun resolve_all ::
  "type_index \<Rightarrow> lifecycles \<Rightarrow> dependency list \<Rightarrow> kwargs \<Rightarrow> (string, exn list) dict \<Rightarrow>
   (kwargs \<times> (string, exn list) dict) res" where
  "resolve_all index d [] kwargs issues = Inr (kwargs, issues)"
| "resolve_all index d (dep # deps) kwargs issues =
     (case resolve_dependency index d dep of
        Inr v \<Rightarrow> resolve_all index d deps (AList.update (dep_name dep) v kwargs) issues
      | Inl (DependencyValidationFailureException excs) \<Rightarrow>
          (case map_of excs ''self'' of
             None \<Rightarrow> Inl KeyError
           | Some es \<Rightarrow> resolve_all index d deps kwargs (AList.update (dep_name dep) es issues))
      | Inl e \<Rightarrow> Inl e)"

definition injection_arguments :: "type_index \<Rightarrow> lifecycles \<Rightarrow> ty \<Rightarrow> kwargs res" where
  "injection_arguments index d t =
     rbind (resolve_all index d (idx_dependencies index t) [] [])
       (\<lambda>(kwargs, issues).
          if issues \<noteq> [] then Inl (DependencyValidationFailureException issues) else Inr kwargs)"

text \<open>\<open>_inject_instance\<close>, as the exception that leaves it.\<close>

definition inject_instance :: "application \<Rightarrow> type_index \<Rightarrow> lifecycles \<Rightarrow> ty \<Rightarrow> exn option" where
  "inject_instance a index d t =
     (case lifecycle_target d (Some t) of
        Inl e \<Rightarrow> Some e
      | Inr x \<Rightarrow>
          (case injection_arguments index d t of
             Inl e \<Rightarrow> Some e
           | Inr kwargs \<Rightarrow> inject_requirements_raises a x kwargs))"

section \<open>The lifecycle of the index\<close>

text \<open>
  \<open>_find_loopback\<close> and the constructor: exactly one known type must be a loopback; it gets
  the index as its delegate.
\<close>

definition find_loopback :: "application \<Rightarrow> ty list \<Rightarrow> ty res" where
  "find_loopback a types =
     rbind (WrongIterableSizeException_guard (filter (is_loopback a) types) 1) (\<lambda>cs. Inr (hd cs))"

record simple_instance_index =
  si_index :: type_index
  si_loopback :: ty
  si_lifecycles :: lifecycles

definition SimpleInstanceIndex :: "application \<Rightarrow> type_index option \<Rightarrow> simple_instance_index res" where
  "SimpleInstanceIndex a index =
     rbind (NoneValueException_guard index)
       (\<lambda>idx. rbind (find_loopback a (idx_known_types idx))
          (\<lambda>l. Inr \<lparr>si_index = idx, si_loopback = l, si_lifecycles = []\<rparr>))"

text \<open>
  \<open>with index: body\<close>. The body may look instances up, so it is a function of the
  lifecycles. Whatever happens, the lifecycles are cleared at the end. \<open>n\<close> is the serial
  number of the next object.
\<close>

definition with_index ::
  "networkx \<Rightarrow> world \<Rightarrow> application \<Rightarrow> nat \<Rightarrow> simple_instance_index \<Rightarrow> (lifecycles \<Rightarrow> obj block) \<Rightarrow>
   obj block \<times> simple_instance_index" where
  "with_index nx w a n s body =
     (case order nx w (si_index s) of
        (_, Some e) \<Rightarrow> ([], Some e)
      | (ts, None) \<Rightarrow>
          (case make_lifecycles w a n ts [] (si_lifecycles s) of
             Inl e \<Rightarrow> ([], Some e)
           | Inr (made, d) \<Rightarrow>
               with_block
                 (composite_lifecycle
                    (map (object_lifecycle (objects a)
                            (\<lambda>x. inject_instance a (si_index s) d (cls_of x))) made))
                 (body d)),
      s\<lparr>si_lifecycles := []\<rparr>)"

section \<open>Loopback\<close>

text \<open>
  The loopback forwards to the index bound to its class; before one is bound, every call
  raises. \<open>instance\<close> does not pass \<open>required\<close> on.
\<close>

definition loopback_delegate :: "'s option \<Rightarrow> 's res" where
  "loopback_delegate bound = NoneValueException_guard bound"

definition loopback_instance :: "simple_instance_index option \<Rightarrow> ty \<Rightarrow> bool \<Rightarrow> obj option res" where
  "loopback_instance bound t required =
     rbind (loopback_delegate bound) (\<lambda>s. instance_of (si_index s) (si_lifecycles s) t True)"

definition loopback_instances :: "simple_instance_index option \<Rightarrow> ty \<Rightarrow> obj list res" where
  "loopback_instances bound t =
     rbind (loopback_delegate bound) (\<lambda>s. instances_of (si_index s) (si_lifecycles s) t)"

definition loopback_resolve_dependency ::
  "simple_instance_index option \<Rightarrow> dependency \<Rightarrow> obj injected res" where
  "loopback_resolve_dependency bound d =
     rbind (loopback_delegate bound) (\<lambda>s. resolve_dependency (si_index s) (si_lifecycles s) d)"

section \<open>What is made\<close>

lemma make_lifecycle_Inr:
  "make_lifecycle w a n t = Inr lc \<Longrightarrow> snd lc = Instance t n"
  by (auto simp: make_lifecycle_def rbind_Inr_iff split: option.splits if_splits)

lemma make_lifecycle_injectable:
  "make_lifecycle w a n t = Inr lc \<Longrightarrow>
   fst lc = InitializableLifecycle \<longleftrightarrow> py_issubclass w t (Injectable_cls a) = Inr True"
  by (auto simp: make_lifecycle_def rbind_Inr_iff split: option.splits if_splits)

lemma make_lifecycles_Inr:
  "make_lifecycles w a n ts made d = Inr (made', d') \<Longrightarrow> distinct ts \<Longrightarrow> keys d \<inter> set ts = {} \<Longrightarrow>
   \<exists>lcs. made' = made @ lcs \<and> length lcs = length ts \<and> d' = d @ zip ts lcs \<and>
     (\<forall>i < length ts. make_lifecycle w a (n + i) (ts ! i) = Inr (lcs ! i))"
proof (induction w a n ts made d rule: make_lifecycles.induct)
  case (1 w a n made d)
  then show ?case by simp
next
  case (2 w a n t ts made d)
  from 2(2) obtain lc where lc: "make_lifecycle w a n t = Inr lc"
    and rest: "make_lifecycles w a (Suc n) ts (made @ [lc]) (AList.update t lc d) = Inr (made', d')"
    by (auto simp: rbind_Inr_iff)
  have d: "AList.update t lc d = d @ [(t, lc)]" using 2(4) by (auto intro: update_fresh)
  have "keys (AList.update t lc d) \<inter> set ts = {}" using 2(3,4) by (auto simp: dict_simps)
  from 2(1) [OF lc rest] this 2(3) obtain lcs where
    lcs: "made' = (made @ [lc]) @ lcs" "length lcs = length ts" "d' = (d @ [(t, lc)]) @ zip ts lcs"
      "\<forall>i < length ts. make_lifecycle w a (Suc n + i) (ts ! i) = Inr (lcs ! i)"
    unfolding d by auto
  have "make_lifecycle w a (n + i) ((t # ts) ! i) = Inr ((lc # lcs) ! i)" if "i < Suc (length ts)" for i
    using that lc lcs(4) by (cases i) auto
  with lcs show ?case by (intro exI [of _ "lc # lcs"]) auto
qed

lemma map_of_zip_lcs:
  assumes "distinct ts" and "length lcs = length ts" and "i < length ts"
  shows "map_of (zip ts lcs) (ts ! i) = Some (lcs ! i)"
  using assms by (auto simp: set_zip)

section \<open>Resolving succeeds\<close>

lemma lifecycle_target_known:
  assumes "t \<in> keys d"
  shows "\<exists>x. lifecycle_target d (Some t) = Inr x"
  using assms by (auto simp: lifecycle_target_def keys_iff_map_of)

text \<open>
  The value a dependency should receive, given the object \<open>tgt\<close> that stands for a type.
\<close>

fun expected_value :: "type_index \<Rightarrow> (ty \<Rightarrow> obj) \<Rightarrow> dependency \<Rightarrow> obj injected" where
  "expected_value index tgt dep =
     (case dep_kind dep of
        SIMPLE \<Rightarrow> TheObject (tgt (the (primary_implementation index (dep_type dep))))
      | OPTIONAL \<Rightarrow>
          (case primary_implementation index (dep_type dep) of
             None \<Rightarrow> NoObject | Some p \<Rightarrow> TheObject (tgt p))
      | COLLECTIVE \<Rightarrow> TheObjects (map tgt (idx_implementations index (dep_type dep))))"

lemma traverse_targets:
  assumes "\<And>i. i \<in> set is \<Longrightarrow> lifecycle_target d (Some i) = Inr (tgt i)"
  shows "traverse (lifecycle_target d) (map Some is) = Inr (map tgt is)"
  using assms by (induction "is") auto

lemma resolve_dependency_expected:
  assumes adm: "admits (dep_kind dep) (idx_details index (dep_type dep))"
    and tgt: "\<And>i. i \<in> chosen_types index dep \<Longrightarrow> lifecycle_target d (Some i) = Inr (tgt i)"
  shows "resolve_dependency index d dep = Inr (expected_value index tgt dep)"
proof -
  let ?t = "dep_type dep" and ?det = "idx_details index (dep_type dep)"
  from adm have val: "validate_injected_types (dep_kind dep) ?t (choose_injected_types (dep_kind dep) ?det) = Inr ()"
    by (simp add: kind_validates)
  show ?thesis
  proof (cases "dep_kind dep")
    case SIMPLE
    with adm obtain p where "primary_implementation index ?t = Some p"
      by (auto simp: admits_def idx_details_def)
    with SIMPLE val tgt show ?thesis
      by (simp add: resolve_dependency_def resolve_requirement_def Let_def idx_details_def chosen_types_def)
  next
    case OPTIONAL
    with val tgt show ?thesis
      by (cases "primary_implementation index ?t")
        (simp_all add: resolve_dependency_def resolve_requirement_def Let_def idx_details_def chosen_types_def)
  next
    case COLLECTIVE
    with val tgt traverse_targets [of "idx_implementations index ?t" d tgt] show ?thesis
      by (auto simp: resolve_dependency_def resolve_requirement_def Let_def idx_details_def chosen_types_def)
  qed
qed

lemma resolve_all_expected:
  assumes "\<And>dep. dep \<in> set deps \<Longrightarrow> resolve_dependency index d dep = Inr (v dep)"
  shows "resolve_all index d deps kwargs issues =
    Inr (fold (\<lambda>dep. AList.update (dep_name dep) (v dep)) deps kwargs, issues)"
  using assms by (induction deps arbitrary: kwargs) auto

lemma fold_update_lookup:
  assumes "distinct (map f xs)" and "x \<in> set xs"
  shows "map_of (fold (\<lambda>x. AList.update (f x) (v x)) xs d) (f x) = Some (v x)"
proof -
  have other: "map_of (fold (\<lambda>x. AList.update (f x) (v x)) ys d) k = map_of d k"
    if "k \<notin> f ` set ys" for ys d k
    using that by (induction ys arbitrary: d) (auto simp: dict_simps)
  from assms show ?thesis
  proof (induction xs arbitrary: d)
    case (Cons y ys)
    then show ?case by (cases "x = y") (auto simp: other dict_simps)
  qed simp
qed

lemma keys_fold_update: "keys (fold (\<lambda>x. AList.update (f x) (v x)) xs d) = keys d \<union> f ` set xs"
  by (induction xs arbitrary: d) (auto simp: dict_simps)

section \<open>Everything is injected\<close>

text \<open>The object that stands for a concrete type while the index is open.\<close>

definition target_of :: "lifecycles \<Rightarrow> ty \<Rightarrow> obj" where
  "target_of d t = (case map_of d t of Some (k, x) \<Rightarrow> x | None \<Rightarrow> Instance t 0)"

lemma lifecycle_target_of: "t \<in> keys d \<Longrightarrow> lifecycle_target d (Some t) = Inr (target_of d t)"
  by (auto simp: lifecycle_target_def target_of_def keys_iff_map_of)

lemma made_keys:
  assumes "make_lifecycles w a n ts [] [] = Inr (made, d)" and "distinct ts"
  shows "keys d = set ts"
proof -
  from make_lifecycles_Inr [OF assms] obtain lcs where "length lcs = length ts" "d = zip ts lcs"
    by auto
  then show ?thesis by (simp add: keys_def)
qed

lemma injection_arguments_expected:
  assumes dist: "distinct (map dep_name (idx_dependencies index t))"
    and deps: "\<And>dep. dep \<in> set (idx_dependencies index t) \<Longrightarrow>
      admits (dep_kind dep) (idx_details index (dep_type dep)) \<and> chosen_types index dep \<subseteq> keys d"
  shows "\<exists>kwargs. injection_arguments index d t = Inr kwargs \<and>
    keys kwargs = dep_name ` set (idx_dependencies index t) \<and>
    (\<forall>dep \<in> set (idx_dependencies index t).
       map_of kwargs (dep_name dep) = Some (expected_value index (target_of d) dep))"
proof -
  let ?deps = "idx_dependencies index t" and ?v = "expected_value index (target_of d)"
  let ?kw = "fold (\<lambda>dep. AList.update (dep_name dep) (?v dep)) ?deps []"
  have "resolve_dependency index d dep = Inr (?v dep)" if "dep \<in> set ?deps" for dep
    using deps [OF that] by (intro resolve_dependency_expected lifecycle_target_of) auto
  from resolve_all_expected [of ?deps, OF this] have "injection_arguments index d t = Inr ?kw"
    by (simp add: injection_arguments_def)
  moreover have "keys ?kw = dep_name ` set ?deps" by (simp add: keys_fold_update)
  moreover have "map_of ?kw (dep_name dep) = Some (?v dep)" if "dep \<in> set ?deps" for dep
    using fold_update_lookup [OF dist that] .
  ultimately show ?thesis by blast
qed

lemma ordered_injection:
  assumes nx: "topo_contract nx" and ok: "index_ok w index"
    and o: "order nx w index = (ts, None)"
    and made: "make_lifecycles w a n ts [] [] = Inr (made, d)"
    and t: "t \<in> set ts" and dep: "dep \<in> set (idx_dependencies index t)"
  shows "admits (dep_kind dep) (idx_details index (dep_type dep)) \<and> chosen_types index dep \<subseteq> keys d"
proof -
  note y = order_yields [OF nx index_ok_dict [OF ok] o]
  from y(2) t have conc: "is_concrete w t" by auto
  from y(4) [OF t] obtain ps where ps: "prerequisites w index t = Inr ps" by blast
  have "chosen_types index dep \<subseteq> set ts"
    using chosen_known [OF ok] y(2) by auto
  with prerequisites_Inr(4) [OF ps conc dep] made_keys [OF made y(1)] show ?thesis by simp
qed

section \<open>The order of events\<close>

lemma not_in_unwind:
  assumes "\<And>m r. m \<in> set ms \<Longrightarrow> e \<notin> set (fst (mg_exit m r))"
  shows "e \<notin> set (fst (unwind ms r))"
  using assms
proof (induction ms arbitrary: r)
  case (Cons m ms)
  obtain t r' where x: "mg_exit m r = (t, r')" by fastforce
  obtain t' r'' where y: "unwind ms r' = (t', r'')" by fastforce
  have "e \<notin> set (fst (unwind ms r'))" using Cons by simp
  moreover have "e \<notin> set (fst (mg_exit m r))" using Cons.prems by simp
  ultimately show ?case using x y by simp
qed simp

lemma enter_all_before:
  assumes "\<And>m r. m \<in> set (ds @ stack) \<Longrightarrow> e \<notin> set (fst (mg_exit m r))"
    and "e \<in> set (fst (enter_all ds stack))" and "i < j" and "j < length ds"
    and "\<And>k. k < length ds \<Longrightarrow> e \<in> set (fst (mg_enter (ds ! k))) \<Longrightarrow> k = j"
    and "snd (mg_enter (ds ! i)) = None \<Longrightarrow> s \<in> set (fst (mg_enter (ds ! i)))"
  shows "before s e (fst (enter_all ds stack))"
  using assms
proof (induction ds arbitrary: i j stack)
  case Nil
  then show ?case by simp
next
  case (Cons d ds)
  obtain t r where d: "mg_enter d = (t, r)" by fastforce
  have "e \<notin> set t" using Cons.prems(5) [of 0] Cons.prems(3) d by auto
  moreover have "e \<notin> set (fst (unwind stack q))" for q
    using Cons.prems(1) by (intro not_in_unwind) auto
  ultimately have r: "r = None" and rest: "e \<in> set (fst (enter_all ds (d # stack)))"
    using Cons.prems(2) d by (auto split: option.splits prod.splits) (metis fst_conv)+
  have tr: "fst (enter_all (d # ds) stack) = t @ fst (enter_all ds (d # stack))"
    using d r by (simp split: prod.splits)
  show ?case
  proof (cases i)
    case 0
    with Cons.prems(6) d r have "s \<in> set t" by simp
    with rest tr show ?thesis by (simp add: before_append)
  next
    case (Suc i')
    with Cons.prems(3) obtain j' where j: "j = Suc j'" by (cases j) auto
    have "before s e (fst (enter_all ds (d # stack)))"
    proof (rule Cons.IH [of "d # stack" i' j'])
      show "\<And>m r. m \<in> set (ds @ d # stack) \<Longrightarrow> e \<notin> set (fst (mg_exit m r))"
        using Cons.prems(1) by auto
      show "k < length ds \<Longrightarrow> e \<in> set (fst (mg_enter (ds ! k))) \<Longrightarrow> k = j'" for k
        using Cons.prems(5) [of "Suc k"] j by auto
    qed (use Cons.prems rest Suc j in auto)
    with tr show ?thesis by (simp add: before_append)
  qed
qed

text \<open>What marks that an object was started: its own lifecycle decides the event.\<close>

definition started :: "'o behaviour \<Rightarrow> 'o \<Rightarrow> 'o event" where
  "started b x = (if is_initializable b x then Initialize x else Enter x)"

lemma exit_injects_nothing: "Inject y \<notin> set (fst (mg_exit (object_lifecycle b injs ko) r))"
  by (cases "(b, injs, ko)" rule: object_lifecycle.cases)
    (auto simp: value_lifecycle_def delegator_lifecycle_def injected_lifecycle_def reset_finally_def
      target_lifecycle_def initializable_lifecycle_def custom_lifecycle_def split: prod.splits if_splits)

lemma enter_injects_own: "Inject y \<in> set (fst (mg_enter (object_lifecycle b injs ko))) \<Longrightarrow> y = snd ko"
  by (cases "(b, injs, ko)" rule: object_lifecycle.cases)
    (auto simp: value_lifecycle_def delegator_lifecycle_def injected_lifecycle_def reset_finally_def
      target_lifecycle_def initializable_lifecycle_def custom_lifecycle_def
      split: prod.splits if_splits option.splits)

lemma enter_starts:
  assumes "snd (mg_enter (object_lifecycle b injs ko)) = None" and "fst ko \<noteq> ValueLifecycle"
  shows "started b (snd ko) \<in> set (fst (mg_enter (object_lifecycle b injs ko)))"
  using assms
  by (cases "(b, injs, ko)" rule: object_lifecycle.cases)
    (auto simp: delegator_lifecycle_def injected_lifecycle_def reset_finally_def started_def
      target_lifecycle_def initializable_lifecycle_def custom_lifecycle_def
      split: prod.splits if_splits option.splits)

lemma before_ex_nth: "before x y xs \<Longrightarrow> \<exists>i j. i < j \<and> j < length xs \<and> xs ! i = x \<and> xs ! j = y"
proof (induction xs)
  case (Cons z zs)
  show ?case
  proof (cases "z = x \<and> y \<in> set zs")
    case True
    then obtain j where "j < length zs" "zs ! j = y" by (auto simp: in_set_conv_nth)
    with True show ?thesis by (intro exI [of _ 0] exI [of _ "Suc j"]) auto
  next
    case False
    with Cons obtain i j where "i < j \<and> j < length zs \<and> zs ! i = x \<and> zs ! j = y" by auto
    then show ?thesis by (intro exI [of _ "Suc i"] exI [of _ "Suc j"]) auto
  qed
qed simp

text \<open>A composite of object lifecycles injects an object only after an earlier one was started.\<close>

lemma block_starts_before_inject:
  assumes ij: "i < j" "j < length kos" and dist: "distinct (map snd kos)"
    and kind: "fst (kos ! i) \<noteq> ValueLifecycle"
    and blk: "with_block (composite_lifecycle (map (object_lifecycle b injs) kos)) body = (tr, r)"
    and inj: "Inject (snd (kos ! j)) \<in> set tr"
  shows "before (started b (snd (kos ! i))) (Inject (snd (kos ! j))) tr"
proof -
  let ?ms = "map (object_lifecycle b injs) kos" and ?e = "Inject (snd (kos ! j))"
  let ?s = "started b (snd (kos ! i))"
  obtain te en where en: "enter_all ?ms [] = (te, en)" by fastforce
  have no_exit: "?e \<notin> set (fst (mg_exit m r))" if "m \<in> set ?ms" for m r
    using that by (auto simp: exit_injects_nothing)
  have start: "?s \<in> set (fst (mg_enter (?ms ! i)))" if "snd (mg_enter (?ms ! i)) = None"
    using enter_starts [of b injs "kos ! i"] kind ij that by simp
  have entering: "before ?s ?e te" if "?e \<in> set te"
  proof -
    have "before ?s ?e (fst (enter_all ?ms []))"
    proof (rule enter_all_before [OF _ _ ij(1)])
      fix k assume "k < length ?ms" and "?e \<in> set (fst (mg_enter (?ms ! k)))"
      then have "snd (kos ! j) = snd (kos ! k)" using enter_injects_own by fastforce
      with dist ij \<open>k < length ?ms\<close> show "k = j"
        by (metis length_map nth_eq_iff_index_eq nth_map)
    qed (use that en ij start no_exit in simp_all)
    with en show ?thesis by simp
  qed
  show ?thesis
  proof (cases en)
    case (Some x)
    with blk en entering inj show ?thesis by (simp add: with_block_def composite_lifecycle_def)
  next
    case None
    with en have te: "te = entered ?ms" "\<forall>m \<in> set ?ms. snd (mg_enter m) = None"
      using enter_all_ok by blast+
    obtain tb rb where body: "body = (tb, rb)" by fastforce
    obtain tx rx where x: "unwind (rev ?ms) rb = (tx, rx)" by fastforce
    from blk en None body x have tr: "tr = te @ tb @ tx"
      by (simp add: with_block_def composite_lifecycle_def)
    have "?e \<notin> set tx"
      using not_in_unwind [of "rev ?ms" ?e rb] no_exit x by simp
    moreover have "?s \<in> set te"
    proof -
      have "?ms ! i \<in> set ?ms" using ij by simp
      with te(2) have "snd (mg_enter (?ms ! i)) = None" by blast
      from start [OF this] have "?s \<in> set (fst (mg_enter (?ms ! i)))" .
      moreover have "set (fst (mg_enter m)) \<subseteq> set (entered ms)" if "m \<in> set ms"
        for m :: "'a manager" and ms
        using that by (induction ms) auto
      ultimately show ?thesis using te(1) \<open>?ms ! i \<in> set ?ms\<close> by blast
    qed
    ultimately show ?thesis using inj entering tr by (auto simp: before_append)
  qed
qed

lemma made_objects:
  assumes "make_lifecycles w a n ts [] [] = Inr (made, d)" and "distinct ts"
  shows "length made = length ts" and "d = zip ts made" and "distinct (map snd made)"
    and "\<And>i. i < length ts \<Longrightarrow> snd (made ! i) = Instance (ts ! i) (n + i)"
proof -
  from make_lifecycles_Inr [OF assms] obtain lcs where lcs: "made = lcs" "length lcs = length ts"
    "d = zip ts lcs" "\<forall>i < length ts. make_lifecycle w a (n + i) (ts ! i) = Inr (lcs ! i)" by auto
  then show l: "length made = length ts" and "d = zip ts made" by simp_all
  show s: "snd (made ! i) = Instance (ts ! i) (n + i)" if "i < length ts" for i
    using that lcs make_lifecycle_Inr by blast
  show "distinct (map snd made)"
    using s l assms(2) by (auto simp: distinct_conv_nth)
qed

end
