(* ===== verification/Contexts.thy ===== *)
theory Contexts
  imports Instance_Index
begin

text \<open>
  Registries behind contexts: \<open>thinking_injection/registry/delegating.py\<close> (the union of
  type indexes), \<open>SimpleContext\<close> of \<open>thinking_injection/context/simple.py\<close> and the
  invoker of \<open>thinking_injection/invoker\<close>. The interface \<open>TypeRegistry\<close> of
  \<open>thinking_injection/registry/protocol.py\<close> is a locale, which the simple registry and
  (in the next theory) the configurable context interpret.
\<close>

section \<open>The interface of a registry\<close>

text \<open>
  What a client of \<open>TypeRegistry\<close> relies on. \<open>given\<close> are the types named in a call;
  \<open>known\<close> the known types. Removing may keep a type that the registry still needs.
\<close>

locale type_registry =
  fixes reg :: "'t list \<Rightarrow> 's \<Rightarrow> 's \<times> 'n list res"
    and rem :: "'t list \<Rightarrow> 's \<Rightarrow> 's \<times> unit res"
    and known :: "'s \<Rightarrow> 'n set"
    and given :: "'t list \<Rightarrow> 'n set"
    and inv :: "'s \<Rightarrow> bool"
  assumes reg_inv: "inv s \<Longrightarrow> reg t s = (s', Inr out) \<Longrightarrow> inv s'"
    and reg_known: "inv s \<Longrightarrow> reg t s = (s', Inr out) \<Longrightarrow>
      known s' = known s \<union> set out \<and> given t \<subseteq> known s'"
    and rem_inv: "inv s \<Longrightarrow> rem t s = (s', r) \<Longrightarrow> inv s'"
    and rem_known: "inv s \<Longrightarrow> rem t s = (s', Inr u) \<Longrightarrow> known s - given t \<subseteq> known s' \<and> known s' \<subseteq> known s"
begin

lemma register_then_known:
  assumes "inv s" and "reg t s = (s1, Inr out1)" and "reg t' s1 = (s2, Inr out2)"
  shows "inv s2" and "given t \<union> given t' \<subseteq> known s2" and "known s2 = known s \<union> set out1 \<union> set out2"
  using assms reg_inv reg_known by blast+

lemma remove_keeps_others:
  assumes "inv s" and "reg t s = (s1, Inr out)" and "rem t' s1 = (s2, Inr u)"
  shows "inv s2" and "given t - given t' \<subseteq> known s2"
  using assms reg_inv [OF assms(1,2)] reg_known [OF assms(1,2)] rem_inv rem_known by blast+

end

locale exact_registry = type_registry +
  assumes rem_exact: "inv s \<Longrightarrow> rem t s = (s', Inr u) \<Longrightarrow> known s' = known s - given t"
begin

lemma register_remove:
  assumes "inv s" and "reg t s = (s1, Inr out)" and "rem t s1 = (s2, Inr u)"
  shows "known s2 = known s \<union> set out - given t"
  using assms reg_inv reg_known rem_exact by blast

end

definition named_types :: "ty collectable list \<Rightarrow> ty set" where
  "named_types t = set (concat (map flatten_collectable t))"

lemma collect_none: "collect inst cs = (xs, None) \<Longrightarrow> xs = concat (map flatten_collectable cs)"
proof (induction inst cs arbitrary: xs rule: collect.induct)
  case (3 inst ys cs)
  have many: "collect_many inst zs = (us, None) \<Longrightarrow> us = zs" for zs us
    by (induction zs arbitrary: us) (auto split: if_splits prod.splits)
  from 3 many show ?case by (auto split: prod.splits option.splits)
qed (auto split: if_splits prod.splits)

lemma register_named:
  assumes "register w t data = (data', Inr out)"
  shows "keys data' = keys data \<union> set out" and "named_types t \<subseteq> keys data'"
proof -
  from assms obtain xs data1 u where c: "collect (is_type w) t = (xs, None)"
    and s: "scan w xs data [] = ((data1, out), Inr ())"
    and l: "link w (link_pairs out data1) data1 = (data', Inr u)"
    by (rule register_parts)
  from link_linked [OF l] have "keys data' = keys data1" by (simp add: linked_def keys_def)
  with scan_spec [OF s] collect_none [OF c] show "keys data' = keys data \<union> set out"
    and "named_types t \<subseteq> keys data'" by (auto simp: named_types_def)
qed

lemma remove_named:
  assumes "remove w t data = (data', Inr u)"
  shows "keys data' = keys data - named_types t"
  using assms collect_none [of "is_type w" t]
  by (auto simp: remove_def Let_def dict_simps named_types_def split: prod.splits option.splits)

lemma remove_state: "registry_ok w data \<Longrightarrow> remove w t data = (data', r) \<Longrightarrow> registry_ok w data'"
  using remove_ok by (auto simp: remove_def Let_def split: prod.splits)

interpretation simple_registry: exact_registry "register w" "remove w" keys named_types "registry_ok w" for w
proof
  show "registry_ok w s \<Longrightarrow> register w t s = (s', Inr out) \<Longrightarrow> registry_ok w s'" for s t s' out
    by (rule register_ok)
  show "register w t s = (s', Inr out) \<Longrightarrow> keys s' = keys s \<union> set out \<and> named_types t \<subseteq> keys s'" for s t s' out
    using register_named by blast
  show "registry_ok w s \<Longrightarrow> remove w t s = (s', r) \<Longrightarrow> registry_ok w s'" for s t s' r
    by (rule remove_state)
  show "remove w t s = (s', Inr u) \<Longrightarrow> keys s - named_types t \<subseteq> keys s' \<and> keys s' \<subseteq> keys s" for s t s' u
    using remove_named by blast
  show "remove w t s = (s', Inr u) \<Longrightarrow> keys s' = keys s - named_types t" for s t s' u
    by (rule remove_named)
qed

section \<open>Simple contexts\<close>

text \<open>
  A context registers its own machinery besides what it is given: the invoker interface and
  its implementation, the index interface and a loopback class made for this context. Each
  context has a loopback class of its own, so it is a parameter. The rest of
  \<open>SimpleContext\<close> is delegated to the registry.
\<close>

record machinery =
  Invoker_cls :: ty
  ContextfulInvoker_cls :: ty
  InstanceIndex_cls :: ty

definition always_registered :: "machinery \<Rightarrow> ty \<Rightarrow> ty list" where
  "always_registered m loopback =
     [Invoker_cls m, ContextfulInvoker_cls m, InstanceIndex_cls m, loopback]"

definition enhanced_typeset :: "machinery \<Rightarrow> ty \<Rightarrow> ty list option \<Rightarrow> ty list" where
  "enhanced_typeset m loopback typeset =
     set_update (always_registered m loopback)
       (set_update (case typeset of None \<Rightarrow> [] | Some ts \<Rightarrow> ts) [])"

definition SimpleContext :: "world \<Rightarrow> machinery \<Rightarrow> ty \<Rightarrow> ty list option \<Rightarrow> registry res" where
  "SimpleContext w m loopback typeset = SimpleRegistry w [Many (enhanced_typeset m loopback typeset)]"

definition SimpleContext_clone :: "world \<Rightarrow> machinery \<Rightarrow> ty \<Rightarrow> registry \<Rightarrow> registry res" where
  "SimpleContext_clone w m loopback registry =
     rbind (SimpleContext w m loopback None) (\<lambda>_. clone_registry w registry)"

definition SimpleContext_lifecycle :: "world \<Rightarrow> application \<Rightarrow> registry \<Rightarrow> simple_instance_index res" where
  "SimpleContext_lifecycle w a registry =
     rbind (type_index w registry) (\<lambda>idx. SimpleInstanceIndex a (Some idx))"

section \<open>Invoking with injected arguments\<close>

text \<open>
  \<open>ContextfulInvoker\<close>: its index is \<open>None\<close> until it is injected. The arguments are
  gathered by a comprehension, so the first dependency that cannot be resolved raises.
\<close>

definition gather_arguments ::
  "world \<Rightarrow> (dependency \<Rightarrow> 'o injected res) option \<Rightarrow> argspec \<Rightarrow> (string, 'o injected) dict res" where
  "gather_arguments w index spec =
     rbind (get_non_method_dependencies w spec)
       (\<lambda>deps. rbind
          (traverse (\<lambda>d. case index of
                           None \<Rightarrow> Inl AttributeError
                         | Some resolve \<Rightarrow> rbind (resolve d) (\<lambda>v. Inr (dep_name d, v))) deps)
          (\<lambda>items. Inr (fold (\<lambda>(k, v). AList.update k v) items [])))"

definition invoke ::
  "world \<Rightarrow> (dependency \<Rightarrow> 'o injected res) option \<Rightarrow> argspec \<Rightarrow>
   ((string, 'o injected) dict \<Rightarrow> 'r res) \<Rightarrow> 'r res" where
  "invoke w index spec callable = rbind (gather_arguments w index spec) callable"

lemma gather_arguments_expected:
  assumes deps: "get_non_method_dependencies w spec = Inr deps" and dist: "distinct (map dep_name deps)"
    and res: "\<And>d. d \<in> set deps \<Longrightarrow> resolve d = Inr (v d)"
  shows "\<exists>kwargs. gather_arguments w (Some resolve) spec = Inr kwargs \<and>
    keys kwargs = dep_name ` set deps \<and> (\<forall>d \<in> set deps. map_of kwargs (dep_name d) = Some (v d))"
proof -
  let ?f = "\<lambda>d. rbind (resolve d) (\<lambda>v. Inr (dep_name d, v))"
  have "traverse ?f deps = Inr (map (\<lambda>d. (dep_name d, v d)) deps)"
    using res by (auto simp: traverse_Inr_iff list_all2_conv_all_nth)
  moreover have "fold (\<lambda>(k, v). AList.update k v) (map (\<lambda>d. (dep_name d, v d)) deps) [] =
      fold (\<lambda>d. AList.update (dep_name d) (v d)) deps []"
    by (simp add: fold_map comp_def)
  ultimately have "gather_arguments w (Some resolve) spec =
      Inr (fold (\<lambda>d. AList.update (dep_name d) (v d)) deps [])"
    using deps by (simp add: gather_arguments_def)
  then show ?thesis using fold_update_lookup [OF dist] by (auto simp: keys_fold_update)
qed

section \<open>The union of indexes\<close>

text \<open>
  \<open>TypeIndexUnion\<close> browses its indexes in order. \<open>prerequisites\<close> skips an index that
  raises \<open>AssertionError\<close>, which a simple index does not do for a type it does not know.
  \<open>without\<close> calls the constructor without names, and \<open>tuple(None)\<close> is a
  \<open>TypeError\<close>; \<open>order\<close> passes an argument that the \<open>order\<close> of a simple index does
  not take. \<open>least_requiring\<close> calls a method that no index has.
\<close>

fun union_dependencies :: "type_index list \<Rightarrow> ty \<Rightarrow> dependency list" where
  "union_dependencies [] t = []"
| "union_dependencies (i # is) t =
     (let deps = idx_dependencies i t in if deps \<noteq> [] then deps else union_dependencies is t)"

fun union_implementations :: "type_index list \<Rightarrow> ty \<Rightarrow> ty list" where
  "union_implementations [] t = []"
| "union_implementations (i # is) t =
     (let impls = idx_implementations i t
      in if impls \<noteq> [] then impls else union_implementations is t)"

fun union_primary_implementation :: "type_index list \<Rightarrow> ty \<Rightarrow> ty option" where
  "union_primary_implementation [] t = None"
| "union_primary_implementation (i # is) t =
     (case primary_implementation i t of
        Some p \<Rightarrow> Some p
      | None \<Rightarrow> union_primary_implementation is t)"

fun union_prerequisites :: "world \<Rightarrow> type_index list \<Rightarrow> ty \<Rightarrow> ty list res" where
  "union_prerequisites w [] t = UnreachableInstructionException_guard"
| "union_prerequisites w (i # is) t =
     (case prerequisites w i t of
        Inl AssertionError \<Rightarrow> union_prerequisites w is t
      | r \<Rightarrow> r)"

definition union_known_types :: "type_index list \<Rightarrow> ty list" where
  "union_known_types is = set_update (concat (map idx_known_types is)) []"

definition union_known_concrete_types :: "world \<Rightarrow> type_index list \<Rightarrow> ty list" where
  "union_known_concrete_types w is = filter (is_concrete w) (union_known_types is)"

definition union_without :: "world \<Rightarrow> ty collectable list \<Rightarrow> type_index list \<Rightarrow> type_index list res" where
  "union_without w t is = rbind (traverse (idx_without w t) is) (\<lambda>_. Inl TypeError)"

fun union_order :: "type_index list \<Rightarrow> ty list \<times> exn option" where
  "union_order [] = ([], None)"
| "union_order (i # is) = ([], Some TypeError)"

text \<open>For indexes that know disjoint types, the union answers as the index that knows the type.\<close>

lemma unknown_queries:
  assumes "t \<notin> keys i"
  shows "idx_dependencies i t = []" and "idx_implementations i t = []" and "primary_implementation i t = None"
  using assms
  by (auto simp: not_keys_iff_map_of idx_dependencies_def idx_implementations_def primary_implementation_def)

lemma union_absent:
  "\<forall>j \<in> set js. t \<notin> keys j \<Longrightarrow>
   union_dependencies js t = [] \<and> union_implementations js t = [] \<and>
   union_primary_implementation js t = None"
  by (induction js) (auto simp: unknown_queries)

lemma union_queries:
  assumes "i \<in> set js" and "t \<in> keys i" and "\<And>j. j \<in> set js \<Longrightarrow> t \<in> keys j \<Longrightarrow> j = i"
  shows "union_dependencies js t = idx_dependencies i t \<and>
    union_implementations js t = idx_implementations i t \<and>
    union_primary_implementation js t = primary_implementation i t"
  using assms(1,3)
proof (induction js)
  case (Cons j js)
  have ih: "i \<in> set js \<Longrightarrow> union_dependencies js t = idx_dependencies i t \<and>
    union_implementations js t = idx_implementations i t \<and>
    union_primary_implementation js t = primary_implementation i t"
    using Cons by simp
  show ?case
  proof (cases "j = i")
    case False
    with Cons.prems have "t \<notin> keys j" "i \<in> set js" by auto
    with ih show ?thesis by (simp add: unknown_queries)
  next
    case True
    show ?thesis
    proof (cases "i \<in> set js")
      case True
      with ih \<open>j = i\<close> show ?thesis by (simp add: Let_def split: option.split)
    next
      case False
      with Cons.prems(2) have "\<forall>j \<in> set js. t \<notin> keys j" by auto
      with union_absent \<open>j = i\<close> show ?thesis by (simp add: Let_def split: option.split)
    qed
  qed
qed simp

end
