(* ===== verification/Configurable.thy ===== *)
theory Configurable
  imports Contexts
begin

text \<open>
  The configurable context of \<open>thinking_injection/context/configurable\<close>: two contexts, one
  for the types that configure and one for the business. Its lifecycle starts the
  configurators, lets them customise the business registry phase by phase, and only then
  starts the business.

  The phase and configurator classes are a parameter, and so is what a configurator of the
  application does to the registry; what the three ready-made kinds of configurator do is
  modelled here.
\<close>

record configuration =
  ConfigurationPhase_cls :: ty
  ContextConfigurator_cls :: ty
  SPECIALIZED_CONFIGURATOR_PHASES :: "(ty, ty) dict"
  phase_of :: "obj \<Rightarrow> obj option"
  configure_context :: "obj \<Rightarrow> registry \<Rightarrow> registry \<times> unit res"

definition is_configuration_item :: "world \<Rightarrow> configuration \<Rightarrow> ty \<Rightarrow> bool res" where
  "is_configuration_item w c t =
     rbind (py_issubclass w t (ConfigurationPhase_cls c))
       (\<lambda>b. if b then Inr True else py_issubclass w t (ContextConfigurator_cls c))"

section \<open>The ready-made configurators\<close>

text \<open>
  Each goes over the items of a dictionary it is asked for, which must not be \<open>None\<close>. The
  registry keeps what was done before an exception.
\<close>

definition provided :: "'m option \<Rightarrow> ('m \<Rightarrow> registry \<Rightarrow> registry \<times> unit res) \<Rightarrow> registry \<Rightarrow> registry \<times> unit res" where
  "provided mapping f data =
     (case NoneValueException_guard mapping of Inl e \<Rightarrow> (data, Inl e) | Inr m \<Rightarrow> f m data)"

fun apply_fallbacks :: "world \<Rightarrow> (ty, ty) dict \<Rightarrow> registry \<Rightarrow> registry \<times> unit res" where
  "apply_fallbacks w [] data = (data, Inr ())"
| "apply_fallbacks w ((i, impl) # items) data =
     (case customizer_all data i of
        Inl e \<Rightarrow> (data, Inl e)
      | Inr impls \<Rightarrow>
          (if impls = []
           then case register w [One impl] data of
                  (data', Inl e) \<Rightarrow> (data', Inl e)
                | (data', Inr _) \<Rightarrow> apply_fallbacks w items data'
           else apply_fallbacks w items data))"

definition FallbacksProvider_configure_context ::
  "world \<Rightarrow> (ty, ty) dict option \<Rightarrow> registry \<Rightarrow> registry \<times> unit res" where
  "FallbacksProvider_configure_context w fallbacks = provided fallbacks (apply_fallbacks w)"

fun apply_defaults :: "world \<Rightarrow> (ty, ty) dict \<Rightarrow> registry \<Rightarrow> registry \<times> unit res" where
  "apply_defaults w [] data = (data, Inr ())"
| "apply_defaults w ((t, impl) # items) data =
     (case rbind (customizer_primary w data t) (\<lambda>p. rbind (customizer_all data t) (\<lambda>all. Inr (p, all))) of
        Inl e \<Rightarrow> (data, Inl e)
      | Inr (primary, all) \<Rightarrow>
          (if primary = None \<and> length all > 1
           then (if impl \<in> set all
                 then case customizer_set_primary t (Some impl) data of
                        Inl e \<Rightarrow> (data, Inl e)
                      | Inr data' \<Rightarrow> apply_defaults w items data'
                 else (data, Inl AssertionError))
           else apply_defaults w items data))"

definition DefaultPrimaryImplementations_configure_context ::
  "world \<Rightarrow> (ty, ty) dict option \<Rightarrow> registry \<Rightarrow> registry \<times> unit res" where
  "DefaultPrimaryImplementations_configure_context w primaries = provided primaries (apply_defaults w)"

fun apply_forced :: "world \<Rightarrow> (ty, ty) dict \<Rightarrow> registry \<Rightarrow> registry \<times> unit res" where
  "apply_forced w [] data = (data, Inr ())"
| "apply_forced w ((t, impl) # items) data =
     (case customizer_all data t of
        Inl e \<Rightarrow> (data, Inl e)
      | Inr all \<Rightarrow>
          (case (if impl \<in> set all then (data, Inr []) else register w [One impl] data) of
             (data1, Inl e) \<Rightarrow> (data1, Inl e)
           | (data1, Inr _) \<Rightarrow>
               (case customizer_set_primary t (Some impl) data1 of
                  Inl e \<Rightarrow> (data1, Inl e)
                | Inr data2 \<Rightarrow> apply_forced w items data2)))"

definition ForcedPrimaryImplementations_configure_context ::
  "world \<Rightarrow> (ty, ty) dict option \<Rightarrow> registry \<Rightarrow> registry \<times> unit res" where
  "ForcedPrimaryImplementations_configure_context w forced = provided forced (apply_forced w)"

section \<open>Phases\<close>

definition specialized_configurator ::
  "world \<Rightarrow> configuration \<Rightarrow> ty \<Rightarrow> ty \<Rightarrow> configuration \<times> ty res" where
  "specialized_configurator w c p t =
     (case py_issubclass w t (ContextConfigurator_cls c) of
        Inl e \<Rightarrow> (c, Inl e)
      | Inr False \<Rightarrow> (c, Inl InvalidInternalTypeException)
      | Inr True \<Rightarrow>
          (if t \<in> keys (SPECIALIZED_CONFIGURATOR_PHASES c) then (c, Inl AssertionError)
           else (c\<lparr>SPECIALIZED_CONFIGURATOR_PHASES :=
                     AList.update t p (SPECIALIZED_CONFIGURATOR_PHASES c)\<rparr>, Inr t)))"

fun required_phase :: "world \<Rightarrow> (ty, ty) dict \<Rightarrow> obj \<Rightarrow> ty option res" where
  "required_phase w [] configurator = Inr None"
| "required_phase w ((c, p) # items) configurator =
     rbind (py_issubclass w (cls_of configurator) c)
       (\<lambda>b. if b then Inr (Some p) else required_phase w items configurator)"

text \<open>The class of \<open>None\<close> is not a subclass of any phase.\<close>

definition phase_is_a :: "world \<Rightarrow> obj option \<Rightarrow> ty \<Rightarrow> bool res" where
  "phase_is_a w phase required =
     (case phase of None \<Rightarrow> Inr False | Some x \<Rightarrow> py_issubclass w (cls_of x) required)"

definition declares_allowed_phase :: "world \<Rightarrow> configuration \<Rightarrow> obj \<Rightarrow> ty option \<Rightarrow> bool res" where
  "declares_allowed_phase w c configurator required =
     rbind (NoneValueException_guard required)
       (\<lambda>r. rbind (if r = ConfigurationPhase_cls c
                   then required_phase w (SPECIALIZED_CONFIGURATOR_PHASES c) configurator
                   else Inr (Some r))
              (\<lambda>r'. case r' of
                      None \<Rightarrow> Inr True
                    | Some r'' \<Rightarrow> phase_is_a w (phase_of c configurator) r''))"

definition ConfiguratorPhaseMismatch_guard :: "world \<Rightarrow> configuration \<Rightarrow> obj \<Rightarrow> unit res" where
  "ConfiguratorPhaseMismatch_guard w c configurator =
     rbind (declares_allowed_phase w c configurator (Some (ConfigurationPhase_cls c)))
       (\<lambda>ok. if ok then Inr () else Inl (ConfiguratorPhaseMismatchException (cls_of configurator)))"

text \<open>
  The loop that sorts the instances of the configurators' context into phases and
  configurators. \<open>per_phase\<close> is the default dictionary of lists.
\<close>

type_synonym per_phase = "(obj option, obj list) dict"

definition configurators_in :: "per_phase \<Rightarrow> obj option \<Rightarrow> obj list" where
  "configurators_in per_phase p = (case map_of per_phase p of None \<Rightarrow> [] | Some cs \<Rightarrow> cs)"

definition sort_instance ::
  "world \<Rightarrow> configuration \<Rightarrow> obj \<Rightarrow> obj list \<times> per_phase \<Rightarrow> (obj list \<times> per_phase) res" where
  "sort_instance w c x acc =
     (case acc of (phases, per_phase) \<Rightarrow>
        rbind (py_issubclass w (cls_of x) (ConfigurationPhase_cls c))
          (\<lambda>is_phase.
             if is_phase then Inr (phases @ [x], per_phase)
             else rbind (py_issubclass w (cls_of x) (ContextConfigurator_cls c))
                    (\<lambda>is_configurator.
                       if is_configurator
                       then rbind (ConfiguratorPhaseMismatch_guard w c x)
                              (\<lambda>_. let k = phase_of c x
                                   in Inr (phases,
                                           AList.update k (configurators_in per_phase k @ [x]) per_phase))
                       else Inr (phases, per_phase))))"

fun gather_configurators ::
  "world \<Rightarrow> configuration \<Rightarrow> type_index \<Rightarrow> lifecycles \<Rightarrow> ty list \<Rightarrow> obj list \<times> per_phase \<Rightarrow>
   (obj list \<times> per_phase) res" where
  "gather_configurators w c index d [] acc = Inr acc"
| "gather_configurators w c index d (t # ts) acc =
     rbind (instance_of index d t True)
       (\<lambda>i. case i of
              None \<Rightarrow> gather_configurators w c index d ts acc
            | Some x \<Rightarrow> rbind (sort_instance w c x acc) (gather_configurators w c index d ts))"

fun run_configurators ::
  "configuration \<Rightarrow> obj list \<Rightarrow> registry \<Rightarrow> obj event list \<times> registry \<times> exn option" where
  "run_configurators c [] data = ([], data, None)"
| "run_configurators c (x # xs) data =
     (case configure_context c x data of
        (data', Inl e) \<Rightarrow> ([Configure x], data', Some e)
      | (data', Inr _) \<Rightarrow>
          (case run_configurators c xs data' of (tr, data'', r) \<Rightarrow> (Configure x # tr, data'', r)))"

definition configurators_by_phase :: "obj list \<Rightarrow> per_phase \<Rightarrow> obj list" where
  "configurators_by_phase phases per_phase =
     concat (map (\<lambda>p. configurators_in per_phase (Some p)) phases)"

section \<open>The lifecycle of the configurable context\<close>

text \<open>
  The configurators' index is open around everything. The order is read once more from the
  configurators' context while the instances are sorted; an exception at its end is raised
  when the sorting gets there. The objects of the business get serial numbers from \<open>m\<close> on.

  The handler of exceptions, which logs pictures of both indexes and raises again, is left out: every index can
  be drawn (\<open>logged_picture_drawn\<close> of \<open>Type_Graph\<close>), but when a configurator left the registry of the business
  without an index, the exception of \<open>type_index()\<close> takes the place of the first one.
\<close>

definition configured_body ::
  "networkx \<Rightarrow> world \<Rightarrow> application \<Rightarrow> configuration \<Rightarrow> nat \<Rightarrow> type_index \<Rightarrow> registry \<Rightarrow>
   (lifecycles \<Rightarrow> obj block) \<Rightarrow> lifecycles \<Rightarrow> obj block" where
  "configured_body nx w a c m config_index business body d =
     (case order nx w config_index of (ts, stop) \<Rightarrow>
        (case gather_configurators w c config_index d ts ([], []) of
           Inl e \<Rightarrow> ([], Some e)
         | Inr (phases, per_phase) \<Rightarrow>
             (case stop of
                Some e \<Rightarrow> ([], Some e)
              | None \<Rightarrow>
                  (case run_configurators c (configurators_by_phase phases per_phase) business of
                     (tr, business', Some e) \<Rightarrow> (tr, Some e)
                   | (tr, business', None) \<Rightarrow>
                       (case SimpleContext_lifecycle w a business' of
                          Inl e \<Rightarrow> (tr, Some e)
                        | Inr s \<Rightarrow>
                            (case fst (with_index nx w a m s body) of (tb, r) \<Rightarrow> (tr @ tb, r)))))))"

record configurable_context =
  configurators_context :: registry
  business_context :: registry

text \<open>\<open>lifecycle()\<close> works on clones of both registries, and so leaves the context alone.\<close>

definition with_configured_index ::
  "networkx \<Rightarrow> world \<Rightarrow> machinery \<Rightarrow> application \<Rightarrow> configuration \<Rightarrow> ty \<times> ty \<Rightarrow> nat \<times> nat \<Rightarrow>
   configurable_context \<Rightarrow> (lifecycles \<Rightarrow> obj block) \<Rightarrow> obj block" where
  "with_configured_index nx w mach a c loopbacks serials ctx body =
     (case rbind (SimpleContext_clone w mach (fst loopbacks) (configurators_context ctx))
             (\<lambda>conf. rbind (SimpleContext_clone w mach (snd loopbacks) (business_context ctx))
                (\<lambda>business. rbind (SimpleContext_lifecycle w a conf) (\<lambda>s. Inr (s, business)))) of
        Inl e \<Rightarrow> ([], Some e)
      | Inr (s, business) \<Rightarrow>
          fst (with_index nx w a (fst serials) s
            (configured_body nx w a c (snd serials) (si_index s) business body)))"

section \<open>The registry of the configurable context\<close>

fun register_each ::
  "world \<Rightarrow> configuration \<Rightarrow> ty list \<Rightarrow> ty list \<Rightarrow> configurable_context \<Rightarrow>
   configurable_context \<times> ty list res" where
  "register_each w c [] out ctx = (ctx, Inr out)"
| "register_each w c (x # xs) out ctx =
     (case is_configuration_item w c x of
        Inl e \<Rightarrow> (ctx, Inl e)
      | Inr True \<Rightarrow>
          (case register w [One x] (configurators_context ctx) of
             (data, Inl e) \<Rightarrow> (ctx\<lparr>configurators_context := data\<rparr>, Inl e)
           | (data, Inr new) \<Rightarrow>
               register_each w c xs (set_update new out) (ctx\<lparr>configurators_context := data\<rparr>))
      | Inr False \<Rightarrow>
          (case register w [One x] (business_context ctx) of
             (data, Inl e) \<Rightarrow> (ctx\<lparr>business_context := data\<rparr>, Inl e)
           | (data, Inr new) \<Rightarrow>
               register_each w c xs (set_update new out) (ctx\<lparr>business_context := data\<rparr>)))"

definition configurable_register ::
  "world \<Rightarrow> configuration \<Rightarrow> ty collectable list \<Rightarrow> configurable_context \<Rightarrow>
   configurable_context \<times> ty list res" where
  "configurable_register w c t ctx =
     (case collect (is_type w) t of (xs, stop) \<Rightarrow>
        (case register_each w c xs [] ctx of
           (ctx', Inl e) \<Rightarrow> (ctx', Inl e)
         | (ctx', Inr out) \<Rightarrow> (ctx', case stop of None \<Rightarrow> Inr out | Some e \<Rightarrow> Inl e)))"

text \<open>
  Removing sorts the types first, so that nothing is removed when the sorting raises. The
  contexts' own \<open>remove\<close> never raises \<open>UnknownTypesException\<close>, so nothing is collected.
\<close>

fun split_items :: "world \<Rightarrow> configuration \<Rightarrow> ty list \<Rightarrow> (ty list \<times> ty list) res" where
  "split_items w c [] = Inr ([], [])"
| "split_items w c (x # xs) =
     rbind (is_configuration_item w c x)
       (\<lambda>b. rbind (split_items w c xs)
          (\<lambda>(configurators, business).
             Inr (if b then (x # configurators, business) else (configurators, x # business))))"

definition configurable_remove ::
  "world \<Rightarrow> configuration \<Rightarrow> ty collectable list \<Rightarrow> configurable_context \<Rightarrow>
   configurable_context \<times> unit res" where
  "configurable_remove w c t ctx =
     (case collect (is_type w) t of (xs, stop) \<Rightarrow>
        (case split_items w c xs of
           Inl e \<Rightarrow> (ctx, Inl e)
         | Inr (configurators, business) \<Rightarrow>
             (case stop of
                Some e \<Rightarrow> (ctx, Inl e)
              | None \<Rightarrow>
                  (case remove w (map One configurators) (configurators_context ctx) of
                     (data, Inl e) \<Rightarrow> (ctx\<lparr>configurators_context := data\<rparr>, Inl e)
                   | (data, Inr _) \<Rightarrow>
                       (case remove w (map One business) (business_context ctx) of
                          (data', r) \<Rightarrow>
                            (ctx\<lparr>configurators_context := data, business_context := data'\<rparr>, r))))))"

definition configurable_known_types :: "configurable_context \<Rightarrow> ty list" where
  "configurable_known_types ctx =
     set_update (known_types (business_context ctx)) (known_types (configurators_context ctx))"

definition configurable_type_index :: "world \<Rightarrow> configurable_context \<Rightarrow> type_index list res" where
  "configurable_type_index w ctx =
     rbind (type_index w (configurators_context ctx))
       (\<lambda>i. rbind (type_index w (business_context ctx)) (\<lambda>j. Inr [i, j]))"

text \<open>
  The constructor. \<open>package_types\<close> are the discovered types of the package of the configurable
  context. Without a typeset it registers \<open>None\<close>, which cannot be collected.
\<close>

definition ConfigurableContext ::
  "world \<Rightarrow> machinery \<Rightarrow> configuration \<Rightarrow> ty \<times> ty \<Rightarrow> ty list \<Rightarrow> ty list option \<Rightarrow> configurable_context res" where
  "ConfigurableContext w mach c loopbacks package_types typeset =
     rbind (SimpleContext w mach (fst loopbacks) (Some package_types))
       (\<lambda>conf. rbind (SimpleContext w mach (snd loopbacks) None)
          (\<lambda>business.
             case typeset of
               None \<Rightarrow> Inl TypeError
             | Some ts \<Rightarrow>
                 (case configurable_register w c [Many ts]
                         \<lparr>configurators_context = conf, business_context = business\<rparr> of
                    (_, Inl e) \<Rightarrow> Inl e
                  | (ctx, Inr _) \<Rightarrow> Inr ctx)))"

text \<open>\<open>ConfiguredIndex.instance\<close> and \<open>instances\<close> ask the index that knows the type.\<close>

definition configured_instance ::
  "world \<Rightarrow> configuration \<Rightarrow> simple_instance_index \<Rightarrow> simple_instance_index \<Rightarrow> ty \<Rightarrow> bool \<Rightarrow> obj option res" where
  "configured_instance w c conf business t required =
     rbind (is_configuration_item w c t)
       (\<lambda>b. let s = (if b then conf else business) in instance_of (si_index s) (si_lifecycles s) t required)"

definition configured_instances ::
  "world \<Rightarrow> configuration \<Rightarrow> simple_instance_index \<Rightarrow> simple_instance_index \<Rightarrow> ty \<Rightarrow> obj list res" where
  "configured_instances w c conf business t =
     rbind (is_configuration_item w c t)
       (\<lambda>b. let s = (if b then conf else business) in instances_of (si_index s) (si_lifecycles s) t)"

section \<open>What configurators keep\<close>

lemma grows_forced: "grows d a d' \<Longrightarrow> md_forced_primary d' = md_forced_primary d"
  by (cases d; cases d') (simp add: grows_def)

lemma register_forced:
  assumes "register w t data = (data', Inr out)"
  shows "map_of data x = Some d \<Longrightarrow>
      \<exists>d'. map_of data' x = Some d' \<and> md_forced_primary d' = md_forced_primary d"
    and "x \<notin> keys data \<Longrightarrow> map_of data' x = Some d' \<Longrightarrow> md_forced_primary d' = None"
proof -
  from assms obtain xs data1 u where s: "scan w xs data [] = ((data1, out), Inr ())"
    and l: "link w (link_pairs out data1) data1 = (data', Inr u)"
    by (rule register_parts)
  from scan_spec [OF s] obtain ns where
    ns: "data1 = data @ map (\<lambda>n. (n, scanned w n)) ns" "distinct ns" "set ns \<inter> keys data = {}" by auto
  note lk = link_linked [OF l]
  from lk have keys': "keys data' = keys data1" by (simp add: linked_def keys_def)
  have same: "map_of data1 x = Some d1 \<Longrightarrow>
      \<exists>d'. map_of data' x = Some d' \<and> md_forced_primary d' = md_forced_primary d1" for d1
    using lk grows_forced by (fastforce simp: linked_def)
  show "map_of data x = Some d \<Longrightarrow> \<exists>d'. map_of data' x = Some d' \<and> md_forced_primary d' = md_forced_primary d"
    using same ns by (auto simp: map_add_def map_of_scanned dest: map_of_in_keys)
  assume x: "x \<notin> keys data" and d': "map_of data' x = Some d'"
  then have "x \<in> set ns" using keys' ns by (auto dest: map_of_in_keys)
  with ns x have "map_of data1 x = Some (scanned w x)"
    by (auto simp: map_add_def map_of_scanned not_keys_iff_map_of)
  from same [OF this] d' show "md_forced_primary d' = None"
    by (simp add: scanned_def first_descriptor_def)
qed

lemma register_forced_ok:
  assumes "register w t data = (data', Inr out)" and "forced_ok w data"
  shows "forced_ok w data'"
  unfolding forced_ok_def
proof (intro allI impI)
  fix x d' p assume d': "map_of data' x = Some d'" "md_forced_primary d' = Some p"
  show "p \<in> keys data' \<and> is_concrete w p"
  proof (cases "map_of data x")
    case None
    with register_forced(2) [OF assms(1) _ d'(1)] d'(2) show ?thesis by (simp add: not_keys_iff_map_of)
  next
    case (Some d)
    from register_forced(1) [OF assms(1) this] d' have "md_forced_primary d = Some p" by auto
    with Some assms(2) register_named(1) [OF assms(1)] show ?thesis by (auto simp: forced_ok_def)
  qed
qed

lemma set_primary_Inr:
  "customizer_set_primary t p data = Inr data' \<longleftrightarrow>
   t \<in> keys data \<and> data' = AList.map_entry t (\<lambda>d. d\<lparr>md_forced_primary := p\<rparr>) data"
  by (auto simp: customizer_set_primary_def implementations_of_def rbind_Inr_iff keys_iff_map_of
      split: option.splits)

lemma keys_map_entry [dict_simps]: "keys (AList.map_entry k f d) = keys d"
  by (simp add: keys_def map_fst_map_entry)

lemma set_primary_ok:
  assumes "registry_ok w data" and "customizer_set_primary t p data = Inr data'"
  shows "registry_ok w data'" and "keys data' = keys data"
proof -
  from assms(2) have d': "data' = AList.map_entry t (\<lambda>d. d\<lparr>md_forced_primary := p\<rparr>) data"
    by (simp add: set_primary_Inr)
  show "keys data' = keys data" by (simp add: d' dict_simps)
  have "dict_ok data'" using assms(1) by (auto simp: d' dict_ok_def map_fst_map_entry)
  with assms(1) show "registry_ok w data'"
    by (fastforce simp: registry_ok_def d' map_of_map_entry keys_map_entry split: if_splits option.splits)
qed

lemma set_primary_forced_ok:
  assumes "forced_ok w data" and "customizer_set_primary t (Some p) data = Inr data'"
    and "p \<in> keys data" and "is_concrete w p"
  shows "forced_ok w data'"
  using assms unfolding forced_ok_def set_primary_Inr
  by (fastforce simp: map_of_map_entry keys_map_entry split: if_splits option.splits)

lemma customizer_all_Inr: "customizer_all data t = Inr ts \<longleftrightarrow>
   (\<exists>d. map_of data t = Some d \<and> ts = md_implementations d)"
  by (auto simp: customizer_all_def implementations_of_def rbind_Inr_iff split: option.splits)

text \<open>\<open>primary_forced t p data\<close>: \<open>p\<close> is the primary of \<open>t\<close> by force.\<close>

definition primary_forced :: "ty \<Rightarrow> ty \<Rightarrow> registry \<Rightarrow> bool" where
  "primary_forced t p data \<longleftrightarrow> (\<exists>d. map_of data t = Some d \<and> md_forced_primary d = Some p)"

lemma primary_forced_index:
  assumes "primary_forced t p data" and "type_index w data = Inr idx"
  shows "primary_implementation idx t = Some p"
  using assms type_index_lookup(2) [OF assms(2), of t]
  by (fastforce simp: primary_forced_def primary_implementation_def freeze_descriptor_def)

lemma apply_forced_ok:
  "apply_forced w items data = (data', Inr ()) \<Longrightarrow> registry_ok w data \<Longrightarrow> forced_ok w data \<Longrightarrow>
   \<forall>(t, impl) \<in> set items. is_concrete w impl \<Longrightarrow> distinct (map fst items) \<Longrightarrow>
   registry_ok w data' \<and> forced_ok w data' \<and> keys data \<subseteq> keys data' \<and>
   (\<forall>(t, impl) \<in> set items. primary_forced t impl data') \<and>
   (\<forall>t p. t \<notin> fst ` set items \<longrightarrow> primary_forced t p data \<longrightarrow> primary_forced t p data')"
proof (induction w items data rule: apply_forced.induct)
  case (1 w data)
  then show ?case by auto
next
  case (2 w t impl items data)
  from 2(2) obtain all data1 out data2 where all: "customizer_all data t = Inr all"
    and reg: "(if impl \<in> set all then (data, Inr []) else register w [One impl] data) = (data1, Inr out)"
    and set: "customizer_set_primary t (Some impl) data1 = Inr data2"
    and rest: "apply_forced w items data2 = (data', Inr ())"
    by (auto split: sum.splits prod.splits)
  from all obtain d where d: "map_of data t = Some d" "all = md_implementations d"
    by (auto simp: customizer_all_Inr)
  have one: "registry_ok w data1 \<and> forced_ok w data1 \<and> keys data \<subseteq> keys data1 \<and> impl \<in> keys data1 \<and>
    (\<forall>t p. primary_forced t p data \<longrightarrow> primary_forced t p data1)"
  proof (cases "impl \<in> set all")
    case True
    with registry_okD(2) [OF 2(3) d(1)] d(2) reg 2(3,4) show ?thesis by auto
  next
    case False
    with reg have r: "register w [One impl] data = (data1, Inr out)" by simp
    from register_ok [OF 2(3) r] register_forced_ok [OF r 2(4)] register_named [OF r] register_forced(1) [OF r]
    show ?thesis by (fastforce simp: named_types_def primary_forced_def)
  qed
  from one have c1: "registry_ok w data1" "forced_ok w data1" "impl \<in> keys data1" by auto
  have conc: "is_concrete w impl" using 2(5) by simp
  note s = set_primary_ok [OF c1(1) set] set_primary_forced_ok [OF c1(2) set c1(3) conc]
  have forced2: "primary_forced u p data2 \<longleftrightarrow> (if u = t then p = impl else primary_forced u p data1)" for u p
    using set one d(1) by (auto simp: primary_forced_def set_primary_Inr map_of_map_entry keys_iff_map_of)
  have "registry_ok w data' \<and> forced_ok w data' \<and> keys data2 \<subseteq> keys data' \<and>
   (\<forall>(t, impl) \<in> set items. primary_forced t impl data') \<and>
   (\<forall>t p. t \<notin> fst ` set items \<longrightarrow> primary_forced t p data2 \<longrightarrow> primary_forced t p data')"
    using 2(1) [OF all reg [symmetric] refl set rest s(1,3)] 2(5,6) by auto
  with one s(2) forced2 2(6) show ?case by (auto simp: image_iff)
qed

lemma apply_fallbacks_ok:
  "apply_fallbacks w items data = (data', Inr ()) \<Longrightarrow> registry_ok w data \<Longrightarrow> forced_ok w data \<Longrightarrow>
   registry_ok w data' \<and> forced_ok w data' \<and> keys data \<subseteq> keys data' \<and>
   (\<forall>t p. primary_forced t p data \<longrightarrow> primary_forced t p data')"
proof (induction w items data rule: apply_fallbacks.induct)
  case (1 w data)
  then show ?case by auto
next
  case (2 w i impl items data)
  from 2(3) obtain impls where impls: "customizer_all data i = Inr impls" by (auto split: sum.splits)
  show ?case
  proof (cases "impls = []")
    case False
    with 2(3-5) impls show ?thesis by (intro 2(2) [OF impls]) auto
  next
    case True
    with 2(3) impls obtain data1 out where r: "register w [One impl] data = (data1, Inr out)"
      and rest: "apply_fallbacks w items data1 = (data', Inr ())"
      by (auto split: prod.splits sum.splits)
    from 2(1) [OF impls True r [symmetric] refl rest register_ok [OF 2(4) r] register_forced_ok [OF r 2(5)]]
      register_named(1) [OF r] register_forced(1) [OF r]
    show ?thesis by (fastforce simp: primary_forced_def)
  qed
qed

lemma implementations_mono:
  assumes "registry_ok w data" and "registry_ok w data'" and "keys data \<subseteq> keys data'"
    and "map_of data i = Some d" and "md_implementations d \<noteq> []"
  shows "\<exists>d'. map_of data' i = Some d' \<and> md_implementations d' \<noteq> []"
proof -
  from assms(5) have "hd (md_implementations d) \<in> set (md_implementations d)" by simp
  then have c: "hd (md_implementations d) \<in> keys data \<and> is_concrete w (hd (md_implementations d)) \<and>
      (hd (md_implementations d) = i \<or> py_issubclass w (hd (md_implementations d)) i = Inr True)"
    using registry_okD(2) [OF assms(1,4)] by blast
  from assms(3,4) obtain d' where d': "map_of data' i = Some d'"
    by (meson keys_iff_map_of map_of_in_keys subsetD)
  with c registry_okD(2) [OF assms(2) d'] assms(3) have "hd (md_implementations d) \<in> set (md_implementations d')"
    by blast
  with d' show ?thesis by auto
qed

lemma fallbacks_implemented:
  "apply_fallbacks w items data = (data', Inr ()) \<Longrightarrow> registry_ok w data \<Longrightarrow> forced_ok w data \<Longrightarrow>
   (i, impl) \<in> set items \<Longrightarrow>
   (\<exists>d. map_of data' i = Some d \<and> md_implementations d \<noteq> []) \<or> i \<in> keys data' \<and> impl \<in> keys data'"
proof (induction w items data rule: apply_fallbacks.induct)
  case (1 w data)
  then show ?case by simp
next
  case (2 w j jimpl items data)
  from 2(3) obtain impls where impls: "customizer_all data j = Inr impls" by (auto split: sum.splits)
  then obtain dj where dj: "map_of data j = Some dj" "impls = md_implementations dj"
    by (auto simp: customizer_all_Inr)
  show ?case
  proof (cases "impls = []")
    case False
    with 2(3) impls have rest: "apply_fallbacks w items data = (data', Inr ())" by simp
    from apply_fallbacks_ok [OF rest 2(4,5)] implementations_mono [OF 2(4) _ _ dj(1)] False dj(2)
    have "\<exists>d. map_of data' j = Some d \<and> md_implementations d \<noteq> []" by blast
    with 2(2) [OF impls False rest 2(4,5)] 2(6) show ?thesis by auto
  next
    case True
    with 2(3) impls obtain data1 out where r: "register w [One jimpl] data = (data1, Inr out)"
      and rest: "apply_fallbacks w items data1 = (data', Inr ())"
      by (auto split: prod.splits sum.splits)
    note ok1 = register_ok [OF 2(4) r] register_forced_ok [OF r 2(5)]
    from register_named [OF r] dj apply_fallbacks_ok [OF rest ok1]
    have "j \<in> keys data' \<and> jimpl \<in> keys data'" by (auto simp: named_types_def dest: map_of_in_keys)
    with 2(1) [OF impls True r [symmetric] refl rest ok1] 2(6) show ?thesis by auto
  qed
qed

lemma customizer_primary_None:
  assumes "customizer_primary w data t = Inr None"
  shows "\<not> primary_forced t p data"
  using assms by (auto simp: customizer_primary_def implementations_of_def primary_forced_def)

lemma apply_defaults_ok:
  "apply_defaults w items data = (data', Inr ()) \<Longrightarrow> registry_ok w data \<Longrightarrow> forced_ok w data \<Longrightarrow>
   registry_ok w data' \<and> forced_ok w data' \<and> keys data' = keys data \<and>
   (\<forall>t p. primary_forced t p data \<longrightarrow> primary_forced t p data') \<and>
   (\<forall>t p. primary_forced t p data' \<longrightarrow> primary_forced t p data \<or> (t, p) \<in> set items)"
proof (induction w items data rule: apply_defaults.induct)
  case (1 w data)
  then show ?case by auto
next
  case (2 w t impl items data)
  let ?q = "rbind (customizer_primary w data t) (\<lambda>p. rbind (customizer_all data t) (\<lambda>all. Inr (p, all)))"
  from 2(3) obtain primary all where q: "?q = Inr (primary, all)" by (auto split: sum.splits)
  then have pa: "customizer_primary w data t = Inr primary" "customizer_all data t = Inr all"
    by (auto simp: rbind_Inr_iff)
  show ?case
  proof (cases "primary = None \<and> length all > 1")
    case False
    with 2(3) q have rest: "apply_defaults w items data = (data', Inr ())" by (auto split: if_splits)
    from 2(2) [OF q refl False rest 2(4,5)] show ?thesis by auto
  next
    case True
    with 2(3) q obtain data1 where mem: "impl \<in> set all"
      and s: "customizer_set_primary t (Some impl) data = Inr data1"
      and rest: "apply_defaults w items data1 = (data', Inr ())"
      by (auto split: if_splits sum.splits)
    from pa(2) obtain d where d: "map_of data t = Some d" "all = md_implementations d"
      by (auto simp: customizer_all_Inr)
    from registry_okD(2) [OF 2(4) d(1)] mem d(2) have impl: "impl \<in> keys data" "is_concrete w impl" by auto
    note ok1 = set_primary_ok(1) [OF 2(4) s] set_primary_forced_ok [OF 2(5) s impl]
    have f1: "primary_forced u p data1 \<longleftrightarrow> (if u = t then p = impl else primary_forced u p data)" for u p
      using s d(1) by (auto simp: primary_forced_def set_primary_Inr map_of_map_entry)
    have none: "\<not> primary_forced t p data" for p
      using customizer_primary_None pa(1) True by simp
    from 2(1) [OF q refl True mem s rest ok1] set_primary_ok(2) [OF 2(4) s] f1 none
    show ?thesis by (auto split: if_splits) metis+
  qed
qed

text \<open>What is reached from some types through dependencies that are not optional.\<close>

definition needed_by :: "world \<Rightarrow> ty set \<Rightarrow> ty set" where
  "needed_by w X = {n. \<exists>x \<in> X. (needs w)\<^sup>*\<^sup>* x n}"

lemma needed_by_mono: "X \<subseteq> Y \<Longrightarrow> needed_by w X \<subseteq> needed_by w Y"
  by (auto simp: needed_by_def)

lemma register_reaches:
  assumes "register w t data = (data', Inr out)"
  shows "set out \<inter> keys data = {}" and "set out \<subseteq> needed_by w (named_types t)"
proof -
  from assms obtain xs data1 u where c: "collect (is_type w) t = (xs, None)"
    and s: "scan w xs data [] = ((data1, out), Inr ())"
    and l: "link w (link_pairs out data1) data1 = (data', Inr u)"
    by (rule register_parts)
  from scan_spec [OF s] collect_none [OF c]
  show "set out \<inter> keys data = {}" and "set out \<subseteq> needed_by w (named_types t)"
    by (auto simp: needed_by_def named_types_def)
qed

text \<open>
  A type is implemented when an implementation of it is registered, and ambiguous when several are
  and none of them is the primary one.
\<close>

definition implemented :: "registry \<Rightarrow> ty \<Rightarrow> bool" where
  "implemented data i \<longleftrightarrow> (\<exists>d. map_of data i = Some d \<and> md_implementations d \<noteq> [])"

definition ambiguous :: "world \<Rightarrow> registry \<Rightarrow> ty \<Rightarrow> bool" where
  "ambiguous w data t \<longleftrightarrow>
     (\<exists>d. map_of data t = Some d \<and> length (md_implementations d) > 1) \<and> customizer_primary w data t = Inr None"

lemma apply_fallbacks_append:
  "apply_fallbacks w (xs @ ys) data =
     (case apply_fallbacks w xs data of
        (data', Inl e) \<Rightarrow> (data', Inl e) | (data', Inr _) \<Rightarrow> apply_fallbacks w ys data')"
  by (induction w xs data rule: apply_fallbacks.induct) (auto split: sum.splits prod.splits)

lemma apply_fallbacks_Cons:
  "customizer_all data i = Inr [] \<Longrightarrow> apply_fallbacks w ((i, impl) # items) data =
     (case register w [One impl] data of
        (data', Inl e) \<Rightarrow> (data', Inl e) | (data', Inr _) \<Rightarrow> apply_fallbacks w items data')"
  "implemented data i \<Longrightarrow> apply_fallbacks w ((i, impl) # items) data = apply_fallbacks w items data"
  by (auto simp: implemented_def customizer_all_def implementations_of_def split: option.splits)

text \<open>Only the fallbacks of types that are not implemented are registered, with what they need.\<close>

lemma apply_fallbacks_gaps:
  "apply_fallbacks w items data = (data', Inr ()) \<Longrightarrow> registry_ok w data \<Longrightarrow>
   keys data' \<subseteq> keys data \<union> needed_by w {impl. \<exists>i. (i, impl) \<in> set items \<and> \<not> implemented data i}"
proof (induction w items data rule: apply_fallbacks.induct)
  case (1 w data)
  then show ?case by auto
next
  case (2 w i impl items data)
  let ?gaps = "\<lambda>items data. {impl. \<exists>i. (i, impl) \<in> set items \<and> \<not> implemented data i}"
  from 2(3) obtain impls where impls: "customizer_all data i = Inr impls" by (auto split: sum.splits)
  show ?case
  proof (cases "impls = []")
    case False
    with 2(3) impls have "apply_fallbacks w items data = (data', Inr ())" by simp
    from 2(2) [OF impls False this 2(4)] needed_by_mono [of "?gaps items data" "?gaps ((i, impl) # items) data" w]
    show ?thesis by auto
  next
    case True
    with 2(3) impls obtain data1 out where r: "register w [One impl] data = (data1, Inr out)"
      and rest: "apply_fallbacks w items data1 = (data', Inr ())"
      by (auto split: prod.splits sum.splits)
    note ok1 = register_ok [OF 2(4) r]
    have later: "\<not> implemented data1 j \<Longrightarrow> \<not> implemented data j" for j
      using implementations_mono [OF 2(4) ok1] register_named(1) [OF r] unfolding implemented_def by blast
    have here: "\<not> implemented data i" using impls True by (auto simp: implemented_def customizer_all_Inr)
    have "keys data' \<subseteq> keys data1 \<union> needed_by w (?gaps items data1)"
      by (rule 2(1) [OF impls True r [symmetric] refl rest ok1])
    moreover have "needed_by w (?gaps items data1) \<subseteq> needed_by w (?gaps ((i, impl) # items) data)"
      using later by (intro needed_by_mono) auto
    moreover have "set out \<subseteq> needed_by w (?gaps ((i, impl) # items) data)"
      using register_reaches(2) [OF r] here by (auto simp: needed_by_def named_types_def)
    ultimately show ?thesis using register_named(1) [OF r] by blast
  qed
qed

lemma fallbacks_filled:
  assumes "apply_fallbacks w items data = (data', Inr ())" and "registry_ok w data" and "forced_ok w data"
    and "(i, impl) \<in> set items" and "implements w impl i"
  shows "implemented data' i"
  unfolding implemented_def
proof (rule disjE [OF fallbacks_implemented [OF assms(1-4)]])
  assume k: "i \<in> keys data' \<and> impl \<in> keys data'"
  then obtain d where d: "map_of data' i = Some d" by (auto simp: keys_iff_map_of)
  from apply_fallbacks_ok [OF assms(1-3)] have "registry_ok w data'" by simp
  from registry_okD(2) [OF this d] assms(5) k have "impl \<in> set (md_implementations d)"
    by (auto simp: implements_def)
  with d show "\<exists>d. map_of data' i = Some d \<and> md_implementations d \<noteq> []" by auto
qed

lemma apply_fallbacks_turn:
  assumes f: "apply_fallbacks w (pre @ (i, impl) # post) data = (data', Inr ())"
    and "registry_ok w data" and "forced_ok w data"
  shows "\<exists>before. apply_fallbacks w pre data = (before, Inr ()) \<and>
    (if implemented before i then apply_fallbacks w (pre @ post) data = (data', Inr ()) else impl \<in> keys data')"
proof -
  from f obtain before where b: "apply_fallbacks w pre data = (before, Inr ())"
    and rest: "apply_fallbacks w ((i, impl) # post) before = (data', Inr ())"
    by (auto simp: apply_fallbacks_append split: prod.splits sum.splits)
  show ?thesis
  proof (cases "implemented before i")
    case True
    from rest have "apply_fallbacks w post before = (data', Inr ())"
      by (simp only: apply_fallbacks_Cons(2) [OF True])
    with b True show ?thesis by (simp add: apply_fallbacks_append)
  next
    case False
    from rest obtain impls where "customizer_all before i = Inr impls" by (auto split: sum.splits)
    with False have "customizer_all before i = Inr []" by (auto simp: implemented_def customizer_all_Inr)
    with rest obtain data1 out where r: "register w [One impl] before = (data1, Inr out)"
      and rest': "apply_fallbacks w post data1 = (data', Inr ())"
      by (auto split: prod.splits sum.splits)
    from apply_fallbacks_ok [OF b assms(2,3)] register_ok [OF _ r] register_forced_ok [OF r]
    have "registry_ok w data1" "forced_ok w data1" by auto
    from apply_fallbacks_ok [OF rest' this] register_named(2) [OF r] have "impl \<in> keys data'"
      by (auto simp: named_types_def)
    with b False show ?thesis by simp
  qed
qed

lemma ambiguous_cong: "map_of data t = map_of data' t \<Longrightarrow> ambiguous w data t \<longleftrightarrow> ambiguous w data' t"
  by (simp add: ambiguous_def customizer_primary_def implementations_of_def figure_out_primary_def
      cong: option.case_cong)

text \<open>Default primaries set the primary of the given types that are ambiguous and change nothing else.\<close>

lemma apply_defaults_exact:
  "apply_defaults w items data = (data', Inr ()) \<Longrightarrow>
   map_of data' t =
     (if ambiguous w data t \<and> t \<in> keys items
      then Some ((the (map_of data t))\<lparr>md_forced_primary := map_of items t\<rparr>) else map_of data t)"
proof (induction w items data rule: apply_defaults.induct)
  case (1 w data)
  then show ?case by auto
next
  case (2 w u impl items data)
  let ?q = "rbind (customizer_primary w data u) (\<lambda>p. rbind (customizer_all data u) (\<lambda>all. Inr (p, all)))"
  from 2(3) obtain primary all where q: "?q = Inr (primary, all)" by (auto split: sum.splits)
  then have pa: "customizer_primary w data u = Inr primary" "customizer_all data u = Inr all"
    by (auto simp: rbind_Inr_iff)
  then have amb: "ambiguous w data u \<longleftrightarrow> primary = None \<and> length all > 1"
    by (auto simp: ambiguous_def customizer_all_Inr)
  show ?case
  proof (cases "primary = None \<and> length all > 1")
    case False
    with 2(3) q have rest: "apply_defaults w items data = (data', Inr ())" by (auto split: if_splits)
    from 2(2) [OF q refl False rest] amb False show ?thesis by (auto simp: keys_def)
  next
    case True
    with 2(3) q obtain data1 where mem: "impl \<in> set all"
      and s: "customizer_set_primary u (Some impl) data = Inr data1"
      and rest: "apply_defaults w items data1 = (data', Inr ())"
      by (auto split: if_splits sum.splits)
    have d1: "map_of data1 t = (if t = u then map_option (\<lambda>d. d\<lparr>md_forced_primary := Some impl\<rparr>) (map_of data t)
        else map_of data t)"
      using s by (auto simp: set_primary_Inr map_of_map_entry split: option.splits)
    have "\<not> ambiguous w data1 u"
      using s by (auto simp: set_primary_Inr map_of_map_entry ambiguous_def customizer_primary_def
          implementations_of_def keys_iff_map_of)
    with 2(1) [OF q refl True mem s rest] d1 amb True ambiguous_cong [of data1 t data w]
    show ?thesis by (auto simp: keys_def ambiguous_def)
  qed
qed

section \<open>Phases in order\<close>

text \<open>What the sorting of instances yields, for the instances \<open>xs\<close> in the order of the index.\<close>

definition is_phase :: "world \<Rightarrow> configuration \<Rightarrow> obj \<Rightarrow> bool" where
  "is_phase w c x \<longleftrightarrow> py_issubclass w (cls_of x) (ConfigurationPhase_cls c) = Inr True"

definition is_configurator :: "world \<Rightarrow> configuration \<Rightarrow> obj \<Rightarrow> bool" where
  "is_configurator w c x \<longleftrightarrow> \<not> is_phase w c x \<and>
     py_issubclass w (cls_of x) (ContextConfigurator_cls c) = Inr True"

lemma sort_instance_Inr:
  assumes "sort_instance w c x (phases, per) = Inr (phases', per')"
  shows "phases' = (if is_phase w c x then phases @ [x] else phases)"
    and "configurators_in per' k =
      (if is_configurator w c x \<and> phase_of c x = k then configurators_in per k @ [x]
       else configurators_in per k)"
proof -
  consider (phase) "py_issubclass w (cls_of x) (ConfigurationPhase_cls c) = Inr True"
    | (conf) "py_issubclass w (cls_of x) (ConfigurationPhase_cls c) = Inr False"
        "py_issubclass w (cls_of x) (ContextConfigurator_cls c) = Inr True"
    | (other) "py_issubclass w (cls_of x) (ConfigurationPhase_cls c) = Inr False"
        "py_issubclass w (cls_of x) (ContextConfigurator_cls c) = Inr False"
  proof -
    from assms obtain b where b: "py_issubclass w (cls_of x) (ConfigurationPhase_cls c) = Inr b"
      by (auto simp: sort_instance_def rbind_Inr_iff)
    show thesis
    proof (cases b)
      case True
      with b phase show thesis by simp
    next
      case False
      with assms b obtain b' where "py_issubclass w (cls_of x) (ContextConfigurator_cls c) = Inr b'"
        by (auto simp: sort_instance_def rbind_Inr_iff)
      with b False conf other show thesis by (cases b') auto
    qed
  qed
  then have "phases' = (if is_phase w c x then phases @ [x] else phases) \<and>
    configurators_in per' k =
      (if is_configurator w c x \<and> phase_of c x = k then configurators_in per k @ [x]
       else configurators_in per k)"
  proof cases
    case conf
    with assms have "phases' = phases"
      "per' = AList.update (phase_of c x) (configurators_in per (phase_of c x) @ [x]) per"
      by (auto simp: sort_instance_def rbind_Inr_iff Let_def)
    with conf show ?thesis
      by (simp add: is_phase_def is_configurator_def configurators_in_def dict_simps)
  qed (use assms in \<open>simp_all add: sort_instance_def is_phase_def is_configurator_def\<close>)
  then show "phases' = (if is_phase w c x then phases @ [x] else phases)"
    and "configurators_in per' k =
      (if is_configurator w c x \<and> phase_of c x = k then configurators_in per k @ [x]
       else configurators_in per k)" by blast+
qed

lemma gather_configurators_Inr:
  "gather_configurators w c index d ts (phases, per) = Inr (phases', per') \<Longrightarrow>
   list_all2 (\<lambda>t x. instance_of index d t True = Inr (Some x)) ts xs \<Longrightarrow>
   phases' = phases @ filter (is_phase w c) xs \<and>
   configurators_in per' k =
     configurators_in per k @ filter (\<lambda>x. is_configurator w c x \<and> phase_of c x = k) xs"
proof (induction ts arbitrary: phases per xs)
  case Nil
  then show ?case by simp
next
  case (Cons t ts)
  from Cons.prems(2) obtain x xs' where xs: "xs = x # xs'" "instance_of index d t True = Inr (Some x)"
    "list_all2 (\<lambda>t x. instance_of index d t True = Inr (Some x)) ts xs'"
    by (auto simp: list_all2_Cons1)
  with Cons.prems(1) obtain p1 q1 where one: "sort_instance w c x (phases, per) = Inr (p1, q1)"
    and rest: "gather_configurators w c index d ts (p1, q1) = Inr (phases', per')"
    by (auto simp: rbind_Inr_iff)
  from Cons.IH [OF rest xs(3)] sort_instance_Inr [OF one] xs(1) show ?case by auto
qed

lemma run_configurators_ok:
  "run_configurators c xs data = (tr, data', None) \<Longrightarrow> tr = map Configure xs"
  by (induction c xs data arbitrary: tr rule: run_configurators.induct)
    (auto split: prod.splits sum.splits)

lemma run_configurators_prefix:
  "\<exists>k. fst (run_configurators c xs data) = map Configure (take k xs)"
proof (induction c xs data rule: run_configurators.induct)
  case (1 c data)
  then show ?case by simp
next
  case (2 c x xs data)
  obtain data' r where conf: "configure_context c x data = (data', r)" by fastforce
  show ?case
  proof (cases r)
    case (Inl e)
    with conf show ?thesis by (intro exI [of _ 1]) simp
  next
    case (Inr u)
    from 2 [OF conf [symmetric] Inr] obtain k where
      "fst (run_configurators c xs data') = map Configure (take k xs)" ..
    with conf Inr show ?thesis by (intro exI [of _ "Suc k"]) (auto split: prod.splits)
  qed
qed

text \<open>A configurator of an earlier phase comes before one of a later phase.\<close>

lemma before_concat_map:
  "before p q ps \<Longrightarrow> x \<in> set (f p) \<Longrightarrow> y \<in> set (f q) \<Longrightarrow> before x y (concat (map f ps))"
  by (induction ps) (auto simp: before_append)

section \<open>The configurable context is a registry\<close>

definition context_ok :: "world \<Rightarrow> configurable_context \<Rightarrow> bool" where
  "context_ok w ctx \<longleftrightarrow> registry_ok w (configurators_context ctx) \<and> registry_ok w (business_context ctx)"

definition context_types :: "configurable_context \<Rightarrow> ty set" where
  "context_types ctx = keys (configurators_context ctx) \<union> keys (business_context ctx)"

lemma register_each_ok:
  "register_each w c xs out ctx = (ctx', Inr out') \<Longrightarrow> context_ok w ctx \<Longrightarrow> set out \<subseteq> context_types ctx \<Longrightarrow>
   context_ok w ctx' \<and> context_types ctx' = context_types ctx \<union> set out' \<and>
   set xs \<subseteq> context_types ctx' \<and> set out \<subseteq> set out'"
proof (induction w c xs out ctx rule: register_each.induct)
  case (1 w c out ctx)
  then show ?case by auto
next
  case (2 w c x xs out ctx)
  show ?case
  proof (cases "is_configuration_item w c x")
    case (Inl e)
    with 2(3) show ?thesis by simp
  next
    case (Inr b)
    show ?thesis
    proof (cases b)
      case True
      with Inr 2(3) obtain data new where
        r: "register w [One x] (configurators_context ctx) = (data, Inr new)"
        and rest: "register_each w c xs (set_update new out) (ctx\<lparr>configurators_context := data\<rparr>) =
          (ctx', Inr out')"
        by (auto split: prod.splits sum.splits)
      from register_named [OF r] have k: "keys data = keys (configurators_context ctx) \<union> set new"
        "x \<in> keys data" by (auto simp: named_types_def)
      have ok: "context_ok w (ctx\<lparr>configurators_context := data\<rparr>)"
        using 2(4) register_ok [OF _ r] by (auto simp: context_ok_def)
      have types: "context_types (ctx\<lparr>configurators_context := data\<rparr>) = context_types ctx \<union> set new"
        using k by (auto simp: context_types_def)
      have x: "x \<in> context_types ctx \<union> set new" using k by (auto simp: context_types_def)
      have out: "set (set_update new out) \<subseteq> context_types (ctx\<lparr>configurators_context := data\<rparr>)"
        using types 2(5) by auto
      from True have "b = True" by simp
      from 2(1) [OF Inr this r [symmetric] refl rest ok out] types x
      show ?thesis by auto
    next
      case False
      with Inr 2(3) obtain data new where
        r: "register w [One x] (business_context ctx) = (data, Inr new)"
        and rest: "register_each w c xs (set_update new out) (ctx\<lparr>business_context := data\<rparr>) =
          (ctx', Inr out')"
        by (auto split: prod.splits sum.splits)
      from register_named [OF r] have k: "keys data = keys (business_context ctx) \<union> set new"
        "x \<in> keys data" by (auto simp: named_types_def)
      have ok: "context_ok w (ctx\<lparr>business_context := data\<rparr>)"
        using 2(4) register_ok [OF _ r] by (auto simp: context_ok_def)
      have types: "context_types (ctx\<lparr>business_context := data\<rparr>) = context_types ctx \<union> set new"
        using k by (auto simp: context_types_def)
      have x: "x \<in> context_types ctx \<union> set new" using k by (auto simp: context_types_def)
      have out: "set (set_update new out) \<subseteq> context_types (ctx\<lparr>business_context := data\<rparr>)"
        using types 2(5) by auto
      from False have "b = False" by simp
      from 2(2) [OF Inr this r [symmetric] refl rest ok out] types x
      show ?thesis by auto
    qed
  qed
qed

text \<open>
  Which of the two contexts holds which types: the configuration items among the given types and
  what they need go to the context of the configurators, all others and what these need to the one
  of the business.
\<close>

definition routed :: "world \<Rightarrow> configuration \<Rightarrow> bool \<Rightarrow> ty set \<Rightarrow> ty set" where
  "routed w c b X = {x \<in> X. is_configuration_item w c x = Inr b}"

definition held_by :: "bool \<Rightarrow> configurable_context \<Rightarrow> ty set" where
  "held_by b ctx = keys (if b then configurators_context ctx else business_context ctx)"

definition routes :: "world \<Rightarrow> configuration \<Rightarrow> ty set \<Rightarrow> configurable_context \<Rightarrow> configurable_context \<Rightarrow> bool" where
  "routes w c X ctx ctx' \<longleftrightarrow>
     (\<forall>b. held_by b ctx \<subseteq> held_by b ctx' \<and> routed w c b X \<subseteq> held_by b ctx' \<and>
        held_by b ctx' \<subseteq> held_by b ctx \<union> needed_by w (routed w c b X))"

lemma routes_one:
  assumes "is_configuration_item w c x = Inr b"
    and "register w [One x] (if b then configurators_context ctx else business_context ctx) = (data, Inr new)"
  shows "routes w c {x} ctx
    (if b then ctx\<lparr>configurators_context := data\<rparr> else ctx\<lparr>business_context := data\<rparr>)"
  using assms(1) register_named [OF assms(2)] register_reaches(2) [OF assms(2)]
  by (cases b) (auto simp: routes_def held_by_def routed_def needed_by_def named_types_def all_bool_eq)

lemma growth_trans:
  "A \<subseteq> B \<Longrightarrow> P \<subseteq> B \<Longrightarrow> B \<subseteq> A \<union> M \<Longrightarrow> B \<subseteq> C \<Longrightarrow> Q \<subseteq> C \<Longrightarrow> C \<subseteq> B \<union> N \<Longrightarrow>
   A \<subseteq> C \<and> P \<union> Q \<subseteq> C \<and> C \<subseteq> A \<union> (M \<union> N)"
  by blast

lemma routes_trans:
  assumes "routes w c X ctx ctx1" and "routes w c Y ctx1 ctx2"
  shows "routes w c (X \<union> Y) ctx ctx2"
  unfolding routes_def
proof
  fix b
  have "routed w c b (X \<union> Y) = routed w c b X \<union> routed w c b Y"
    "needed_by w (routed w c b X \<union> routed w c b Y) = needed_by w (routed w c b X) \<union> needed_by w (routed w c b Y)"
    by (auto simp: routed_def needed_by_def)
  moreover from assms have one: "held_by b ctx \<subseteq> held_by b ctx1" "routed w c b X \<subseteq> held_by b ctx1"
    "held_by b ctx1 \<subseteq> held_by b ctx \<union> needed_by w (routed w c b X)"
    and two: "held_by b ctx1 \<subseteq> held_by b ctx2" "routed w c b Y \<subseteq> held_by b ctx2"
    "held_by b ctx2 \<subseteq> held_by b ctx1 \<union> needed_by w (routed w c b Y)"
    unfolding routes_def by blast+
  ultimately show "held_by b ctx \<subseteq> held_by b ctx2 \<and> routed w c b (X \<union> Y) \<subseteq> held_by b ctx2 \<and>
      held_by b ctx2 \<subseteq> held_by b ctx \<union> needed_by w (routed w c b (X \<union> Y))"
    using growth_trans [OF one two] by simp
qed

lemma register_each_routes:
  "register_each w c xs out ctx = (ctx', Inr out') \<Longrightarrow>
   routes w c (set xs) ctx ctx' \<and> (\<forall>x \<in> set xs. \<exists>b. is_configuration_item w c x = Inr b)"
proof (induction w c xs out ctx rule: register_each.induct)
  case (1 w c out ctx)
  then show ?case by (auto simp: routes_def routed_def)
next
  case (2 w c x xs out ctx)
  from 2(3) obtain b where b: "is_configuration_item w c x = Inr b" by (auto split: sum.splits)
  let ?in = "if b then configurators_context ctx else business_context ctx"
  from 2(3) b obtain data new where r: "register w [One x] ?in = (data, Inr new)"
    and rest: "register_each w c xs (set_update new out)
      (if b then ctx\<lparr>configurators_context := data\<rparr> else ctx\<lparr>business_context := data\<rparr>) = (ctx', Inr out')"
    by (cases b; cases "register w [One x] ?in"; cases "snd (register w [One x] ?in)") auto
  have "routes w c (set xs) (if b then ctx\<lparr>configurators_context := data\<rparr> else ctx\<lparr>business_context := data\<rparr>) ctx'
      \<and> (\<forall>x \<in> set xs. \<exists>b. is_configuration_item w c x = Inr b)"
  proof (cases b)
    case True
    from True have "b = True" by simp
    from 2(1) [OF b this] True r rest show ?thesis by auto
  next
    case False
    from False have "b = False" by simp
    from 2(2) [OF b this] False r rest show ?thesis by auto
  qed
  with routes_trans [OF routes_one [OF b r]] b show ?case by fastforce
qed

lemma configurable_register_Inr:
  assumes "configurable_register w c t ctx = (ctx', Inr out)"
  obtains xs where "collect (is_type w) t = (xs, None)" and "register_each w c xs [] ctx = (ctx', Inr out)"
  using assms that
  by (auto simp: configurable_register_def split: prod.splits sum.splits option.splits)

lemma split_items_set:
  "split_items w c xs = Inr (cs, bs) \<Longrightarrow> set cs \<union> set bs = set xs"
  by (induction xs arbitrary: cs bs) (fastforce simp: rbind_Inr_iff split: if_splits)+

lemma split_items_routed:
  "split_items w c xs = Inr (cs, bs) \<Longrightarrow>
   set cs = routed w c True (set xs) \<and> set bs = routed w c False (set xs)"
  by (induction xs arbitrary: cs bs) (fastforce simp: routed_def rbind_Inr_iff split: if_splits)+

lemma configurable_remove_state:
  assumes "context_ok w ctx" and "configurable_remove w c t ctx = (ctx', r)"
  shows "context_ok w ctx'"
  using assms remove_state
  by (fastforce simp: configurable_remove_def context_ok_def split: prod.splits sum.splits option.splits)

lemma named_types_One [simp]: "named_types (map One xs) = set xs"
  by (auto simp: named_types_def)

lemma configurable_remove_known:
  assumes "configurable_remove w c t ctx = (ctx', Inr u)"
  shows "context_types ctx - named_types t \<subseteq> context_types ctx' \<and> context_types ctx' \<subseteq> context_types ctx"
proof -
  from assms obtain xs cs bs data data' where c: "collect (is_type w) t = (xs, None)"
    and s: "split_items w c xs = Inr (cs, bs)"
    and r: "remove w (map One cs) (configurators_context ctx) = (data, Inr ())"
      "remove w (map One bs) (business_context ctx) = (data', Inr u)"
    and ctx': "ctx' = ctx\<lparr>configurators_context := data, business_context := data'\<rparr>"
    by (auto simp: configurable_remove_def split: prod.splits sum.splits option.splits)
  from remove_named [OF r(1)] remove_named [OF r(2)] split_items_set [OF s] collect_none [OF c]
  show ?thesis by (auto simp: context_types_def ctx' named_types_def)
qed

lemma configurable_register_routes:
  assumes "configurable_register w c t ctx = (ctx', Inr out)"
  shows "routes w c (named_types t) ctx ctx'"
    and "x \<in> named_types t \<Longrightarrow> \<exists>b. is_configuration_item w c x = Inr b"
proof -
  from assms obtain xs where xs: "collect (is_type w) t = (xs, None)"
    and r: "register_each w c xs [] ctx = (ctx', Inr out)"
    by (rule configurable_register_Inr)
  from collect_none [OF xs] register_each_routes [OF r]
  show "routes w c (named_types t) ctx ctx'"
    and "x \<in> named_types t \<Longrightarrow> \<exists>b. is_configuration_item w c x = Inr b"
    by (auto simp: named_types_def)
qed

lemma configurable_remove_routed:
  assumes "configurable_remove w c t ctx = (ctx', Inr u)"
  shows "held_by b ctx' = held_by b ctx - routed w c b (named_types t)"
proof -
  from assms obtain xs cs bs data data' where c: "collect (is_type w) t = (xs, None)"
    and s: "split_items w c xs = Inr (cs, bs)"
    and r: "remove w (map One cs) (configurators_context ctx) = (data, Inr ())"
      "remove w (map One bs) (business_context ctx) = (data', Inr u)"
    and ctx': "ctx' = ctx\<lparr>configurators_context := data, business_context := data'\<rparr>"
    by (auto simp: configurable_remove_def split: prod.splits sum.splits option.splits)
  from remove_named [OF r(1)] remove_named [OF r(2)] split_items_routed [OF s] collect_none [OF c]
  show ?thesis by (auto simp: held_by_def ctx' named_types_def)
qed

interpretation configurable_registry: type_registry "configurable_register w c" "configurable_remove w c"
  context_types named_types "context_ok w" for w c
proof
  show "context_ok w s \<Longrightarrow> configurable_register w c t s = (s', Inr out) \<Longrightarrow> context_ok w s'" for s t s' out
    by (erule configurable_register_Inr) (use register_each_ok in fastforce)
  show "context_ok w s \<Longrightarrow> configurable_register w c t s = (s', Inr out) \<Longrightarrow>
      context_types s' = context_types s \<union> set out \<and> named_types t \<subseteq> context_types s'" for s t s' out
    by (erule configurable_register_Inr)
      (use register_each_ok collect_none in \<open>fastforce simp: named_types_def\<close>)
  show "context_ok w s \<Longrightarrow> configurable_remove w c t s = (s', r) \<Longrightarrow> context_ok w s'" for s t s' r
    by (rule configurable_remove_state)
  show "configurable_remove w c t s = (s', Inr u) \<Longrightarrow>
      context_types s - named_types t \<subseteq> context_types s' \<and> context_types s' \<subseteq> context_types s" for s t s' u
    by (rule configurable_remove_known)
qed

end
