(* ===== verification/Example_World.thy ===== *)
theory Example_World
  imports Instance_Index
begin

text \<open>
  A small application, the concrete input of the witnesses: an interface \<open>Store\<close> (10) with
  the implementation \<open>MemStore\<close> (11), an injectable \<open>App\<close> (12) whose injection method
  asks for a store and for all stores, and a loopback (13). Types 1 and 2 are
  \<open>Injectable\<close> and \<open>HasLifecycle\<close>; 20 is the hint \<open>list[Store]\<close>.
\<close>

definition plain :: "string \<Rightarrow> ty list \<Rightarrow> argspec option \<Rightarrow> class_info" where
  "plain name supers spec =
     \<lparr>ci_name = name, ci_shape = PlainClass, ci_supers = supers, ci_none = False, ci_inject = spec\<rparr>"

definition app_spec :: argspec where
  "app_spec = \<lparr>args = [''self'', ''store'', ''stores''], defaults = None, kwonlyargs = [],
     kwonlydefaults = None, annotations = [(''store'', 10), (''stores'', 20)]\<rparr>"

definition ex_world :: world where
  "ex_world =
     \<lparr>classes =
        [(0, plain ''Guard'' [] None), (1, plain ''Injectable'' [2] None),
         (2, plain ''HasLifecycle'' [] None), (10, plain ''Store'' [] None),
         (11, plain ''MemStore'' [10, 1, 2] None), (12, plain ''App'' [1, 2] (Some app_spec)),
         (13, plain ''Loopback'' [] None),
         (20, (plain ''list[Store]'' [] None)\<lparr>ci_shape := ListAlias [10]\<rparr>)],
      guard_cls = 0, DISCOVERED_TYPES = [], INTERFACES = [1, 2, 10], PRIMARY_DATA = [],
      FALLBACK_DATA = []\<rparr>"

definition ex_registry :: registry where
  "ex_registry = fst (register ex_world [Many [12, 11], One 13] [])"

definition ex_index :: type_index where
  "ex_index = projr (type_index ex_world ex_registry)"

definition ex_behaviour :: "obj behaviour" where
  "ex_behaviour =
     \<lparr>initialize_raises = (\<lambda>_. None), deinitialize_raises = (\<lambda>_ _. None),
      reset_raises = (\<lambda>_. None), enter_raises = (\<lambda>_. None), exit_result = (\<lambda>_ r. r),
      is_initializable = (\<lambda>_. True), is_resettable = (\<lambda>x. cls_of x = 12)\<rparr>"

definition ex_application :: application where
  "ex_application =
     \<lparr>Injectable_cls = 1, HasLifecycle_cls = 2, constructor_raises = (\<lambda>_. None),
      inject_requirements_raises = (\<lambda>_ _. None), objects = ex_behaviour,
      is_loopback = (\<lambda>t. t = 13)\<rparr>"

definition ex_types :: "ty list" where
  "ex_types = [13, 11, 12]"

definition ex_lifecycles :: lifecycles where
  "ex_lifecycles = [(13, ValueLifecycle, Instance 13 0), (11, InitializableLifecycle, Instance 11 1),
     (12, InitializableLifecycle, Instance 12 2)]"

section \<open>The example is as the properties ask\<close>

lemma ex_registered: "register ex_world [Many [12, 11], One 13] [] = (ex_registry, Inr [12, 10, 11, 13])"
  by code_simp

lemma ex_registry_ok: "registry_ok ex_world ex_registry"
  using register_ok [OF registry_ok_Nil ex_registered] .

lemma ex_forced_ok: "forced_ok ex_world ex_registry"
proof -
  have "list_all (\<lambda>(t, d). md_forced_primary d = None) ex_registry" by code_simp
  then show ?thesis by (fastforce simp: forced_ok_def list_all_iff dest: map_of_SomeD)
qed

lemma ex_indexed: "type_index ex_world ex_registry = Inr ex_index"
  by code_simp

lemma ex_index_ok: "index_ok ex_world ex_index"
  by (rule type_index_ok [OF ex_registry_ok ex_forced_ok ex_indexed])

lemma ex_ordered: "order kahn_networkx ex_world ex_index = (ex_types, None)"
  by code_simp

lemma ex_made:
  "make_lifecycles ex_world ex_application 0 ex_types [] [] = Inr (map snd ex_lifecycles, ex_lifecycles)"
  by code_simp

end
