(* ===== verification/Configuration_Properties.thy ===== *)
theory Configuration_Properties
  imports Configurable Example_World
begin

text \<open>
  What contexts promise: registering and removing, the effect of the ready-made
  configurators on what is injected, and the order in which a configurable context
  configures itself.
\<close>

text \<open>
  The example extended: phases 32 and 33, where 33 asks for 32 to be injected, configurators
  34 (of phase 32) and 35 (of phase 33), and a second store 14.
\<close>

definition phase_spec :: argspec where
  "phase_spec = \<lparr>args = [''self'', ''phase''], defaults = None, kwonlyargs = [],
     kwonlydefaults = None, annotations = [(''phase'', 32)]\<rparr>"

definition ex_world2 :: world where
  "ex_world2 = ex_world
     \<lparr>classes := classes ex_world @
        [(14, plain ''DiskStore'' [10, 1, 2] None), (30, plain ''ConfigurationPhase'' [1, 2] None),
         (31, plain ''ContextConfigurator'' [1, 2] None), (32, plain ''P'' [30, 1, 2] None),
         (33, plain ''Q'' [30, 1, 2] (Some phase_spec)), (34, plain ''A'' [31, 1, 2] None),
         (35, plain ''B'' [31, 1, 2] None)],
      INTERFACES := [1, 2, 10, 30, 31]\<rparr>"

definition ex_configuration :: configuration where
  "ex_configuration =
     \<lparr>ConfigurationPhase_cls = 30, ContextConfigurator_cls = 31, SPECIALIZED_CONFIGURATOR_PHASES = [],
      phase_of = (\<lambda>x. if cls_of x = 34 then Some (Instance 32 0) else Some (Instance 33 0)),
      configure_context =
        (\<lambda>x data. if cls_of x = 34 then apply_fallbacks ex_world2 [(10, 11)] data
                   else apply_forced ex_world2 [(10, 14)] data)\<rparr>"

definition ex_context :: configurable_context where
  "ex_context = fst (configurable_register ex_world2 ex_configuration [Many [12, 13, 33, 35, 34]]
     \<lparr>configurators_context = [], business_context = []\<rparr>)"

lemma ex_context_registered:
  "configurable_register ex_world2 ex_configuration [Many [12, 13, 33, 35, 34]]
     \<lparr>configurators_context = [], business_context = []\<rparr> = (ex_context, Inr [12, 10, 13, 33, 32, 35, 34])"
  by code_simp

lemma empty_context_ok: "context_ok w \<lparr>configurators_context = [], business_context = []\<rparr>"
  by (simp add: context_ok_def)



section \<open>The effect of configurators\<close>

text \<open>C19: Forcing primary implementations keeps the registry well formed and makes every given
  implementation known; in the index that is made afterwards each given type has the given
  primary implementation.\<close>

theorem forced_primaries_win:
  assumes "registry_ok w data" and "forced_ok w data"
    and "ForcedPrimaryImplementations_configure_context w (Some items) data = (data', Inr ())"
    and "\<forall>(t, impl) \<in> set items. is_concrete w impl" and "distinct (map fst items)"
  shows "\<exists>idx. type_index w data' = Inr idx \<and> index_ok w idx \<and>
    (\<forall>(t, impl) \<in> set items. primary_implementation idx t = Some impl \<and> impl \<in> keys idx)"
proof -
  from assms(3) have "apply_forced w items data = (data', Inr ())"
    by (simp add: ForcedPrimaryImplementations_configure_context_def provided_def NoneValueException_guard_def)
  note f = apply_forced_ok [OF this assms(1,2,4,5)]
  then have ok: "registry_ok w data'" "forced_ok w data'" by auto
  from type_index_total [OF ok(1)] obtain idx where idx: "type_index w data' = Inr idx" ..
  note ix = type_index_ok [OF ok idx]
  have "primary_implementation idx t = Some impl \<and> impl \<in> keys idx" if "(t, impl) \<in> set items" for t impl
  proof -
    from f that primary_forced_index [OF _ idx] have "primary_implementation idx t = Some impl" by blast
    with ix show ?thesis unfolding index_ok_def by blast
  qed
  with ix idx show ?thesis by blast
qed

theorem forced_primaries_win_witness:
  "\<exists>idx. type_index ex_world2 (fst (apply_forced ex_world2 [(10, 14)] (business_context ex_context))) = Inr idx \<and>
     primary_implementation idx 10 = Some 14"
proof -
  have ok: "registry_ok ex_world2 (business_context ex_context)"
    using configurable_registry.reg_inv [OF empty_context_ok ex_context_registered] by (simp add: context_ok_def)
  have "list_all (\<lambda>(t, d). md_forced_primary d = None) (business_context ex_context)" by code_simp
  then have f: "forced_ok ex_world2 (business_context ex_context)"
    by (fastforce simp: forced_ok_def list_all_iff dest: map_of_SomeD)
  have r: "snd (ForcedPrimaryImplementations_configure_context ex_world2 (Some [(10, 14)])
    (business_context ex_context)) = Inr ()" and c: "is_concrete ex_world2 14" by code_simp+
  let ?d = "fst (ForcedPrimaryImplementations_configure_context ex_world2 (Some [(10, 14)]) (business_context ex_context))"
  have "ForcedPrimaryImplementations_configure_context ex_world2 (Some [(10, 14)]) (business_context ex_context) =
      (?d, Inr ())"
    using r by (simp add: prod_eq_iff)
  from forced_primaries_win [OF ok f this] c obtain idx where
    "type_index ex_world2 ?d = Inr idx" "primary_implementation idx 10 = Some 14" by auto
  then show ?thesis
    by (auto simp: ForcedPrimaryImplementations_configure_context_def provided_def NoneValueException_guard_def)
qed

text \<open>C20: Fallbacks fill gaps only. Nothing becomes known but fallbacks of types that were not
  implemented, with what these need. When the turn of a fallback comes and its type is implemented,
  the outcome is that of a provider which does not give this fallback; otherwise the fallback
  is registered. Afterwards each given type which its fallback implements is implemented, and no
  forced primary has changed. Default primaries set the primary of the given types that are ambiguous,
  which are those with several implementations of which none is primary, and change nothing else.\<close>

theorem fallbacks_and_defaults:
  assumes "registry_ok w data" and "forced_ok w data"
    and fb: "FallbacksProvider_configure_context w (Some fallbacks) data = (data1, Inr ())"
    and df: "DefaultPrimaryImplementations_configure_context w (Some primaries) data1 = (data2, Inr ())"
  shows "registry_ok w data2 \<and> forced_ok w data2 \<and> keys data \<subseteq> keys data1 \<and>
    keys data1 \<subseteq> keys data \<union> needed_by w {impl. \<exists>i. (i, impl) \<in> set fallbacks \<and> \<not> implemented data i} \<and>
    (\<forall>pre i impl post. fallbacks = pre @ (i, impl) # post \<longrightarrow>
       (\<exists>before. FallbacksProvider_configure_context w (Some pre) data = (before, Inr ()) \<and>
          (if implemented before i
           then FallbacksProvider_configure_context w (Some (pre @ post)) data = (data1, Inr ())
           else impl \<in> keys data1))) \<and>
    (\<forall>(i, impl) \<in> set fallbacks. implements w impl i \<longrightarrow> implemented data1 i) \<and>
    (\<forall>t p. primary_forced t p data \<longrightarrow> primary_forced t p data1) \<and>
    (\<forall>t. map_of data2 t =
       (if ambiguous w data1 t \<and> t \<in> keys primaries
        then Some ((the (map_of data1 t))\<lparr>md_forced_primary := map_of primaries t\<rparr>) else map_of data1 t))"
proof -
  have F: "FallbacksProvider_configure_context w (Some items) = apply_fallbacks w items" for items
    by (rule ext) (simp add: FallbacksProvider_configure_context_def provided_def NoneValueException_guard_def)
  from fb have f: "apply_fallbacks w fallbacks data = (data1, Inr ())" by (simp add: F)
  from df have d: "apply_defaults w primaries data1 = (data2, Inr ())"
    by (simp add: DefaultPrimaryImplementations_configure_context_def provided_def NoneValueException_guard_def)
  note f1 = apply_fallbacks_ok [OF f assms(1,2)]
  then have ok1: "registry_ok w data1" "forced_ok w data1" by auto
  have "implemented data1 i" if "(i, impl) \<in> set fallbacks" "implements w impl i" for i impl
    using that f fallbacks_filled assms(1,2) by blast
  moreover have "\<exists>before. apply_fallbacks w pre data = (before, Inr ()) \<and>
      (if implemented before i then apply_fallbacks w (pre @ post) data = (data1, Inr ()) else impl \<in> keys data1)"
    if "fallbacks = pre @ (i, impl) # post" for pre i impl post
    using f assms(1,2) unfolding that by (rule apply_fallbacks_turn)
  ultimately show ?thesis
    using f1 apply_defaults_ok [OF d ok1] apply_defaults_exact [OF d] apply_fallbacks_gaps [OF f assms(1)]
    unfolding F by blast
qed

theorem fallbacks_and_defaults_witness:
  "implemented (fst (apply_fallbacks ex_world2 [(10, 11)] (business_context ex_context))) 10"
proof -
  have ok: "registry_ok ex_world2 (business_context ex_context)"
    using configurable_registry.reg_inv [OF empty_context_ok ex_context_registered] by (simp add: context_ok_def)
  have "list_all (\<lambda>(t, d). md_forced_primary d = None) (business_context ex_context)" by code_simp
  then have f: "forced_ok ex_world2 (business_context ex_context)"
    by (fastforce simp: forced_ok_def list_all_iff dest: map_of_SomeD)
  let ?d = "fst (apply_fallbacks ex_world2 [(10, 11)] (business_context ex_context))"
  have "snd (apply_fallbacks ex_world2 [(10, 11)] (business_context ex_context)) = Inr ()" by code_simp
  then have fb: "FallbacksProvider_configure_context ex_world2 (Some [(10, 11)]) (business_context ex_context) = (?d, Inr ())"
    by (simp add: FallbacksProvider_configure_context_def provided_def NoneValueException_guard_def prod_eq_iff)
  have df: "DefaultPrimaryImplementations_configure_context ex_world2 (Some []) ?d = (?d, Inr ())"
    by (simp add: DefaultPrimaryImplementations_configure_context_def provided_def NoneValueException_guard_def)
  have "implements ex_world2 11 10" unfolding implements_def by code_simp
  with fallbacks_and_defaults [OF ok f fb df] show ?thesis by auto
qed

section \<open>The order of configuration\<close>

text \<open>C14: When a configurable context configures itself without an exception, the configurators
  run in the order of their phases, within a phase in the order of their own
  initialisation, and a phase that requires another one comes after it. All configuration
  happens before anything of the business is injected or initialised.\<close>

theorem configured_in_phase_order:
  assumes "topo_contract nx" and "index_ok w idx" and o: "order nx w idx = (ts, None)"
    and inst: "list_all2 (\<lambda>t x. instance_of idx d t True = Inr (Some x)) ts xs"
    and gather: "gather_configurators w c idx d ts ([], []) = Inr (phases, per_phase)"
    and run: "run_configurators c (configurators_by_phase phases per_phase) business = (tr, business', None)"
    and start: "SimpleContext_lifecycle w a business' = Inr s"
  shows "\<exists>tb r. configured_body nx w a c m idx business body d = (tr @ tb, r) \<and>
    (tb, r) = fst (with_index nx w a m s body) \<and>
    phases = filter (is_phase w c) xs \<and>
    tr = map Configure (concat (map (\<lambda>p. filter (\<lambda>x. is_configurator w c x \<and> phase_of c x = Some p) xs) phases)) \<and>
    (\<forall>i j. (ts ! i, ts ! j) \<in> requires w idx \<longrightarrow> i < length ts \<longrightarrow> j < length ts \<longrightarrow>
       is_phase w c (xs ! i) \<longrightarrow> is_phase w c (xs ! j) \<longrightarrow> before (xs ! i) (xs ! j) phases)"
proof -
  from gather_configurators_Inr [OF gather inst] have g: "phases = filter (is_phase w c) xs"
    "\<And>k. configurators_in per_phase k = filter (\<lambda>x. is_configurator w c x \<and> phase_of c x = k) xs"
    by (simp_all add: configurators_in_def)
  note y = order_yields [OF assms(1) index_ok_dict [OF assms(2)] o]
  have "before (xs ! i) (xs ! j) phases" if req: "(ts ! i, ts ! j) \<in> requires w idx"
    and ij: "i < length ts" "j < length ts" and ph: "is_phase w c (xs ! i)" "is_phase w c (xs ! j)" for i j
  proof -
    from before_ex_nth [OF y(3) [OF req]] obtain i' j' where
      n: "i' < j'" "j' < length ts" "ts ! i' = ts ! i" "ts ! j' = ts ! j" by blast
    with y(1) ij have "i' = i" "j' = j" by (auto simp: nth_eq_iff_index_eq)
    with n have "before (xs ! i) (xs ! j) xs"
      using list_all2_lengthD [OF inst] by (intro before_nthI [of i j]) auto
    with ph g(1) show ?thesis by (auto intro: before_filter)
  qed
  moreover obtain tb r where b: "fst (with_index nx w a m s body) = (tb, r)" by fastforce
  moreover have "configured_body nx w a c m idx business body d = (tr @ tb, r)"
    using o gather run start b by (simp add: configured_body_def)
  ultimately show ?thesis
    using g run_configurators_ok [OF run] by (auto simp: configurators_by_phase_def)
qed

definition ex_conf_index :: type_index where
  "ex_conf_index = projr (type_index ex_world2 (configurators_context ex_context))"

definition ex_conf_types :: "ty list" where
  "ex_conf_types = [34, 35, 32, 33]"

definition ex_conf_lifecycles :: lifecycles where
  "ex_conf_lifecycles =
     map (\<lambda>t. (t, InitializableLifecycle, Instance t 0)) ex_conf_types"

theorem configured_in_phase_order_witness:
  "\<exists>phases per. gather_configurators ex_world2 ex_configuration ex_conf_index ex_conf_lifecycles
      ex_conf_types ([], []) = Inr (phases, per) \<and> before (Instance 32 0) (Instance 33 0) phases"
proof -
  let ?w = ex_world2 and ?c = ex_configuration and ?d = ex_conf_lifecycles
  let ?xs = "map (\<lambda>t. Instance t 0) ex_conf_types"
  let ?run = "run_configurators ?c (configurators_by_phase [Instance 32 0, Instance 33 0]
    (snd (projr (gather_configurators ?w ?c ex_conf_index ?d ex_conf_types ([], []))))) (business_context ex_context)"
  have r: "registry_ok ?w (configurators_context ex_context)"
    using configurable_registry.reg_inv [OF empty_context_ok ex_context_registered] by (simp add: context_ok_def)
  have "list_all (\<lambda>(t, d). md_forced_primary d = None) (configurators_context ex_context)" by code_simp
  then have f: "forced_ok ?w (configurators_context ex_context)"
    by (fastforce simp: forced_ok_def list_all_iff dest: map_of_SomeD)
  have ix: "type_index ?w (configurators_context ex_context) = Inr ex_conf_index" by code_simp
  have o: "order kahn_networkx ?w ex_conf_index = (ex_conf_types, None)" by code_simp
  have inst: "list_all2 (\<lambda>t x. instance_of ex_conf_index ?d t True = Inr (Some x)) ex_conf_types ?xs"
    by code_simp
  obtain phases per where gather: "gather_configurators ?w ?c ex_conf_index ?d ex_conf_types ([], []) = Inr (phases, per)"
    and ph: "phases = [Instance 32 0, Instance 33 0]"
  proof -
    have "map_sum (\<lambda>_. ()) fst (gather_configurators ?w ?c ex_conf_index ?d ex_conf_types ([], [])) =
        Inr [Instance 32 0, Instance 33 0]" by code_simp
    with that show thesis
      by (cases "gather_configurators ?w ?c ex_conf_index ?d ex_conf_types ([], [])") auto
  qed
  obtain tr b' where run: "run_configurators ?c (configurators_by_phase phases per) (business_context ex_context) = (tr, b', None)"
  proof -
    have "snd (snd ?run) = None" by code_simp
    with gather ph that show thesis by (cases ?run) auto
  qed
  obtain s where s: "SimpleContext_lifecycle ?w ex_application b' = Inr s"
  proof -
    have "isl (SimpleContext_lifecycle ?w ex_application (fst (snd ?run))) = False" by code_simp
    with gather ph run that show thesis
      by (cases "SimpleContext_lifecycle ?w ex_application b'") auto
  qed
  have "prerequisites ?w ex_conf_index 33 = Inr [32]" and "33 \<in> set (map fst ex_conf_index)"
    and "is_concrete ?w 33" by code_simp+
  then have "(ex_conf_types ! 2, ex_conf_types ! 3) \<in> requires ?w ex_conf_index"
    by (simp add: requires_def ex_conf_types_def keys_def)
  moreover have "is_phase ?w ?c (?xs ! 2)" "is_phase ?w ?c (?xs ! 3)"
    unfolding is_phase_def by code_simp+
  ultimately show ?thesis
    using configured_in_phase_order [OF kahn_contract type_index_ok [OF r f ix] o inst gather run s] gather
    by (fastforce simp: ex_conf_types_def)
qed

end
