(* ===== verification/Injection_Properties.thy ===== *)
theory Injection_Properties
  imports Example_World
begin

text \<open>
  What the injection framework promises its users, over the registry, the type index and the
  context together: types are registered with all they need, the order of initialisation
  respects every dependency and fails on cycles only, every dependency is injected with the
  right objects, an object is started before it is injected anywhere, and everything that
  was opened is closed in reverse order.
\<close>

section \<open>The registry\<close>

text \<open>C5: Registering keeps the invariant of the registry (the implementations of a registered
  type are exactly the registered concrete types that are the type itself or its
  subclasses). It adds precisely the types that were not known and are reachable from the
  given ones through dependencies that are not optional, returns them without repetition,
  and leaves the registry closed under what the new types need.\<close>

theorem register_correct:
  assumes "registry_ok w data" and "register w t data = (data', Inr out)"
  shows "registry_ok w data' \<and> keys data' = keys data \<union> set out \<and> distinct out \<and>
    set out \<inter> keys data = {} \<and>
    set (fst (collect (is_type w) t)) \<subseteq> keys data' \<and>
    (\<forall>n \<in> set out. \<exists>x \<in> set (fst (collect (is_type w) t)). (needs w)\<^sup>*\<^sup>* x n) \<and>
    (\<forall>n \<in> set out. \<exists>deps. get_type_dependencies w n = Inr deps \<and> set (followed deps) \<subseteq> keys data')"
proof -
  from assms(2) obtain xs data1 u where c: "collect (is_type w) t = (xs, None)"
    and s: "scan w xs data [] = ((data1, out), Inr ())"
    and l: "link w (link_pairs out data1) data1 = (data', Inr u)"
    by (rule register_parts)
  from link_linked [OF l] have k: "keys data' = keys data1" by (simp add: linked_def keys_def)
  from scan_spec [OF s] register_ok [OF assms] c k show ?thesis by auto
qed

theorem register_correct_witness:
  "registry_ok ex_world ex_registry \<and> keys ex_registry = {12, 10, 11, 13}"
  using register_correct [OF registry_ok_Nil ex_registered] by auto

text \<open>C17: Removing keeps the invariant, deletes exactly the given types, and leaves no
  dependency on, implementation by or forced primary of a removed type anywhere; all other
  mentions stay. Nothing is raised for types that were never registered.\<close>

theorem remove_correct:
  assumes "registry_ok w data" and "\<forall>c \<in> set t. \<forall>x \<in> set (flatten_collectable c). is_type w x"
  shows "\<exists>data'. remove w t data = (data', Inr ()) \<and> registry_ok w data' \<and>
    keys data' = keys data - set (concat (map flatten_collectable t)) \<and>
    (\<forall>x d'. map_of data' x = Some d' \<longrightarrow>
       (\<exists>d. map_of data x = Some d \<and>
          (\<forall>y. mentions y d' \<longleftrightarrow> mentions y d \<and> y \<notin> set (concat (map flatten_collectable t)))))"
proof -
  have "remove w t data = (fold remove_one (concat (map flatten_collectable t)) data, Inr ())"
    by (simp only: remove_def Let_def collect_ok [OF assms(2)]) simp
  moreover note remove_ok [OF assms(1)] keys_fold_remove fold_remove_mentions
  ultimately show ?thesis by blast
qed

theorem remove_correct_witness:
  "\<exists>data'. remove ex_world [One 11, Many [13, 10]] ex_registry = (data', Inr ()) \<and> keys data' = {12}"
proof -
  have "is_type ex_world 11 \<and> is_type ex_world 13 \<and> is_type ex_world 10" by code_simp
  then have "\<forall>c \<in> set [One 11, Many [13, 10]]. \<forall>x \<in> set (flatten_collectable c). is_type ex_world x"
    by auto
  moreover have "keys ex_registry = {12, 10, 11, 13}" unfolding keys_def by code_simp
  ultimately show ?thesis using remove_correct [OF ex_registry_ok] by fastforce
qed

text \<open>C18: The index of a registry that satisfies the invariant and whose forced primaries are
  registered concrete types is well formed: it knows the same types, every implementation
  and every primary implementation is a known concrete type, and a concrete type always has
  a primary implementation. In particular making the index never raises.\<close>

theorem type_index_correct:
  assumes "registry_ok w data" and "forced_ok w data"
  shows "\<exists>idx. type_index w data = Inr idx \<and> index_ok w idx \<and> keys idx = keys data \<and>
    (\<forall>t \<in> keys idx. is_concrete w t \<longrightarrow> primary_implementation idx t \<noteq> None)"
proof -
  from type_index_total [OF assms(1)] obtain idx where idx: "type_index w data = Inr idx" ..
  with type_index_entry [OF assms idx] type_index_ok [OF assms idx] show ?thesis by auto
qed

theorem type_index_correct_witness:
  "index_ok ex_world ex_index \<and> primary_implementation ex_index 12 \<noteq> None"
proof -
  have "12 \<in> keys ex_index" "is_concrete ex_world 12" unfolding keys_def by code_simp+
  with type_index_correct [OF ex_registry_ok ex_forced_ok] ex_indexed show ?thesis by auto
qed

section \<open>The order of initialisation\<close>

text \<open>C2: When the order of a well-formed index ends normally, it lists every known concrete
  type exactly once, and a type comes after every implementation that will be injected for
  any of its dependencies.\<close>

theorem order_respects_dependencies:
  assumes "topo_contract nx" and "index_ok w idx" and "order nx w idx = (ts, None)"
  shows "distinct ts \<and> set ts = {t \<in> keys idx. is_concrete w t} \<and>
    (\<forall>t \<in> set ts. \<forall>d \<in> set (idx_dependencies idx t). \<forall>i \<in> chosen_types idx d. before i t ts)"
proof -
  note y = order_yields [OF assms(1) index_ok_dict [OF assms(2)] assms(3)]
  have "before i t ts" if t: "t \<in> set ts" and d: "d \<in> set (idx_dependencies idx t)"
    and i: "i \<in> chosen_types idx d" for t d i
  proof -
    from y(4) [OF t] obtain ps where ps: "prerequisites w idx t = Inr ps" "\<forall>p \<in> set ps. before p t ts"
      by blast
    from t y(2) have "is_concrete w t" by auto
    from prerequisites_Inr(3) [OF ps(1) this] d i ps(2) show ?thesis by auto
  qed
  with y(1,2) show ?thesis by blast
qed

theorem order_respects_dependencies_witness:
  "before 11 12 (fst (order kahn_networkx ex_world ex_index))"
proof -
  have "\<exists>d \<in> set (idx_dependencies ex_index 12). dep_type d = 10 \<and> dep_kind d = SIMPLE" by code_simp
  moreover have "primary_implementation ex_index 10 = Some 11" by code_simp
  ultimately have "\<exists>d \<in> set (idx_dependencies ex_index 12). 11 \<in> chosen_types ex_index d"
    by (auto simp: chosen_types_def idx_details_def intro!: bexI)
  moreover have "12 \<in> set ex_types" by (simp add: ex_types_def)
  ultimately show ?thesis
    using order_respects_dependencies [OF kahn_contract ex_index_ok ex_ordered] ex_ordered by auto
qed

text \<open>C15: For a well-formed index whose dependencies can all be satisfied, the order ends
  normally exactly when the requirements have no cycle; on a cycle it ends with
  \<open>CyclicDependencyGraphException\<close> and with nothing else.\<close>

theorem order_fails_on_cycles_only:
  assumes "topo_contract nx" and ok: "index_ok w idx"
    and adm: "\<And>t d. t \<in> keys idx \<Longrightarrow> is_concrete w t \<Longrightarrow> d \<in> set (idx_dependencies idx t) \<Longrightarrow>
      admits (dep_kind d) (idx_details idx (dep_type d))"
  shows "(snd (order nx w idx) = None \<longleftrightarrow> acyclic (requires w idx)) \<and>
    (\<not> acyclic (requires w idx) \<longrightarrow>
      (\<exists>cs. snd (order nx w idx) = Some (CyclicDependencyGraphException cs)))"
  using order_ends [OF assms(1) index_ok_dict [OF ok]] prerequisites_total [OF ok] adm by metis

theorem order_fails_on_cycles_only_witness: "acyclic (requires ex_world ex_index)"
proof -
  have "\<forall>t \<in> set (map fst ex_index). \<forall>d \<in> set (idx_dependencies ex_index t).
      admits (dep_kind d) (idx_details ex_index (dep_type d))"
    by code_simp
  then have "\<And>t d. t \<in> keys ex_index \<Longrightarrow> d \<in> set (idx_dependencies ex_index t) \<Longrightarrow>
      admits (dep_kind d) (idx_details ex_index (dep_type d))"
    by (auto simp: keys_def)
  with order_fails_on_cycles_only [OF kahn_contract ex_index_ok] ex_ordered show ?thesis by auto
qed

section \<open>Injection\<close>

text \<open>C1: While a context is open, the injection method of every ordered type gets exactly one
  argument for each declared dependency, and the argument is the right object: the primary
  implementation's for a simple dependency, that or \<open>None\<close> for an optional one, the objects
  of all implementations for a collective one. No injection fails to be resolved.\<close>

theorem injection_complete:
  assumes "topo_contract nx" and "index_ok w index" and "order nx w index = (ts, None)"
    and "make_lifecycles w a n ts [] [] = Inr (made, d)"
    and "t \<in> set ts" and "distinct (map dep_name (idx_dependencies index t))"
  shows "\<exists>kwargs. injection_arguments index d t = Inr kwargs \<and>
    keys kwargs = dep_name ` set (idx_dependencies index t) \<and>
    (\<forall>dep \<in> set (idx_dependencies index t).
       map_of kwargs (dep_name dep) = Some (expected_value index (target_of d) dep))"
  using ordered_injection [OF assms(1-4)] assms(5,6) by (intro injection_arguments_expected) auto

theorem injection_complete_witness:
  "\<exists>kwargs. injection_arguments ex_index ex_lifecycles 12 = Inr kwargs \<and>
     map_of kwargs ''store'' = Some (TheObject (Instance 11 1)) \<and>
     map_of kwargs ''stores'' = Some (TheObjects [Instance 11 1])"
proof -
  let ?deps = "[\<lparr>dep_name = ''store'', dep_type = 10, dep_kind = SIMPLE\<rparr>,
    \<lparr>dep_name = ''stores'', dep_type = 10, dep_kind = COLLECTIVE\<rparr>]"
  have deps: "idx_dependencies ex_index 12 = ?deps" by code_simp
  have "12 \<in> set ex_types" by (simp add: ex_types_def)
  from injection_complete [OF kahn_contract ex_index_ok ex_ordered ex_made this]
  obtain kwargs where k: "injection_arguments ex_index ex_lifecycles 12 = Inr kwargs"
    "\<forall>dep \<in> set ?deps. map_of kwargs (dep_name dep) =
      Some (expected_value ex_index (target_of ex_lifecycles) dep)"
    unfolding deps by auto
  have "map (expected_value ex_index (target_of ex_lifecycles)) ?deps =
      [TheObject (Instance 11 1), TheObjects [Instance 11 1]]"
    by code_simp
  with k show ?thesis by auto
qed

text \<open>C3: In any run of a context, whatever raises and however the body ends, an object that an
  injected object required was started (initialised or entered) before the injection.\<close>

theorem started_before_injected:
  assumes "topo_contract nx" and "index_ok w (si_index s)" and o: "order nx w (si_index s) = (ts, None)"
    and "si_lifecycles s = []" and made: "make_lifecycles w a n ts [] [] = Inr (made, d)"
    and req: "(p, t) \<in> requires w (si_index s)"
    and kind: "map_of d p = Some (k, x)" "k \<noteq> ValueLifecycle" and "map_of d t = Some (k', y)"
    and run: "with_index nx w a n s body = ((tr, r), s')" and inj: "Inject y \<in> set tr"
  shows "before (started (objects a) x) (Inject y) tr"
proof -
  note ord = order_yields [OF assms(1) index_ok_dict [OF assms(2)] o]
  note mo = made_objects [OF made ord(1)]
  from ord(3) [OF req] obtain i j where ij: "i < j" "j < length ts" "ts ! i = p" "ts ! j = t"
    using before_ex_nth by metis
  have "map_of d (ts ! i) = Some (made ! i)" "map_of d (ts ! j) = Some (made ! j)"
    unfolding mo(2) using ord(1) mo(1) ij by (intro map_of_zip_lcs; simp)+
  with ij kind assms(9) have m: "made ! i = (k, x)" "made ! j = (k', y)" by auto
  from run o assms(4) made have blk: "with_block (composite_lifecycle
      (map (object_lifecycle (objects a) (\<lambda>x. inject_instance a (si_index s) d (cls_of x))) made))
      (body d) = (tr, r)"
    by (simp add: with_index_def)
  from block_starts_before_inject [OF ij(1) _ mo(3) _ blk] m kind inj mo(1) ij show ?thesis by simp
qed

definition ex_instance_index :: simple_instance_index where
  "ex_instance_index = projr (SimpleInstanceIndex ex_application (Some ex_index))"

theorem started_before_injected_witness:
  "\<exists>tr r s'. with_index kahn_networkx ex_world ex_application 0 ex_instance_index (\<lambda>_. ([Act 0], None))
      = ((tr, r), s') \<and> before (Initialize (Instance 11 1)) (Inject (Instance 12 2)) tr"
proof -
  have si: "si_index ex_instance_index = ex_index" "si_lifecycles ex_instance_index = []"
    unfolding ex_instance_index_def by code_simp+
  obtain tr r s' where run: "with_index kahn_networkx ex_world ex_application 0 ex_instance_index
      (\<lambda>_. ([Act 0], None)) = ((tr, r), s')" by (metis prod.collapse)
  have tr: "Inject (Instance 12 2) \<in> set (fst (fst (with_index kahn_networkx ex_world ex_application 0
      ex_instance_index (\<lambda>_. ([Act 0], None)))))" by code_simp
  have k: "12 \<in> keys ex_index" "is_concrete ex_world 12" unfolding keys_def by code_simp+
  have "prerequisites ex_world ex_index 12 = Inr [11]" by code_simp
  with k have "(11, 12) \<in> requires ex_world (si_index ex_instance_index)" by (simp add: requires_def si)
  moreover have "map_of ex_lifecycles 11 = Some (InitializableLifecycle, Instance 11 1)"
    "map_of ex_lifecycles 12 = Some (InitializableLifecycle, Instance 12 2)"
    by code_simp+
  ultimately have "before (started (objects ex_application) (Instance 11 1)) (Inject (Instance 12 2)) tr"
    using started_before_injected [OF kahn_contract _ _ _ ex_made _ _ _ _ run] ex_index_ok ex_ordered tr run
    by (simp add: si)
  moreover have "started (objects ex_application) (Instance 11 1) = Initialize (Instance 11 1)" by code_simp
  ultimately show ?thesis using run by auto
qed

text \<open>C4: Whatever the application's methods raise, the events of a run of a context are
  properly nested when those of its body are: everything that was initialised is
  deinitialised exactly once, everything injected that can be reset is reset exactly once,
  in the reverse order. No instance survives the run.\<close>

theorem context_well_nested:
  assumes "\<And>d. well_nested (objects a) (fst (body d))"
  shows "well_nested (objects a) (fst (fst (with_index nx w a n s body))) \<and>
    si_lifecycles (snd (with_index nx w a n s body)) = []"
proof -
  have "well_nested (objects a) []" by (simp add: well_nested_def)
  moreover have "well_nested (objects a)
      (fst (with_block (composite_lifecycle (map (object_lifecycle (objects a) injs) made)) (body d)))"
    for injs made d
    using objects_lc.block_well_nested [of "objects a" "fst (body d)" injs made "snd (body d)"] assms by simp
  ultimately show ?thesis
    by (auto simp: with_index_def split: prod.splits option.splits sum.splits)
qed

theorem context_well_nested_witness:
  "well_nested ex_behaviour (fst (fst (with_index kahn_networkx ex_world ex_application 0
     ex_instance_index (\<lambda>_. ([Act 0], Some (AppError 1))))))"
  using context_well_nested [of ex_application "\<lambda>_. ([Act 0], Some (AppError 1))"]
  by (simp add: ex_application_def well_nested_def nests_trace_def)

section \<open>Reading signatures\<close>

text \<open>C22: When an injection method is read without complaint, its dependencies are exactly its
  annotated positional parameters (leaving \<open>self\<close> out), each with the type and kind its
  hint unpacks to; and every parameter with a default is annotated.\<close>

theorem method_dependencies_correct:
  assumes "get_method_dependencies w spec = Inr deps"
  shows "set deps = {d. \<exists>(j, a) \<in> considered True 0 (args spec). declares w spec a d} \<and>
    (\<forall>(j, a) \<in> considered True 0 (args spec).
       length (args spec) \<le> j + (case defaults spec of None \<Rightarrow> 0 | Some n \<Rightarrow> n) \<longrightarrow>
       map_of (annotations spec) a \<noteq> None)"
  using get_any_function_dependencies_Inr [OF assms [unfolded get_method_dependencies_def]] by auto

theorem method_dependencies_correct_witness:
  "\<exists>deps. get_method_dependencies ex_world app_spec = Inr deps \<and>
     \<lparr>dep_name = ''stores'', dep_type = 10, dep_kind = COLLECTIVE\<rparr> \<in> set deps"
proof -
  have r: "get_method_dependencies ex_world app_spec =
    Inr [\<lparr>dep_name = ''store'', dep_type = 10, dep_kind = SIMPLE\<rparr>,
         \<lparr>dep_name = ''stores'', dep_type = 10, dep_kind = COLLECTIVE\<rparr>]" by code_simp
  have "(2, ''stores'') \<in> considered True 0 (args app_spec)"
    by (simp add: considered_def app_spec_def enumerate_eq_zip)
  moreover have "declares ex_world app_spec ''stores''
      \<lparr>dep_name = ''stores'', dep_type = 10, dep_kind = COLLECTIVE\<rparr>"
  proof -
    have "map_of (annotations app_spec) ''stores'' = Some 20" "unpack_dependency ex_world 20 = Inr (10, COLLECTIVE)"
      by code_simp+
    then show ?thesis by (simp add: declares_def)
  qed
  ultimately show ?thesis using method_dependencies_correct [OF r] r by auto
qed

end
