(* ===== verification/Py_Strings.thy ===== *)
theory Py_Strings
  imports Guards
begin

text \<open>
  Python's operations on text that several components use: integers as text and back,
  splitting, joining and stripping, with the lemmas that reading gives back what was
  written. Text is ASCII.
\<close>

section \<open>Integers as text\<close>

fun digit_chars :: "nat \<Rightarrow> string" where
  "digit_chars n =
     (if n < 10 then [char_of (48 + n)] else digit_chars (n div 10) @ [char_of (48 + n mod 10)])"

declare digit_chars.simps [simp del]

definition str_of_int :: "int \<Rightarrow> string" where
  "str_of_int i = (if i < 0 then CHR ''-'' # digit_chars (nat (- i)) else digit_chars (nat i))"

text \<open>
  \<open>int(s)\<close> for text in ASCII: surrounding white space and a sign are accepted, and single
  underscores between digits.
\<close>

definition is_digit :: "char \<Rightarrow> bool" where
  "is_digit c \<longleftrightarrow> of_char c \<ge> (48 :: nat) \<and> of_char c \<le> (57 :: nat)"

definition is_space :: "char \<Rightarrow> bool" where
  "is_space c \<longleftrightarrow> of_char c \<in> {9, 10, 11, 12, 13, 28, 29, 30, 31, 32 :: nat}"

definition strip :: "string \<Rightarrow> string" where
  "strip s = rev (dropWhile is_space (rev (dropWhile is_space s)))"

fun digits_value :: "nat \<Rightarrow> string \<Rightarrow> nat option" where
  "digits_value n [] = Some n"
| "digits_value n (c # cs) =
     (if is_digit c then digits_value (10 * n + (of_char c - 48)) cs
      else if c = CHR ''_'' \<and> cs \<noteq> [] \<and> is_digit (hd cs) then digits_value n cs
      else None)"

definition natural_of :: "string \<Rightarrow> nat option" where
  "natural_of s = (if s \<noteq> [] \<and> is_digit (hd s) then digits_value 0 s else None)"

definition py_int :: "string \<Rightarrow> int res" where
  "py_int s =
     (case strip s of
        [] \<Rightarrow> Inl ValueError
      | c # cs \<Rightarrow>
          (case (if c = CHR ''-'' \<or> c = CHR ''+'' then natural_of cs else natural_of (c # cs)) of
             None \<Rightarrow> Inl ValueError
           | Some n \<Rightarrow> Inr (if c = CHR ''-'' then - int n else int n)))"

section \<open>Splitting and joining\<close>

fun py_join :: "string \<Rightarrow> string list \<Rightarrow> string" where
  "py_join sep [] = []"
| "py_join sep [s] = s"
| "py_join sep (s # t # ss) = s @ sep @ py_join sep (t # ss)"

text \<open>\<open>s.partition(c)\<close> for a separator of one character; \<open>s.split(c)\<close> likewise.\<close>

fun py_partition :: "char \<Rightarrow> string \<Rightarrow> string \<times> string \<times> string" where
  "py_partition c [] = ([], [], [])"
| "py_partition c (x # xs) =
     (if x = c then ([], [c], xs)
      else case py_partition c xs of (a, s, b) \<Rightarrow> (x # a, s, b))"

fun py_split :: "char \<Rightarrow> string \<Rightarrow> string list" where
  "py_split c [] = [[]]"
| "py_split c (x # xs) =
     (if x = c then [] # py_split c xs
      else case py_split c xs of [] \<Rightarrow> [[x]] | y # ys \<Rightarrow> (x # y) # ys)"

definition starts_with :: "string \<Rightarrow> string \<Rightarrow> bool" where
  "starts_with p s \<longleftrightarrow> take (length p) s = p"

section \<open>Reading back what was written\<close>

lemma digit_chars_digits: "c \<in> set (digit_chars n) \<Longrightarrow> is_digit c"
proof (induction n rule: digit_chars.induct)
  case (1 n)
  have "is_digit (char_of (48 + m))" if "m < 10" for m :: nat
    using that by (auto simp: is_digit_def of_char_of)
  with 1 show ?case by (auto simp: digit_chars.simps [of n] split: if_splits)
qed

lemma digit_chars_not_Nil [simp]: "digit_chars n \<noteq> []"
  by (subst digit_chars.simps) simp

definition digits_fold :: "nat \<Rightarrow> string \<Rightarrow> nat" where
  "digits_fold n s = foldl (\<lambda>n c. 10 * n + (of_char c - 48)) n s"

lemma digits_value_digits:
  "\<forall>c \<in> set s. is_digit c \<Longrightarrow> digits_value n s = Some (digits_fold n s)"
  by (induction s arbitrary: n) (simp_all add: digits_fold_def)

lemma digits_fold_chars: "digits_fold 0 (digit_chars n) = n"
proof (induction n rule: digit_chars.induct)
  case (1 n)
  have d: "of_char (char_of (48 + m) :: char) - 48 = m" if "m < 10" for m :: nat
    using that by (simp add: of_char_of)
  show ?case
  proof (cases "n < 10")
    case True
    then show ?thesis by (simp add: digit_chars.simps [of n] digits_fold_def d)
  next
    case False
    with 1 have "digits_fold 0 (digit_chars (n div 10)) = n div 10" by simp
    then show ?thesis using False
      by (simp add: digit_chars.simps [of n] digits_fold_def d del: digits_value.simps)
  qed
qed

lemma natural_of_digit_chars: "natural_of (digit_chars n) = Some n"
proof -
  have "is_digit (hd (digit_chars n))" by (rule digit_chars_digits [of _ n]) simp
  moreover have "digits_value 0 (digit_chars n) = Some n"
    using digits_value_digits [of "digit_chars n" 0] digit_chars_digits digits_fold_chars by simp
  ultimately show ?thesis by (simp add: natural_of_def)
qed

lemma digit_not_space: "is_digit c \<Longrightarrow> \<not> is_space c"
  by (auto simp: is_digit_def is_space_def)

lemma strip_id:
  assumes "s \<noteq> []" and "\<not> is_space (hd s)" and "\<not> is_space (last s)"
  shows "strip s = s"
proof -
  have "dropWhile is_space s = s" using assms(1,2) by (cases s) auto
  moreover have "dropWhile is_space (rev s) = rev s"
    using assms(1,3) by (cases s rule: rev_cases) auto
  ultimately show ?thesis by (simp add: strip_def)
qed

lemma str_of_int_chars: "c \<in> set (str_of_int i) \<Longrightarrow> is_digit c \<or> c = CHR ''-''"
  by (auto simp: str_of_int_def dest: digit_chars_digits split: if_splits)

lemma minus_not_space: "\<not> is_space (CHR ''-'')" and minus_not_digit: "\<not> is_digit (CHR ''-'')"
  and plus_not_digit: "\<not> is_digit (CHR ''+'')"
  by (simp_all add: is_space_def is_digit_def)

lemma str_of_int_not_Nil [simp]: "str_of_int i \<noteq> []"
  by (simp add: str_of_int_def)

lemma py_int_str_of_int: "py_int (str_of_int i) = Inr i"
proof -
  have ends: "\<not> is_space c" if "c \<in> set (str_of_int i)" for c
    using str_of_int_chars [OF that] digit_not_space minus_not_space by auto
  have strip: "strip (str_of_int i) = str_of_int i"
    by (rule strip_id) (simp_all add: ends)
  show ?thesis
  proof (cases "i < 0")
    case True
    then have s: "str_of_int i = CHR ''-'' # digit_chars (nat (- i))" by (simp add: str_of_int_def)
    with strip True show ?thesis by (simp add: py_int_def natural_of_digit_chars)
  next
    case False
    then have s: "str_of_int i = digit_chars (nat i)" by (simp add: str_of_int_def)
    obtain c cs where c: "digit_chars (nat i) = c # cs" by (cases "digit_chars (nat i)") auto
    then have "is_digit c" using digit_chars_digits [of c "nat i"] by simp
    then have "c \<noteq> CHR ''-''" "c \<noteq> CHR ''+''" using minus_not_digit plus_not_digit by metis+
    with strip s c natural_of_digit_chars [of "nat i"] False show ?thesis by (simp add: py_int_def)
  qed
qed

lemma py_split_no_sep: "c \<notin> set s \<Longrightarrow> py_split c s = [s]"
  by (induction s) auto

lemma py_split_append: "c \<notin> set s \<Longrightarrow> py_split c (s @ c # rest) = s # py_split c rest"
  by (induction s) auto

lemma py_split_join:
  "ss \<noteq> [] \<Longrightarrow> \<forall>s \<in> set ss. c \<notin> set s \<Longrightarrow> py_split c (py_join [c] ss) = ss"
  by (induction "[c]" ss rule: py_join.induct) (simp_all add: py_split_no_sep py_split_append)

lemma py_partition_found: "c \<notin> set a \<Longrightarrow> py_partition c (a @ c # b) = (a, [c], b)"
  by (induction a) auto

lemma py_join_chars: "c \<notin> set sep \<Longrightarrow> \<forall>s \<in> set ss. c \<notin> set s \<Longrightarrow> c \<notin> set (py_join sep ss)"
  by (induction sep ss rule: py_join.induct) auto

end
