(* ===== verification/Callbacks.thy ===== *)
theory Callbacks
  imports Py_Strings
begin

text \<open>
  Callback interfaces and their composites, \<open>thinking_programming/callbacks.py\<close>, and the
  tracking of an iteration, \<open>thinking_programming/tracking.py\<close>.

  A class is what \<open>dir\<close> lists of it: its members by name. A member that is callable may carry
  the two marks that \<open>callback_method\<close> sets. A method of an object is a transformer of the
  state that the objects of the program share; it returns a value or raises.
\<close>

section \<open>Marking callback methods\<close>

record member =
  callable :: bool
  is_callback_method :: bool
  is_callback_order_reversed :: bool

record callback_class =
  class_name :: string
  members :: "(string, member) dict"

definition callback_method :: "bool \<Rightarrow> member \<Rightarrow> member" where
  "callback_method reverse_order_of_composing f =
     f\<lparr>is_callback_method := True, is_callback_order_reversed := reverse_order_of_composing\<rparr>"

definition named_as_callback :: "string \<Rightarrow> bool" where
  "named_as_callback name \<longleftrightarrow>
     starts_with ''on_'' name \<or> starts_with ''before_'' name \<or> starts_with ''after_'' name"

definition conventional_callback :: "callback_class \<Rightarrow> callback_class" where
  "conventional_callback t =
     t\<lparr>members := map_values
        (\<lambda>name val.
           if named_as_callback name \<and> callable val
           then callback_method (starts_with ''after_'' name) val else val)
        (members t)\<rparr>"

definition callback_methods :: "callback_class \<Rightarrow> (string \<times> member) list" where
  "callback_methods t = filter (\<lambda>(_, m). is_callback_method m) (members t)"

section \<open>Composites\<close>

text \<open>
  \<open>impl(m)\<close>: the delegates are called one after the other with the same arguments. What
  they return is dropped: the wrapper has no \<open>return\<close>. A delegate without the attribute
  raises, and whatever a delegate raises ends the loop.
\<close>

type_synonym ('s, 'a, 'v) bound_method = "'a \<Rightarrow> 's \<Rightarrow> 's \<times> 'v res"
type_synonym ('s, 'a, 'v) object_methods = "string \<Rightarrow> ('s, 'a, 'v) bound_method option"

fun call_delegates ::
  "('s, 'a, 'v) object_methods list \<Rightarrow> string \<Rightarrow> 'a \<Rightarrow> 's \<Rightarrow> 's \<times> unit res" where
  "call_delegates [] name args s = (s, Inr ())"
| "call_delegates (d # ds) name args s =
     (case d name of
        None \<Rightarrow> (s, Inl AttributeError)
      | Some m \<Rightarrow>
          (case m args s of
             (s1, Inl e) \<Rightarrow> (s1, Inl e)
           | (s1, Inr _) \<Rightarrow> call_delegates ds name args s1))"

definition wrapper ::
  "member \<Rightarrow> string \<Rightarrow> ('s, 'a, 'v) object_methods list \<Rightarrow> ('s, 'a, unit) bound_method" where
  "wrapper m name delegates args s =
     call_delegates ((if is_callback_order_reversed m then rev else (\<lambda>x. x)) delegates) name args s"

definition add_delegate :: "'d list \<Rightarrow> 'd list \<Rightarrow> 'd list" where
  "add_delegate delegates self_delegates = self_delegates @ delegates"

definition clean_delegates :: "'d list \<Rightarrow> 'd list" where
  "clean_delegates self_delegates = []"

text \<open>
  The composite type: its name and the methods that are wrapped. The cache
  \<open>_composite_types\<close> is looked up by the name of the class.
\<close>

record composite_type =
  composite_name :: string
  composite_methods :: "(string \<times> member) list"

definition CompositeCallback ::
  "(string, composite_type) dict \<Rightarrow> callback_class \<Rightarrow> (string, composite_type) dict \<times> composite_type" where
  "CompositeCallback cache t =
     (case map_of cache (class_name t) of
        Some c \<Rightarrow> (cache, c)
      | None \<Rightarrow>
          (let out = \<lparr>composite_name = ''Composite'' @ class_name t, composite_methods = callback_methods t\<rparr>
           in (AList.update (class_name t) out cache, out)))"

text \<open>Calling a method of a composite: a name that is not wrapped is the class's own.\<close>

definition call_composite ::
  "composite_type \<Rightarrow> ('s, 'a, unit) object_methods \<Rightarrow> ('s, 'a, 'v) object_methods list \<Rightarrow>
   string \<Rightarrow> ('s, 'a, unit) bound_method" where
  "call_composite c own delegates name args s =
     (case map_of (composite_methods c) name of
        Some m \<Rightarrow> wrapper m name delegates args s
      | None \<Rightarrow> (case own name of None \<Rightarrow> (s, Inl AttributeError) | Some f \<Rightarrow> f args s))"

text \<open>\<open>compose\<close>: one callback, or a sequence of them; \<open>made\<close> is what \<open>t()\<close> makes.\<close>

datatype 'c composed = Plain 'c | Compound "'c list"

definition compose :: "('c \<Rightarrow> bool) \<Rightarrow> 'c \<Rightarrow> 'c collectable \<Rightarrow> 'c composed res" where
  "compose isinstance_t made callbacks =
     (case callbacks of
        One c \<Rightarrow> if isinstance_t c then Inr (Plain c) else Inl TypeError
      | Many cs \<Rightarrow>
          (case cs of
             [] \<Rightarrow> Inr (Plain made)
           | [c] \<Rightarrow> Inr (Plain c)
           | _ \<Rightarrow> Inr (Compound cs)))"

section \<open>What a composite does\<close>

text \<open>
  \<open>runs ds name args s s'\<close>: the delegates, in that order, all return, and take the state
  from \<open>s\<close> to \<open>s'\<close>.
\<close>

inductive runs ::
  "('s, 'a, 'v) object_methods list \<Rightarrow> string \<Rightarrow> 'a \<Rightarrow> 's \<Rightarrow> 's \<Rightarrow> bool" where
  "runs [] name args s s"
| "d name = Some m \<Longrightarrow> m args s = (s1, Inr v) \<Longrightarrow> runs ds name args s1 s' \<Longrightarrow>
   runs (d # ds) name args s s'"

inductive_simps runs_Nil [simp]: "runs [] name args s s'"
inductive_simps runs_Cons: "runs (d # ds) name args s s'"

lemma call_delegates_Inr_iff: "call_delegates ds name args s = (s', Inr u) \<longleftrightarrow> runs ds name args s s'"
  by (induction ds arbitrary: s)
    (auto simp: runs_Cons split: option.splits prod.splits sum.splits)

lemma call_delegates_Inl:
  assumes "call_delegates ds name args s = (s', Inl e)"
  shows "\<exists>before d after s1. ds = before @ d # after \<and> runs before name args s s1 \<and>
    ((d name = None \<and> e = AttributeError \<and> s' = s1) \<or> (\<exists>m. d name = Some m \<and> m args s1 = (s', Inl e)))"
  using assms
proof (induction ds arbitrary: s)
  case Nil
  then show ?case by simp
next
  case (Cons d ds)
  show ?case
  proof (cases "d name")
    case None
    with Cons.prems have "d # ds = [] @ d # ds \<and> runs [] name args s s \<and> d name = None \<and>
      e = AttributeError \<and> s' = s" by simp
    then show ?thesis by blast
  next
    case (Some m)
    obtain s1 r where m: "m args s = (s1, r)" by fastforce
    show ?thesis
    proof (cases r)
      case (Inl e')
      with Cons.prems Some m have "d # ds = [] @ d # ds \<and> runs [] name args s s \<and>
        d name = Some m \<and> m args s = (s', Inl e)" by simp
      then show ?thesis by blast
    next
      case (Inr v)
      with Cons.prems Some m have "call_delegates ds name args s1 = (s', Inl e)" by simp
      then obtain before d' after s2 where ds: "ds = before @ d' # after"
        and r: "runs before name args s1 s2"
        and d': "(d' name = None \<and> e = AttributeError \<and> s' = s2) \<or> (\<exists>m. d' name = Some m \<and> m args s2 = (s', Inl e))"
        using Cons.IH by blast
      have "runs (d # before) name args s s2"
        using Some m Inr r by (auto simp: runs_Cons)
      with ds d' show ?thesis by (metis append_Cons)
    qed
  qed
qed


lemma map_of_filter_dict:
  "dict_ok d \<Longrightarrow> map_of d k = Some v \<Longrightarrow> P (k, v) \<Longrightarrow> map_of (filter P d) k = Some v"
  by (induction d) (auto simp: dict_ok_def)

lemma conventional_member:
  assumes "dict_ok (members t)" and "map_of (members t) name = Some m" and "callable m"
    and "named_as_callback name"
  shows "map_of (callback_methods (conventional_callback t)) name =
    Some (callback_method (starts_with ''after_'' name) m)"
proof -
  let ?d = "members (conventional_callback t)"
  have "dict_ok ?d" using assms(1) by (simp add: conventional_callback_def dict_simps)
  moreover have "map_of ?d name = Some (callback_method (starts_with ''after_'' name) m)"
    using assms by (simp add: conventional_callback_def dict_simps)
  ultimately show ?thesis
    unfolding callback_methods_def by (rule map_of_filter_dict) (simp add: callback_method_def)
qed

definition calling_order :: "string \<Rightarrow> 'd list \<Rightarrow> 'd list" where
  "calling_order name ds = (if starts_with ''after_'' name then rev ds else ds)"

lemma call_composite_conventional:
  assumes "dict_ok (members t)" and "map_of (members t) name = Some m" and "callable m"
    and "named_as_callback name"
    and "CompositeCallback cache (conventional_callback t) = (cache', c)" and "class_name t \<notin> keys cache"
  shows "call_composite c own ds name args s = call_delegates (calling_order name ds) name args s"
  using assms(5,6) conventional_member [OF assms(1-4)]
  by (auto simp: CompositeCallback_def call_composite_def wrapper_def calling_order_def Let_def
      callback_method_def conventional_callback_def not_keys_iff_map_of split: option.splits)

text \<open>C29: A method of the composite of a conventional callback interface calls the delegates in
  the order in which they were added, and in the reverse order when the name of the method begins with
  \<open>after_\<close>, each with the arguments of the call. It returns exactly when every delegate
  returns; when one raises, or lacks the method, the delegates after it are not called and
  its exception leaves the composite.\<close>

theorem composite_calls_in_order:
  assumes "dict_ok (members t)" and "map_of (members t) name = Some m" and "callable m"
    and "named_as_callback name"
    and "CompositeCallback cache (conventional_callback t) = (cache', c)" and "class_name t \<notin> keys cache"
  shows "(call_composite c own ds name args s = (s', Inr u) \<longleftrightarrow> runs (calling_order name ds) name args s s') \<and>
    (call_composite c own ds name args s = (s', Inl e) \<longrightarrow>
      (\<exists>called d uncalled s1. calling_order name ds = called @ d # uncalled \<and> runs called name args s s1 \<and>
        ((d name = None \<and> e = AttributeError \<and> s' = s1) \<or> (\<exists>f. d name = Some f \<and> f args s1 = (s', Inl e)))))"
  unfolding call_composite_conventional [OF assms]
  by (rule conjI [OF call_delegates_Inr_iff impI [OF call_delegates_Inl]])

definition ex_delegate :: "nat \<Rightarrow> (nat list, nat, bool) object_methods" where
  "ex_delegate i name =
     (if name = ''after_it'' \<or> name = ''on_it''
      then Some (\<lambda>x s. if x = 7 \<and> i = 2 then (s, Inl (AppError x)) else (s @ [i], Inr True)) else None)"

definition ex_callback :: callback_class where
  "ex_callback =
     \<lparr>class_name = ''C'',
       members = [(''after_it'', \<lparr>callable = True, is_callback_method = False, is_callback_order_reversed = False\<rparr>),
                  (''on_it'', \<lparr>callable = True, is_callback_method = True, is_callback_order_reversed = True\<rparr>)]\<rparr>"

theorem composite_calls_in_order_witness:
  "runs (calling_order ''after_it'' (map ex_delegate [1, 2, 3])) ''after_it'' 5 [] [3, 2, 1] \<and>
   (\<exists>called d uncalled s1. calling_order ''on_it'' (map ex_delegate [1, 2, 3]) = called @ d # uncalled \<and>
     runs called ''on_it'' 7 [] s1 \<and>
     ((d ''on_it'' = None \<and> AppError 7 = AttributeError \<and> [1] = s1) \<or>
      (\<exists>f. d ''on_it'' = Some f \<and> f 7 s1 = ([1], Inl (AppError 7)))))"
proof (rule conjI)
  let ?c = "snd (CompositeCallback [] (conventional_callback ex_callback))"
  let ?cache = "fst (CompositeCallback [] (conventional_callback ex_callback))"
  have c: "CompositeCallback [] (conventional_callback ex_callback) = (?cache, ?c)" by simp
  have ok: "dict_ok (members ex_callback)" by code_simp
  let ?m = "\<lambda>b. \<lparr>callable = True, is_callback_method = b, is_callback_order_reversed = b\<rparr>"
  have 1: "map_of (members ex_callback) ''after_it'' = Some (?m False)"
    "map_of (members ex_callback) ''on_it'' = Some (?m True)"
    "callable (?m False)" "callable (?m True)" "named_as_callback ''after_it''" "named_as_callback ''on_it''"
    "class_name ex_callback \<notin> keys ([] :: (string, composite_type) dict)"
    by (simp_all add: ex_callback_def named_as_callback_def starts_with_def)
  have "call_composite ?c (\<lambda>_. None) (map ex_delegate [1, 2, 3]) ''after_it'' 5 [] = ([3, 2, 1], Inr ())"
    by (simp add: CompositeCallback_def conventional_callback_def ex_callback_def callback_methods_def
        call_composite_def wrapper_def named_as_callback_def starts_with_def map_values_def
        callback_method_def ex_delegate_def Let_def)
  then show "runs (calling_order ''after_it'' (map ex_delegate [1, 2, 3])) ''after_it'' 5 [] [3, 2, 1]"
    by (rule composite_calls_in_order [OF ok 1(1) 1(3) 1(5) c 1(7), THEN conjunct1, THEN iffD1])
  have "call_composite ?c (\<lambda>_. None) (map ex_delegate [1, 2, 3]) ''on_it'' 7 [] = ([1], Inl (AppError 7))"
    by (simp add: CompositeCallback_def conventional_callback_def ex_callback_def callback_methods_def
        call_composite_def wrapper_def named_as_callback_def starts_with_def map_values_def
        callback_method_def ex_delegate_def Let_def)
  then show "\<exists>called d uncalled s1. calling_order ''on_it'' (map ex_delegate [1, 2, 3]) = called @ d # uncalled \<and>
     runs called ''on_it'' 7 [] s1 \<and>
     ((d ''on_it'' = None \<and> AppError 7 = AttributeError \<and> [1] = s1) \<or>
      (\<exists>f. d ''on_it'' = Some f \<and> f 7 s1 = ([1], Inl (AppError 7))))"
    by (rule composite_calls_in_order [OF ok 1(2) 1(4) 1(6) c 1(7), THEN conjunct2, rule_format])
qed

lemma composite_type_of_same_name:
  "class_name t = class_name t' \<Longrightarrow> CompositeCallback cache t = (cache', c) \<Longrightarrow>
   CompositeCallback cache' t' = (cache', c)"
  by (auto simp: CompositeCallback_def Let_def dict_simps split: option.splits)

end
