(* ===== verification/Tracking.thy ===== *)
theory Tracking
  imports Guards
begin

text \<open>
  Tracking an iteration, \<open>thinking_programming/tracking.py\<close>: callbacks on every element
  and at the end, sampling, and the generator that wraps an iterable.

  A callback transforms the state of the program or raises. The generator of \<open>track\<close> is
  modelled together with the \<open>for\<close> loop that consumes it: \<open>body\<close> is the body of that
  loop, and \<open>final\<close> is what the wrapped iterable raises after its last element, if anything.
\<close>

type_synonym 's doing = "'s \<Rightarrow> 's \<times> unit res"

record ('s, 'v) tracking_callback =
  on_element :: "int \<Rightarrow> 'v \<Rightarrow> 's doing"
  on_end :: "int \<Rightarrow> 's doing"

definition nothing :: "'s doing" where
  "nothing s = (s, Inr ())"

definition tracker ::
  "(int \<Rightarrow> 'v \<Rightarrow> 's doing) option \<Rightarrow> (int \<Rightarrow> 's doing) option \<Rightarrow> ('s, 'v) tracking_callback" where
  "tracker on_element_arg on_end_arg =
     \<lparr>on_element = (case on_element_arg of Some f \<Rightarrow> f | None \<Rightarrow> (\<lambda>i x. nothing)),
      on_end = (case on_end_arg of Some f \<Rightarrow> f | None \<Rightarrow> (\<lambda>i. nothing))\<rparr>"

definition sample :: "(int \<Rightarrow> bool) \<Rightarrow> ('s, 'v) tracking_callback \<Rightarrow> ('s, 'v) tracking_callback" where
  "sample strategy delegate =
     \<lparr>on_element = (\<lambda>i value. if strategy i then on_element delegate i value else nothing),
      on_end = on_end delegate\<rparr>"

definition periodically :: "int \<Rightarrow> int \<Rightarrow> (int \<Rightarrow> bool) res" where
  "periodically period phase =
     rbind (guard_that (period > phase) AssertionError)
       (\<lambda>_. rbind (guard_that (period > 0 \<and> phase \<ge> 0) AssertionError)
          (\<lambda>_. Inr (\<lambda>i. i mod period = phase)))"

fun track_from ::
  "int \<Rightarrow> 'v list \<Rightarrow> exn option \<Rightarrow> ('s, 'v) tracking_callback \<Rightarrow> ('v \<Rightarrow> 's doing) \<Rightarrow> 's doing" where
  "track_from i [] final callback body s =
     (case final of Some e \<Rightarrow> (s, Inl e) | None \<Rightarrow> on_end callback i s)"
| "track_from i (x # xs) final callback body s =
     (case on_element callback i x s of
        (s1, Inl e) \<Rightarrow> (s1, Inl e)
      | (s1, Inr _) \<Rightarrow>
          (case body x s1 of
             (s2, Inl e) \<Rightarrow> (s2, Inl e)
           | (s2, Inr _) \<Rightarrow> track_from (i + 1) xs final callback body s2))"

definition track ::
  "'v list \<Rightarrow> exn option \<Rightarrow> ('s, 'v) tracking_callback \<Rightarrow> ('v \<Rightarrow> 's doing) \<Rightarrow> 's doing" where
  "track iter final callback body s = track_from 0 iter final callback body s"

section \<open>What is observed\<close>

text \<open>
  A callback and a body that write down what they are told. The body raises \<open>e\<close> at the elements
  in \<open>Q\<close>, after writing them down.
\<close>

datatype 'v observed = Element int 'v | Ended int | Body 'v

definition observe :: "('v observed list, 'v) tracking_callback" where
  "observe = tracker (Some (\<lambda>i x s. (s @ [Element i x], Inr ()))) (Some (\<lambda>i s. (s @ [Ended i], Inr ())))"

definition consume :: "('v \<Rightarrow> bool) \<Rightarrow> exn \<Rightarrow> 'v \<Rightarrow> 'v observed list doing" where
  "consume Q e x s = (s @ [Body x], if Q x then Inl e else Inr ())"

fun indexed :: "int \<Rightarrow> 'v list \<Rightarrow> (int \<times> 'v) list" where
  "indexed i [] = []"
| "indexed i (x # xs) = (i, x) # indexed (i + 1) xs"

text \<open>What is written down about elements with their indices: the callback first, then the body.\<close>

definition told :: "(int \<Rightarrow> bool) \<Rightarrow> (int \<times> 'v) list \<Rightarrow> 'v observed list" where
  "told P ixs = concat (map (\<lambda>(i, x). if P i then [Element i x, Body x] else [Body x]) ixs)"

lemma told_simps [simp]:
  "told P [] = []"
  "told P ((i, x) # ixs) = (if P i then [Element i x, Body x] else [Body x]) @ told P ixs"
  by (auto simp: told_def)

lemma track_from_told:
  "\<forall>x \<in> set xs. \<not> Q x \<Longrightarrow> track_from i xs final (sample P observe) (consume Q e) s =
     (case final of
        None \<Rightarrow> (s @ told P (indexed i xs) @ [Ended (i + int (length xs))], Inr ())
      | Some e' \<Rightarrow> (s @ told P (indexed i xs), Inl e'))"
  by (induction xs arbitrary: i s)
    (auto simp: sample_def observe_def tracker_def consume_def nothing_def split: option.splits)

lemma track_from_raises:
  "\<forall>y \<in> set pre. \<not> Q y \<Longrightarrow> Q x \<Longrightarrow> track_from i (pre @ x # post) final (sample P observe) (consume Q e) s =
     (s @ told P (indexed i (pre @ [x])), Inl e)"
  by (induction pre arbitrary: i s)
    (auto simp: sample_def observe_def tracker_def consume_def nothing_def)

text \<open>The number of elements of a window of consecutive indices that fall on the phase.\<close>

lemma mod_eq_in_period:
  "0 \<le> ph \<Longrightarrow> ph < (p :: int) \<Longrightarrow> {i. 0 \<le> i \<and> i < n \<and> i mod p = ph} = (\<lambda>k. ph + k * p) ` {k. 0 \<le> k \<and> ph + k * p < n}"
proof (intro set_eqI iffI)
  fix i assume "0 \<le> ph" "ph < p" "i \<in> {i. 0 \<le> i \<and> i < n \<and> i mod p = ph}"
  then have "i = ph + (i div p) * p" "0 \<le> i div p" "i < n"
    by (auto simp: pos_imp_zdiv_nonneg_iff mult.commute)
  then show "i \<in> (\<lambda>k. ph + k * p) ` {k. 0 \<le> k \<and> ph + k * p < n}" by auto
qed auto

lemma le_div_iff_mult_le:
  assumes "0 < (p :: int)"
  shows "a \<le> b div p \<longleftrightarrow> a * p \<le> b"
proof
  assume "a \<le> b div p"
  then have "a * p \<le> b div p * p" using assms by (simp add: mult_right_mono)
  also have "\<dots> \<le> b" using assms pos_mod_sign [of p b] by (simp add: minus_mod_eq_div_mult [symmetric])
  finally show "a * p \<le> b" .
next
  assume "a * p \<le> b"
  then have "a * p div p \<le> b div p" using assms by (rule zdiv_mono1)
  then show "a \<le> b div p" using assms by simp
qed

lemma period_count:
  assumes "0 \<le> ph" and "ph < (p :: int)" and "0 \<le> n"
  shows "card {i. 0 \<le> i \<and> i < n \<and> i mod p = ph} = nat ((n - ph + p - 1) div p)"
proof -
  have "(0 \<le> k \<and> ph + k * p < n) \<longleftrightarrow> k \<in> {0 ..< (n - ph + p - 1) div p}" for k
  proof -
    have "ph + k * p < n \<longleftrightarrow> (k + 1) * p \<le> n - ph + p - 1" by (simp add: algebra_simps) linarith
    also have "\<dots> \<longleftrightarrow> k + 1 \<le> (n - ph + p - 1) div p"
      using assms by (simp only: le_div_iff_mult_le)
    finally show ?thesis by auto
  qed
  then have "{k. 0 \<le> k \<and> ph + k * p < n} = {0 ..< (n - ph + p - 1) div p}"
    by (simp only: Collect_mem_eq)
  moreover have "inj_on (\<lambda>k. ph + k * p) A" for A
    using assms by (auto simp: inj_on_def)
  ultimately show ?thesis
    using assms by (simp only: mod_eq_in_period card_image card_atLeastLessThan_int diff_zero)
qed

fun elements_of :: "'v observed list \<Rightarrow> (int \<times> 'v) list" where
  "elements_of [] = []"
| "elements_of (Element i x # es) = (i, x) # elements_of es"
| "elements_of (_ # es) = elements_of es"

lemma elements_of_told [simp]:
  "elements_of (told P ixs @ es) = filter (\<lambda>(i, x). P i) ixs @ elements_of es"
  by (induction ixs) auto

lemma indexed_snoc: "indexed i (xs @ [x]) = indexed i xs @ [(i + int (length xs), x)]"
  by (induction xs arbitrary: i) auto

lemma told_append [simp]: "told P (ixs @ jxs) = told P ixs @ told P jxs"
  by (simp add: told_def)

lemma distinct_indexed: "distinct (map fst (indexed i xs)) \<and> fst ` set (indexed i xs) = {i ..< i + int (length xs)}"
  by (induction xs arbitrary: i) auto

lemma length_filter_indexed:
  "length (filter (\<lambda>(j, x). P j) (indexed i xs)) = card {j. i \<le> j \<and> j < i + int (length xs) \<and> P j}"
proof -
  have "length (filter (\<lambda>(j, x). P j) (indexed i xs)) = length (filter P (map fst (indexed i xs)))"
    by (simp add: filter_map comp_def case_prod_unfold)
  also have "\<dots> = card (set (filter P (map fst (indexed i xs))))"
    using distinct_indexed [of i xs] by (simp only: distinct_card distinct_filter)
  also have "set (filter P (map fst (indexed i xs))) = {j. i \<le> j \<and> j < i + int (length xs) \<and> P j}"
    using distinct_indexed [of i xs] by auto
  finally show ?thesis .
qed

text \<open>C30: Tracking an iteration with periodic sampling. \<open>periodically\<close> accepts exactly the
  phases of a positive period. The tracked loop then goes through the iterable in order; for each
  element whose index is congruent to the phase the delegate is told index and element, and then,
  before the next element is looked at, the body handles the element. These are
  \<open>\<lceil>(n - phase) / period\<rceil>\<close> many. The delegate is told the end once, after everything else,
  with the number of elements. (The docstring of \<open>on_end\<close> says that the index before is the last one
  for which \<open>on_element\<close> has been called; for the delegate of a sampling callback this is only
  so when the last index is sampled.) When the iterable raises after its elements, or the body at one of
  them, all of this is done up to there, the exception passes, and the end is not told.\<close>

theorem periodic_tracking:
  "((\<exists>P. periodically period phase = Inr P) \<longleftrightarrow> 0 \<le> phase \<and> phase < period) \<and>
   (periodically period phase = Inr P \<longrightarrow>
     (\<exists>tr. tr = concat (map (\<lambda>(i, x). if i mod period = phase then [Element i x, Body x] else [Body x])
         (indexed 0 xs)) \<and>
       length (elements_of tr) = nat ((int (length xs) - phase + period - 1) div period) \<and>
       track xs None (sample P observe) (consume (\<lambda>x. False) e) [] = (tr @ [Ended (int (length xs))], Inr ()) \<and>
       track xs (Some e) (sample P observe) (consume (\<lambda>x. False) e) [] = (tr, Inl e) \<and>
       (\<forall>x more Q. (\<forall>y \<in> set xs. \<not> Q y) \<longrightarrow> Q x \<longrightarrow>
          track (xs @ x # more) final (sample P observe) (consume Q e) [] =
            (tr @ (if int (length xs) mod period = phase then [Element (int (length xs)) x, Body x] else [Body x]),
             Inl e))))"
proof (intro conjI impI)
  show "(\<exists>P. periodically period phase = Inr P) \<longleftrightarrow> 0 \<le> phase \<and> phase < period"
    by (auto simp: periodically_def res_simps)
next
  assume "periodically period phase = Inr P"
  then have P: "P = (\<lambda>i. i mod period = phase)" and ph: "0 \<le> phase" "phase < period"
    by (auto simp: periodically_def res_simps)
  let ?tr = "told P (indexed 0 xs)"
  have "length (elements_of ?tr) = nat ((int (length xs) - phase + period - 1) div period)"
    using length_filter_indexed [of P 0 xs] period_count [OF ph, of "int (length xs)"]
      elements_of_told [of P "indexed 0 xs" "[]"] by (simp add: P)
  moreover have "track (xs @ x # more) final (sample P observe) (consume Q e) [] =
      (?tr @ (if P (int (length xs)) then [Element (int (length xs)) x, Body x] else [Body x]), Inl e)"
    if "\<forall>y \<in> set xs. \<not> Q y" "Q x" for x more Q
    using that by (simp add: track_def track_from_raises indexed_snoc told_append)
  ultimately show "\<exists>tr. tr = concat (map (\<lambda>(i, x). if i mod period = phase then [Element i x, Body x] else [Body x])
         (indexed 0 xs)) \<and>
       length (elements_of tr) = nat ((int (length xs) - phase + period - 1) div period) \<and>
       track xs None (sample P observe) (consume (\<lambda>x. False) e) [] = (tr @ [Ended (int (length xs))], Inr ()) \<and>
       track xs (Some e) (sample P observe) (consume (\<lambda>x. False) e) [] = (tr, Inl e) \<and>
       (\<forall>x more Q. (\<forall>y \<in> set xs. \<not> Q y) \<longrightarrow> Q x \<longrightarrow>
          track (xs @ x # more) final (sample P observe) (consume Q e) [] =
            (tr @ (if int (length xs) mod period = phase then [Element (int (length xs)) x, Body x] else [Body x]),
             Inl e))"
    by (intro exI [of _ ?tr]) (simp add: track_def track_from_told P told_def)
qed

theorem periodic_tracking_witness:
  "track ''abc'' None (sample (\<lambda>i. i mod 2 = 1) observe) (consume (\<lambda>x. False) AssertionError) [] =
     ([Body CHR ''a'', Element 1 CHR ''b'', Body CHR ''b'', Body CHR ''c'', Ended 3], Inr ())"
proof -
  have "periodically 2 1 = Inr (\<lambda>i. i mod 2 = 1)" by (simp add: periodically_def guard_that_def)
  from periodic_tracking [of 2 1 "\<lambda>i. i mod 2 = 1" "''abc''", THEN conjunct2, rule_format, OF this]
  show ?thesis by simp
qed

end
