(* ===== verification/Services.thy ===== *)
theory Services
  imports Py_Strings
begin

text \<open>
  \<open>thinking_services\<close>: running programs (\<open>processes.py\<close>), consuming their logs
  (\<open>logs.py\<close>) and polling (\<open>polling.py\<close>), with the credentials of
  \<open>thinking_programming/credentials.py\<close>.

  The operating system is a parameter: \<open>spawn\<close> is what \<open>subprocess\<close> does with a request in
  a state of the machine. A process has a return code once it has ended, and standard output
  when it was piped: the text of a finished process, the lines of a running one.
\<close>

section \<open>Consuming logs\<close>

definition rstrip :: "string \<Rightarrow> string" where
  "rstrip s = rev (dropWhile is_space (rev s))"

text \<open>The lines that the consumer is given, in order.\<close>

definition consume_log_text :: "string \<Rightarrow> string list" where
  "consume_log_text stdout_text = map rstrip (py_split (CHR 0x0A) stdout_text)"

definition consume_log_stream :: "string list \<Rightarrow> string list" where
  "consume_log_stream stdout_lines = map rstrip stdout_lines"

section \<open>Running programs\<close>

record spawn_request =
  full_cmd :: "string list"
  waits :: bool
  start_new_session :: bool
  spawn_cwd :: "string option"
  piped :: bool

datatype process_output = NoOutput | OutputText string | OutputLines "string list"

record process =
  returncode :: "int option"
  stdout :: process_output

type_synonym 's spawn = "spawn_request \<Rightarrow> 's \<Rightarrow> 's \<times> process res"

record 'c program =
  base_command :: string
  program_cwd :: "string option"
  log_consumer :: "'c option"

text \<open>\<open>a or b\<close> for optional text: an empty text counts as absent.\<close>

definition text_or :: "string option \<Rightarrow> string option \<Rightarrow> string option" where
  "text_or a b = (case a of Some s \<Rightarrow> if s = [] then b else Some s | None \<Rightarrow> b)"

text \<open>
  \<open>Program.run\<close> returns the process and what its consumer is given: the text of a finished process before it
  returns, the lines of a running one later, as they come, since a daemon thread reads them. Iterating over the
  text of a finished process that has none, or splitting the output of a running one, would
  be an error of \<open>subprocess\<close>; the kinds of output are those it documents.
\<close>

definition program_run ::
  "'s spawn \<Rightarrow> 'c program \<Rightarrow> string list \<Rightarrow> bool \<Rightarrow> string option \<Rightarrow> 'c option \<Rightarrow> 's \<Rightarrow>
   's \<times> (process \<times> ('c \<times> string) list) res" where
  "program_run spawn p cmd blocking cwd_arg consumer_arg s =
     (let consumer = (case consumer_arg of Some c \<Rightarrow> Some c | None \<Rightarrow> log_consumer p);
          request = \<lparr>full_cmd = base_command p # cmd, waits = blocking,
                     start_new_session = \<not> blocking, spawn_cwd = text_or cwd_arg (program_cwd p),
                     piped = (consumer \<noteq> None)\<rparr>
      in case spawn request s of
           (s1, Inl e) \<Rightarrow> (s1, Inl e)
         | (s1, Inr result) \<Rightarrow>
             (s1, case consumer of
                None \<Rightarrow> Inr (result, [])
              | Some c \<Rightarrow>
                  (case stdout result of
                     OutputText txt \<Rightarrow>
                       (if blocking then Inr (result, map (Pair c) (consume_log_text txt))
                        else Inl AttributeError)
                   | OutputLines ls \<Rightarrow>
                       (if blocking then Inl AttributeError
                        else Inr (result, map (Pair c) (consume_log_stream ls)))
                   | NoOutput \<Rightarrow> Inl AttributeError)))"

definition program_query ::
  "'s spawn \<Rightarrow> 'c program \<Rightarrow> string list \<Rightarrow> 's \<Rightarrow> 's \<times> string option res" where
  "program_query spawn p cmd s =
     (case program_run spawn p cmd True None None s of
        (s1, Inl e) \<Rightarrow> (s1, Inl e)
      | (s1, Inr (result, _)) \<Rightarrow>
          (s1, if returncode result = Some 0
               then (case stdout result of OutputText txt \<Rightarrow> Inr (Some (strip txt)) | _ \<Rightarrow> Inl AttributeError)
               else Inr None))"

definition program_check :: "'s spawn \<Rightarrow> 'c program \<Rightarrow> string list \<Rightarrow> 's \<Rightarrow> 's \<times> bool res" where
  "program_check spawn p cmd s =
     (case program_run spawn p cmd True None None s of
        (s1, Inl e) \<Rightarrow> (s1, Inl e)
      | (s1, Inr (result, _)) \<Rightarrow> (s1, Inr (returncode result = Some 0)))"

definition program_command :: "'s spawn \<Rightarrow> 'c program \<Rightarrow> string list \<Rightarrow> 's \<Rightarrow> 's \<times> unit res" where
  "program_command spawn p cmd s =
     (case program_check spawn p cmd s of
        (s1, Inl e) \<Rightarrow> (s1, Inl e)
      | (s1, Inr ok) \<Rightarrow> (s1, guard_that ok AssertionError))"

definition program_daemon ::
  "'s spawn \<Rightarrow> 'c program \<Rightarrow> string list \<Rightarrow> 'c option \<Rightarrow> 's \<Rightarrow> 's \<times> (process \<times> ('c \<times> string) list) res" where
  "program_daemon spawn p cmd consumer s = program_run spawn p cmd False None consumer s"

text \<open>A query without a consumer has no output to read: it raises when the program succeeds.\<close>

lemma query_needs_consumer:
  assumes "log_consumer p = None"
    and "\<And>r s s' res. spawn r s = (s', Inr res) \<Longrightarrow> \<not> piped r \<Longrightarrow> stdout res = NoOutput"
  shows "snd (program_query spawn p cmd s) \<noteq> Inr (Some t)"
  using assms(1) assms(2) [of "\<lparr>full_cmd = base_command p # cmd, waits = True,
    start_new_session = False, spawn_cwd = text_or None (program_cwd p), piped = False\<rparr>" s]
  by (auto simp: program_query_def program_run_def Let_def split: prod.splits sum.splits)

section \<open>Polling\<close>

text \<open>
  \<open>poll\<close>: the predicate is evaluated at most \<open>retries\<close> times, and after each failure, the last
  included, the loop sleeps for what the strategy says. The predicate transforms the state and
  may raise; the slept times are returned.
\<close>

type_synonym 's predicate = "'s \<Rightarrow> 's \<times> bool res"

definition ConstantStepback :: "'t \<Rightarrow> int \<Rightarrow> 't" where
  "ConstantStepback stepback retry_no = stepback"

fun poll_loop ::
  "'s predicate \<Rightarrow> (int \<Rightarrow> 't) \<Rightarrow> int \<Rightarrow> nat \<Rightarrow> 's \<Rightarrow> 's \<times> 't list \<times> bool res" where
  "poll_loop pred stepback i 0 s = (s, [], Inr False)"
| "poll_loop pred stepback i (Suc left) s =
     (case pred s of
        (s1, Inl e) \<Rightarrow> (s1, [], Inl e)
      | (s1, Inr True) \<Rightarrow> (s1, [], Inr True)
      | (s1, Inr False) \<Rightarrow>
          (case poll_loop pred stepback (i + 1) left s1 of
             (s2, slept, r) \<Rightarrow> (s2, stepback i # slept, r)))"

definition poll :: "'s predicate \<Rightarrow> int \<Rightarrow> (int \<Rightarrow> 't) \<Rightarrow> 's \<Rightarrow> 's \<times> 't list \<times> unit res" where
  "poll pred retries stepback s =
     (case poll_loop pred stepback 0 (nat retries) s of
        (s1, slept, r) \<Rightarrow>
          (s1, slept, rbind r (\<lambda>success. guard_that success (PollingFailureException retries))))"

text \<open>
  \<open>fails_for pred n s s'\<close>: the next \<open>n\<close> evaluations answer \<open>False\<close> and lead from \<open>s\<close> to
  \<open>s'\<close>.
\<close>

fun fails_for :: "'s predicate \<Rightarrow> nat \<Rightarrow> 's \<Rightarrow> 's \<Rightarrow> bool" where
  "fails_for pred 0 s s' = (s' = s)"
| "fails_for pred (Suc n) s s' = (\<exists>s1. pred s = (s1, Inr False) \<and> fails_for pred n s1 s')"

lemma poll_loop_fails:
  "fails_for pred n s s1 \<Longrightarrow> n \<le> m \<Longrightarrow>
   poll_loop pred stepback i m s =
     (case poll_loop pred stepback (i + int n) (m - n) s1 of
        (s2, slept, r) \<Rightarrow> (s2, map (\<lambda>k. stepback (i + int k)) [0..<n] @ slept, r))"
proof (induction n arbitrary: s i m)
  case 0
  then show ?case by simp
next
  case (Suc n)
  from Suc.prems obtain s' where s': "pred s = (s', Inr False)" "fails_for pred n s' s1" by auto
  from Suc.prems obtain m' where m: "m = Suc m'" and "n \<le> m'" by (cases m) auto
  have sh: "map (\<lambda>k. stepback (i + int k)) [0..<Suc n] =
    stepback i # map (\<lambda>k. stepback (i + 1 + int k)) [0..<n]"
    by (simp del: upt_Suc add: upt_conv_Cons map_Suc_upt [symmetric] comp_def algebra_simps)
  show ?case
    using Suc.IH [OF s'(2) \<open>n \<le> m'\<close>, of "i + 1"] s'(1)
    by (simp del: upt_Suc add: m sh algebra_simps split: prod.split)
qed

lemma poll_loop_never:
  "(\<And>n s'. n < m \<Longrightarrow> fails_for pred n s s' \<Longrightarrow> \<exists>s1. pred s' = (s1, Inr False)) \<Longrightarrow>
   \<exists>s'. fails_for pred m s s'"
proof (induction m arbitrary: s)
  case 0
  then show ?case by simp
next
  case (Suc m)
  from Suc.prems [of 0 s] obtain s1 where s1: "pred s = (s1, Inr False)" by auto
  have "\<exists>s2. pred s' = (s2, Inr False)" if "n < m" "fails_for pred n s1 s'" for n s'
    using Suc.prems [of "Suc n" s'] that s1 by auto
  then obtain s' where "fails_for pred m s1 s'" using Suc.IH by blast
  with s1 show ?case by auto
qed

text \<open>C28: Polling ends, and it does what its parameters promise. If the predicate answers
  \<open>True\<close> after \<open>n\<close> failures and the number of retries is greater than \<open>n\<close>, \<open>poll\<close> returns in the state of
  that answer, having slept \<open>n\<close> times for the times that the strategy gives for the retries
  \<open>0\<close> to \<open>n - 1\<close>. If the predicate raises there, so does \<open>poll\<close>. If it fails
  at each of the retries, which may be none, \<open>PollingFailureException\<close> is raised after
  exactly that many evaluations and sleeps. One of the three happens in every state.\<close>

theorem poll_correct:
  "(\<forall>n s1 s2. fails_for pred n s s1 \<longrightarrow> pred s1 = (s2, Inr True) \<longrightarrow> int n < retries \<longrightarrow>
      poll pred retries stepback s = (s2, map (\<lambda>k. stepback (int k)) [0..<n], Inr ())) \<and>
   (\<forall>n s1 s2 e. fails_for pred n s s1 \<longrightarrow> pred s1 = (s2, Inl e) \<longrightarrow> int n < retries \<longrightarrow>
      poll pred retries stepback s = (s2, map (\<lambda>k. stepback (int k)) [0..<n], Inl e)) \<and>
   (\<forall>s1. fails_for pred (nat retries) s s1 \<longrightarrow>
      poll pred retries stepback s =
        (s1, map (\<lambda>k. stepback (int k)) [0..<nat retries], Inl (PollingFailureException retries))) \<and>
   ((\<exists>s1. fails_for pred (nat retries) s s1) \<or>
    (\<exists>n s1 s2 r. fails_for pred n s s1 \<and> int n < retries \<and> pred s1 = (s2, r) \<and> r \<noteq> Inr False))"
proof (intro conjI allI impI)
  fix n s1 s2 assume a: "fails_for pred n s s1" "pred s1 = (s2, Inr True)" "int n < retries"
  then have "nat retries = n + Suc (nat retries - Suc n)" by simp
  then obtain k where k: "nat retries = n + Suc k" ..
  show "poll pred retries stepback s = (s2, map (\<lambda>k. stepback (int k)) [0..<n], Inr ())"
    using poll_loop_fails [OF a(1), of "nat retries" stepback 0] a(2) k
    by (simp add: poll_def guard_that_def)
next
  fix n s1 s2 e assume a: "fails_for pred n s s1" "pred s1 = (s2, Inl e)" "int n < retries"
  then have "nat retries = n + Suc (nat retries - Suc n)" by simp
  then obtain k where k: "nat retries = n + Suc k" ..
  show "poll pred retries stepback s = (s2, map (\<lambda>k. stepback (int k)) [0..<n], Inl e)"
    using poll_loop_fails [OF a(1), of "nat retries" stepback 0] a(2) k
    by (simp add: poll_def guard_that_def)
next
  fix s1 assume a: "fails_for pred (nat retries) s s1"
  show "poll pred retries stepback s =
      (s1, map (\<lambda>k. stepback (int k)) [0..<nat retries], Inl (PollingFailureException retries))"
    using poll_loop_fails [OF a, of "nat retries" stepback 0] by (simp add: poll_def guard_that_def)
next
  show "(\<exists>s1. fails_for pred (nat retries) s s1) \<or>
    (\<exists>n s1 s2 r. fails_for pred n s s1 \<and> int n < retries \<and> pred s1 = (s2, r) \<and> r \<noteq> Inr False)"
  proof (cases "\<forall>n s1 s2 r. fails_for pred n s s1 \<longrightarrow> int n < retries \<longrightarrow> pred s1 = (s2, r) \<longrightarrow> r = Inr False")
    case True
    have "\<exists>s2. pred s' = (s2, Inr False)" if "n < nat retries" "fails_for pred n s s'" for n s'
    proof -
      obtain s2 r where "pred s' = (s2, r)" by fastforce
      with True that show ?thesis by force
    qed
    then show ?thesis using poll_loop_never [of "nat retries" pred s] by blast
  next
    case False
    then show ?thesis by blast
  qed
qed

text \<open>A predicate that counts its evaluations and holds from the third on.\<close>

definition third_time :: "nat predicate" where
  "third_time s = (Suc s, Inr (s \<ge> 2))"

theorem poll_correct_witness:
  "poll third_time 5 (ConstantStepback (1 :: int)) 0 = (3, [1, 1], Inr ()) \<and>
   poll third_time 2 (ConstantStepback (1 :: int)) 0 = (2, [1, 1], Inl (PollingFailureException 2))"
proof -
  have f: "fails_for third_time 2 0 2" by (simp add: third_time_def numeral_2_eq_2)
  have "third_time 2 = (3, Inr True)" by (simp add: third_time_def)
  then have "poll third_time 5 (ConstantStepback (1 :: int)) 0 =
      (3, map (\<lambda>k. ConstantStepback 1 (int k)) [0..<2], Inr ())"
    using poll_correct [THEN conjunct1, rule_format, OF f, of 3 5 "ConstantStepback 1"] by simp
  moreover have "poll third_time 2 (ConstantStepback (1 :: int)) 0 =
      (2, map (\<lambda>k. ConstantStepback 1 (int k)) [0..<nat 2], Inl (PollingFailureException 2))"
    using poll_correct [THEN conjunct2, THEN conjunct2, THEN conjunct1, rule_format,
        of third_time 2 0 2 "ConstantStepback 1"] f by simp
  ultimately show ?thesis by (simp add: ConstantStepback_def numeral_2_eq_2)
qed

section \<open>Credentials\<close>

record credentials =
  username :: "string option"
  password :: "string option"

definition masked_password :: "credentials \<Rightarrow> string option" where
  "masked_password c =
     (case password c of
        None \<Rightarrow> None
      | Some p \<Rightarrow>
          Some (if length p < 3 then replicate (length p) (CHR ''*'')
                else [hd p] @ replicate (length p - 2) (CHR ''*'') @ [last p]))"

definition str_of_credentials :: "credentials \<Rightarrow> string" where
  "str_of_credentials c =
     (let quoted = (\<lambda>x. case x of Some t \<Rightarrow> [CHR 0x27] @ t @ [CHR 0x27] | None \<Rightarrow> ''None'')
      in ''Credentials(username='' @ quoted (username c) @ '', password='' @ quoted (masked_password c) @ '')'')"

text \<open>Printing credentials reveals of the password nothing but its length and, from
  three characters on, its first and last character: two passwords that agree in these are
  printed alike. The masked password is as long as the password.\<close>

theorem masking_hides:
  "(\<forall>p q. length p = length q \<longrightarrow> (length p \<ge> 3 \<longrightarrow> hd p = hd q \<and> last p = last q) \<longrightarrow>
      str_of_credentials (c\<lparr>password := Some p\<rparr>) = str_of_credentials (c\<lparr>password := Some q\<rparr>)) \<and>
   (\<forall>p m. password c = Some p \<longrightarrow> masked_password c = Some m \<longrightarrow> length m = length p)"
  by (auto simp: str_of_credentials_def masked_password_def)

theorem masking_hides_witness:
  "str_of_credentials \<lparr>username = Some ''dolt'', password = Some ''secret''\<rparr> =
   str_of_credentials \<lparr>username = Some ''dolt'', password = Some ''swiftt''\<rparr>"
  using masking_hides [of "\<lparr>username = Some ''dolt'', password = None\<rparr>"] by auto

end
