(* ===== verification/State_Result.thy ===== *)
theory State_Result
  imports Guards
begin

text \<open>
  Operations that change a state and return or raise: sequencing, \<open>try ... finally\<close>,
  \<open>try ... except\<close>, and the transfer of an operation to a larger state. The state that an
  operation has reached when it raises is kept.
\<close>

type_synonym ('s, 'a) operation = "'s \<Rightarrow> 's \<times> 'a res"

definition sret :: "'a \<Rightarrow> ('s, 'a) operation" where
  "sret x s = (s, Inr x)"

definition slift :: "'a res \<Rightarrow> ('s, 'a) operation" where
  "slift r s = (s, r)"

definition sbind :: "('s, 'a) operation \<Rightarrow> ('a \<Rightarrow> ('s, 'b) operation) \<Rightarrow> ('s, 'b) operation" where
  "sbind m f s = (case m s of (s1, Inl e) \<Rightarrow> (s1, Inl e) | (s1, Inr x) \<Rightarrow> f x s1)"

definition sseq :: "('s, 'a) operation \<Rightarrow> ('s, 'b) operation \<Rightarrow> ('s, 'b) operation" where
  "sseq m n = sbind m (\<lambda>_. n)"

text \<open>The \<open>finally\<close> part runs in any case; what it raises replaces what the body did.\<close>

definition sfinally :: "('s, 'a) operation \<Rightarrow> ('s, unit) operation \<Rightarrow> ('s, 'a) operation" where
  "sfinally m f s =
     (case m s of (s1, r) \<Rightarrow> (case f s1 of (s2, Inl e) \<Rightarrow> (s2, Inl e) | (s2, Inr _) \<Rightarrow> (s2, r)))"

definition scatch :: "('s, 'a) operation \<Rightarrow> (exn \<Rightarrow> ('s, 'a) operation) \<Rightarrow> ('s, 'a) operation" where
  "scatch m h s = (case m s of (s1, Inl e) \<Rightarrow> h e s1 | (s1, Inr x) \<Rightarrow> (s1, Inr x))"

text \<open>A loop over a list: it stops at the first exception.\<close>

fun seach :: "('a \<Rightarrow> ('s, 'b) operation) \<Rightarrow> 'a list \<Rightarrow> ('s, unit) operation" where
  "seach f [] s = (s, Inr ())"
| "seach f (x # xs) s = (case f x s of (s1, Inl e) \<Rightarrow> (s1, Inl e) | (s1, Inr _) \<Rightarrow> seach f xs s1)"

text \<open>A comprehension over a list.\<close>

fun smap :: "('a \<Rightarrow> ('s, 'b) operation) \<Rightarrow> 'a list \<Rightarrow> ('s, 'b list) operation" where
  "smap f [] s = (s, Inr [])"
| "smap f (x # xs) s =
     (case f x s of
        (s1, Inl e) \<Rightarrow> (s1, Inl e)
      | (s1, Inr y) \<Rightarrow>
          (case smap f xs s1 of (s2, Inl e) \<Rightarrow> (s2, Inl e) | (s2, Inr ys) \<Rightarrow> (s2, Inr (y # ys))))"

named_theorems op_simps "rewriting of operations that returned"

lemma sret_iff [op_simps]: "sret x s = (s', r) \<longleftrightarrow> s' = s \<and> r = Inr x"
  by (auto simp: sret_def)

lemma slift_iff [op_simps]: "slift r s = (s', r') \<longleftrightarrow> s' = s \<and> r' = r"
  by (auto simp: slift_def)

lemma sbind_Inr_iff [op_simps]:
  "sbind m f s = (s', Inr y) \<longleftrightarrow> (\<exists>s1 x. m s = (s1, Inr x) \<and> f x s1 = (s', Inr y))"
  by (auto simp: sbind_def split: prod.splits sum.splits)

lemma sbind_Inl_iff [op_simps]:
  "sbind m f s = (s', Inl e) \<longleftrightarrow>
     m s = (s', Inl e) \<or> (\<exists>s1 x. m s = (s1, Inr x) \<and> f x s1 = (s', Inl e))"
  by (auto simp: sbind_def split: prod.splits sum.splits)

lemma sseq_Inr_iff [op_simps]:
  "sseq m n s = (s', Inr y) \<longleftrightarrow> (\<exists>s1 x. m s = (s1, Inr x) \<and> n s1 = (s', Inr y))"
  by (simp add: sseq_def op_simps)

lemma sseq_Inl_iff [op_simps]:
  "sseq m n s = (s', Inl e) \<longleftrightarrow> m s = (s', Inl e) \<or> (\<exists>s1 x. m s = (s1, Inr x) \<and> n s1 = (s', Inl e))"
  by (simp add: sseq_def op_simps)

lemma sfinally_Inr_iff [op_simps]:
  "sfinally m f s = (s', Inr y) \<longleftrightarrow> (\<exists>s1. m s = (s1, Inr y) \<and> f s1 = (s', Inr ()))"
  by (auto simp: sfinally_def split: prod.splits sum.splits)

lemma scatch_Inr_iff [op_simps]:
  "scatch m h s = (s', Inr y) \<longleftrightarrow>
     m s = (s', Inr y) \<or> (\<exists>s1 e. m s = (s1, Inl e) \<and> h e s1 = (s', Inr y))"
  by (auto simp: scatch_def split: prod.splits sum.splits)

text \<open>
  \<open>preserves P m\<close>: the relation \<open>P\<close> holds between the state before the operation and the
  state after it, whether it returns or raises.
\<close>

definition preserves :: "('s \<Rightarrow> 's \<Rightarrow> bool) \<Rightarrow> ('s, 'a) operation \<Rightarrow> bool" where
  "preserves P m \<longleftrightarrow> (\<forall>s. P s (fst (m s)))"

locale frame_relation =
  fixes P :: "'s \<Rightarrow> 's \<Rightarrow> bool"
  assumes frame_refl: "P s s"
    and frame_trans: "P s s1 \<Longrightarrow> P s1 s2 \<Longrightarrow> P s s2"
begin

lemma preservesI: "(\<And>s s' r. m s = (s', r) \<Longrightarrow> P s s') \<Longrightarrow> preserves P m"
  unfolding preserves_def using prod.collapse by metis

lemma preservesD: "preserves P m \<Longrightarrow> m s = (s', r) \<Longrightarrow> P s s'"
  unfolding preserves_def by (metis fst_conv)

lemma preserves_sret: "preserves P (sret x)"
  by (rule preservesI) (auto simp: op_simps frame_refl)

lemma preserves_slift: "preserves P (slift r)"
  by (rule preservesI) (auto simp: op_simps frame_refl)

lemma preserves_sbind:
  assumes "preserves P m" and "\<And>x. preserves P (f x)"
  shows "preserves P (sbind m f)"
proof (rule preservesI)
  fix s s' r assume "sbind m f s = (s', r)"
  then show "P s s'"
    using preservesD [OF assms(1)] preservesD [OF assms(2)]
    by (auto simp: sbind_def split: prod.splits sum.splits)
        (meson frame_trans)+
qed

lemma preserves_sseq: "preserves P m \<Longrightarrow> preserves P n \<Longrightarrow> preserves P (sseq m n)"
  unfolding sseq_def by (rule preserves_sbind)

lemma preserves_sfinally:
  assumes "preserves P m" and "preserves P f"
  shows "preserves P (sfinally m f)"
proof (rule preservesI)
  fix s s' r assume "sfinally m f s = (s', r)"
  then show "P s s'"
    using preservesD [OF assms(1)] preservesD [OF assms(2)]
    by (auto simp: sfinally_def split: prod.splits sum.splits)
        (meson frame_trans)+
qed

lemma preserves_scatch:
  assumes "preserves P m" and "\<And>e. preserves P (h e)"
  shows "preserves P (scatch m h)"
proof (rule preservesI)
  fix s s' r assume "scatch m h s = (s', r)"
  then show "P s s'"
    using preservesD [OF assms(1)] preservesD [OF assms(2)]
    by (auto simp: scatch_def split: prod.splits sum.splits)
        (meson frame_trans)+
qed

lemma preserves_seach:
  assumes "\<And>x. x \<in> set xs \<Longrightarrow> preserves P (f x)"
  shows "preserves P (seach f xs)"
proof (rule preservesI)
  fix s s' r assume "seach f xs s = (s', r)"
  with assms show "P s s'"
  proof (induction xs arbitrary: s)
    case Nil
    then show ?case by (simp add: frame_refl)
  next
    case (Cons x xs)
    then show ?case
      using preservesD [OF Cons.prems(1) [of x]]
      by (auto split: prod.splits sum.splits)
        (meson frame_trans)+
  qed
qed

lemmas preserves_rules =
  preserves_sret preserves_slift preserves_sbind preserves_sseq preserves_sfinally
  preserves_scatch preserves_seach

end

end
