(* ===== verification/Dolt_Daemon.thy ===== *)
theory Dolt_Daemon
  imports Services State_Result
begin

text \<open>
  The Dolt server process, \<open>thinking_executor_data/dolt/daemon.py\<close>: configuring the
  executable, initialising the repository, starting, checking and stopping the daemon.

  The machine is a parameter, the record \<open>host\<close>: starting programs, the file system, the
  MySQL client and the processes. Its state is part of the state of the daemon object.
\<close>

section \<open>Configuration\<close>

record dolt_user_config =
  dolt_username :: string
  dolt_email :: string
  sql_credentials :: credentials

record dolt_daemon_config =
  data_dir :: string
  port :: int
  user_config :: dolt_user_config
  db_name :: string
  dolt_command :: string
  installed_check :: "string list"
  repo_check :: "string list"
  healthcheck_sql :: string
  interweave_logs :: bool

definition default_user_config :: dolt_user_config where
  "default_user_config =
     \<lparr>dolt_username = ''dolt'', dolt_email = ''dolt@localhost'',
      sql_credentials = \<lparr>username = Some ''dolt'', password = Some ''doltpass''\<rparr>\<rparr>"

definition default_daemon_config :: "string \<Rightarrow> bool \<Rightarrow> dolt_daemon_config" where
  "default_daemon_config dir logs =
     \<lparr>data_dir = dir, port = 3306, user_config = default_user_config, db_name = ''thinking'',
      dolt_command = ''dolt'', installed_check = [''version''], repo_check = [''status''],
      healthcheck_sql = ''select current_timestamp();'', interweave_logs = logs\<rparr>"

text \<open>\<open>drawn\<close> is the port that \<open>randint\<close> draws in test mode.\<close>

definition create_dolt_daemon_config :: "bool \<Rightarrow> int \<Rightarrow> string \<Rightarrow> bool \<Rightarrow> dolt_daemon_config" where
  "create_dolt_daemon_config test_mode drawn project_data_dir logs =
     (let c = default_daemon_config (project_data_dir @ ''/dolt'') logs
      in if test_mode then c\<lparr>port := drawn\<rparr> else c)"

text \<open>\<open>"".join([...])\<close> raises when a part is not text.\<close>

definition mysql_connection_str :: "dolt_daemon_config \<Rightarrow> string res" where
  "mysql_connection_str c =
     (case (username (sql_credentials (user_config c)), password (sql_credentials (user_config c))) of
        (Some u, Some p) \<Rightarrow>
          Inr (''mysql+pymysql://'' @ u @ '':'' @ p @ ''@'' @ ''localhost'' @ '':'' @ str_of_int (port c) @ ''/'' @ db_name c)
      | _ \<Rightarrow> Inl TypeError)"

section \<open>The daemon object\<close>

record 's host =
  spawn :: "'s spawn"
  path_exists :: "string \<Rightarrow> 's \<Rightarrow> bool"
  path_isdir :: "string \<Rightarrow> 's \<Rightarrow> bool"
  make_dirs :: "string \<Rightarrow> ('s, unit) operation"
  mysql_connect :: "int \<Rightarrow> credentials \<Rightarrow> string \<Rightarrow> ('s, unit) operation"
  mysql_close :: "('s, unit) operation"
  terminate_process :: "process \<Rightarrow> ('s, unit) operation"
  wait_for_process :: "process \<Rightarrow> ('s, unit) operation"

record 's daemon =
  machine :: 's
  dolt_user_before :: "string option"
  dolt_email_before :: "string option"
  daemon_process :: "process option"

type_synonym ('s, 'a) daemon_operation = "('s daemon, 'a) operation"

definition on_machine :: "('s, 'a) operation \<Rightarrow> ('s, 'a) daemon_operation" where
  "on_machine m d = (case m (machine d) of (s, r) \<Rightarrow> (d\<lparr>machine := s\<rparr>, r))"

text \<open>\<open>Program(command, data_dir, log.debug)\<close>: the consumer is the logger of the module.\<close>

definition executable :: "dolt_daemon_config \<Rightarrow> nat program" where
  "executable c = \<lparr>base_command = dolt_command c, program_cwd = Some (data_dir c), log_consumer = Some 0\<rparr>"

definition run_command :: "'s host \<Rightarrow> dolt_daemon_config \<Rightarrow> string list \<Rightarrow> ('s, unit) daemon_operation" where
  "run_command h c cmd = on_machine (program_command (spawn h) (executable c) cmd)"

definition run_check :: "'s host \<Rightarrow> dolt_daemon_config \<Rightarrow> string list \<Rightarrow> ('s, bool) daemon_operation" where
  "run_check h c cmd = on_machine (program_check (spawn h) (executable c) cmd)"

definition run_query :: "'s host \<Rightarrow> dolt_daemon_config \<Rightarrow> string list \<Rightarrow> ('s, string option) daemon_operation" where
  "run_query h c cmd = on_machine (program_query (spawn h) (executable c) cmd)"

definition assert_that :: "bool \<Rightarrow> ('s, unit) operation" where
  "assert_that b = slift (guard_that b AssertionError)"

definition get_config :: "string \<Rightarrow> string list" where
  "get_config k = [''config'', ''--global'', ''--get'', k]"

definition set_config :: "string \<Rightarrow> string \<Rightarrow> string list" where
  "set_config k v = [''config'', ''--global'', ''--set'', k, v]"

definition unset_config :: "string \<Rightarrow> string list" where
  "unset_config k = [''config'', ''--global'', ''--unset'', k]"

definition remember_user :: "string option \<Rightarrow> ('s, unit) daemon_operation" where
  "remember_user u d = (d\<lparr>dolt_user_before := u\<rparr>, Inr ())"

definition remember_email :: "string option \<Rightarrow> ('s, unit) daemon_operation" where
  "remember_email m d = (d\<lparr>dolt_email_before := m\<rparr>, Inr ())"

definition reconfigure :: "'s host \<Rightarrow> dolt_daemon_config \<Rightarrow> ('s, unit) daemon_operation" where
  "reconfigure h c =
     sbind (run_query h c (get_config ''user.name''))
       (\<lambda>u. sseq (remember_user u)
         (sseq (run_command h c (set_config ''user.name'' (dolt_username (user_config c))))
           (sbind (run_query h c (get_config ''user.name''))
             (\<lambda>m. sseq (remember_email m)
               (run_command h c (set_config ''user.email'' (dolt_email (user_config c))))))))"

text \<open>The truth of an optional text: an empty text counts as absent.\<close>

definition restore_config :: "'s host \<Rightarrow> dolt_daemon_config \<Rightarrow> string \<Rightarrow> string option \<Rightarrow> ('s, unit) daemon_operation" where
  "restore_config h c k previous =
     (case text_or previous None of
        Some v \<Rightarrow> run_command h c (set_config k v)
      | None \<Rightarrow> run_command h c (unset_config k))"

definition deconfigure :: "'s host \<Rightarrow> dolt_daemon_config \<Rightarrow> ('s, unit) daemon_operation" where
  "deconfigure h c d =
     sseq (restore_config h c ''user.name'' (dolt_user_before d))
       (\<lambda>d'. restore_config h c ''user.email'' (dolt_email_before d') d') d"

definition dot_dolt :: "dolt_daemon_config \<Rightarrow> string" where
  "dot_dolt c = data_dir c @ ''/.dolt''"

definition init_repo :: "'s host \<Rightarrow> dolt_daemon_config \<Rightarrow> ('s, bool) daemon_operation" where
  "init_repo h c =
     sfinally
       (\<lambda>d. if \<not> (path_exists h (dot_dolt c) (machine d) \<and> path_isdir h (dot_dolt c) (machine d))
            then sseq (run_command h c [''init'']) (sret True) d
            else (d, Inr False))
       (sbind (run_check h c (repo_check c)) assert_that)"

definition quoted :: "string \<Rightarrow> string" where
  "quoted s = [CHR 0x27] @ s @ [CHR 0x27]"

text \<open>In an f-string, an absent user or password is the text \<open>None\<close>.\<close>

definition shown :: "string option \<Rightarrow> string" where
  "shown t = (case t of Some s \<Rightarrow> s | None \<Rightarrow> ''None'')"

definition init_sqls :: "dolt_daemon_config \<Rightarrow> string list" where
  "init_sqls c =
     (let s = sql_credentials (user_config c);
          user = quoted (shown (username s)) @ ''@'' @ quoted ''%'';
          password_text = quoted (shown (password s))
      in [''CREATE DATABASE IF NOT EXISTS '' @ db_name c @ '';'',
          ''CREATE USER IF NOT EXISTS '' @ user @ '' IDENTIFIED BY '' @ password_text @ '';'',
          ''ALTER USER '' @ user @ '' IDENTIFIED BY '' @ password_text @ '';'',
          ''GRANT ALL ON *.* TO '' @ user @ '' WITH GRANT OPTION;''])"

definition init_sql :: "'s host \<Rightarrow> dolt_daemon_config \<Rightarrow> ('s, unit) daemon_operation" where
  "init_sql h c = seach (\<lambda>sql. run_command h c [''sql'', ''-q'', sql]) (init_sqls c)"

definition daemon_command :: "dolt_daemon_config \<Rightarrow> string list" where
  "daemon_command c =
     [''sql-server'', ''--loglevel'', ''debug'', ''-H'', ''0.0.0.0'', ''-P'', str_of_int (port c)]"

definition start_daemon :: "'s host \<Rightarrow> dolt_daemon_config \<Rightarrow> ('s, unit) daemon_operation" where
  "start_daemon h c =
     sbind (on_machine (program_daemon (spawn h) (executable c) (daemon_command c)
              (if interweave_logs c then Some 1 else None)))
       (\<lambda>(p, _) d. (d\<lparr>daemon_process := Some p\<rparr>, Inr ()))"

definition stop_daemon :: "'s host \<Rightarrow> ('s, unit) daemon_operation" where
  "stop_daemon h d =
     (case daemon_process d of
        None \<Rightarrow> (d, Inl AttributeError)
      | Some p \<Rightarrow> sseq (on_machine (terminate_process h p)) (on_machine (wait_for_process h p)) d)"

definition dolt_sql_check :: "'s host \<Rightarrow> dolt_daemon_config \<Rightarrow> ('s, bool) daemon_operation" where
  "dolt_sql_check h c = run_check h c [''sql'', ''-q'', healthcheck_sql c]"

text \<open>A connection that was opened is closed again; a \<open>DatabaseError\<close> of opening is a failure.\<close>

definition pymysql_check :: "'s host \<Rightarrow> dolt_daemon_config \<Rightarrow> ('s, bool) daemon_operation" where
  "pymysql_check h c d =
     (case on_machine (mysql_connect h (port c) (sql_credentials (user_config c)) (db_name c)) d of
        (d1, Inr _) \<Rightarrow> sseq (on_machine (mysql_close h)) (sret True) d1
      | (d1, Inl e) \<Rightarrow> (d1, if e = DatabaseError then Inr False else Inl e))"

definition polled :: "('s, bool) daemon_operation \<Rightarrow> int \<Rightarrow> ('s, unit) daemon_operation" where
  "polled check retries d =
     (case poll check retries (ConstantStepback (1 :: int)) d of (d1, slept, r) \<Rightarrow> (d1, r))"

definition healthcheck :: "'s host \<Rightarrow> dolt_daemon_config \<Rightarrow> ('s, unit) daemon_operation" where
  "healthcheck h c = sseq (polled (dolt_sql_check h c) 5) (polled (pymysql_check h c) 10)"

definition make_data_dir :: "'s host \<Rightarrow> dolt_daemon_config \<Rightarrow> ('s, unit) daemon_operation" where
  "make_data_dir h c d =
     (if \<not> path_exists h (data_dir c) (machine d) then on_machine (make_dirs h (data_dir c)) d
      else (d, Inr ()))"

definition daemon_initialize :: "'s host \<Rightarrow> dolt_daemon_config \<Rightarrow> ('s, unit) daemon_operation" where
  "daemon_initialize h c =
     sseq (make_data_dir h c)
       (sseq (sbind (run_check h c (installed_check c)) assert_that)
         (sseq (reconfigure h c)
           (sseq (sbind (init_repo h c) (\<lambda>fresh. if fresh then init_sql h c else sret ()))
             (sseq (start_daemon h c) (healthcheck h c)))))"

definition daemon_deinitialize :: "'s host \<Rightarrow> dolt_daemon_config \<Rightarrow> ('s, unit) daemon_operation" where
  "daemon_deinitialize h c = sseq (stop_daemon h) (deconfigure h c)"

section \<open>The global configuration\<close>

text \<open>
  What \<open>dolt config --global\<close> documents: the configuration is a map from names to texts,
  read, set and unset by the three commands; no other request and no other operation of the
  machine changes it. \<open>config_of\<close> reads the map off the state of the machine.
\<close>

definition answers :: "spawn_request \<Rightarrow> process \<Rightarrow> int \<Rightarrow> string \<Rightarrow> bool" where
  "answers r p code txt \<longleftrightarrow> returncode p = Some code \<and> stdout p = (if piped r then OutputText txt else NoOutput)"

definition is_config :: "string \<Rightarrow> spawn_request \<Rightarrow> bool" where
  "is_config command r \<longleftrightarrow> waits r \<and> take 3 (full_cmd r) = [command, ''config'', ''--global'']"

definition config_untouched :: "'s host \<Rightarrow> string \<Rightarrow> ('s \<Rightarrow> string \<Rightarrow> string option) \<Rightarrow> bool" where
  "config_untouched h command config_of \<longleftrightarrow>
     (\<forall>r s. \<not> is_config command r \<longrightarrow> config_of (fst (spawn h r s)) = config_of s) \<and>
     (\<forall>p s. config_of (fst (make_dirs h p s)) = config_of s) \<and>
     (\<forall>i u b s. config_of (fst (mysql_connect h i u b s)) = config_of s) \<and>
     (\<forall>s. config_of (fst (mysql_close h s)) = config_of s) \<and>
     (\<forall>p s. config_of (fst (terminate_process h p s)) = config_of s) \<and>
     (\<forall>p s. config_of (fst (wait_for_process h p s)) = config_of s)"

text \<open>
  \<open>spawns h r s m P\<close>: the request \<open>r\<close> leads to a state with the configuration \<open>m\<close> and a
  process with \<open>P\<close>.
\<close>

definition spawns ::
  "'s host \<Rightarrow> ('s \<Rightarrow> string \<Rightarrow> string option) \<Rightarrow> spawn_request \<Rightarrow> 's \<Rightarrow> (string \<Rightarrow> string option) \<Rightarrow>
   (process \<Rightarrow> bool) \<Rightarrow> bool" where
  "spawns h config_of r s m P \<longleftrightarrow> (\<exists>s' p. spawn h r s = (s', Inr p) \<and> config_of s' = m \<and> P p)"

definition config_contract :: "'s host \<Rightarrow> string \<Rightarrow> ('s \<Rightarrow> string \<Rightarrow> string option) \<Rightarrow> bool" where
  "config_contract h command config_of \<longleftrightarrow>
     config_untouched h command config_of \<and>
     (\<forall>r s k. waits r \<longrightarrow> full_cmd r = command # get_config k \<longrightarrow>
        spawns h config_of r s (config_of s)
          (case config_of s k of Some v \<Rightarrow> (\<lambda>p. answers r p 0 (v @ [CHR 0x0A])) | None \<Rightarrow> (\<lambda>p. answers r p 1 []))) \<and>
     (\<forall>r s k v. waits r \<longrightarrow> full_cmd r = command # set_config k v \<longrightarrow>
        spawns h config_of r s ((config_of s)(k \<mapsto> v)) (\<lambda>p. answers r p 0 [])) \<and>
     (\<forall>r s k. waits r \<longrightarrow> full_cmd r = command # unset_config k \<longrightarrow>
        spawns h config_of r s ((config_of s)(k := None)) (\<lambda>p. answers r p 0 []))"

text \<open>A text that survives stripping, and is not empty.\<close>

definition clean_text :: "string \<Rightarrow> bool" where
  "clean_text v \<longleftrightarrow> v \<noteq> [] \<and> strip (v @ [CHR 0x0A]) = v"

definition same_config :: "('s \<Rightarrow> string \<Rightarrow> string option) \<Rightarrow> 's daemon \<Rightarrow> 's daemon \<Rightarrow> bool" where
  "same_config config_of d d' \<longleftrightarrow>
     config_of (machine d') = config_of (machine d) \<and> dolt_user_before d' = dolt_user_before d \<and>
     dolt_email_before d' = dolt_email_before d"

interpretation config_frame: frame_relation "same_config config_of" for config_of :: "'s \<Rightarrow> string \<Rightarrow> string option"
  by unfold_locales (auto simp: same_config_def)

lemma same_config_machine:
  assumes "\<And>s. config_of (fst (m s)) = config_of s"
  shows "preserves (same_config config_of) (on_machine m)"
  using assms by (auto simp: preserves_def on_machine_def same_config_def split: prod.split) (metis fst_conv)

definition ordinary :: "string list \<Rightarrow> bool" where
  "ordinary cmd \<longleftrightarrow> take 2 cmd \<noteq> [''config'', ''--global'']"

lemma config_of_program_run:
  assumes "config_untouched h (base_command p) config_of" and "\<not> b \<or> ordinary cmd"
  shows "config_of (fst (program_run (spawn h) p cmd b cw cons s)) = config_of s"
proof -
  let ?r = "\<lparr>full_cmd = base_command p # cmd, waits = b, start_new_session = \<not> b,
    spawn_cwd = text_or cw (program_cwd p),
    piped = ((case cons of Some c \<Rightarrow> Some c | None \<Rightarrow> log_consumer p) \<noteq> None)\<rparr>"
  have "\<not> is_config (base_command p) ?r"
    using assms(2) by (auto simp: is_config_def ordinary_def numeral_3_eq_3 numeral_2_eq_2)
  with assms(1) have "config_of (fst (spawn h ?r s)) = config_of s" by (simp add: config_untouched_def)
  then show ?thesis by (auto simp: program_run_def Let_def split: prod.split sum.split)
qed

lemma program_check_state: "fst (program_check sp p cmd s) = fst (program_run sp p cmd True None None s)"
  by (auto simp: program_check_def split: prod.split sum.split)

lemma program_command_state: "fst (program_command sp p cmd s) = fst (program_run sp p cmd True None None s)"
  unfolding program_check_state [symmetric] by (auto simp: program_command_def split: prod.split sum.split)

lemma base_executable [simp]: "base_command (executable c) = dolt_command c"
  by (simp add: executable_def)

lemma frame_check:
  "config_untouched h (dolt_command c) config_of \<Longrightarrow> ordinary cmd \<Longrightarrow>
   preserves (same_config config_of) (run_check h c cmd)"
  unfolding run_check_def
  by (rule same_config_machine) (simp add: program_check_state config_of_program_run)

lemma frame_command:
  "config_untouched h (dolt_command c) config_of \<Longrightarrow> ordinary cmd \<Longrightarrow>
   preserves (same_config config_of) (run_command h c cmd)"
  unfolding run_command_def
  by (rule same_config_machine) (simp add: program_command_state config_of_program_run)

lemma frame_assert: "preserves (same_config config_of) (assert_that b)"
  unfolding assert_that_def by (rule config_frame.preserves_slift)

lemma frame_poll_loop:
  assumes "preserves (same_config config_of) pred"
  shows "poll_loop pred st i n d = (d', slept, r) \<Longrightarrow> same_config config_of d d'"
proof (induction n arbitrary: i d d' slept r)
  case 0
  then show ?case by (simp add: config_frame.frame_refl)
next
  case (Suc n)
  show ?case
  proof (cases "pred d")
    case (Pair d1 b)
    then have d1: "same_config config_of d d1" by (rule config_frame.preservesD [OF assms])
    with Suc.prems Pair show ?thesis
      by (auto split: sum.splits bool.splits prod.splits dest!: Suc.IH intro: config_frame.frame_trans)
  qed
qed

lemma frame_polled: "preserves (same_config config_of) pred \<Longrightarrow> preserves (same_config config_of) (polled pred n)"
  by (rule config_frame.preservesI)
    (auto simp: polled_def poll_def split: prod.splits dest: frame_poll_loop)

lemma frame_pymysql:
  assumes "config_untouched h command config_of"
  shows "preserves (same_config config_of) (pymysql_check h c)"
proof -
  have connect: "preserves (same_config config_of) (on_machine (mysql_connect h i u b))"
    and close: "preserves (same_config config_of) (sseq (on_machine (mysql_close h)) (sret True))" for i u b
    using assms by (auto simp: config_untouched_def
        intro!: same_config_machine config_frame.preserves_sseq config_frame.preserves_sret)
  show ?thesis
  proof (rule config_frame.preservesI)
    fix d d' r assume "pymysql_check h c d = (d', r)"
    then show "same_config config_of d d'"
      using config_frame.preservesD [OF connect] config_frame.preservesD [OF close]
      by (auto simp: pymysql_check_def split: prod.splits sum.splits) (meson config_frame.frame_trans)+
  qed
qed

lemma frame_daemon_parts:
  assumes "config_untouched h (dolt_command c) config_of" and "ordinary (repo_check c)"
  shows "preserves (same_config config_of) (make_data_dir h c)"
    and "preserves (same_config config_of) (init_repo h c)"
    and "preserves (same_config config_of) (init_sql h c)"
    and "preserves (same_config config_of) (start_daemon h c)"
    and "preserves (same_config config_of) (healthcheck h c)"
    and "preserves (same_config config_of) (stop_daemon h)"
proof -
  have ord: "ordinary [''init'']" "ordinary [''sql'', ''-q'', q]" "ordinary (daemon_command c)" for q
    by (simp_all add: ordinary_def daemon_command_def)
  have dirs: "preserves (same_config config_of) (on_machine (make_dirs h p))"
    and kill: "preserves (same_config config_of) (on_machine (terminate_process h q))"
    and wait: "preserves (same_config config_of) (on_machine (wait_for_process h q))" for p q
    using assms(1) by (auto simp: config_untouched_def intro!: same_config_machine)
  show "preserves (same_config config_of) (make_data_dir h c)"
    using config_frame.preservesD [OF dirs] config_frame.frame_refl
    by (auto simp: make_data_dir_def intro!: config_frame.preservesI split: if_splits)
  have "preserves (same_config config_of) (sseq (run_command h c [''init'']) (sret True))"
    by (intro config_frame.preserves_rules frame_command assms ord)
  then have "preserves (same_config config_of)
      (\<lambda>d. if \<not> (path_exists h (dot_dolt c) (machine d) \<and> path_isdir h (dot_dolt c) (machine d))
           then sseq (run_command h c [''init'']) (sret True) d else (d, Inr False))"
    using config_frame.preservesD config_frame.frame_refl
    by (intro config_frame.preservesI) (auto split: if_splits)
  then show "preserves (same_config config_of) (init_repo h c)"
    unfolding init_repo_def by (intro config_frame.preserves_rules frame_check frame_assert assms)
  show "preserves (same_config config_of) (init_sql h c)"
    unfolding init_sql_def by (intro config_frame.preserves_rules frame_command assms ord)
  have "preserves (same_config config_of) (on_machine (program_daemon (spawn h) (executable c) (daemon_command c) l))" for l
    unfolding program_daemon_def
    by (rule same_config_machine) (use assms in \<open>simp add: config_of_program_run\<close>)
  moreover have "preserves (same_config config_of) (\<lambda>d. (d\<lparr>daemon_process := p\<rparr>, r))"
    for p and r :: "'b res"
    by (rule config_frame.preservesI) (auto simp: same_config_def)
  ultimately show "preserves (same_config config_of) (start_daemon h c)"
    unfolding start_daemon_def by (auto intro!: config_frame.preserves_rules split: prod.split)
  show "preserves (same_config config_of) (healthcheck h c)"
    unfolding healthcheck_def dolt_sql_check_def
    by (intro config_frame.preserves_rules frame_polled frame_check frame_pymysql [OF assms(1)] assms ord)
  show "preserves (same_config config_of) (stop_daemon h)"
    using config_frame.preservesD [OF config_frame.preserves_sseq [OF kill wait]] config_frame.frame_refl
    by (auto simp: stop_daemon_def intro!: config_frame.preservesI split: option.splits)
qed

text \<open>The three commands, run by the executable.\<close>

definition waiting :: "dolt_daemon_config \<Rightarrow> string list \<Rightarrow> spawn_request" where
  "waiting c cmd =
     \<lparr>full_cmd = dolt_command c # cmd, waits = True, start_new_session = False,
      spawn_cwd = text_or None (Some (data_dir c)), piped = True\<rparr>"

lemma waiting_sel [simp]: "waits (waiting c cmd)" "full_cmd (waiting c cmd) = dolt_command c # cmd" "piped (waiting c cmd)"
  by (simp_all add: waiting_def)

lemma spawns_program_run:
  assumes "spawns h config_of
      (waiting c cmd) s m (\<lambda>p. answers (waiting c cmd) p code txt)"
  obtains s' p l where "program_run (spawn h) (executable c) cmd True None None s = (s', Inr (p, l))"
    and "config_of s' = m" and "returncode p = Some code" and "stdout p = OutputText txt"
  using assms by (auto simp: spawns_def program_run_def executable_def answers_def Let_def waiting_def)

lemma run_get_config:
  assumes "config_contract h (dolt_command c) config_of"
    and "\<And>v. config_of (machine d) k = Some v \<Longrightarrow> clean_text v"
    and "run_query h c (get_config k) d = (d', r)"
  shows "r = Inr (config_of (machine d) k)" and "same_config config_of d d'"
proof -
  let ?r = "waiting c (get_config k)"
  have sp: "spawns h config_of ?r (machine d) (config_of (machine d))
      (case config_of (machine d) k of Some v \<Rightarrow> (\<lambda>p. answers ?r p 0 (v @ [CHR 0x0A])) | None \<Rightarrow> (\<lambda>p. answers ?r p 1 []))"
    using assms(1) by (simp add: config_contract_def)
  have "r = Inr (config_of (machine d) k) \<and> same_config config_of d d'"
  proof (cases "config_of (machine d) k")
    case None
    with sp have "spawns h config_of ?r (machine d) (config_of (machine d)) (\<lambda>p. answers ?r p 1 [])" by simp
    then obtain s' p l where "program_run (spawn h) (executable c) (get_config k) True None None (machine d) = (s', Inr (p, l))"
      and "config_of s' = config_of (machine d)" and "returncode p = Some 1"
      by (rule spawns_program_run)
    with assms(3) None show ?thesis
      by (auto simp: run_query_def on_machine_def program_query_def same_config_def)
  next
    case (Some v)
    with sp have "spawns h config_of ?r (machine d) (config_of (machine d)) (\<lambda>p. answers ?r p 0 (v @ [CHR 0x0A]))" by simp
    then obtain s' p l where "program_run (spawn h) (executable c) (get_config k) True None None (machine d) = (s', Inr (p, l))"
      and "config_of s' = config_of (machine d)" and "returncode p = Some 0" and "stdout p = OutputText (v @ [CHR 0x0A])"
      by (rule spawns_program_run)
    with assms(3) Some assms(2) [OF Some] show ?thesis
      by (auto simp: run_query_def on_machine_def program_query_def same_config_def clean_text_def)
  qed
  then show "r = Inr (config_of (machine d) k)" and "same_config config_of d d'" by auto
qed

lemma run_command_config:
  assumes "spawns h config_of
      (waiting c cmd) (machine d) m (\<lambda>p. answers (waiting c cmd) p 0 [])"
    and "run_command h c cmd d = (d', r)"
  shows "r = Inr ()" and "config_of (machine d') = m"
    and "dolt_user_before d' = dolt_user_before d" and "dolt_email_before d' = dolt_email_before d"
proof -
  obtain s' p l where "program_run (spawn h) (executable c) cmd True None None (machine d) = (s', Inr (p, l))"
    and "config_of s' = m" and "returncode p = Some 0"
    using assms(1) by (rule spawns_program_run)
  with assms(2) show "r = Inr ()" and "config_of (machine d') = m"
    and "dolt_user_before d' = dolt_user_before d" and "dolt_email_before d' = dolt_email_before d"
    by (auto simp: run_command_def on_machine_def program_command_def program_check_def guard_that_def)
qed

lemma run_set_config:
  assumes "config_contract h (dolt_command c) config_of" and "run_command h c (set_config k v) d = (d', r)"
  shows "r = Inr ()" and "config_of (machine d') = (config_of (machine d))(k \<mapsto> v)"
    and "dolt_user_before d' = dolt_user_before d" and "dolt_email_before d' = dolt_email_before d"
proof -
  have "spawns h config_of (waiting c (set_config k v)) (machine d) ((config_of (machine d))(k \<mapsto> v))
      (\<lambda>p. answers (waiting c (set_config k v)) p 0 [])"
    using assms(1) by (simp add: config_contract_def)
  from run_command_config [OF this assms(2)]
  show "r = Inr ()" and "config_of (machine d') = (config_of (machine d))(k \<mapsto> v)"
    and "dolt_user_before d' = dolt_user_before d" and "dolt_email_before d' = dolt_email_before d" .
qed

lemma run_unset_config:
  assumes "config_contract h (dolt_command c) config_of" and "run_command h c (unset_config k) d = (d', r)"
  shows "r = Inr ()" and "config_of (machine d') = (config_of (machine d))(k := None)"
    and "dolt_user_before d' = dolt_user_before d" and "dolt_email_before d' = dolt_email_before d"
proof -
  have "spawns h config_of (waiting c (unset_config k)) (machine d) ((config_of (machine d))(k := None))
      (\<lambda>p. answers (waiting c (unset_config k)) p 0 [])"
    using assms(1) by (simp add: config_contract_def)
  from run_command_config [OF this assms(2)]
  show "r = Inr ()" and "config_of (machine d') = (config_of (machine d))(k := None)"
    and "dolt_user_before d' = dolt_user_before d" and "dolt_email_before d' = dolt_email_before d" .
qed

lemma run_restore_config:
  assumes "config_contract h (dolt_command c) config_of" and "restore_config h c k previous d = (d', r)"
    and "previous \<noteq> Some []"
  shows "r = Inr ()" and "config_of (machine d') = (config_of (machine d))(k := previous)"
    and "dolt_user_before d' = dolt_user_before d" and "dolt_email_before d' = dolt_email_before d"
proof -
  have "r = Inr () \<and> config_of (machine d') = (config_of (machine d))(k := previous) \<and>
    dolt_user_before d' = dolt_user_before d \<and> dolt_email_before d' = dolt_email_before d"
  proof (cases previous)
    case None
    with assms(2) have "run_command h c (unset_config k) d = (d', r)" by (simp add: restore_config_def text_or_def)
    from run_unset_config [OF assms(1) this] None show ?thesis by blast
  next
    case (Some v)
    with assms(2,3) have "run_command h c (set_config k v) d = (d', r)" by (simp add: restore_config_def text_or_def)
    from run_set_config [OF assms(1) this] Some show ?thesis by blast
  qed
  then show "r = Inr ()" and "config_of (machine d') = (config_of (machine d))(k := previous)"
    and "dolt_user_before d' = dolt_user_before d" and "dolt_email_before d' = dolt_email_before d" by auto
qed

lemma reconfigured:
  assumes C: "config_contract h (dolt_command c) config_of"
    and clean: "\<And>v. config_of (machine d) ''user.name'' = Some v \<Longrightarrow> clean_text v"
      "clean_text (dolt_username (user_config c))"
    and r: "reconfigure h c d = (d', r)"
  shows "r = Inr ()"
    and "config_of (machine d') = (config_of (machine d))(''user.name'' \<mapsto> dolt_username (user_config c),
      ''user.email'' \<mapsto> dolt_email (user_config c))"
    and "dolt_user_before d' = config_of (machine d) ''user.name''"
    and "dolt_email_before d' = Some (dolt_username (user_config c))"
proof -
  let ?n = "dolt_username (user_config c)"
  obtain d1 q1 where 1: "run_query h c (get_config ''user.name'') d = (d1, q1)" by fastforce
  note g1 = run_get_config [OF C clean(1) 1]
  obtain d2 q2 where 2: "run_command h c (set_config ''user.name'' ?n)
      (d1\<lparr>dolt_user_before := config_of (machine d) ''user.name''\<rparr>) = (d2, q2)" by fastforce
  note g2 = run_set_config [OF C 2]
  obtain d3 q3 where 3: "run_query h c (get_config ''user.name'') d2 = (d3, q3)" by fastforce
  have name: "config_of (machine d2) ''user.name'' = Some ?n" using g2(2) by simp
  have "\<And>v. config_of (machine d2) ''user.name'' = Some v \<Longrightarrow> clean_text v" using name clean(2) by simp
  note g3 = run_get_config [OF C this 3]
  obtain d4 q4 where 4: "run_command h c (set_config ''user.email'' (dolt_email (user_config c)))
      (d3\<lparr>dolt_email_before := Some ?n\<rparr>) = (d4, q4)" by fastforce
  note g4 = run_set_config [OF C 4]
  have "(d', r) = (d4, q4)"
    using r 1 2 3 4 g1(1) g2(1) g3(1) name
    by (simp add: reconfigure_def sbind_def sseq_def remember_user_def remember_email_def)
  then show "r = Inr ()"
    and "config_of (machine d') = (config_of (machine d))(''user.name'' \<mapsto> ?n, ''user.email'' \<mapsto> dolt_email (user_config c))"
    and "dolt_user_before d' = config_of (machine d) ''user.name''"
    and "dolt_email_before d' = Some ?n"
    using g1(2) g2 g3(2) g4 by (simp_all add: same_config_def)
qed

text \<open>C27: While the daemon is up, the global configuration of Dolt has the configured user and
  email, and every other setting is as before. Closing the daemon restores the name of the
  user, whether it was set before or not, and leaves every other setting but one as it was:
  the email ends up as the configured \<^emph>\<open>name\<close> of the user, because \<open>_reconfigure\<close> reads
  the previous email from \<open>user.name\<close>, after having set it.\<close>

theorem daemon_configuration:
  assumes C: "config_contract h (dolt_command c) config_of"
    and ordinary: "ordinary (installed_check c)" "ordinary (repo_check c)"
    and clean: "\<And>v. config_of (machine d) ''user.name'' = Some v \<Longrightarrow> clean_text v"
      "clean_text (dolt_username (user_config c))"
    and opened: "daemon_initialize h c d = (d1, Inr ())"
    and used: "same_config config_of d1 d2"
    and closed: "daemon_deinitialize h c d2 = (d3, Inr ())"
  shows "config_of (machine d1) = (config_of (machine d))(''user.name'' \<mapsto> dolt_username (user_config c),
      ''user.email'' \<mapsto> dolt_email (user_config c)) \<and>
    config_of (machine d3) = (config_of (machine d))(''user.email'' \<mapsto> dolt_username (user_config c))"
proof -
  let ?f = "\<lambda>cfg. cfg(''user.name'' \<mapsto> dolt_username (user_config c), ''user.email'' \<mapsto> dolt_email (user_config c))"
  have U: "config_untouched h (dolt_command c) config_of" using C by (simp add: config_contract_def)
  note parts = frame_daemon_parts [OF U ordinary(2)]
  have check: "preserves (same_config config_of) (sbind (run_check h c (installed_check c)) assert_that)"
    by (intro config_frame.preserves_rules frame_check frame_assert U ordinary)
  have rest: "preserves (same_config config_of)
      (sseq (sbind (init_repo h c) (\<lambda>fresh. if fresh then init_sql h c else sret ()))
        (sseq (start_daemon h c) (healthcheck h c)))"
    by (auto intro!: config_frame.preserves_rules parts)
  from opened obtain da db dc x y z where a: "make_data_dir h c d = (da, Inr x)"
    and b: "sbind (run_check h c (installed_check c)) assert_that da = (db, Inr y)"
    and r: "reconfigure h c db = (dc, Inr z)"
    and t: "sseq (sbind (init_repo h c) (\<lambda>fresh. if fresh then init_sql h c else sret ()))
        (sseq (start_daemon h c) (healthcheck h c)) dc = (d1, Inr ())"
    unfolding daemon_initialize_def sseq_Inr_iff by blast
  have db: "config_of (machine db) = config_of (machine d)"
    using config_frame.preservesD [OF parts(1) a] config_frame.preservesD [OF check b] by (simp add: same_config_def)
  note R = reconfigured [OF C _ clean(2) r, unfolded db, OF clean(1)]
  have d1: "same_config config_of dc d1" using config_frame.preservesD [OF rest t] .
  from closed obtain de where "stop_daemon h d2 = (de, Inr ())" and D: "deconfigure h c de = (d3, Inr ())"
    by (auto simp: daemon_deinitialize_def op_simps)
  then have e: "same_config config_of d2 de" using config_frame.preservesD [OF parts(6)] by blast
  have de: "config_of (machine de) = ?f (config_of (machine d))"
    "dolt_user_before de = config_of (machine d) ''user.name''"
    "dolt_email_before de = Some (dolt_username (user_config c))"
    using R d1 used e by (simp_all add: same_config_def)
  from D obtain df where f: "restore_config h c ''user.name'' (dolt_user_before de) de = (df, Inr ())"
    and g: "restore_config h c ''user.email'' (dolt_email_before df) df = (d3, Inr ())"
    by (auto simp: deconfigure_def op_simps)
  have n: "dolt_user_before de \<noteq> Some []" "dolt_email_before de \<noteq> Some []"
    using clean by (auto simp: de clean_text_def)
  note F = run_restore_config [OF C f n(1)]
  have "dolt_email_before df \<noteq> Some []" using F(4) n(2) by simp
  note G = run_restore_config [OF C g this]
  have "config_of (machine d3) = (config_of (machine d))(''user.email'' \<mapsto> dolt_username (user_config c))"
    using G(2) F(2,4) by (auto simp: de)
  moreover have "config_of (machine d1) = ?f (config_of (machine d))" using R(2) d1 by (simp add: same_config_def)
  ultimately show ?thesis by blast
qed

text \<open>A machine on which every program succeeds and \<open>dolt config\<close> works as documented.\<close>

definition ex_answer :: "spawn_request \<Rightarrow> int \<Rightarrow> string \<Rightarrow> process" where
  "ex_answer r code txt =
     \<lparr>returncode = Some code,
      stdout = (if piped r then (if waits r then OutputText txt else OutputLines []) else NoOutput)\<rparr>"

definition ex_spawn :: "(string \<Rightarrow> string option) spawn" where
  "ex_spawn r s =
     (if is_config ''dolt'' r then
        (case drop 3 (full_cmd r) of
           [a, k] \<Rightarrow>
             (if a = ''--get''
              then (s, Inr (case s k of Some v \<Rightarrow> ex_answer r 0 (v @ [CHR 0x0A]) | None \<Rightarrow> ex_answer r 1 []))
              else (s(k := None), Inr (ex_answer r 0 [])))
         | [a, k, v] \<Rightarrow> (s(k \<mapsto> v), Inr (ex_answer r 0 []))
         | _ \<Rightarrow> (s, Inr (ex_answer r 1 [])))
      else (s, Inr (ex_answer r 0 [])))"

definition ex_host :: "(string \<Rightarrow> string option) host" where
  "ex_host =
     \<lparr>spawn = ex_spawn, path_exists = (\<lambda>p s. False), path_isdir = (\<lambda>p s. False),
      make_dirs = (\<lambda>p s. (s, Inr ())), mysql_connect = (\<lambda>i u b s. (s, Inr ())),
      mysql_close = (\<lambda>s. (s, Inr ())), terminate_process = (\<lambda>p s. (s, Inr ())),
      wait_for_process = (\<lambda>p s. (s, Inr ()))\<rparr>"

definition ex_daemon_config :: dolt_daemon_config where
  "ex_daemon_config = create_dolt_daemon_config False 0 ''data'' True"

definition ex_daemon :: "(string \<Rightarrow> string option) daemon" where
  "ex_daemon =
     \<lparr>machine = [''user.name'' \<mapsto> ''me'', ''user.email'' \<mapsto> ''me@home''], dolt_user_before = None,
      dolt_email_before = None, daemon_process = None\<rparr>"

lemma ex_host_contract: "config_contract ex_host ''dolt'' (\<lambda>s. s)"
proof -
  have 1: "config_untouched ex_host ''dolt'' (\<lambda>s. s)"
    by (simp add: config_untouched_def ex_host_def ex_spawn_def)
  have sp: "spawn ex_host = ex_spawn" by (simp add: ex_host_def)
  have 2: "is_config ''dolt'' r" "drop 3 (full_cmd r) = drop 2 cmd"
    if "waits r" "full_cmd r = ''dolt'' # cmd" "take 2 cmd = [''config'', ''--global'']" for r cmd
    using that by (simp_all add: is_config_def numeral_3_eq_3 numeral_2_eq_2)
  have 3: "drop 2 (get_config k) = [''--get'', k]" "drop 2 (set_config k v) = [''--set'', k, v]"
    "drop 2 (unset_config k) = [''--unset'', k]" "take 2 (get_config k) = [''config'', ''--global'']"
    "take 2 (set_config k v) = [''config'', ''--global'']" "take 2 (unset_config k) = [''config'', ''--global'']" for k v
    by (simp_all add: get_config_def set_config_def unset_config_def)
  show ?thesis
    unfolding config_contract_def
    by (auto simp: 1 2 3 sp spawns_def ex_spawn_def answers_def ex_answer_def split: option.split)
qed

lemmas ex_run_simps =
  sbind_def sseq_def sret_def slift_def sfinally_def on_machine_def program_run_def program_check_def
  program_command_def program_query_def program_daemon_def run_command_def run_check_def run_query_def
  executable_def assert_that_def guard_that_def ex_host_def ex_spawn_def is_config_def ex_answer_def
  text_or_def numeral_3_eq_3 get_config_def set_config_def unset_config_def Let_def eval_nat_numeral
  daemon_initialize_def make_data_dir_def reconfigure_def remember_user_def remember_email_def
  init_repo_def init_sql_def init_sqls_def start_daemon_def daemon_command_def healthcheck_def
  polled_def poll_def dolt_sql_check_def pymysql_check_def ex_daemon_config_def
  create_dolt_daemon_config_def default_daemon_config_def ex_daemon_def default_user_config_def
  daemon_deinitialize_def stop_daemon_def deconfigure_def restore_config_def

lemma ex_daemon_opened: "snd (daemon_initialize ex_host ex_daemon_config ex_daemon) = Inr ()"
  by (simp add: ex_run_simps)

lemma ex_process: "\<exists>p. daemon_process (fst (daemon_initialize ex_host ex_daemon_config ex_daemon)) = Some p"
  by (simp add: ex_run_simps)

lemma ex_closed:
  "daemon_process d = Some p \<Longrightarrow> snd (daemon_deinitialize ex_host ex_daemon_config d) = Inr ()"
  by (simp add: ex_run_simps split: option.split)

theorem daemon_configuration_witness:
  "(let d1 = fst (daemon_initialize ex_host ex_daemon_config ex_daemon);
        d3 = fst (daemon_deinitialize ex_host ex_daemon_config d1)
    in machine d1 ''user.name'' = Some ''dolt'' \<and> machine d1 ''user.email'' = Some ''dolt@localhost'' \<and>
       machine d3 ''user.name'' = Some ''me'' \<and> machine d3 ''user.email'' = Some ''dolt'')"
proof -
  let ?d1 = "fst (daemon_initialize ex_host ex_daemon_config ex_daemon)"
  let ?d3 = "fst (daemon_deinitialize ex_host ex_daemon_config ?d1)"
  have C: "config_contract ex_host (dolt_command ex_daemon_config) (\<lambda>s. s)"
    using ex_host_contract
    by (simp add: ex_daemon_config_def create_dolt_daemon_config_def default_daemon_config_def Let_def)
  have O: "ordinary (installed_check ex_daemon_config)" "ordinary (repo_check ex_daemon_config)" by code_simp+
  have clean: "clean_text v" if "machine ex_daemon ''user.name'' = Some v" for v
  proof -
    have "v = ''me''" using that by (simp add: ex_daemon_def)
    moreover have "clean_text ''me''" by code_simp
    ultimately show ?thesis by simp
  qed
  have clean2: "clean_text (dolt_username (user_config ex_daemon_config))" by code_simp
  have o: "daemon_initialize ex_host ex_daemon_config ex_daemon = (?d1, Inr ())"
    by (simp add: prod_eq_iff ex_daemon_opened)
  from ex_process ex_closed have "snd (daemon_deinitialize ex_host ex_daemon_config ?d1) = Inr ()" by blast
  then have c: "daemon_deinitialize ex_host ex_daemon_config ?d1 = (?d3, Inr ())" by (simp add: prod_eq_iff)
  note W = daemon_configuration [OF C O clean clean2 o config_frame.frame_refl c]
  have n: "dolt_username (user_config ex_daemon_config) = ''dolt''"
    "dolt_email (user_config ex_daemon_config) = ''dolt@localhost''" by code_simp+
  have m: "machine ex_daemon ''user.name'' = Some ''me''" by (simp add: ex_daemon_def)
  show ?thesis unfolding Let_def using W by (simp add: n m)
qed

end
