(* ===== verification/Task_Model.thy ===== *)
theory Task_Model
  imports Py_Strings
begin

text \<open>
  \<open>thinking_executor/executor_model.py\<close>: task keys and coordinates, their textual form and
  its parser, and the algebra of arguments. A key is a string or an integer; Python compares
  a string and an integer as different.
\<close>

datatype task_key = StrKey string | IntKey int

datatype task_type = STAGE | STEP

fun can_have_subtasks :: "task_type option \<Rightarrow> bool" where
  "can_have_subtasks None = True"
| "can_have_subtasks (Some t) = (t = STAGE)"

definition assert_can_have_subtasks :: "task_type option \<Rightarrow> unit res" where
  "assert_can_have_subtasks t = guard_that (can_have_subtasks t) AssertionError"

section \<open>Coordinates\<close>

record coordinate_part =
  part_key :: task_key
  part_order :: int

record coordinates =
  path :: "task_key list"
  order_of :: "int list"
  type_of :: task_type

definition as_coordinates :: "coordinate_part \<Rightarrow> coordinates" where
  "as_coordinates p = \<lparr>path = [part_key p], order_of = [part_order p], type_of = STAGE\<rparr>"

definition depth_of :: "coordinates \<Rightarrow> nat" where
  "depth_of c = length (path c)"

definition ancestor :: "coordinates \<Rightarrow> int \<Rightarrow> task_type \<Rightarrow> coordinates res" where
  "ancestor c depth of_type =
     (if depth < 0 then Inl AssertionError
      else if \<not> depth < int (depth_of c) then Inl AssertionError
      else let result_len = depth_of c - nat depth
           in Inr \<lparr>path = take result_len (path c), order_of = take result_len (order_of c),
                   type_of = of_type\<rparr>)"

definition parent :: "coordinates \<Rightarrow> coordinates res" where
  "parent c = ancestor c 1 STAGE"

definition parts :: "coordinates \<Rightarrow> coordinate_part list" where
  "parts c = map (\<lambda>(k, o'). \<lparr>part_key = k, part_order = o'\<rparr>) (zip (path c) (order_of c))"

text \<open>Assigning to index \<open>-1\<close> of an empty list raises.\<close>

definition set_last :: "'a \<Rightarrow> 'a list \<Rightarrow> 'a list res" where
  "set_last x xs = (if xs = [] then Inl IndexError else Inr (butlast xs @ [x]))"

definition get_last :: "'a list \<Rightarrow> 'a res" where
  "get_last xs = (if xs = [] then Inl IndexError else Inr (last xs))"

definition sibling :: "coordinates \<Rightarrow> task_key \<Rightarrow> int \<Rightarrow> task_type option \<Rightarrow> coordinates res" where
  "sibling c key offset of_type =
     rbind (set_last key (path c))
       (\<lambda>new_path. rbind (get_last (order_of c))
          (\<lambda>l. rbind (set_last (l + offset) (order_of c))
             (\<lambda>new_order.
                Inr \<lparr>path = new_path, order_of = new_order,
                     type_of = (case of_type of None \<Rightarrow> type_of c | Some t \<Rightarrow> t)\<rparr>)))"

definition is_descendant_of :: "coordinates \<Rightarrow> coordinates \<Rightarrow> bool" where
  "is_descendant_of c a \<longleftrightarrow>
     take (depth_of a) (path c) = path a \<and> take (depth_of a) (order_of c) = order_of a"

text \<open>
  \<open>is_sibling\<close> compares an integer with the whole order of the other coordinates, a list.
  \<open>int_equals_list\<close> is Python's answer to that.
\<close>

definition int_equals_list :: "int \<Rightarrow> int list \<Rightarrow> bool" where
  "int_equals_list i xs = False"

definition is_sibling :: "coordinates \<Rightarrow> coordinates \<Rightarrow> int \<Rightarrow> bool res" where
  "is_sibling c other offset =
     rbind (parent c)
       (\<lambda>p. rbind (parent other)
          (\<lambda>q. if p = q
               then rbind (get_last (order_of c)) (\<lambda>l. Inr (int_equals_list (l + offset) (order_of other)))
               else Inr False))"

definition add_part :: "coordinates \<Rightarrow> coordinate_part \<Rightarrow> coordinates" where
  "add_part c p =
     (let d = as_coordinates p
      in \<lparr>path = path c @ path d, order_of = order_of c @ order_of d, type_of = STAGE\<rparr>)"

section \<open>Coordinates as text\<close>

definition str_of_key :: "task_key \<Rightarrow> string" where
  "str_of_key k = (case k of StrKey s \<Rightarrow> s | IntKey i \<Rightarrow> str_of_int i)"

fun name_of_type :: "task_type \<Rightarrow> string" where
  "name_of_type STAGE = ''STAGE''"
| "name_of_type STEP = ''STEP''"

definition str_of_coordinates :: "coordinates \<Rightarrow> string" where
  "str_of_coordinates c =
     name_of_type (type_of c) @ '':'' @ py_join ''/'' (map str_of_key (path c)) @ ''@'' @
     py_join ''/'' (map str_of_int (order_of c))"

definition type_named :: "string \<Rightarrow> task_type res" where
  "type_named s = (if s = ''STAGE'' then Inr STAGE else if s = ''STEP'' then Inr STEP else Inl KeyError)"

definition parse_key :: "string \<Rightarrow> task_key" where
  "parse_key v = (case py_int v of Inr i \<Rightarrow> IntKey i | Inl _ \<Rightarrow> StrKey v)"

definition parse :: "string \<Rightarrow> coordinates res" where
  "parse s =
     (case py_partition (CHR '':'') s of (task_type, colon, rest) \<Rightarrow>
        rbind (type_named task_type)
          (\<lambda>t. case py_partition (CHR ''@'') rest of (p, at, order) \<Rightarrow>
             rbind (traverse py_int (py_split (CHR ''/'') order))
               (\<lambda>os. Inr \<lparr>path = map parse_key (py_split (CHR ''/'') p), order_of = os, type_of = t\<rparr>)))"

section \<open>The algebra of arguments\<close>

record 'v call_args =
  positional :: "'v list"
  kwargs :: "(string, 'v) dict"

text \<open>
  The names given to \<open>without_kwargs\<close> are the tuple of its arguments, so \<open>collect\<close> looks
  at each as a string and asserts that it is one. The generator is not restarted between
  the tests \<open>k not in collected\<close>: each test goes on where the last one stopped. A name is
  \<open>One\<close>, an argument that is a collection of names \<open>Many\<close>.
\<close>

fun in_collected :: "string \<Rightarrow> string collectable list \<Rightarrow> (bool \<times> string collectable list) res" where
  "in_collected k [] = Inr (False, [])"
| "in_collected k (One n # rest) = (if n = k then Inr (True, rest) else in_collected k rest)"
| "in_collected k (Many ns # rest) = Inl AssertionError"

fun keep_kwargs ::
  "(string, 'v) dict \<Rightarrow> string collectable list \<Rightarrow> (string, 'v) dict res" where
  "keep_kwargs [] collected = Inr []"
| "keep_kwargs ((k, v) # items) collected =
     rbind (in_collected k collected)
       (\<lambda>(found, collected'). rbind (keep_kwargs items collected')
          (\<lambda>rest. Inr (if found then rest else (k, v) # rest)))"

definition without_kwargs :: "'v call_args \<Rightarrow> string collectable list \<Rightarrow> 'v call_args res" where
  "without_kwargs a names =
     rbind (keep_kwargs (kwargs a) names)
       (\<lambda>kw. Inr \<lparr>positional = positional a, kwargs = kw\<rparr>)"

definition args_add :: "'v call_args \<Rightarrow> 'v call_args \<Rightarrow> 'v call_args res" where
  "args_add a b =
     (if set (map fst (kwargs a)) \<inter> set (map fst (kwargs b)) \<noteq> {} then Inl AssertionError
      else Inr \<lparr>positional = positional a @ positional b,
                kwargs = fold (\<lambda>(k, v). AList.update k v) (kwargs b) (kwargs a)\<rparr>)"

definition with_overrides :: "'v call_args \<Rightarrow> 'v call_args \<Rightarrow> 'v call_args res" where
  "with_overrides a b =
     rbind (without_kwargs a [Many (map fst (kwargs b))]) (\<lambda>a'. args_add a' b)"

definition args_lshift :: "'v call_args \<Rightarrow> 'v call_args \<Rightarrow> 'v call_args res" where
  "args_lshift a b = with_overrides a b"

definition args_rshift :: "'v call_args \<Rightarrow> 'v call_args \<Rightarrow> 'v call_args res" where
  "args_rshift a b = with_overrides b a"

definition args_of :: "'v list \<Rightarrow> (string, 'v) dict \<Rightarrow> 'v call_args" where
  "args_of ps kws = \<lparr>positional = ps, kwargs = kws\<rparr>"

definition args_invoke :: "'v call_args \<Rightarrow> ('v list \<Rightarrow> (string, 'v) dict \<Rightarrow> 'r) \<Rightarrow> 'r" where
  "args_invoke a f = f (positional a) (kwargs a)"

section \<open>Reading back what was written\<close>

text \<open>A key whose text is read back as it was: no separator in it, and no string that looks like an integer.\<close>

definition plain_key :: "task_key \<Rightarrow> bool" where
  "plain_key k =
     (case k of
        IntKey _ \<Rightarrow> True
      | StrKey s \<Rightarrow> CHR ''/'' \<notin> set s \<and> CHR ''@'' \<notin> set s \<and> py_int s = Inl ValueError)"

definition plain_coordinates :: "coordinates \<Rightarrow> bool" where
  "plain_coordinates c \<longleftrightarrow> path c \<noteq> [] \<and> order_of c \<noteq> [] \<and> (\<forall>k \<in> set (path c). plain_key k)"

lemma parse_key_str: "plain_key k \<Longrightarrow> parse_key (str_of_key k) = k"
  by (cases k) (auto simp: plain_key_def parse_key_def str_of_key_def py_int_str_of_int)

lemma str_of_int_plain: "CHR ''/'' \<notin> set (str_of_int i)" "CHR ''@'' \<notin> set (str_of_int i)"
  using str_of_int_chars [of "CHR ''/''" i] str_of_int_chars [of "CHR ''@''" i] by (auto simp: is_digit_def)

lemma str_of_key_plain:
  assumes "plain_key k"
  shows "CHR ''/'' \<notin> set (str_of_key k)" and "CHR ''@'' \<notin> set (str_of_key k)"
  using assms str_of_int_plain
  by (cases k; simp add: plain_key_def str_of_key_def del: insert_iff)+

lemma parse_str:
  assumes "plain_coordinates c"
  shows "parse (str_of_coordinates c) = Inr c"
proof -
  let ?p = "py_join ''/'' (map str_of_key (path c))" and ?o = "py_join ''/'' (map str_of_int (order_of c))"
  from assms have pk: "\<forall>k \<in> set (path c). plain_key k" by (simp add: plain_coordinates_def)
  have "CHR '':'' \<notin> set (name_of_type (type_of c))" by (cases "type_of c") simp_all
  from py_partition_found [OF this, of "?p @ ''@'' @ ?o"]
  have 1: "py_partition (CHR '':'') (str_of_coordinates c) = (name_of_type (type_of c), '':'', ?p @ CHR ''@'' # ?o)"
    by (simp add: str_of_coordinates_def)
  have "CHR ''@'' \<notin> set ?p" using pk str_of_key_plain by (intro py_join_chars) auto
  from py_partition_found [OF this] have 2: "py_partition (CHR ''@'') (?p @ CHR ''@'' # ?o) = (?p, ''@'', ?o)" .
  have 3: "py_split (CHR ''/'') ?p = map str_of_key (path c)"
    using assms str_of_key_plain by (intro py_split_join) (auto simp: plain_coordinates_def)
  have 4: "py_split (CHR ''/'') ?o = map str_of_int (order_of c)"
    using assms str_of_int_plain by (intro py_split_join) (auto simp: plain_coordinates_def)
  have 5: "traverse py_int (map str_of_int (order_of c)) = Inr (order_of c)"
    by (auto simp: traverse_Inr_iff list_all2_conv_all_nth py_int_str_of_int)
  have 6: "map (parse_key \<circ> str_of_key) (path c) = path c"
    using pk by (auto simp: parse_key_str intro: map_idI)
  have 7: "type_named (name_of_type (type_of c)) = Inr (type_of c)"
    by (cases "type_of c") (simp_all add: type_named_def)
  show ?thesis by (simp add: parse_def 1 2 3 4 5 6 7)
qed

lemma str_of_coordinates_inj:
  "plain_coordinates c \<Longrightarrow> plain_coordinates d \<Longrightarrow> str_of_coordinates c = str_of_coordinates d \<longleftrightarrow> c = d"
  by (metis parse_str sum.inject(2))

section \<open>Properties\<close>

text \<open>C23: Coordinates with plain keys (no separator in a key, no string key that reads as an
  integer) survive being written and parsed: the parser returns exactly what was printed.\<close>

theorem coordinates_roundtrip:
  assumes "plain_coordinates c"
  shows "parse (str_of_coordinates c) = Inr c"
  using parse_str [OF assms] .

theorem coordinates_roundtrip_witness:
  "parse (str_of_coordinates \<lparr>path = [StrKey ''x'', IntKey (- 12), StrKey ''a''], order_of = [0, 20, 3],
     type_of = STEP\<rparr>) = Inr \<lparr>path = [StrKey ''x'', IntKey (- 12), StrKey ''a''], order_of = [0, 20, 3], type_of = STEP\<rparr>"
proof -
  have "plain_coordinates \<lparr>path = [StrKey ''x'', IntKey (- 12), StrKey ''a''], order_of = [0, 20, 3], type_of = STEP\<rparr>"
    by code_simp
  then show ?thesis by (rule coordinates_roundtrip)
qed

text \<open>Coordinates form a hierarchy: a task whose path and order have the same length is a
  descendant of each of its ancestors, being a descendant is transitive, and adding a part
  and taking the parent gives the coordinates back as those of a stage.\<close>

theorem coordinates_hierarchy:
  assumes "length (order_of c) = length (path c)"
  shows "(\<forall>k t a. ancestor c k t = Inr a \<longrightarrow>
      is_descendant_of c a \<and> type_of a = t \<and> int (depth_of a) = int (depth_of c) - k \<and> depth_of a > 0) \<and>
    (\<forall>b a. is_descendant_of c b \<longrightarrow> is_descendant_of b a \<longrightarrow> is_descendant_of c a) \<and>
    (\<forall>p. c \<noteq> \<lparr>path = [], order_of = [], type_of = type_of c\<rparr> \<longrightarrow>
      parent (add_part c p) = Inr (c\<lparr>type_of := STAGE\<rparr>))"
proof (intro conjI allI impI)
  fix k t a assume a: "ancestor c k t = Inr a"
  then have "0 \<le> k" "k < int (length (path c))"
    and "a = \<lparr>path = take (length (path c) - nat k) (path c),
      order_of = take (length (path c) - nat k) (order_of c), type_of = t\<rparr>"
    by (auto simp: ancestor_def depth_of_def Let_def split: if_splits)
  with assms show "is_descendant_of c a" and "type_of a = t"
    and "int (depth_of a) = int (depth_of c) - k" and "depth_of a > 0"
    by (auto simp: is_descendant_of_def depth_of_def)
next
  fix b a assume "is_descendant_of c b" "is_descendant_of b a"
  then have b: "path b = take (length (path b)) (path c)" "order_of b = take (length (path b)) (order_of c)"
    and a: "path a = take (length (path a)) (path b)" "order_of a = take (length (path a)) (order_of b)"
    by (simp_all add: is_descendant_of_def depth_of_def)
  have le: "length (path a) \<le> length (path b)" using arg_cong [OF a(1), of length] by simp
  have "take (length (path a)) (path c) = path a"
    using le by (subst a(1), subst b(1)) (simp add: min_def)
  moreover have "take (length (path a)) (order_of c) = order_of a"
    using le by (subst a(2), subst b(2)) (simp add: min_def)
  ultimately show "is_descendant_of c a" by (simp add: is_descendant_of_def depth_of_def)
next
  fix p assume "c \<noteq> \<lparr>path = [], order_of = [], type_of = type_of c\<rparr>"
  with assms have "path c \<noteq> []" by (cases c) auto
  with assms show "parent (add_part c p) = Inr (c\<lparr>type_of := STAGE\<rparr>)"
    by (cases c) (auto simp: parent_def ancestor_def add_part_def as_coordinates_def depth_of_def Let_def)
qed

theorem coordinates_hierarchy_witness:
  "is_descendant_of \<lparr>path = [StrKey ''x'', IntKey 1], order_of = [0, 2], type_of = STEP\<rparr>
     \<lparr>path = [StrKey ''x''], order_of = [0], type_of = STAGE\<rparr>"
proof -
  have "ancestor \<lparr>path = [StrKey ''x'', IntKey 1], order_of = [0, 2], type_of = STEP\<rparr> 1 STAGE =
      Inr \<lparr>path = [StrKey ''x''], order_of = [0], type_of = STAGE\<rparr>" by code_simp
  moreover have "length (order_of \<lparr>path = [StrKey ''x'', IntKey 1], order_of = [0, 2], type_of = STEP\<rparr>) =
      length (path \<lparr>path = [StrKey ''x'', IntKey 1], order_of = [0, 2], type_of = STEP\<rparr>)" by simp
  ultimately show ?thesis using coordinates_hierarchy [THEN conjunct1, rule_format] by blast
qed

section \<open>Where the algebra of arguments breaks\<close>

lemma with_overrides_kwargs:
  "kwargs a \<noteq> [] \<Longrightarrow> with_overrides a b = Inl AssertionError"
  by (cases "kwargs a") (auto simp: with_overrides_def without_kwargs_def)

lemma is_sibling_false: "is_sibling c d offset \<noteq> Inr True"
  by (auto simp: is_sibling_def rbind_Inr_iff int_equals_list_def split: if_splits)

lemma map_of_fold_update:
  "map_of (fold (\<lambda>(k, v). AList.update k v) d e) = map_of e ++ map_of (rev d)"
proof (induction d arbitrary: e)
  case (Cons p d)
  obtain k v where p: "p = (k, v)" by (cases p)
  have "map_of (fold (\<lambda>(k, v). AList.update k v) (p # d) e) = (map_of e)(k \<mapsto> v) ++ map_of (rev d)"
    by (auto simp: Cons p fun_eq_iff map_add_def dict_simps split: option.splits)
  also have "\<dots> = map_of e ++ ([k \<mapsto> v] ++ map_of (rev d))" by simp
  finally show ?case by (simp add: p)
qed simp

lemma map_of_rev: "distinct (map fst d) \<Longrightarrow> map_of (rev d) = map_of d"
  by (subst map_of_inject_set) (simp_all flip: rev_map)

text \<open>Adding arguments appends the positional ones and unites the keyword ones, which must not
  overlap: every keyword keeps its value, and an overlap raises. Adding is associative as
  far as it succeeds.\<close>

theorem args_add_correct:
  assumes "dict_ok (kwargs b)"
  shows "(keys (kwargs a) \<inter> keys (kwargs b) \<noteq> {} \<longrightarrow> args_add a b = Inl AssertionError) \<and>
    (keys (kwargs a) \<inter> keys (kwargs b) = {} \<longrightarrow>
      (\<exists>c. args_add a b = Inr c \<and> positional c = positional a @ positional b \<and>
         (\<forall>k. map_of (kwargs c) k =
            (case map_of (kwargs a) k of Some v \<Rightarrow> Some v | None \<Rightarrow> map_of (kwargs b) k))))"
  using assms
  by (auto simp: args_add_def keys_def map_of_fold_update map_of_rev dict_ok_def map_add_def
      split: option.splits) (force dest: map_of_SomeD)

theorem args_add_correct_witness:
  "args_add (args_of [1] [(''a'', 2)]) (args_of [] [(''a'', 3 :: nat)]) = Inl AssertionError"
  using args_add_correct [of "args_of [] [(''a'', 3 :: nat)]"]
  by (auto simp: args_of_def dict_ok_def)

end
