(* ===== verification/Data_Versioning.thy ===== *)
theory Data_Versioning
  imports Task_Model State_Result
begin

text \<open>
  Versions of the data that tasks write: names of branches
  (\<open>thinking_programming/names.py\<close>, \<open>UuidBranchNameAdapter\<close>), the permission to write
  (\<open>thinking_executor_data/common/writability.py\<close>), the versioning interface with its manager
  (\<open>common/versioning.py\<close>), and its implementation with Dolt through SQL
  (\<open>dolt/sqlalchemy/versioning.py\<close>).

  Parameters: \<open>uuid5\<close>, the function of the standard library on texts (a namespace identifier
  and a name give an identifier), and the execution of an SQL statement in a session.
\<close>

section \<open>Names\<close>

type_synonym uuid5 = "string \<Rightarrow> string \<Rightarrow> string"
type_synonym known_names = "(string, string \<times> string) dict"

definition META_NAMESPACE_UUID :: string where
  "META_NAMESPACE_UUID = ''42afa334-865e-4a0f-b169-ce17a5acfe10''"

definition NAMESPACE :: "uuid5 \<Rightarrow> string" where
  "NAMESPACE uuid5 = uuid5 META_NAMESPACE_UUID ''Namespace''"

definition make_uuid :: "uuid5 \<Rightarrow> string \<Rightarrow> string \<Rightarrow> (known_names, string) operation" where
  "make_uuid uuid5 namespace name known =
     (let prefix = uuid5 (NAMESPACE uuid5) namespace;
          result = uuid5 prefix name
      in (AList.update result (namespace, name) (AList.update prefix (''Namespace'', namespace) known), Inr result))"

definition resolve_uuid :: "string \<Rightarrow> known_names \<Rightarrow> (string \<times> string) res" where
  "resolve_uuid u known = (case map_of known u of None \<Rightarrow> Inl KeyError | Some n \<Rightarrow> Inr n)"

text \<open>Coordinates and branch names; \<open>main\<close> is the branch of no coordinates.\<close>

definition to_branch_name :: "uuid5 \<Rightarrow> string \<Rightarrow> coordinates option \<Rightarrow> (known_names, string) operation" where
  "to_branch_name uuid5 no_coordinates_branch coords =
     (case coords of
        None \<Rightarrow> sret no_coordinates_branch
      | Some c \<Rightarrow> make_uuid uuid5 ''TaskCoordinates'' (str_of_coordinates c))"

definition from_branch_name :: "string \<Rightarrow> string \<Rightarrow> known_names \<Rightarrow> coordinates option res" where
  "from_branch_name no_coordinates_branch branch_name known =
     (if branch_name = no_coordinates_branch then Inr None
      else rbind (resolve_uuid branch_name known)
        (\<lambda>(namespace, name).
           if namespace \<noteq> ''TaskCoordinates'' then Inl AssertionError
           else rbind (parse name) (\<lambda>c. Inr (Some c))))"

text \<open>
  Identifiers are digests of fixed length, so that not all names can have different ones. What the program
  relies on is that those which it makes do not collide: among the coordinates it names,
  coordinates that print differently have different identifiers, and none of these is the
  identifier of the namespace or the name of the main branch.
\<close>

definition namespace_id :: "uuid5 \<Rightarrow> string" where
  "namespace_id uuid5 = uuid5 (NAMESPACE uuid5) ''TaskCoordinates''"

definition branch_id :: "uuid5 \<Rightarrow> coordinates \<Rightarrow> string" where
  "branch_id uuid5 c = uuid5 (namespace_id uuid5) (str_of_coordinates c)"

definition collision_free :: "uuid5 \<Rightarrow> string \<Rightarrow> coordinates list \<Rightarrow> bool" where
  "collision_free uuid5 no_coordinates_branch cs \<longleftrightarrow>
     (\<forall>c \<in> set cs. branch_id uuid5 c \<noteq> namespace_id uuid5 \<and> branch_id uuid5 c \<noteq> no_coordinates_branch \<and>
       (\<forall>c' \<in> set cs. branch_id uuid5 c = branch_id uuid5 c' \<longrightarrow> str_of_coordinates c = str_of_coordinates c'))"

lemma collision_freeD:
  assumes "collision_free uuid5 m cs" and "c \<in> set cs"
  shows "branch_id uuid5 c \<noteq> namespace_id uuid5" and "branch_id uuid5 c \<noteq> m"
    and "c' \<in> set cs \<Longrightarrow> branch_id uuid5 c = branch_id uuid5 c' \<Longrightarrow> str_of_coordinates c = str_of_coordinates c'"
  using assms unfolding collision_free_def by blast+

lemma to_branch_name_eq:
  "to_branch_name uuid5 m coords known = (known', r) \<Longrightarrow>
   r = Inr (case coords of None \<Rightarrow> m | Some c \<Rightarrow> branch_id uuid5 c)"
  by (auto simp: to_branch_name_def sret_def make_uuid_def branch_id_def namespace_id_def Let_def split: option.splits)

lemma to_branch_name_known:
  "map_of (fst (to_branch_name uuid5 m coords known)) x =
     (case coords of
        None \<Rightarrow> map_of known x
      | Some c \<Rightarrow>
          (if x = branch_id uuid5 c then Some (''TaskCoordinates'', str_of_coordinates c)
           else if x = namespace_id uuid5 then Some (''Namespace'', ''TaskCoordinates'') else map_of known x))"
  by (auto simp: to_branch_name_def sret_def make_uuid_def branch_id_def namespace_id_def Let_def dict_simps
      split: option.splits)

lemma known_after:
  assumes "to_branch_name uuid5 m (Some c) known = (known', r)"
  shows "map_of known' (branch_id uuid5 c) = Some (''TaskCoordinates'', str_of_coordinates c)"
  using to_branch_name_known [of uuid5 m "Some c" known] assms by simp

fun name_branches :: "uuid5 \<Rightarrow> string \<Rightarrow> coordinates option list \<Rightarrow> known_names \<Rightarrow> known_names" where
  "name_branches uuid5 m [] known = known"
| "name_branches uuid5 m (c # cs) known = name_branches uuid5 m cs (fst (to_branch_name uuid5 m c known))"

text \<open>What is known stays known while others are named.\<close>

definition named_coordinates :: "coordinates option list \<Rightarrow> coordinates list" where
  "named_coordinates cs = [c. Some c \<leftarrow> cs]"

lemma named_coordinates_simps [simp]:
  "named_coordinates [] = []"
  "named_coordinates (None # cs) = named_coordinates cs"
  "named_coordinates (Some c # cs) = c # named_coordinates cs"
  by (simp_all add: named_coordinates_def)

lemma collision_free_mono: "collision_free uuid5 m cs \<Longrightarrow> set cs' \<subseteq> set cs \<Longrightarrow> collision_free uuid5 m cs'"
  unfolding collision_free_def by blast

lemma name_branches_stays:
  "collision_free uuid5 m (c # named_coordinates cs) \<Longrightarrow>
   map_of known (branch_id uuid5 c) = Some (''TaskCoordinates'', str_of_coordinates c) \<Longrightarrow>
   map_of (name_branches uuid5 m cs known) (branch_id uuid5 c) = Some (''TaskCoordinates'', str_of_coordinates c)"
proof (induction cs arbitrary: known)
  case Nil
  then show ?case by simp
next
  case (Cons c' cs)
  let ?known = "fst (to_branch_name uuid5 m c' known)"
  have free: "collision_free uuid5 m (c # named_coordinates cs)"
    by (rule collision_free_mono [OF Cons.prems(1)]) (cases c'; auto)
  moreover have "map_of ?known (branch_id uuid5 c) = Some (''TaskCoordinates'', str_of_coordinates c)"
  proof (cases c')
    case None
    with Cons.prems(2) show ?thesis by (simp add: to_branch_name_known)
  next
    case (Some d)
    with Cons.prems(1) have "branch_id uuid5 c = branch_id uuid5 d \<Longrightarrow> str_of_coordinates c = str_of_coordinates d"
      by (intro collision_freeD(3)) auto
    with Some Cons.prems(2) collision_freeD(1) [OF free, of c] show ?thesis
      by (auto simp: to_branch_name_known)
  qed
  ultimately show ?case using Cons.IH by simp
qed

lemma name_branches_namespace:
  "collision_free uuid5 m (named_coordinates cs) \<Longrightarrow>
   map_of known (namespace_id uuid5) = Some (''Namespace'', ''TaskCoordinates'') \<Longrightarrow>
   map_of (name_branches uuid5 m cs known) (namespace_id uuid5) = Some (''Namespace'', ''TaskCoordinates'')"
proof (induction cs arbitrary: known)
  case Nil
  then show ?case by simp
next
  case (Cons c cs)
  have "collision_free uuid5 m (named_coordinates cs)"
    by (rule collision_free_mono [OF Cons.prems(1)]) (cases c; auto)
  moreover have "map_of (fst (to_branch_name uuid5 m c known)) (namespace_id uuid5) =
      Some (''Namespace'', ''TaskCoordinates'')"
  proof (cases c)
    case (Some d)
    then have "branch_id uuid5 d \<noteq> namespace_id uuid5" by (intro collision_freeD(1) [OF Cons.prems(1)]) simp
    with Some show ?thesis by (auto simp: to_branch_name_known)
  qed (simp add: to_branch_name_known Cons.prems(2))
  ultimately show ?case using Cons.IH by simp
qed

lemma from_branch_name_known:
  assumes "branch_id uuid5 c \<noteq> m" and "plain_coordinates c"
    and "map_of known (branch_id uuid5 c) = Some (''TaskCoordinates'', str_of_coordinates c)"
  shows "from_branch_name m (branch_id uuid5 c) known = Inr (Some c)"
  using assms by (simp add: from_branch_name_def resolve_uuid_def parse_str)

text \<open>C26: Branch names are read back: the name of a branch for coordinates, or for none, is resolved
  to these coordinates, however many branches have been named in between, as long as the identifiers
  of the coordinates that were named do not collide. A name that is not known raises \<open>KeyError\<close>,
  and the known identifier of the namespace fails the assertion on the namespace; the docstrings
  announce an \<open>UnparsableBranchNameException\<close>, which is never raised.\<close>

theorem branch_names_roundtrip:
  assumes "collision_free uuid5 m (named_coordinates (coords # others))"
    and "\<forall>c. coords = Some c \<longrightarrow> plain_coordinates c"
    and "to_branch_name uuid5 m coords known = (known', Inr name)"
  shows "from_branch_name m name (name_branches uuid5 m others known') = Inr coords \<and>
    (\<forall>other known''. other \<noteq> m \<longrightarrow> other \<notin> keys known'' \<longrightarrow> from_branch_name m other known'' = Inl KeyError) \<and>
    (coords \<noteq> None \<longrightarrow> namespace_id uuid5 \<noteq> m \<longrightarrow>
      from_branch_name m (namespace_id uuid5) (name_branches uuid5 m others known') = Inl AssertionError)"
proof (intro conjI allI impI)
  show "from_branch_name m name (name_branches uuid5 m others known') = Inr coords"
  proof (cases coords)
    case None
    then show ?thesis using assms(3) by (simp add: to_branch_name_def sret_def from_branch_name_def)
  next
    case (Some c)
    have free: "collision_free uuid5 m (c # named_coordinates others)" using assms(1) Some by simp
    have "name = branch_id uuid5 c" using to_branch_name_eq [OF assms(3)] Some by simp
    moreover have "map_of (name_branches uuid5 m others known') (branch_id uuid5 c) =
        Some (''TaskCoordinates'', str_of_coordinates c)"
      using known_after assms(3) Some by (intro name_branches_stays [OF free]) simp
    ultimately show ?thesis using from_branch_name_known collision_freeD(2) [OF free, of c] assms(2) Some by simp
  qed
next
  fix other and known'' :: known_names assume "other \<noteq> m" "other \<notin> keys known''"
  then show "from_branch_name m other known'' = Inl KeyError"
    by (simp add: from_branch_name_def resolve_uuid_def not_keys_iff_map_of)
next
  assume c: "coords \<noteq> None" and m: "namespace_id uuid5 \<noteq> m"
  from c obtain c where c: "coords = Some c" by auto
  with assms(1) have free: "collision_free uuid5 m (c # named_coordinates others)" by simp
  have "map_of known' (namespace_id uuid5) = Some (''Namespace'', ''TaskCoordinates'')"
    using to_branch_name_known [of uuid5 m coords known "namespace_id uuid5"] assms(3) c
      collision_freeD(1) [OF free, of c] by auto
  moreover have "collision_free uuid5 m (named_coordinates others)"
    by (rule collision_free_mono [OF free]) auto
  ultimately have "map_of (name_branches uuid5 m others known') (namespace_id uuid5) =
      Some (''Namespace'', ''TaskCoordinates'')" by (intro name_branches_namespace)
  with m show "from_branch_name m (namespace_id uuid5) (name_branches uuid5 m others known') = Inl AssertionError"
    by (simp add: from_branch_name_def resolve_uuid_def)
qed

text \<open>A digest for the witnesses: as many letters as its first argument has, then the second.\<close>

definition ex_uuid5 :: uuid5 where
  "ex_uuid5 u n = replicate (length u mod 7) (CHR ''a'') @ take 30 (filter (\<lambda>c. c \<noteq> CHR '':'' \<and> c \<noteq> CHR 0x27) n)"

definition ex_coordinates :: coordinates where
  "ex_coordinates = \<lparr>path = [StrKey ''train'', IntKey 3], order_of = [0, 1], type_of = STEP\<rparr>"

definition ex_coordinates2 :: coordinates where
  "ex_coordinates2 = \<lparr>path = [StrKey ''test''], order_of = [2], type_of = STAGE\<rparr>"

lemma ex_plain: "plain_coordinates ex_coordinates"
  by (simp add: plain_coordinates_def plain_key_def ex_coordinates_def py_int_def strip_def
      is_space_def natural_of_def is_digit_def)

lemma ex_collision_free: "collision_free ex_uuid5 ''main'' [ex_coordinates, ex_coordinates2]"
  unfolding collision_free_def by code_simp

theorem branch_names_roundtrip_witness:
  "from_branch_name ''main'' (branch_id ex_uuid5 ex_coordinates)
     (name_branches ex_uuid5 ''main'' [None, Some ex_coordinates2]
       (fst (to_branch_name ex_uuid5 ''main'' (Some ex_coordinates) []))) =
   Inr (Some ex_coordinates)"
proof -
  have "to_branch_name ex_uuid5 ''main'' (Some ex_coordinates) [] =
    (fst (to_branch_name ex_uuid5 ''main'' (Some ex_coordinates) []), Inr (branch_id ex_uuid5 ex_coordinates))"
    using to_branch_name_eq [OF prod.collapse [symmetric], of ex_uuid5 "''main''" "Some ex_coordinates" "[]"]
    by (simp add: prod_eq_iff)
  with branch_names_roundtrip [of ex_uuid5 "''main''" "Some ex_coordinates" "[None, Some ex_coordinates2]"]
    ex_collision_free ex_plain show ?thesis by simp
qed

end
