(* ===== verification/Dolt_Versioning.thy ===== *)
theory Dolt_Versioning
  imports Data_Versioning
begin

text \<open>
  The permission to write (\<open>common/writability.py\<close>), the manager of the versionings
  (\<open>common/versioning.py\<close>) and the versioning of Dolt through SQL
  (\<open>dolt/sqlalchemy/versioning.py\<close>).

  A versioning is a record of operations, as the protocol declares them. The session of
  SQLAlchemy is a parameter: executing a statement, reading its scalar as a text or as a
  number, and whether it is dirty. What the procedures of Dolt document is \<open>dolt_contract\<close>.
\<close>

section \<open>The permission to write\<close>

datatype read_write = RO | RW

definition WritabilityManager :: read_write where
  "WritabilityManager = RO"

definition current_access :: "read_write \<Rightarrow> read_write res" where
  "current_access access = NoneValueException_guard (Some access)"

definition can_write :: "read_write \<Rightarrow> bool" where
  "can_write access \<longleftrightarrow> access = RW"

definition allow_writing :: "(read_write, unit) operation" where
  "allow_writing access = (if access = RO then (RW, Inr ()) else (access, Inl AssertionError))"

definition disallow_writing :: "(read_write, unit) operation" where
  "disallow_writing access = (RO, Inr ())"

definition require_writing :: "string option \<Rightarrow> read_write \<Rightarrow> unit res" where
  "require_writing db access = (if \<not> can_write access then Inl (WritingDisabledException db) else Inr ())"

section \<open>The versioning manager\<close>

record 's versioning =
  is_dirty :: "('s, bool) operation"
  has_branch :: "coordinates option \<Rightarrow> ('s, bool) operation"
  new_branch :: "coordinates option \<Rightarrow> ('s, unit) operation"
  delete_branch :: "coordinates option \<Rightarrow> ('s, unit) operation"
  checkout :: "coordinates option \<Rightarrow> ('s, unit) operation"
  commit :: "string option \<Rightarrow> ('s, unit) operation"
  rollback :: "('s, unit) operation"

datatype versioning_event =
    OnEnsureEmptyBranch "coordinates option"
  | OnCheckout "coordinates option"
  | OnCommit
  | OnRollback

text \<open>\<open>callbacks\<close> is the composite of the registered callbacks.\<close>

record 's versioning_manager =
  versionings :: "'s versioning list"
  versioning_callbacks :: "versioning_event \<Rightarrow> ('s, unit) operation"

fun any_dirty :: "'s versioning list \<Rightarrow> ('s, bool) operation" where
  "any_dirty [] s = (s, Inr False)"
| "any_dirty (v # vs) s =
     (case is_dirty v s of
        (s1, Inl e) \<Rightarrow> (s1, Inl e)
      | (s1, Inr b) \<Rightarrow> if b then (s1, Inr True) else any_dirty vs s1)"

definition manager_is_dirty :: "'s versioning_manager \<Rightarrow> ('s, bool) operation" where
  "manager_is_dirty m = any_dirty (versionings m)"

definition ensure_empty_branch :: "'s versioning_manager \<Rightarrow> coordinates option \<Rightarrow> ('s, unit) operation" where
  "ensure_empty_branch m c =
     sseq (versioning_callbacks m (OnEnsureEmptyBranch c))
       (seach (\<lambda>v. sseq (sbind (has_branch v c) (\<lambda>b. if b then delete_branch v c else sret ())) (new_branch v c))
         (versionings m))"

definition manager_checkout :: "'s versioning_manager \<Rightarrow> coordinates option \<Rightarrow> ('s, unit) operation" where
  "manager_checkout m c = sseq (versioning_callbacks m (OnCheckout c)) (seach (\<lambda>v. checkout v c) (versionings m))"

definition manager_commit :: "'s versioning_manager \<Rightarrow> ('s, unit) operation" where
  "manager_commit m = sseq (versioning_callbacks m OnCommit) (seach (\<lambda>v. commit v None) (versionings m))"

definition manager_rollback :: "'s versioning_manager \<Rightarrow> ('s, unit) operation" where
  "manager_rollback m = sseq (versioning_callbacks m OnRollback) (seach rollback (versionings m))"

section \<open>Versioning with Dolt\<close>

record 's sql_session =
  run_statement :: "string \<Rightarrow> ('s, unit) operation"
  scalar_text :: "string \<Rightarrow> ('s, string) operation"
  scalar_int :: "string \<Rightarrow> ('s, int) operation"
  session_dirty :: "'s \<Rightarrow> bool"

record 's dolt_state =
  database_state :: 's
  known :: known_names

definition on_session :: "('s, 'a) operation \<Rightarrow> ('s dolt_state, 'a) operation" where
  "on_session f d = (case f (database_state d) of (s, r) \<Rightarrow> (d\<lparr>database_state := s\<rparr>, r))"

definition procedure_call :: "string \<Rightarrow> string list \<Rightarrow> string" where
  "procedure_call proc_name args =
     ''CALL '' @ proc_name @ ''('' @ py_join '', '' (map (\<lambda>x. [CHR 0x27] @ x @ [CHR 0x27]) args) @ '')''"

definition call_procedure :: "'s sql_session \<Rightarrow> string \<Rightarrow> string list \<Rightarrow> ('s dolt_state, unit) operation" where
  "call_procedure q proc_name args = on_session (run_statement q (procedure_call proc_name args))"

text \<open>\<open>BRANCH_NAME_ADAPTER = UuidBranchNameAdapter()\<close>, with \<open>main\<close> for no coordinates.\<close>

definition branch_name :: "uuid5 \<Rightarrow> coordinates option \<Rightarrow> ('s dolt_state, string) operation" where
  "branch_name uuid5 c d =
     (case to_branch_name uuid5 ''main'' c (known d) of (k, r) \<Rightarrow> (d\<lparr>known := k\<rparr>, r))"

definition current_branch :: "'s sql_session \<Rightarrow> ('s dolt_state, string) operation" where
  "current_branch q = on_session (scalar_text q ''SELECT active_branch();'')"

definition current_coordinates :: "'s sql_session \<Rightarrow> ('s dolt_state, coordinates option) operation" where
  "current_coordinates q =
     sbind (current_branch q) (\<lambda>b d. (d, from_branch_name ''main'' b (known d)))"

definition dolt_is_dirty :: "'s sql_session \<Rightarrow> ('s dolt_state, bool) operation" where
  "dolt_is_dirty q d = (d, Inr (session_dirty q (database_state d)))"

definition count_branches :: "string \<Rightarrow> string" where
  "count_branches name = ''SELECT count(*) FROM dolt_branches WHERE name = '' @ [CHR 0x27] @ name @ [CHR 0x27]"

definition dolt_has_branch :: "uuid5 \<Rightarrow> 's sql_session \<Rightarrow> coordinates option \<Rightarrow> ('s dolt_state, bool) operation" where
  "dolt_has_branch uuid5 q c =
     sbind (branch_name uuid5 c)
       (\<lambda>name. sbind (on_session (scalar_int q (count_branches name))) (\<lambda>n. sret (n > 0)))"

definition dolt_new_branch :: "uuid5 \<Rightarrow> 's sql_session \<Rightarrow> coordinates option \<Rightarrow> ('s dolt_state, unit) operation" where
  "dolt_new_branch uuid5 q c =
     sbind (branch_name uuid5 c)
       (\<lambda>name. sbind (current_branch q) (\<lambda>b. call_procedure q ''DOLT_BRANCH'' [name, b]))"

definition dolt_delete_branch :: "uuid5 \<Rightarrow> 's sql_session \<Rightarrow> coordinates option \<Rightarrow> ('s dolt_state, unit) operation" where
  "dolt_delete_branch uuid5 q c =
     sbind (branch_name uuid5 c) (\<lambda>name. call_procedure q ''DOLT_BRANCH'' [''-D'', name])"

definition dolt_checkout :: "uuid5 \<Rightarrow> 's sql_session \<Rightarrow> coordinates option \<Rightarrow> ('s dolt_state, unit) operation" where
  "dolt_checkout uuid5 q c =
     sbind (branch_name uuid5 c) (\<lambda>name. call_procedure q ''DOLT_CHECKOUT'' [name])"

definition str_of_optional :: "coordinates option \<Rightarrow> string" where
  "str_of_optional c = (case c of None \<Rightarrow> ''None'' | Some c' \<Rightarrow> str_of_coordinates c')"

definition dolt_commit :: "'s sql_session \<Rightarrow> string option \<Rightarrow> ('s dolt_state, unit) operation" where
  "dolt_commit q comment =
     (let suffix = (case comment of None \<Rightarrow> [] | Some t \<Rightarrow> '' ['' @ t @ '']'')
      in sbind (current_coordinates q)
           (\<lambda>c. call_procedure q ''DOLT_COMMIT'' [''-A'', ''--allow-empty'', ''-m'', str_of_optional c @ suffix]))"

definition dolt_rollback :: "'s sql_session \<Rightarrow> ('s dolt_state, unit) operation" where
  "dolt_rollback q = call_procedure q ''DOLT_RESET'' [''--hard'']"

definition SqlAlchemyDoltVersioning :: "uuid5 \<Rightarrow> 's sql_session \<Rightarrow> 's dolt_state versioning" where
  "SqlAlchemyDoltVersioning uuid5 q =
     \<lparr>is_dirty = dolt_is_dirty q, has_branch = dolt_has_branch uuid5 q, new_branch = dolt_new_branch uuid5 q,
      delete_branch = dolt_delete_branch uuid5 q, checkout = dolt_checkout uuid5 q,
      commit = dolt_commit q, rollback = dolt_rollback q\<rparr>"

section \<open>What Dolt documents\<close>

text \<open>
  A repository: the tables at the head of every branch, the tables of its working set, and the
  active branch. Dolt keeps a working set for each branch. The tables at the head are the tracked
  ones: \<open>DOLT_RESET --hard\<close> restores them and leaves alone tables which have never been committed.
\<close>

type_synonym 'd database = "string \<Rightarrow> 'd option"

record 'd repo =
  heads :: "string \<Rightarrow> 'd database option"
  workings :: "string \<Rightarrow> 'd database option"
  active :: string

definition repo_ok :: "'d repo \<Rightarrow> bool" where
  "repo_ok r \<longleftrightarrow> dom (workings r) = dom (heads r) \<and> active r \<in> dom (heads r)"

definition repo_branch :: "string \<Rightarrow> string \<Rightarrow> 'd repo \<Rightarrow> 'd repo" where
  "repo_branch n b r = r\<lparr>heads := (heads r)(n := heads r b), workings := (workings r)(n := heads r b)\<rparr>"

definition repo_delete :: "string \<Rightarrow> 'd repo \<Rightarrow> 'd repo" where
  "repo_delete n r = r\<lparr>heads := (heads r)(n := None), workings := (workings r)(n := None)\<rparr>"

definition repo_checkout :: "string \<Rightarrow> 'd repo \<Rightarrow> 'd repo" where
  "repo_checkout n r = r\<lparr>active := n\<rparr>"

definition repo_commit :: "'d repo \<Rightarrow> 'd repo" where
  "repo_commit r = r\<lparr>heads := (heads r)(active r := workings r (active r))\<rparr>"

definition restore_tracked :: "'d database \<Rightarrow> 'd database \<Rightarrow> 'd database" where
  "restore_tracked tracked t = (\<lambda>name. if name \<in> dom tracked then tracked name else t name)"

definition repo_reset :: "'d repo \<Rightarrow> 'd repo" where
  "repo_reset r = r\<lparr>workings := (workings r)(active r \<mapsto>
     restore_tracked (the (heads r (active r))) (the (workings r (active r))))\<rparr>"

definition repo_write :: "'d database \<Rightarrow> 'd repo \<Rightarrow> 'd repo" where
  "repo_write x r = r\<lparr>workings := (workings r)(active r \<mapsto> x)\<rparr>"

lemmas repo_defs = repo_branch_def repo_delete_def repo_checkout_def repo_commit_def repo_reset_def repo_write_def

text \<open>
  A text that can stand between quotes in a statement and is no option of a procedure: it has no quote and no
  backslash, and no colon but after a word, where \<open>text()\<close> reads no parameter.
\<close>

definition is_word :: "char \<Rightarrow> bool" where
  "is_word c \<longleftrightarrow> is_digit c \<or> c = CHR ''_'' \<or> of_char c \<in> {65..90 :: nat} \<or> of_char c \<in> {97..122 :: nat}"

fun no_parameters :: "bool \<Rightarrow> string \<Rightarrow> bool" where
  "no_parameters after_word [] = True"
| "no_parameters after_word (c # cs) = ((c = CHR '':'' \<longrightarrow> after_word) \<and> no_parameters (is_word c) cs)"

definition quotable :: "string \<Rightarrow> bool" where
  "quotable t \<longleftrightarrow> CHR 0x27 \<notin> set t \<and> CHR 0x5C \<notin> set t \<and> take 1 t \<noteq> ''-'' \<and> no_parameters False t"

text \<open>\<open>does m repo_of s x r'\<close>: the operation returns \<open>x\<close> and the repository becomes \<open>r'\<close>.\<close>

definition does :: "('s, 'a) operation \<Rightarrow> ('s \<Rightarrow> 'd repo) \<Rightarrow> 's \<Rightarrow> 'a \<Rightarrow> 'd repo \<Rightarrow> bool" where
  "does m repo_of s x r' \<longleftrightarrow> snd (m s) = Inr x \<and> repo_of (fst (m s)) = r'"

definition dolt_contract :: "'s sql_session \<Rightarrow> ('s \<Rightarrow> 'd repo) \<Rightarrow> bool" where
  "dolt_contract q repo_of \<longleftrightarrow>
     (\<forall>s. repo_ok (repo_of s) \<longrightarrow>
        does (scalar_text q ''SELECT active_branch();'') repo_of s (active (repo_of s)) (repo_of s)) \<and>
     (\<forall>s n. repo_ok (repo_of s) \<longrightarrow> quotable n \<longrightarrow>
        does (scalar_int q (count_branches n)) repo_of s (if n \<in> dom (heads (repo_of s)) then 1 else 0) (repo_of s)) \<and>
     (\<forall>s n b. repo_ok (repo_of s) \<longrightarrow> quotable n \<longrightarrow> quotable b \<longrightarrow>
        n \<notin> dom (heads (repo_of s)) \<longrightarrow> b \<in> dom (heads (repo_of s)) \<longrightarrow>
        does (run_statement q (procedure_call ''DOLT_BRANCH'' [n, b])) repo_of s () (repo_branch n b (repo_of s))) \<and>
     (\<forall>s n. repo_ok (repo_of s) \<longrightarrow> quotable n \<longrightarrow> n \<in> dom (heads (repo_of s)) \<longrightarrow> n \<noteq> active (repo_of s) \<longrightarrow>
        does (run_statement q (procedure_call ''DOLT_BRANCH'' [''-D'', n])) repo_of s () (repo_delete n (repo_of s))) \<and>
     (\<forall>s n. repo_ok (repo_of s) \<longrightarrow> quotable n \<longrightarrow> n \<in> dom (heads (repo_of s)) \<longrightarrow>
        does (run_statement q (procedure_call ''DOLT_CHECKOUT'' [n])) repo_of s () (repo_checkout n (repo_of s))) \<and>
     (\<forall>s t. repo_ok (repo_of s) \<longrightarrow> quotable t \<longrightarrow>
        does (run_statement q (procedure_call ''DOLT_COMMIT'' [''-A'', ''--allow-empty'', ''-m'', t])) repo_of s ()
          (repo_commit (repo_of s))) \<and>
     (\<forall>s. repo_ok (repo_of s) \<longrightarrow>
        does (run_statement q (procedure_call ''DOLT_RESET'' [''--hard''])) repo_of s () (repo_reset (repo_of s)))"

section \<open>Refinement\<close>

definition repo_in :: "('s \<Rightarrow> 'd repo) \<Rightarrow> 's dolt_state \<Rightarrow> 'd repo" where
  "repo_in repo_of d = repo_of (database_state d)"

definition name_of_branch :: "uuid5 \<Rightarrow> coordinates option \<Rightarrow> string" where
  "name_of_branch uuid5 c = (case c of None \<Rightarrow> ''main'' | Some c' \<Rightarrow> branch_id uuid5 c')"

lemma doesI: "m s = (s', Inr x) \<Longrightarrow> repo_of s' = r \<Longrightarrow> does m repo_of s x r"
  by (simp add: does_def)

lemma doesE:
  assumes "does m repo_of s x r"
  obtains s' where "m s = (s', Inr x)" and "repo_of s' = r"
  using assms by (cases "m s") (auto simp: does_def)

lemma does_sbind:
  assumes "does m R s x r" and "\<And>s'. m s = (s', Inr x) \<Longrightarrow> R s' = r \<Longrightarrow> does (f x) R s' y r'"
  shows "does (sbind m f) R s y r'"
  using assms(1) by (rule doesE) (use assms(2) in \<open>fastforce simp: does_def sbind_def\<close>)

lemma does_sseq:
  assumes "does m R s x r" and "\<And>s'. m s = (s', Inr x) \<Longrightarrow> R s' = r \<Longrightarrow> does n R s' y r'"
  shows "does (sseq m n) R s y r'"
  unfolding sseq_def using assms by (rule does_sbind)

lemma does_sret: "R s = r \<Longrightarrow> does (sret x) R s x r"
  by (simp add: does_def sret_def)

lemma does_on_session: "does f repo_of (database_state d) x r \<Longrightarrow> does (on_session f) (repo_in repo_of) d x r"
  by (auto simp: does_def on_session_def repo_in_def split: prod.splits)

lemma known_on_session: "on_session f d = (d', r) \<Longrightarrow> known d' = known d"
  by (auto simp: on_session_def split: prod.splits)

lemma does_branch_name: "does (branch_name uuid5 c) (repo_in repo_of) d (name_of_branch uuid5 c) (repo_in repo_of d)"
  using to_branch_name_eq [OF prod.collapse [symmetric], of uuid5 "''main''" c "known d"]
  by (auto simp: does_def branch_name_def name_of_branch_def repo_in_def split: prod.splits option.splits)

lemma repo_ok_steps:
  assumes "repo_ok r"
  shows "b \<in> dom (heads r) \<Longrightarrow> repo_ok (repo_branch n b r)"
    and "n \<noteq> active r \<Longrightarrow> repo_ok (repo_delete n r)"
    and "n \<in> dom (heads r) \<Longrightarrow> repo_ok (repo_checkout n r)"
    and "repo_ok (repo_commit r)" and "repo_ok (repo_reset r)" and "repo_ok (repo_write x r)"
proof -
  have "active r \<in> dom (workings r)" "active r \<in> dom (heads r)" "dom (workings r) = dom (heads r)"
    using assms by (auto simp: repo_ok_def)
  then show "b \<in> dom (heads r) \<Longrightarrow> repo_ok (repo_branch n b r)"
    and "n \<noteq> active r \<Longrightarrow> repo_ok (repo_delete n r)"
    and "n \<in> dom (heads r) \<Longrightarrow> repo_ok (repo_checkout n r)"
    and "repo_ok (repo_commit r)" and "repo_ok (repo_reset r)" and "repo_ok (repo_write x r)"
    by (auto simp: repo_ok_def repo_defs dom_def)
qed

text \<open>The contract on the state of the versioning, procedure by procedure.\<close>

lemma dolt_procedures:
  assumes "dolt_contract q repo_of" and "repo_ok (repo_in repo_of d)" and "repo_in repo_of d = r"
  shows "does (on_session (scalar_text q ''SELECT active_branch();'')) (repo_in repo_of) d (active r) r"
    and "quotable n \<Longrightarrow> does (on_session (scalar_int q (count_branches n))) (repo_in repo_of) d
      (if n \<in> dom (heads r) then 1 else 0) r"
    and "quotable n \<Longrightarrow> quotable b \<Longrightarrow> n \<notin> dom (heads r) \<Longrightarrow> b \<in> dom (heads r) \<Longrightarrow>
      does (call_procedure q ''DOLT_BRANCH'' [n, b]) (repo_in repo_of) d () (repo_branch n b r)"
    and "quotable n \<Longrightarrow> n \<in> dom (heads r) \<Longrightarrow> n \<noteq> active r \<Longrightarrow>
      does (call_procedure q ''DOLT_BRANCH'' [''-D'', n]) (repo_in repo_of) d () (repo_delete n r)"
    and "quotable n \<Longrightarrow> n \<in> dom (heads r) \<Longrightarrow>
      does (call_procedure q ''DOLT_CHECKOUT'' [n]) (repo_in repo_of) d () (repo_checkout n r)"
    and "quotable t \<Longrightarrow>
      does (call_procedure q ''DOLT_COMMIT'' [''-A'', ''--allow-empty'', ''-m'', t]) (repo_in repo_of) d () (repo_commit r)"
    and "does (call_procedure q ''DOLT_RESET'' [''--hard'']) (repo_in repo_of) d () (repo_reset r)"
proof -
  note C = assms(1) [unfolded dolt_contract_def]
  have E: "repo_of (database_state d) = r" and ok: "repo_ok r" using assms by (simp_all add: repo_in_def)
  note lift = does_on_session [of _ repo_of d]
  show "does (on_session (scalar_text q ''SELECT active_branch();'')) (repo_in repo_of) d (active r) r"
    unfolding call_procedure_def by (rule lift, rule C [THEN conjunct1, rule_format, of "database_state d", unfolded E, OF ok])
  show "quotable n \<Longrightarrow> does (on_session (scalar_int q (count_branches n))) (repo_in repo_of) d
      (if n \<in> dom (heads r) then 1 else 0) r"
    unfolding call_procedure_def by (rule lift, rule C [THEN conjunct2, THEN conjunct1, rule_format, of "database_state d", unfolded E, OF ok])
  show "quotable n \<Longrightarrow> quotable b \<Longrightarrow> n \<notin> dom (heads r) \<Longrightarrow> b \<in> dom (heads r) \<Longrightarrow>
      does (call_procedure q ''DOLT_BRANCH'' [n, b]) (repo_in repo_of) d () (repo_branch n b r)"
    unfolding call_procedure_def by (rule lift, rule C [THEN conjunct2, THEN conjunct2, THEN conjunct1, rule_format, of "database_state d", unfolded E, OF ok])
  show "quotable n \<Longrightarrow> n \<in> dom (heads r) \<Longrightarrow> n \<noteq> active r \<Longrightarrow>
      does (call_procedure q ''DOLT_BRANCH'' [''-D'', n]) (repo_in repo_of) d () (repo_delete n r)"
    unfolding call_procedure_def by (rule lift, rule C [THEN conjunct2, THEN conjunct2, THEN conjunct2, THEN conjunct1, rule_format, of "database_state d", unfolded E, OF ok])
  show "quotable n \<Longrightarrow> n \<in> dom (heads r) \<Longrightarrow>
      does (call_procedure q ''DOLT_CHECKOUT'' [n]) (repo_in repo_of) d () (repo_checkout n r)"
    unfolding call_procedure_def by (rule lift, rule C [THEN conjunct2, THEN conjunct2, THEN conjunct2, THEN conjunct2, THEN conjunct1, rule_format, of "database_state d", unfolded E, OF ok])
  show "quotable t \<Longrightarrow>
      does (call_procedure q ''DOLT_COMMIT'' [''-A'', ''--allow-empty'', ''-m'', t]) (repo_in repo_of) d () (repo_commit r)"
    unfolding call_procedure_def by (rule lift, rule C [THEN conjunct2, THEN conjunct2, THEN conjunct2, THEN conjunct2, THEN conjunct2, THEN conjunct1, rule_format, of "database_state d", unfolded E, OF ok])
  show "does (call_procedure q ''DOLT_RESET'' [''--hard'']) (repo_in repo_of) d () (repo_reset r)"
    unfolding call_procedure_def by (rule lift, rule C [THEN conjunct2, THEN conjunct2, THEN conjunct2, THEN conjunct2, THEN conjunct2, THEN conjunct2, rule_format, of "database_state d", unfolded E, OF ok])
qed

lemma does_current_branch:
  "dolt_contract q repo_of \<Longrightarrow> repo_ok (repo_in repo_of d) \<Longrightarrow> repo_in repo_of d = r \<Longrightarrow>
   does (current_branch q) (repo_in repo_of) d (active r) r"
  unfolding current_branch_def by (rule dolt_procedures(1))

lemma does_current_coordinates:
  assumes "dolt_contract q repo_of" and "repo_ok (repo_in repo_of d)" and "repo_in repo_of d = r"
    and "from_branch_name ''main'' (active r) (known d) = Inr c"
  shows "does (current_coordinates q) (repo_in repo_of) d c r"
  unfolding current_coordinates_def
proof (rule does_sbind [OF does_current_branch [OF assms(1-3)]])
  fix d' assume d': "current_branch q d = (d', Inr (active r))" "repo_in repo_of d' = r"
  then have "known d' = known d" unfolding current_branch_def by (blast dest: known_on_session)
  then show "does (\<lambda>d. (d, from_branch_name ''main'' (active r) (known d))) (repo_in repo_of) d' c r"
    using d' assms(4) by (simp add: does_def)
qed

lemma does_commit_of:
  assumes "dolt_contract q repo_of" and "repo_ok (repo_in repo_of d)" and "repo_in repo_of d = r"
    and "from_branch_name ''main'' (active r) (known d) = Inr c"
    and "quotable (str_of_optional c @ (case comment of None \<Rightarrow> [] | Some t \<Rightarrow> '' ['' @ t @ '']''))"
  shows "does (dolt_commit q comment) (repo_in repo_of) d () (repo_commit r)"
  unfolding dolt_commit_def Let_def
  by (rule does_sbind [OF does_current_coordinates [OF assms(1-4)]])
    (use assms in \<open>auto intro: dolt_procedures(6)\<close>)

lemma commit_unknown:
  assumes "dolt_contract q repo_of" and "repo_ok (repo_in repo_of d)" and "repo_in repo_of d = r"
    and "active r \<noteq> ''main''" and "active r \<notin> keys (known d)"
  shows "\<exists>d'. dolt_commit q comment d = (d', Inl KeyError) \<and> repo_in repo_of d' = r"
proof -
  from does_current_branch [OF assms(1-3)] obtain d' where d': "current_branch q d = (d', Inr (active r))"
    "repo_in repo_of d' = r" by (rule doesE)
  then have "known d' = known d" unfolding current_branch_def by (blast dest: known_on_session)
  then have "from_branch_name ''main'' (active r) (known d') = Inl KeyError"
    using assms(4,5) by (simp add: from_branch_name_def resolve_uuid_def not_keys_iff_map_of)
  with d' show ?thesis by (simp add: dolt_commit_def current_coordinates_def sbind_def)
qed

lemma dolt_operations:
  assumes C: "dolt_contract q repo_of" and ok: "repo_ok (repo_in repo_of d)" and r: "repo_in repo_of d = r"
    and n: "quotable (name_of_branch uuid5 c)"
  shows "does (dolt_has_branch uuid5 q c) (repo_in repo_of) d (name_of_branch uuid5 c \<in> dom (heads r)) r"
    and "name_of_branch uuid5 c \<notin> dom (heads r) \<Longrightarrow> quotable (active r) \<Longrightarrow>
      does (dolt_new_branch uuid5 q c) (repo_in repo_of) d () (repo_branch (name_of_branch uuid5 c) (active r) r)"
    and "name_of_branch uuid5 c \<in> dom (heads r) \<Longrightarrow> name_of_branch uuid5 c \<noteq> active r \<Longrightarrow>
      does (dolt_delete_branch uuid5 q c) (repo_in repo_of) d () (repo_delete (name_of_branch uuid5 c) r)"
    and "name_of_branch uuid5 c \<in> dom (heads r) \<Longrightarrow>
      does (dolt_checkout uuid5 q c) (repo_in repo_of) d () (repo_checkout (name_of_branch uuid5 c) r)"
    and "does (dolt_rollback q) (repo_in repo_of) d () (repo_reset r)"
proof -
  let ?R = "repo_in repo_of" and ?n = "name_of_branch uuid5 c"
  have name: "does (branch_name uuid5 c) ?R d ?n r" using does_branch_name [of uuid5 c repo_of d] r by simp
  have ok': "repo_ok (?R d')" if "?R d' = r" for d' using ok r that by simp
  note P = dolt_procedures [OF C ok']
  show "does (dolt_has_branch uuid5 q c) ?R d (?n \<in> dom (heads r)) r"
    unfolding dolt_has_branch_def
  proof (rule does_sbind [OF name])
    fix d' assume d': "?R d' = r"
    have "(0 < (if ?n \<in> dom (heads r) then 1 else 0 :: int)) = (?n \<in> dom (heads r))" by simp
    then show "does (sbind (on_session (scalar_int q (count_branches ?n))) (\<lambda>n. sret (0 < n))) ?R d'
        (?n \<in> dom (heads r)) r"
      using does_sbind [OF P(2) [OF d' d' n], of "\<lambda>n. sret (0 < n)" "?n \<in> dom (heads r)" r]
      by (simp add: does_sret)
  qed
  show "does (dolt_new_branch uuid5 q c) ?R d () (repo_branch ?n (active r) r)"
    if new: "?n \<notin> dom (heads r)" and b: "quotable (active r)"
    unfolding dolt_new_branch_def
  proof (rule does_sbind [OF name])
    fix d' assume d': "?R d' = r"
    show "does (sbind (current_branch q) (\<lambda>b. call_procedure q ''DOLT_BRANCH'' [?n, b])) ?R d' ()
        (repo_branch ?n (active r) r)"
    proof (rule does_sbind [OF does_current_branch [OF C ok' [OF d'] d']])
      fix d2 assume d2: "?R d2 = r"
      show "does (call_procedure q ''DOLT_BRANCH'' [?n, active r]) ?R d2 () (repo_branch ?n (active r) r)"
        by (rule P(3) [OF d2 d2 n b new]) (use ok r in \<open>simp add: repo_ok_def\<close>)
    qed
  qed
  show "does (dolt_delete_branch uuid5 q c) ?R d () (repo_delete ?n r)" if "?n \<in> dom (heads r)" and "?n \<noteq> active r"
    unfolding dolt_delete_branch_def by (rule does_sbind [OF name], rule P(4)) (use n that in auto)
  show "does (dolt_checkout uuid5 q c) ?R d () (repo_checkout ?n r)" if "?n \<in> dom (heads r)"
    unfolding dolt_checkout_def by (rule does_sbind [OF name], rule P(5)) (use n that in auto)
  show "does (dolt_rollback q) ?R d () (repo_reset r)"
    unfolding dolt_rollback_def by (rule P(7)) (simp_all add: r)
qed

text \<open>C12: The versioning of Dolt implements an abstract repository, a map from branches to committed tables
  with a working set for each. Under the documented behaviour of Dolt's procedures, for
  coordinates whose branch name can be quoted, every operation of \<open>SqlAlchemyDoltVersioning\<close>
  acts on the repository as its abstract counterpart does. Asking for a branch, for the active one or for
  its coordinates changes nothing; a new branch starts from the head of the active branch; a commit,
  with whatever comment, makes the working set of the active branch its head, and raises \<open>KeyError\<close>
  without committing when the name of the active branch has not been made by this program; a rollback
  restores the tracked tables of the working set from the head. \<open>is_dirty\<close> is no question about
  the repository: it tells whether the session has objects whose changes it has not sent yet.\<close>

theorem dolt_versioning_refines:
  fixes repo_of :: "'s \<Rightarrow> 'd repo"
  assumes "dolt_contract q repo_of" and "repo_ok (repo_in repo_of d)" and "quotable (name_of_branch uuid5 c)"
  shows "is_dirty (SqlAlchemyDoltVersioning uuid5 q) d = (d, Inr (session_dirty q (database_state d))) \<and>
    does (has_branch (SqlAlchemyDoltVersioning uuid5 q) c) (repo_in repo_of) d
      (name_of_branch uuid5 c \<in> dom (heads (repo_in repo_of d))) (repo_in repo_of d) \<and>
    does (current_branch q) (repo_in repo_of) d (active (repo_in repo_of d)) (repo_in repo_of d) \<and>
    (name_of_branch uuid5 c \<notin> dom (heads (repo_in repo_of d)) \<longrightarrow> quotable (active (repo_in repo_of d)) \<longrightarrow>
      does (new_branch (SqlAlchemyDoltVersioning uuid5 q) c) (repo_in repo_of) d ()
        (repo_branch (name_of_branch uuid5 c) (active (repo_in repo_of d)) (repo_in repo_of d))) \<and>
    (name_of_branch uuid5 c \<in> dom (heads (repo_in repo_of d)) \<longrightarrow>
      name_of_branch uuid5 c \<noteq> active (repo_in repo_of d) \<longrightarrow>
      does (delete_branch (SqlAlchemyDoltVersioning uuid5 q) c) (repo_in repo_of) d ()
        (repo_delete (name_of_branch uuid5 c) (repo_in repo_of d))) \<and>
    (name_of_branch uuid5 c \<in> dom (heads (repo_in repo_of d)) \<longrightarrow>
      does (checkout (SqlAlchemyDoltVersioning uuid5 q) c) (repo_in repo_of) d ()
        (repo_checkout (name_of_branch uuid5 c) (repo_in repo_of d))) \<and>
    (\<forall>at. from_branch_name ''main'' (active (repo_in repo_of d)) (known d) = Inr at \<longrightarrow>
      does (current_coordinates q) (repo_in repo_of) d at (repo_in repo_of d) \<and>
      (\<forall>comment. quotable (str_of_optional at @ (case comment of None \<Rightarrow> [] | Some t \<Rightarrow> '' ['' @ t @ '']'')) \<longrightarrow>
        does (commit (SqlAlchemyDoltVersioning uuid5 q) comment) (repo_in repo_of) d ()
          (repo_commit (repo_in repo_of d)))) \<and>
    (active (repo_in repo_of d) \<noteq> ''main'' \<longrightarrow> active (repo_in repo_of d) \<notin> keys (known d) \<longrightarrow>
      (\<forall>comment. \<exists>d'. commit (SqlAlchemyDoltVersioning uuid5 q) comment d = (d', Inl KeyError) \<and>
        repo_in repo_of d' = repo_in repo_of d)) \<and>
    does (rollback (SqlAlchemyDoltVersioning uuid5 q)) (repo_in repo_of) d () (repo_reset (repo_in repo_of d))"
proof -
  note ops = dolt_operations [OF assms(1,2) refl assms(3)] does_current_branch [OF assms(1,2) refl]
    does_current_coordinates [OF assms(1,2) refl] does_commit_of [OF assms(1,2) refl] commit_unknown [OF assms(1,2) refl]
  show ?thesis
    unfolding SqlAlchemyDoltVersioning_def dolt_is_dirty_def versioning.select_convs
    by (intro conjI allI impI; (rule refl ops; assumption))
qed

section \<open>A step and its data\<close>

definition quiet_manager :: "uuid5 \<Rightarrow> 's sql_session \<Rightarrow> 's dolt_state versioning_manager" where
  "quiet_manager uuid5 q =
     \<lparr>versionings = [SqlAlchemyDoltVersioning uuid5 q], versioning_callbacks = (\<lambda>e. sret ())\<rparr>"

lemma does_after_sret: "does m R s x r \<Longrightarrow> does (sseq (sret y) m) R s x r"
  by (simp add: sseq_def sbind_def sret_def does_def)

lemma does_single: "does (f x) R s y r \<Longrightarrow> does (seach f [x]) R s () r"
  by (auto simp: does_def split: prod.split sum.split)

text \<open>What happens when the step is invoked: the branch is made anew, and checked out.\<close>

lemma does_ensure_empty_branch:
  assumes C: "dolt_contract q repo_of" and ok: "repo_ok (repo_in repo_of d)" and r: "repo_in repo_of d = r"
    and n: "quotable (name_of_branch uuid5 c)" "name_of_branch uuid5 c \<noteq> active r" and b: "quotable (active r)"
  shows "does (ensure_empty_branch (quiet_manager uuid5 q) c) (repo_in repo_of) d ()
    (repo_branch (name_of_branch uuid5 c) (active r) r)"
proof -
  let ?R = "repo_in repo_of" and ?n = "name_of_branch uuid5 c"
  let ?clean = "sbind (dolt_has_branch uuid5 q c) (\<lambda>b. if b then dolt_delete_branch uuid5 q c else sret ())"
  let ?r1 = "if ?n \<in> dom (heads r) then repo_delete ?n r else r"
  have okr: "repo_ok r" using ok r by simp
  have clean: "does ?clean ?R d () ?r1"
  proof (rule does_sbind [OF dolt_operations(1) [OF C ok r n(1)]])
    fix d' assume d': "?R d' = r"
    with okr dolt_operations(3) [OF C _ d' n(1) _ n(2)]
    show "does (if ?n \<in> dom (heads r) then dolt_delete_branch uuid5 q c else sret ()) ?R d' () ?r1"
      by (simp add: does_sret)
  qed
  have "does (sseq ?clean (dolt_new_branch uuid5 q c)) ?R d () (repo_branch ?n (active r) r)"
  proof (rule does_sseq [OF clean])
    fix d' assume d': "?R d' = ?r1"
    have ok1: "repo_ok ?r1" using repo_ok_steps(2) [OF okr n(2)] okr by simp
    have "does (dolt_new_branch uuid5 q c) ?R d' () (repo_branch ?n (active ?r1) ?r1)"
      by (rule dolt_operations(2) [OF C _ d' n(1)]) (use d' ok1 b in \<open>auto simp: repo_defs\<close>)
    moreover have "repo_branch ?n (active ?r1) ?r1 = repo_branch ?n (active r) r"
      using n(2) by (auto simp: repo_defs)
    ultimately show "does (dolt_new_branch uuid5 q c) ?R d' () (repo_branch ?n (active r) r)" by simp
  qed
  then show ?thesis
    unfolding ensure_empty_branch_def quiet_manager_def versioning_manager.select_convs
    by (intro does_after_sret does_single) (simp add: SqlAlchemyDoltVersioning_def cong: if_cong)
qed

lemma does_manager_checkout:
  assumes C: "dolt_contract q repo_of" and ok: "repo_ok (repo_in repo_of d)" and r: "repo_in repo_of d = r"
    and n: "quotable (name_of_branch uuid5 c)" "name_of_branch uuid5 c \<in> dom (heads r)"
  shows "does (manager_checkout (quiet_manager uuid5 q) c) (repo_in repo_of) d () (repo_checkout (name_of_branch uuid5 c) r)"
  unfolding manager_checkout_def quiet_manager_def versioning_manager.select_convs
  by (intro does_after_sret does_single)
    (simp add: SqlAlchemyDoltVersioning_def dolt_operations(4) [OF C ok r n])

text \<open>After checking out coordinates, their name is known.\<close>

lemma known_call_procedure: "call_procedure q p args d = (d', r) \<Longrightarrow> known d' = known d"
  unfolding call_procedure_def by (rule known_on_session)

lemma known_manager_checkout:
  assumes "manager_checkout (quiet_manager uuid5 q) (Some c) d = (d', Inr x)"
  shows "map_of (known d') (branch_id uuid5 c) = Some (''TaskCoordinates'', str_of_coordinates c)"
proof -
  have "\<exists>d1 y. dolt_checkout uuid5 q (Some c) d = (d', Inr y)"
    using assms by (auto simp: manager_checkout_def quiet_manager_def SqlAlchemyDoltVersioning_def op_simps
        split: prod.splits sum.splits)
  then obtain y d1 b where 1: "branch_name uuid5 (Some c) d = (d1, Inr b)"
    and 2: "call_procedure q ''DOLT_CHECKOUT'' [b] d1 = (d', Inr y)"
    by (auto simp: dolt_checkout_def op_simps)
  from 1 obtain k where "to_branch_name uuid5 ''main'' (Some c) (known d) = (k, Inr b)" "known d1 = k"
    by (auto simp: branch_name_def split: prod.splits)
  with known_after known_call_procedure [OF 2] show ?thesis by simp
qed

section \<open>A session that behaves as documented\<close>

definition ex_execute :: "string \<Rightarrow> (nat repo, unit) operation" where
  "ex_execute stmt r =
     (case py_split (CHR 0x27) stmt of
        [p, a, z] \<Rightarrow> (if p = ''CALL DOLT_CHECKOUT('' then repo_checkout a r else repo_reset r, Inr ())
      | [p, a, sep, b, z] \<Rightarrow> (if a = ''-D'' then repo_delete b r else repo_branch a b r, Inr ())
      | _ \<Rightarrow> (repo_commit r, Inr ()))"

definition ex_session :: "nat repo sql_session" where
  "ex_session =
     \<lparr>run_statement = ex_execute, scalar_text = (\<lambda>q r. (r, Inr (active r))),
      scalar_int = (\<lambda>q r. (r, Inr (case py_split (CHR 0x27) q of
         [p, n, z] \<Rightarrow> (if heads r n \<noteq> None then 1 else 0) | _ \<Rightarrow> 0))),
      session_dirty = (\<lambda>r. False)\<rparr>"

lemma split_quoted: "CHR 0x27 \<notin> set p \<Longrightarrow> CHR 0x27 \<notin> set a \<Longrightarrow>
  py_split (CHR 0x27) (p @ CHR 0x27 # a @ CHR 0x27 # z) = p # a # py_split (CHR 0x27) z"
  by (simp add: py_split_append)

lemma split_procedure_call:
  assumes "CHR 0x27 \<notin> set name"
  shows "CHR 0x27 \<notin> set a \<Longrightarrow> py_split (CHR 0x27) (procedure_call name [a]) = [''CALL '' @ name @ ''('', a, '')'']"
    and "CHR 0x27 \<notin> set a \<Longrightarrow> CHR 0x27 \<notin> set b \<Longrightarrow>
      py_split (CHR 0x27) (procedure_call name [a, b]) = [''CALL '' @ name @ ''('', a, '', '', b, '')'']"
proof -
  have p: "CHR 0x27 \<notin> set (''CALL '' @ name @ ''('')" using assms by simp
  show "py_split (CHR 0x27) (procedure_call name [a]) = [''CALL '' @ name @ ''('', a, '')'']" if "CHR 0x27 \<notin> set a"
    using split_quoted [OF p that, of "'')''"] by (simp add: procedure_call_def)
  show "py_split (CHR 0x27) (procedure_call name [a, b]) = [''CALL '' @ name @ ''('', a, '', '', b, '')'']"
    if "CHR 0x27 \<notin> set a" "CHR 0x27 \<notin> set b"
    using split_quoted [OF p that(1), of "'', '' @ CHR 0x27 # b @ CHR 0x27 # '')''"]
      split_quoted [of "'', ''", OF _ that(2), of "'')''"] by (simp add: procedure_call_def)
qed

lemma ex_session_contract: "dolt_contract ex_session (\<lambda>r. r)"
  unfolding dolt_contract_def
proof (intro conjI allI impI)
  fix s :: "nat repo" and n assume "quotable n"
  then have "py_split (CHR 0x27) (count_branches n) = [''SELECT count(*) FROM dolt_branches WHERE name = '', n, []]"
    using split_quoted [of "''SELECT count(*) FROM dolt_branches WHERE name = ''" n "[]"]
    by (simp add: count_branches_def quotable_def)
  then show "does (scalar_int ex_session (count_branches n)) (\<lambda>r. r) s (if n \<in> dom (heads s) then 1 else 0) s"
    by (auto simp: does_def ex_session_def dom_def)
next
  fix s :: "nat repo" and n b assume "quotable n" "quotable b"
  then show "does (run_statement ex_session (procedure_call ''DOLT_BRANCH'' [n, b])) (\<lambda>r. r) s () (repo_branch n b s)"
    by (auto simp: does_def ex_session_def ex_execute_def split_procedure_call quotable_def)
next
  fix s :: "nat repo" and n assume "quotable n"
  then show "does (run_statement ex_session (procedure_call ''DOLT_BRANCH'' [''-D'', n])) (\<lambda>r. r) s () (repo_delete n s)"
    by (simp add: does_def ex_session_def ex_execute_def split_procedure_call quotable_def)
next
  fix s :: "nat repo" and n assume "quotable n"
  then show "does (run_statement ex_session (procedure_call ''DOLT_CHECKOUT'' [n])) (\<lambda>r. r) s () (repo_checkout n s)"
    by (simp add: does_def ex_session_def ex_execute_def split_procedure_call quotable_def)
next
  fix s :: "nat repo" and t assume t: "quotable t"
  have p: "procedure_call ''DOLT_COMMIT'' [''-A'', ''--allow-empty'', ''-m'', t] =
    ''CALL DOLT_COMMIT('' @ CHR 0x27 # ''-A'' @ CHR 0x27 # '', '' @ CHR 0x27 # ''--allow-empty'' @ CHR 0x27 #
    '', '' @ CHR 0x27 # ''-m'' @ CHR 0x27 # '', '' @ CHR 0x27 # t @ CHR 0x27 # '')''"
    by (simp add: procedure_call_def)
  have "py_split (CHR 0x27) (procedure_call ''DOLT_COMMIT'' [''-A'', ''--allow-empty'', ''-m'', t]) =
    [''CALL DOLT_COMMIT('', ''-A'', '', '', ''--allow-empty'', '', '', ''-m'', '', '', t, '')'']"
    unfolding p using t by (simp add: quotable_def py_split_append)
  then show "does (run_statement ex_session (procedure_call ''DOLT_COMMIT'' [''-A'', ''--allow-empty'', ''-m'', t])) (\<lambda>r. r) s ()
      (repo_commit s)"
    by (simp add: does_def ex_session_def ex_execute_def)
next
  fix s :: "nat repo"
  show "does (run_statement ex_session (procedure_call ''DOLT_RESET'' [''--hard''])) (\<lambda>r. r) s () (repo_reset s)"
    by (simp add: does_def ex_session_def ex_execute_def split_procedure_call)
qed (simp add: does_def ex_session_def)

definition ex_dolt :: "nat repo dolt_state" where
  "ex_dolt =
     \<lparr>database_state = \<lparr>heads = [''main'' \<mapsto> [''users'' \<mapsto> 5]], workings = [''main'' \<mapsto> [''users'' \<mapsto> 5]],
        active = ''main''\<rparr>, known = []\<rparr>"

lemma ex_dolt_ok: "repo_ok (repo_in (\<lambda>r. r) ex_dolt)"
  by (simp add: repo_ok_def repo_in_def ex_dolt_def)

lemma ex_text: "str_of_coordinates ex_coordinates = ''STEP:train/3@0/1''"
  by code_simp

lemma ex_quotable: "quotable (str_of_coordinates ex_coordinates)" "quotable (branch_id ex_uuid5 ex_coordinates)"
  "quotable ''main''" "branch_id ex_uuid5 ex_coordinates \<noteq> ''main''"
  by code_simp+

theorem dolt_versioning_refines_witness:
  "does (checkout (SqlAlchemyDoltVersioning ex_uuid5 ex_session) None) (repo_in (\<lambda>r. r)) ex_dolt ()
    (repo_in (\<lambda>r. r) ex_dolt)"
proof -
  have n: "name_of_branch ex_uuid5 None = ''main''" by (simp add: name_of_branch_def)
  have q: "quotable (name_of_branch ex_uuid5 None)" by (simp add: n ex_quotable)
  have "''main'' \<in> dom (heads (repo_in (\<lambda>r. r) ex_dolt))"
    and "repo_checkout ''main'' (repo_in (\<lambda>r. r) ex_dolt) = repo_in (\<lambda>r. r) ex_dolt"
    by (simp_all add: repo_in_def ex_dolt_def repo_checkout_def)
  with dolt_versioning_refines [OF ex_session_contract ex_dolt_ok q] show ?thesis by (simp add: n)
qed

end
