(* ===== verification/Tiny_Schema.thy ===== *)
theory Tiny_Schema
  imports State_Result
begin

text \<open>
  Typed tables on TinyDB, \<open>thinking_executor/data/tiny_schema.py\<close>: the registration of
  tables for types, and the tables that serialize what is stored and deserialize what is
  found. The globals of \<open>thinking_executor/globals_manager.py\<close> are kept in one such table.

  TinyDB is a parameter, the record \<open>tiny\<close> of the operations of its tables on documents;
  \<open>tiny_contract\<close> is what it documents of them. A query is a test on documents.
\<close>

section \<open>Registration\<close>

record 't schema =
  GLOBAL_SCHEMA :: "(string, 't) dict"
  REVERSE_SCHEMA :: "('t, string list) dict"

definition register_table :: "string \<Rightarrow> 't \<Rightarrow> ('t schema, unit) operation" where
  "register_table name t g =
     (if name \<in> keys (GLOBAL_SCHEMA g) then (g, Inl AssertionError)
      else (g\<lparr>GLOBAL_SCHEMA := AList.update name t (GLOBAL_SCHEMA g),
              REVERSE_SCHEMA := AList.update t
                ((case map_of (REVERSE_SCHEMA g) t of None \<Rightarrow> [] | Some ns \<Rightarrow> ns) @ [name]) (REVERSE_SCHEMA g)\<rparr>,
            Inr ()))"

text \<open>\<open>TinyDBWithSchema.table\<close> and \<open>table_of\<close>: the name of the table and its type.\<close>

definition table_named :: "'t schema \<Rightarrow> string \<Rightarrow> (string \<times> 't) res" where
  "table_named g name =
     (case map_of (GLOBAL_SCHEMA g) name of None \<Rightarrow> Inl KeyError | Some t \<Rightarrow> Inr (name, t))"

definition table_of :: "'t schema \<Rightarrow> 't \<Rightarrow> (string \<times> 't) res" where
  "table_of g t =
     (let names = (case map_of (REVERSE_SCHEMA g) t of None \<Rightarrow> [] | Some ns \<Rightarrow> ns)
      in if length names \<noteq> 1 then Inl AssertionError else Inr (hd names, t))"

definition schema_ok :: "'t schema \<Rightarrow> bool" where
  "schema_ok g \<longleftrightarrow> dict_ok (GLOBAL_SCHEMA g) \<and> dict_ok (REVERSE_SCHEMA g) \<and>
     (\<forall>t ns. map_of (REVERSE_SCHEMA g) t = Some ns \<longrightarrow> distinct ns \<and> ns \<noteq> []) \<and>
     (\<forall>n t. map_of (GLOBAL_SCHEMA g) n = Some t \<longleftrightarrow>
        (\<exists>ns. map_of (REVERSE_SCHEMA g) t = Some ns \<and> n \<in> set ns))"

lemma schema_ok_empty: "schema_ok \<lparr>GLOBAL_SCHEMA = [], REVERSE_SCHEMA = []\<rparr>"
  by (simp add: schema_ok_def)

lemma schema_ok_register:
  assumes "schema_ok g" and "register_table name t g = (g', r)"
  shows "schema_ok g'"
proof (cases "name \<in> keys (GLOBAL_SCHEMA g)")
  case True
  with assms show ?thesis by (simp add: register_table_def)
next
  case False
  have new: "name \<notin> set ns" if "map_of (REVERSE_SCHEMA g) u = Some ns" for u ns
    using assms(1) that False unfolding schema_ok_def by (metis map_of_in_keys)
  from False assms(2) have g': "g' = g\<lparr>GLOBAL_SCHEMA := AList.update name t (GLOBAL_SCHEMA g),
      REVERSE_SCHEMA := AList.update t
        ((case map_of (REVERSE_SCHEMA g) t of None \<Rightarrow> [] | Some ns \<Rightarrow> ns) @ [name]) (REVERSE_SCHEMA g)\<rparr>"
    by (simp add: register_table_def)
  have "map_of (GLOBAL_SCHEMA g') n = Some u \<longleftrightarrow>
      (\<exists>ns. map_of (REVERSE_SCHEMA g') u = Some ns \<and> n \<in> set ns)" for n u
    using assms(1) new False unfolding g' schema_ok_def
    by (auto simp: dict_simps not_keys_iff_map_of split: option.splits dest!: sym [of "Some _"])
  moreover have "distinct ns \<and> ns \<noteq> []" if "map_of (REVERSE_SCHEMA g') u = Some ns" for u ns
    using assms(1) new that unfolding g' schema_ok_def
    by (auto simp: dict_simps split: option.splits if_splits)
  moreover have "dict_ok (GLOBAL_SCHEMA g')" "dict_ok (REVERSE_SCHEMA g')"
    using assms(1) unfolding g' schema_ok_def by (auto simp: dict_simps)
  ultimately show ?thesis unfolding schema_ok_def by blast
qed

section \<open>Tables\<close>

type_synonym 'doc query = "'doc \<Rightarrow> bool"

record ('db, 'doc) tiny =
  tiny_all :: "'db \<Rightarrow> 'doc list"
  tiny_search :: "'doc query \<Rightarrow> 'db \<Rightarrow> 'doc list"
  tiny_contains :: "'doc query \<Rightarrow> 'db \<Rightarrow> bool"
  tiny_get :: "'doc query \<Rightarrow> 'db \<Rightarrow> 'doc option"
  tiny_insert :: "'doc \<Rightarrow> 'db \<Rightarrow> 'db"
  tiny_update :: "'doc \<Rightarrow> 'doc query \<Rightarrow> 'db \<Rightarrow> 'db"
  tiny_upsert :: "'doc \<Rightarrow> 'doc query \<Rightarrow> 'db \<Rightarrow> 'db"
  tiny_truncate :: "'db \<Rightarrow> 'db"
  tiny_remove :: "'doc query \<Rightarrow> 'db \<Rightarrow> 'db"

text \<open>
  The documents of a table in the order of their insertion. An update merges the fields of
  the given document into those that match; \<open>merge\<close> is \<open>dict.update\<close> on documents.
\<close>

definition updated :: "('doc \<Rightarrow> 'doc \<Rightarrow> 'doc) \<Rightarrow> 'doc \<Rightarrow> 'doc query \<Rightarrow> 'doc list \<Rightarrow> 'doc list" where
  "updated merge x q ds = map (\<lambda>d. if q d then merge d x else d) ds"

definition tiny_contract :: "('db, 'doc) tiny \<Rightarrow> ('doc \<Rightarrow> 'doc \<Rightarrow> 'doc) \<Rightarrow> bool" where
  "tiny_contract tdb merge \<longleftrightarrow>
     (\<forall>q db. tiny_search tdb q db = filter q (tiny_all tdb db)) \<and>
     (\<forall>q db. tiny_contains tdb q db \<longleftrightarrow> (\<exists>d \<in> set (tiny_all tdb db). q d)) \<and>
     (\<forall>q db. tiny_get tdb q db = List.find q (tiny_all tdb db)) \<and>
     (\<forall>x db. tiny_all tdb (tiny_insert tdb x db) = tiny_all tdb db @ [x]) \<and>
     (\<forall>x q db. tiny_all tdb (tiny_update tdb x q db) = updated merge x q (tiny_all tdb db)) \<and>
     (\<forall>x q db. tiny_all tdb (tiny_upsert tdb x q db) =
        (if \<exists>d \<in> set (tiny_all tdb db). q d then updated merge x q (tiny_all tdb db)
         else tiny_all tdb db @ [x])) \<and>
     (\<forall>db. tiny_all tdb (tiny_truncate tdb db) = []) \<and>
     (\<forall>q db. tiny_all tdb (tiny_remove tdb q db) = filter (\<lambda>d. \<not> q d) (tiny_all tdb db))"

text \<open>
  A typed table: \<open>of_type\<close> is \<open>isinstance(x, self.t)\<close>; \<open>ser\<close> and \<open>deser\<close> are serialization
  and deserialization for its type, which may raise.
\<close>

record ('v, 'doc) typed =
  of_type :: "'v \<Rightarrow> bool"
  ser :: "'v \<Rightarrow> 'doc res"
  deser :: "'doc \<Rightarrow> 'v res"

definition typed_store :: "('v, 'doc) typed \<Rightarrow> 'v \<Rightarrow> ('doc \<Rightarrow> 'db \<Rightarrow> 'db) \<Rightarrow> ('db, unit) operation" where
  "typed_store ty x f db =
     (if \<not> of_type ty x then (db, Inl AssertionError)
      else case ser ty x of Inl e \<Rightarrow> (db, Inl e) | Inr d \<Rightarrow> (f d db, Inr ()))"

definition insert_into :: "('db, 'doc) tiny \<Rightarrow> ('v, 'doc) typed \<Rightarrow> 'v \<Rightarrow> ('db, unit) operation" where
  "insert_into tdb ty x = typed_store ty x (tiny_insert tdb)"

definition update_in :: "('db, 'doc) tiny \<Rightarrow> ('v, 'doc) typed \<Rightarrow> 'v \<Rightarrow> 'doc query \<Rightarrow> ('db, unit) operation" where
  "update_in tdb ty x q = typed_store ty x (\<lambda>d. tiny_update tdb d q)"

definition upsert_in :: "('db, 'doc) tiny \<Rightarrow> ('v, 'doc) typed \<Rightarrow> 'v \<Rightarrow> 'doc query \<Rightarrow> ('db, unit) operation" where
  "upsert_in tdb ty x q = typed_store ty x (\<lambda>d. tiny_upsert tdb d q)"

definition search_in :: "('db, 'doc) tiny \<Rightarrow> ('v, 'doc) typed \<Rightarrow> 'doc query \<Rightarrow> ('db, 'v list) operation" where
  "search_in tdb ty q db = (db, traverse (deser ty) (tiny_search tdb q db))"

definition contains_in :: "('db, 'doc) tiny \<Rightarrow> 'doc query \<Rightarrow> ('db, bool) operation" where
  "contains_in tdb q db = (db, Inr (tiny_contains tdb q db))"

definition get_from :: "('db, 'doc) tiny \<Rightarrow> ('v, 'doc) typed \<Rightarrow> 'doc query \<Rightarrow> ('db, 'v option) operation" where
  "get_from tdb ty q db =
     (db, case tiny_get tdb q db of None \<Rightarrow> Inr None | Some d \<Rightarrow> rbind (deser ty d) (\<lambda>v. Inr (Some v)))"

definition truncate_table :: "('db, 'doc) tiny \<Rightarrow> ('db, unit) operation" where
  "truncate_table tdb db = (tiny_truncate tdb db, Inr ())"

definition remove_from :: "('db, 'doc) tiny \<Rightarrow> 'doc query \<Rightarrow> ('db, unit) operation" where
  "remove_from tdb q db = (tiny_remove tdb q db, Inr ())"

definition all_in :: "('db, 'doc) tiny \<Rightarrow> ('v, 'doc) typed \<Rightarrow> ('db, 'v list) operation" where
  "all_in tdb ty db = (db, traverse (deser ty) (tiny_all tdb db))"

section \<open>Tables keyed by a field\<close>

text \<open>
  A table whose values are found by a key: \<open>by_key k\<close> is the query for the key \<open>k\<close>.
  Deserializing gives back what was serialized, a query finds the serialized values with its
  key, and a document of the table merged with another for the same key is the other one.
\<close>

definition keyed ::
  "('v, 'doc) typed \<Rightarrow> ('doc \<Rightarrow> 'doc \<Rightarrow> 'doc) \<Rightarrow> ('k \<Rightarrow> 'doc query) \<Rightarrow> ('v \<Rightarrow> 'k) \<Rightarrow> bool" where
  "keyed ty merge by_key key \<longleftrightarrow>
     (\<forall>x. of_type ty x \<longrightarrow> (\<exists>d. ser ty x = Inr d \<and> deser ty d = Inr x \<and> (\<forall>k. by_key k d \<longleftrightarrow> key x = k))) \<and>
     (\<forall>x y d e. of_type ty x \<longrightarrow> of_type ty y \<longrightarrow> ser ty x = Inr d \<longrightarrow> ser ty y = Inr e \<longrightarrow>
        key x = key y \<longrightarrow> merge d e = e)"

text \<open>\<open>holds tdb ty key db vs\<close>: the documents are those of the values \<open>vs\<close>, whose keys differ.\<close>

definition holds ::
  "('db, 'doc) tiny \<Rightarrow> ('v, 'doc) typed \<Rightarrow> ('v \<Rightarrow> 'k) \<Rightarrow> 'db \<Rightarrow> 'v list \<Rightarrow> bool" where
  "holds tdb ty key db vs \<longleftrightarrow>
     (\<forall>v \<in> set vs. of_type ty v) \<and> distinct (map key vs) \<and>
     list_all2 (\<lambda>v d. ser ty v = Inr d) vs (tiny_all tdb db)"

lemma keyed_ser:
  assumes "keyed ty merge by_key key" and "of_type ty x" and "ser ty x = Inr d"
  shows "deser ty d = Inr x" and "by_key k d \<longleftrightarrow> key x = k"
  using assms unfolding keyed_def by fastforce+

lemma keyed_total: "keyed ty merge by_key key \<Longrightarrow> of_type ty x \<Longrightarrow> \<exists>d. ser ty x = Inr d"
  unfolding keyed_def by blast

lemma keyed_merge:
  "keyed ty merge by_key key \<Longrightarrow> of_type ty x \<Longrightarrow> of_type ty y \<Longrightarrow> ser ty x = Inr d \<Longrightarrow> ser ty y = Inr e \<Longrightarrow>
   key x = key y \<Longrightarrow> merge d e = e"
  unfolding keyed_def by blast

lemma exists_key:
  assumes "keyed ty merge by_key key" and "\<forall>v \<in> set vs. of_type ty v"
    and "list_all2 (\<lambda>v d. ser ty v = Inr d) vs ds"
  shows "(\<exists>d \<in> set ds. by_key k d) \<longleftrightarrow> k \<in> key ` set vs"
  using assms(3,2) by (induction rule: list_all2_induct) (auto simp: keyed_ser(2) [OF assms(1)])

lemma find_key:
  assumes "keyed ty merge by_key key" and "\<forall>v \<in> set vs. of_type ty v"
    and "list_all2 (\<lambda>v d. ser ty v = Inr d) vs ds"
  shows "(case List.find (by_key k) ds of None \<Rightarrow> Inr None | Some d \<Rightarrow> rbind (deser ty d) (\<lambda>v. Inr (Some v))) =
    Inr (List.find (\<lambda>v. key v = k) vs)"
  using assms(3,2)
  by (induction rule: list_all2_induct) (auto simp: keyed_ser [OF assms(1)])

lemma updated_key:
  assumes K: "keyed ty merge by_key key" and x: "of_type ty x" "ser ty x = Inr e"
    and "\<forall>v \<in> set vs. of_type ty v" and "list_all2 (\<lambda>v d. ser ty v = Inr d) vs ds"
  shows "list_all2 (\<lambda>v d. ser ty v = Inr d) (map (\<lambda>v. if key v = key x then x else v) vs)
    (updated merge e (by_key (key x)) ds)"
  using assms(5,4)
  by (induction rule: list_all2_induct)
    (auto simp: updated_def keyed_ser(2) [OF K] x keyed_merge [OF K _ x(1) _ x(2)])

text \<open>\<open>put\<close> on the abstract table: the value replaces the one with its key, or is added.\<close>

definition put_value :: "('v \<Rightarrow> 'k) \<Rightarrow> 'v \<Rightarrow> 'v list \<Rightarrow> 'v list" where
  "put_value key x vs =
     (if key x \<in> key ` set vs then map (\<lambda>v. if key v = key x then x else v) vs else vs @ [x])"

lemma keys_replaced: "map key (map (\<lambda>v. if key v = key x then x else v) vs) = map key vs"
  by (induction vs) auto

lemma key_put_value: "set (map key (put_value key x vs)) = insert (key x) (key ` set vs)"
  using arg_cong [OF keys_replaced, of set key x vs] by (auto simp: put_value_def)

lemma distinct_put_value: "distinct (map key vs) \<Longrightarrow> distinct (map key (put_value key x vs))"
  by (auto simp: put_value_def keys_replaced simp del: map_map)

lemma find_put_value: "List.find (\<lambda>v. key v = k) (put_value key x vs) =
  (if k = key x then Some x else List.find (\<lambda>v. key v = k) vs)"
proof -
  have 1: "List.find (\<lambda>v. key v = k) (map (\<lambda>v. if key v = key x then x else v) us) =
      (if k = key x \<and> key x \<in> key ` set us then Some x else List.find (\<lambda>v. key v = k) us)" for us
    by (induction us) auto
  have 2: "List.find (\<lambda>v. key v = k) (us @ [x]) =
      (case List.find (\<lambda>v. key v = k) us of None \<Rightarrow> if k = key x then Some x else None | Some v \<Rightarrow> Some v)" for us
    by (induction us) auto
  have 3: "k \<notin> key ` set us \<Longrightarrow> List.find (\<lambda>v. key v = k) us = None" for us
    by (induction us) auto
  show ?thesis
  proof (cases "key x \<in> key ` set vs")
    case True
    then have "put_value key x vs = map (\<lambda>v. if key v = key x then x else v) vs" by (simp only: put_value_def if_True)
    with True show ?thesis by (simp only: 1) simp
  next
    case False
    then have "put_value key x vs = vs @ [x]" by (simp only: put_value_def if_False)
    with False 3 [of vs] show ?thesis by (auto simp: 2 split: option.split)
  qed
qed

lemma holds_upsert:
  assumes C: "tiny_contract tdb merge" and K: "keyed ty merge by_key key"
    and H: "holds tdb ty key db vs" and x: "of_type ty x"
  shows "\<exists>db'. upsert_in tdb ty x (by_key (key x)) db = (db', Inr ()) \<and> holds tdb ty key db' (put_value key x vs)"
proof -
  obtain e where e: "ser ty x = Inr e" using keyed_total [OF K x] by blast
  let ?db = "tiny_upsert tdb e (by_key (key x)) db"
  from H have T: "\<forall>v \<in> set vs. of_type ty v" and D: "distinct (map key vs)"
    and L: "list_all2 (\<lambda>v d. ser ty v = Inr d) vs (tiny_all tdb db)" by (auto simp: holds_def)
  have "tiny_all tdb ?db = (if key x \<in> key ` set vs then updated merge e (by_key (key x)) (tiny_all tdb db)
      else tiny_all tdb db @ [e])"
    using C exists_key [OF K T L] by (simp add: tiny_contract_def)
  then have "list_all2 (\<lambda>v d. ser ty v = Inr d) (put_value key x vs) (tiny_all tdb ?db)"
    using updated_key [OF K x e T L] L e by (simp add: put_value_def list_all2_appendI)
  moreover have "\<forall>v \<in> set (put_value key x vs). of_type ty v" using T x by (auto simp: put_value_def)
  ultimately have "holds tdb ty key ?db (put_value key x vs)"
    using distinct_put_value [OF D] by (simp add: holds_def)
  then show ?thesis using x e by (simp add: upsert_in_def typed_store_def)
qed

lemma holds_insert:
  assumes C: "tiny_contract tdb merge" and K: "keyed ty merge by_key key"
    and H: "holds tdb ty key db vs" and x: "of_type ty x" "key x \<notin> key ` set vs"
  shows "\<exists>db'. insert_into tdb ty x db = (db', Inr ()) \<and> holds tdb ty key db' (put_value key x vs)"
proof -
  obtain e where e: "ser ty x = Inr e" using keyed_total [OF K x(1)] by blast
  have "tiny_all tdb (tiny_insert tdb e db) = tiny_all tdb db @ [e]" using C by (simp add: tiny_contract_def)
  then have "holds tdb ty key (tiny_insert tdb e db) (put_value key x vs)"
    using H x e by (auto simp: holds_def put_value_def list_all2_appendI)
  then show ?thesis using x e by (simp add: insert_into_def typed_store_def)
qed

lemma holds_update:
  assumes C: "tiny_contract tdb merge" and K: "keyed ty merge by_key key"
    and H: "holds tdb ty key db vs" and x: "of_type ty x" "key x \<in> key ` set vs"
  shows "\<exists>db'. update_in tdb ty x (by_key (key x)) db = (db', Inr ()) \<and> holds tdb ty key db' (put_value key x vs)"
proof -
  obtain e where e: "ser ty x = Inr e" using keyed_total [OF K x(1)] by blast
  from H have T: "\<forall>v \<in> set vs. of_type ty v" and D: "distinct (map key vs)"
    and L: "list_all2 (\<lambda>v d. ser ty v = Inr d) vs (tiny_all tdb db)" by (auto simp: holds_def)
  have "tiny_all tdb (tiny_update tdb e (by_key (key x)) db) = updated merge e (by_key (key x)) (tiny_all tdb db)"
    using C by (simp add: tiny_contract_def)
  then have "holds tdb ty key (tiny_update tdb e (by_key (key x)) db) (put_value key x vs)"
    using updated_key [OF K x(1) e T L] T D x distinct_put_value [OF D, of x]
    by (auto simp: holds_def put_value_def)
  then show ?thesis using x e by (simp add: update_in_def typed_store_def)
qed

lemma holds_get:
  assumes C: "tiny_contract tdb merge" and K: "keyed ty merge by_key key" and H: "holds tdb ty key db vs"
  shows "get_from tdb ty (by_key k) db = (db, Inr (List.find (\<lambda>v. key v = k) vs))"
proof -
  from H have T: "\<forall>v \<in> set vs. of_type ty v"
    and L: "list_all2 (\<lambda>v d. ser ty v = Inr d) vs (tiny_all tdb db)" by (auto simp: holds_def)
  show ?thesis using find_key [OF K T L] C by (simp add: get_from_def tiny_contract_def)
qed

lemma holds_contains:
  assumes C: "tiny_contract tdb merge" and K: "keyed ty merge by_key key" and H: "holds tdb ty key db vs"
  shows "contains_in tdb (by_key k) db = (db, Inr (k \<in> key ` set vs))"
proof -
  from H have T: "\<forall>v \<in> set vs. of_type ty v"
    and L: "list_all2 (\<lambda>v d. ser ty v = Inr d) vs (tiny_all tdb db)" by (auto simp: holds_def)
  show ?thesis using exists_key [OF K T L] C by (simp add: contains_in_def tiny_contract_def)
qed

section \<open>Globals\<close>

text \<open>
  \<open>GlobalsManager\<close>: one value for each type of global, found by its type identifier;
  \<open>made k\<close> is the value that calling the type \<open>k\<close> gives.
\<close>

definition globals_find ::
  "('db, 'doc) tiny \<Rightarrow> ('v, 'doc) typed \<Rightarrow> ('k \<Rightarrow> 'doc query) \<Rightarrow> ('k \<Rightarrow> 'v) \<Rightarrow> 'k \<Rightarrow> ('db, 'v) operation" where
  "globals_find tdb ty by_key made k =
     sbind (get_from tdb ty (by_key k))
       (\<lambda>value. case value of
          None \<Rightarrow> sseq (insert_into tdb ty (made k)) (sret (made k))
        | Some v \<Rightarrow> sret v)"

definition globals_save ::
  "('db, 'doc) tiny \<Rightarrow> ('v, 'doc) typed \<Rightarrow> ('k \<Rightarrow> 'doc query) \<Rightarrow> ('v \<Rightarrow> 'k) \<Rightarrow> 'v \<Rightarrow> ('db, 'v) operation" where
  "globals_save tdb ty by_key key val =
     sbind (contains_in tdb (by_key (key val)))
       (\<lambda>there. sseq (if there then update_in tdb ty val (by_key (key val)) else insert_into tdb ty val) (sret val))"

lemma globals_save_map:
  assumes C: "tiny_contract tdb merge" and K: "keyed ty merge by_key key" and H: "holds tdb ty key db vs"
    and x: "of_type ty x"
  shows "\<exists>db'. globals_save tdb ty by_key key x db = (db', Inr x) \<and> holds tdb ty key db' (put_value key x vs)"
  using holds_update [OF C K H x] holds_insert [OF C K H x] holds_contains [OF C K H, of "key x"]
  by (cases "key x \<in> key ` set vs") (auto simp: globals_save_def sbind_def sseq_def sret_def)

lemma globals_find_map:
  assumes C: "tiny_contract tdb merge" and K: "keyed ty merge by_key key" and H: "holds tdb ty key db vs"
    and made: "of_type ty (made k)" "key (made k) = k"
  shows "\<exists>db'. globals_find tdb ty by_key made k db =
       (db', Inr (case List.find (\<lambda>v. key v = k) vs of Some v \<Rightarrow> v | None \<Rightarrow> made k)) \<and>
       holds tdb ty key db' (case List.find (\<lambda>v. key v = k) vs of Some v \<Rightarrow> vs | None \<Rightarrow> put_value key (made k) vs)"
proof -
  have "k \<notin> key ` set vs" if "List.find (\<lambda>v. key v = k) vs = None" using that by (auto simp: find_None_iff)
  then show ?thesis
    using holds_get [OF C K H, of k] holds_insert [OF C K H made(1)] H made(2)
    by (auto simp: globals_find_def sbind_def sseq_def sret_def split: option.split)
qed

text \<open>The globals, for any values and queries that satisfy \<open>keyed\<close>. \<open>Stored_Globals\<close> shows that those of the program do.\<close>

lemma globals_map:
  assumes C: "tiny_contract tdb merge" and K: "keyed ty merge by_key key" and H: "holds tdb ty key db vs"
    and x: "of_type ty x" and made: "of_type ty (made k)" "key (made k) = k"
  shows "(\<exists>db'. globals_save tdb ty by_key key x db = (db', Inr x) \<and> holds tdb ty key db' (put_value key x vs)) \<and>
    (\<exists>db'. globals_find tdb ty by_key made k db =
       (db', Inr (case List.find (\<lambda>v. key v = k) vs of Some v \<Rightarrow> v | None \<Rightarrow> made k)) \<and>
       holds tdb ty key db' (case List.find (\<lambda>v. key v = k) vs of Some v \<Rightarrow> vs | None \<Rightarrow> put_value key (made k) vs)) \<and>
    (\<forall>j. List.find (\<lambda>v. key v = j) (put_value key x vs) =
       (if j = key x then Some x else List.find (\<lambda>v. key v = j) vs))"
  by (intro conjI allI globals_save_map [OF C K H x] globals_find_map [where made = made, OF C K H made]
      find_put_value)

end
