(* ===== verification/Sessions.thy ===== *)
theory Sessions
  imports Tiny_Schema Task_Model
begin

text \<open>
  Runtime sessions and their context sessions, \<open>thinking_executor/session_model.py\<close>, and
  their manager \<open>PersistentSessionManager\<close> of \<open>thinking_executor/session.py\<close>.

  \<open>RUNTIME_SESSION\<close> is the runtime session in the state of the manager. The current context
  session is an object inside it: the state has the key under which it stands there, so
  that a change of the one is a change of the other. Moments of time and what is known of
  the machine are numbers. The callbacks are code of the application; the composite of
  \<open>SessionCallback\<close> returns nothing (theory Callbacks), so what a callback says of changes
  never reaches the manager.
\<close>

section \<open>Sessions\<close>

record context_session =
  cs_session_no :: int
  cs_sanitized :: bool
  cs_started_on :: int
  cs_invoked_steps :: "coordinates list"

record runtime_session =
  rs_sid :: nat
  rs_metadata :: nat
  rs_context_sessions :: "(int, context_session) dict"

definition last_context_session :: "runtime_session \<Rightarrow> context_session option" where
  "last_context_session r =
     (if rs_context_sessions r = [] then None
      else map_of (rs_context_sessions r) (Max (keys (rs_context_sessions r))))"

text \<open>The one kind of global that the program stores, among others there may be.\<close>

datatype global = LastSession "nat option" | OtherGlobal nat

fun global_type :: "global \<Rightarrow> nat" where
  "global_type (LastSession _) = 0"
| "global_type (OtherGlobal t) = Suc t"

section \<open>The manager\<close>

record ('db, 'gdb) session_manager =
  sm_runtime_session :: runtime_session
  sm_previous_runtime_session :: "runtime_session option"
  sm_current_context_session :: "int option"
  sm_current_session_pointer :: "(nat \<times> int) option"
  sm_table :: 'db
  sm_globals :: 'gdb

text \<open>
  What the manager is connected to: the tables of sessions and of globals with the queries
  for a session identifier and for a type of global, and the callbacks.
\<close>

record ('db, 'doc, 'gdb, 'gdoc) session_environment =
  se_tiny :: "('db, 'doc) tiny"
  se_typed :: "(runtime_session, 'doc) typed"
  se_by_sid :: "nat \<Rightarrow> 'doc query"
  se_globals :: "('gdb, 'gdoc) tiny"
  se_global_typed :: "(global, 'gdoc) typed"
  se_by_type :: "nat \<Rightarrow> 'gdoc query"
  se_on_new_runtime_session :: "(('db, 'gdb) session_manager, unit) operation"
  se_before_context_session :: "nat \<times> int \<Rightarrow> int \<Rightarrow> (('db, 'gdb) session_manager, unit) operation"
  se_after_context_session :: "(nat \<times> int) option \<Rightarrow> int \<Rightarrow> (('db, 'gdb) session_manager, unit) operation"

type_synonym ('db, 'gdb, 'a) session_operation = "(('db, 'gdb) session_manager, 'a) operation"

definition on_table :: "('db, 'a) operation \<Rightarrow> ('db, 'gdb, 'a) session_operation" where
  "on_table m st = (case m (sm_table st) of (db, r) \<Rightarrow> (st\<lparr>sm_table := db\<rparr>, r))"

definition on_globals :: "('gdb, 'a) operation \<Rightarrow> ('db, 'gdb, 'a) session_operation" where
  "on_globals m st = (case m (sm_globals st) of (db, r) \<Rightarrow> (st\<lparr>sm_globals := db\<rparr>, r))"

definition persist ::
  "('db, 'doc, 'gdb, 'gdoc) session_environment \<Rightarrow> runtime_session option \<Rightarrow> ('db, 'gdb, unit) session_operation" where
  "persist env session_arg st =
     (let session = (case session_arg of Some r \<Rightarrow> r | None \<Rightarrow> sm_runtime_session st)
      in on_table (upsert_in (se_tiny env) (se_typed env) session (se_by_sid env (rs_sid session))) st)"

definition set_context_session :: "int \<Rightarrow> context_session \<Rightarrow> ('db, 'gdb) session_manager \<Rightarrow> ('db, 'gdb) session_manager" where
  "set_context_session i c st =
     st\<lparr>sm_runtime_session := (sm_runtime_session st)
        \<lparr>rs_context_sessions := AList.update i c (rs_context_sessions (sm_runtime_session st))\<rparr>\<rparr>"

text \<open>
  \<open>if changed: self._persist()\<close> after a composite callback: \<open>changed\<close> is the absent value
  that the composite returns.
\<close>

definition persist_if_changed ::
  "('db, 'doc, 'gdb, 'gdoc) session_environment \<Rightarrow> (('db, 'gdb) session_manager, unit) operation \<Rightarrow>
   (('db, 'gdb) session_manager, unit) operation \<Rightarrow> ('db, 'gdb, unit) session_operation" where
  "persist_if_changed env composite persisting =
     sbind composite (\<lambda>_. let changed = (None :: bool option) in if changed = Some True then persisting else sret ())"

definition open_context_session ::
  "('db, 'doc, 'gdb, 'gdoc) session_environment \<Rightarrow> int \<Rightarrow> ('db, 'gdb, unit) session_operation" where
  "open_context_session env now st =
     (if sm_current_context_session st \<noteq> None then (st, Inl AssertionError)
      else let session_no = int (length (rs_context_sessions (sm_runtime_session st)));
               new = \<lparr>cs_session_no = session_no, cs_sanitized = False, cs_started_on = now, cs_invoked_steps = []\<rparr>;
               pointer = (rs_sid (sm_runtime_session st), session_no)
           in sseq (\<lambda>st. (set_context_session session_no new (st\<lparr>sm_current_context_session := Some session_no\<rparr>), Inr ()))
                (sseq (persist env None)
                  (sseq (\<lambda>st. (st\<lparr>sm_current_session_pointer := Some pointer\<rparr>, Inr ()))
                    (persist_if_changed env (se_before_context_session env pointer session_no) (persist env None)))) st)"

definition mark_invoked_step ::
  "('db, 'doc, 'gdb, 'gdoc) session_environment \<Rightarrow> coordinates \<Rightarrow> ('db, 'gdb, unit) session_operation" where
  "mark_invoked_step env c st =
     (case sm_current_context_session st of
        None \<Rightarrow> (st, Inl AssertionError)
      | Some i \<Rightarrow>
          (case map_of (rs_context_sessions (sm_runtime_session st)) i of
             None \<Rightarrow> (st, Inl KeyError)
           | Some s \<Rightarrow>
               persist env None
                 (set_context_session i (s\<lparr>cs_invoked_steps := cs_invoked_steps s @ [c]\<rparr>) st)))"

definition close_context_session ::
  "('db, 'doc, 'gdb, 'gdoc) session_environment \<Rightarrow> bool \<Rightarrow> ('db, 'gdb, unit) session_operation" where
  "close_context_session env sanitized_close st =
     (case sm_current_context_session st of
        None \<Rightarrow> (st, Inl AssertionError)
      | Some i \<Rightarrow>
          (case map_of (rs_context_sessions (sm_runtime_session st)) i of
             None \<Rightarrow> (st, Inl KeyError)
           | Some s \<Rightarrow>
               (let pointer = sm_current_session_pointer st;
                    st1 = (set_context_session i (s\<lparr>cs_sanitized := sanitized_close\<rparr>) st)
                      \<lparr>sm_current_context_session := None, sm_current_session_pointer := None\<rparr>
                in sseq (persist env None)
                     (persist_if_changed env (se_after_context_session env pointer i) (persist env None)) st1)))"

definition session_inject_requirements ::
  "('db, 'doc, 'gdb, 'gdoc) session_environment \<Rightarrow> ('db, 'gdb, unit) session_operation" where
  "session_inject_requirements env = persist env None"

definition session_initialize ::
  "('db, 'doc, 'gdb, 'gdoc) session_environment \<Rightarrow> int \<Rightarrow> ('db, 'gdb, unit) session_operation" where
  "session_initialize env now =
     sbind (on_globals (globals_find (se_globals env) (se_global_typed env) (se_by_type env) (\<lambda>k. LastSession None) 0))
       (\<lambda>prev_session.
          let prev_sid = (case prev_session of LastSession s \<Rightarrow> s | OtherGlobal _ \<Rightarrow> None)
          in sseq
               (case prev_sid of
                  None \<Rightarrow> sret ()
                | Some s \<Rightarrow>
                    sbind (on_table (get_from (se_tiny env) (se_typed env) (se_by_sid env s)))
                      (\<lambda>previous st. (st\<lparr>sm_previous_runtime_session := previous\<rparr>, Inr ())))
               (sseq
                 (\<lambda>st. on_globals (globals_save (se_globals env) (se_global_typed env) (se_by_type env) global_type
                          (LastSession (Some (rs_sid (sm_runtime_session st))))) st)
                 (sseq
                   (\<lambda>st. if prev_sid \<noteq> Some (rs_sid (sm_runtime_session st))
                         then persist_if_changed env (se_on_new_runtime_session env)
                           (sseq (persist env None) (\<lambda>st. persist env (sm_previous_runtime_session st) st)) st
                         else (st, Inr ()))
                   (open_context_session env now))))"

definition session_deinitialize ::
  "('db, 'doc, 'gdb, 'gdoc) session_environment \<Rightarrow> exn option \<Rightarrow> ('db, 'gdb, unit) session_operation" where
  "session_deinitialize env exc = close_context_session env (exc = None)"

section \<open>What is stored\<close>

text \<open>Numbered context sessions: the keys are \<open>0\<close> to \<open>n - 1\<close>, in this order.\<close>

definition numbered :: "(int, context_session) dict \<Rightarrow> bool" where
  "numbered d \<longleftrightarrow> map fst d = map int [0..<length d]"

text \<open>
  What can be stored of a session: moments of time that storing keeps, which \<open>time_ok\<close> tells, and coordinates that are read
  back as they are printed.
\<close>

definition context_fits :: "(int \<Rightarrow> bool) \<Rightarrow> context_session \<Rightarrow> bool" where
  "context_fits time_ok c \<longleftrightarrow> time_ok (cs_started_on c) \<and> list_all plain_coordinates (cs_invoked_steps c)"

definition session_fits :: "(int \<Rightarrow> bool) \<Rightarrow> runtime_session \<Rightarrow> bool" where
  "session_fits time_ok r \<longleftrightarrow>
     numbered (rs_context_sessions r) \<and> (\<forall>(i, c) \<in> set (rs_context_sessions r). context_fits time_ok c)"

text \<open>
  The assumptions on the connected parts: the documented contract of the two tables, and
  callbacks that touch the previous session only.
\<close>

definition environment_ok ::
  "('db, 'doc, 'gdb, 'gdoc) session_environment \<Rightarrow> (int \<Rightarrow> bool) \<Rightarrow> ('doc \<Rightarrow> 'doc \<Rightarrow> 'doc) \<Rightarrow> ('gdoc \<Rightarrow> 'gdoc \<Rightarrow> 'gdoc) \<Rightarrow> bool" where
  "environment_ok env time_ok merge gmerge \<longleftrightarrow>
     tiny_contract (se_tiny env) merge \<and> keyed (se_typed env) merge (se_by_sid env) rs_sid \<and>
     (\<forall>r. session_fits time_ok r \<longrightarrow> of_type (se_typed env) r) \<and>
     tiny_contract (se_globals env) gmerge \<and> keyed (se_global_typed env) gmerge (se_by_type env) global_type \<and>
     (\<forall>s. of_type (se_global_typed env) (LastSession s)) \<and>
     (\<exists>f. se_on_new_runtime_session env =
        (\<lambda>st. (st\<lparr>sm_previous_runtime_session := f (sm_previous_runtime_session st)\<rparr>, Inr ()))) \<and>
     se_before_context_session env = (\<lambda>p i. sret ()) \<and> se_after_context_session env = (\<lambda>p i. sret ())"

text \<open>The state of a manager, with the values that are stored in the two tables.\<close>

definition stored ::
  "('db, 'doc, 'gdb, 'gdoc) session_environment \<Rightarrow> ('db, 'gdb) session_manager \<Rightarrow> runtime_session list \<Rightarrow> global list \<Rightarrow> bool" where
  "stored env st vs gs \<longleftrightarrow>
     holds (se_tiny env) (se_typed env) rs_sid (sm_table st) vs \<and>
     holds (se_globals env) (se_global_typed env) global_type (sm_globals st) gs"

lemma stored_persist:
  assumes E: "environment_ok env time_ok merge gmerge" and S: "stored env st vs gs"
    and F: "session_fits time_ok (case session_arg of Some r \<Rightarrow> r | None \<Rightarrow> sm_runtime_session st)"
  obtains db where "persist env session_arg st = (st\<lparr>sm_table := db\<rparr>, Inr ())"
    and "stored env (st\<lparr>sm_table := db\<rparr>)
      (put_value rs_sid (case session_arg of Some r \<Rightarrow> r | None \<Rightarrow> sm_runtime_session st) vs) gs"
proof -
  let ?x = "case session_arg of Some r \<Rightarrow> r | None \<Rightarrow> sm_runtime_session st"
  obtain db where "upsert_in (se_tiny env) (se_typed env) ?x (se_by_sid env (rs_sid ?x)) (sm_table st) = (db, Inr ())"
    and "holds (se_tiny env) (se_typed env) rs_sid db (put_value rs_sid ?x vs)"
    using holds_upsert [of "se_tiny env" merge "se_typed env" "se_by_sid env" rs_sid "sm_table st" vs ?x] E S F
    by (auto simp: environment_ok_def stored_def)
  then show ?thesis using S that [of db] by (simp add: persist_def on_table_def stored_def Let_def)
qed

lemma put_value_idle: "key y \<notin> key ` set vs \<Longrightarrow> map (\<lambda>v. if key v = key y then y else v) vs = vs"
  by (induction vs) auto

lemma put_value_twice: "key x = key y \<Longrightarrow> put_value key y (put_value key x vs) = put_value key y vs"
  using key_put_value [of key x vs] put_value_idle [of key y vs] by (auto simp: put_value_def)

lemma update_new: "k \<notin> keys d \<Longrightarrow> AList.update k v d = d @ [(k, v)]"
  by (induction d) auto

lemma update_last: "k \<notin> keys d \<Longrightarrow> AList.update k w (d @ [(k, v)]) = d @ [(k, w)]"
  by (induction d) auto

lemma map_of_last: "k \<notin> keys d \<Longrightarrow> map_of (d @ [(k, v)]) k = Some v"
  by (induction d) auto

text \<open>
  \<open>within env time_ok r i vs gs st c\<close>: the context session \<open>c\<close> is open as the last one of the
  runtime session, after those of \<open>r\<close>, and what is stored is what is in memory.
\<close>

definition with_context :: "runtime_session \<Rightarrow> int \<Rightarrow> context_session \<Rightarrow> runtime_session" where
  "with_context r i c = r\<lparr>rs_context_sessions := rs_context_sessions r @ [(i, c)]\<rparr>"

definition within ::
  "('db, 'doc, 'gdb, 'gdoc) session_environment \<Rightarrow> (int \<Rightarrow> bool) \<Rightarrow> runtime_session \<Rightarrow> int \<Rightarrow> runtime_session list \<Rightarrow> global list \<Rightarrow>
   ('db, 'gdb) session_manager \<Rightarrow> context_session \<Rightarrow> bool" where
  "within env time_ok r i vs gs st c \<longleftrightarrow> session_fits time_ok (with_context r i c) \<and>
     sm_runtime_session st = with_context r i c \<and> sm_current_context_session st = Some i \<and> i \<notin> keys (rs_context_sessions r) \<and>
     stored env st (put_value rs_sid (with_context r i c) vs) gs"

lemma session_fits_with:
  assumes "session_fits time_ok r" and "i = int (length (rs_context_sessions r))" and "context_fits time_ok c"
  shows "session_fits time_ok (with_context r i c)"
  using assms by (auto simp: session_fits_def with_context_def numbered_def)

lemma session_fits_changed:
  "session_fits time_ok (with_context r i c) \<Longrightarrow> context_fits time_ok d \<Longrightarrow> session_fits time_ok (with_context r i d)"
  by (auto simp: session_fits_def with_context_def numbered_def)

lemma session_fits_context: "session_fits time_ok (with_context r i c) \<Longrightarrow> context_fits time_ok c"
  by (auto simp: session_fits_def with_context_def)

lemma within_fits:
  assumes "within env time_ok r i vs gs st c" and "cs_started_on d = cs_started_on c"
    and "list_all plain_coordinates (cs_invoked_steps c) \<Longrightarrow> list_all plain_coordinates (cs_invoked_steps d)"
  shows "session_fits time_ok (with_context r i d)"
proof -
  have f: "session_fits time_ok (with_context r i c)" using assms(1) by (simp only: within_def)
  from session_fits_context [OF f] assms(2,3) show ?thesis
    by (intro session_fits_changed [OF f]) (simp add: context_fits_def)
qed

lemma within_current:
  "within env time_ok r i vs gs st c \<Longrightarrow> map_of (rs_context_sessions (sm_runtime_session st)) i = Some c"
  "within env time_ok r i vs gs st c \<Longrightarrow> sm_current_context_session st = Some i"
  by (auto simp: within_def with_context_def map_of_last simp del: map_of_append)

lemma persist_if_changed_quiet: "composite st = (st', Inr ()) \<Longrightarrow> persist_if_changed env composite p st = (st', Inr ())"
  by (simp add: persist_if_changed_def sbind_def sret_def)

lemma opened_within:
  assumes E: "environment_ok env time_ok merge gmerge" and S: "stored env st vs gs"
    and none: "sm_current_context_session st = None"
    and i: "i = int (length (rs_context_sessions (sm_runtime_session st)))" "i \<notin> keys (rs_context_sessions (sm_runtime_session st))"
    and F: "session_fits time_ok (sm_runtime_session st)" "time_ok now"
  obtains st' where "open_context_session env now st = (st', Inr ())"
    and "within env time_ok (sm_runtime_session st) i vs gs st' \<lparr>cs_session_no = i, cs_sanitized = False, cs_started_on = now, cs_invoked_steps = []\<rparr>"
proof -
  let ?c = "\<lparr>cs_session_no = i, cs_sanitized = False, cs_started_on = now, cs_invoked_steps = []\<rparr>"
  let ?r = "with_context (sm_runtime_session st) i ?c"
  let ?st1 = "set_context_session i ?c (st\<lparr>sm_current_context_session := Some i\<rparr>)"
  have fits: "session_fits time_ok ?r" using session_fits_with [OF F(1) i(1)] F(2) by (simp add: context_fits_def)
  have r1: "sm_runtime_session ?st1 = ?r" using i(2) by (simp add: set_context_session_def with_context_def update_new)
  have "stored env ?st1 vs gs" using S by (simp add: set_context_session_def stored_def)
  then obtain db where p: "persist env None ?st1 = (?st1\<lparr>sm_table := db\<rparr>, Inr ())"
    and st: "stored env (?st1\<lparr>sm_table := db\<rparr>) (put_value rs_sid ?r vs) gs"
    by (rule stored_persist [OF E, of _ _ _ None]) (use fits in \<open>simp_all add: r1\<close>)
  let ?st2 = "?st1\<lparr>sm_table := db, sm_current_session_pointer := Some (rs_sid (sm_runtime_session st), i)\<rparr>"
  have "open_context_session env now st = (?st2, Inr ())"
    using E p none i(1) by (simp add: open_context_session_def sseq_def sbind_def Let_def persist_if_changed_quiet
        environment_ok_def sret_def)
  moreover have "within env time_ok (sm_runtime_session st) i vs gs ?st2 ?c"
    using st r1 i(2) fits by (simp add: within_def stored_def set_context_session_def)
  ultimately show ?thesis using that by blast
qed

lemma marked_within:
  assumes E: "environment_ok env time_ok merge gmerge" and W: "within env time_ok r i vs gs st c" and x: "plain_coordinates x"
  obtains st' where "mark_invoked_step env x st = (st', Inr ())"
    and "within env time_ok r i vs gs st' (c\<lparr>cs_invoked_steps := cs_invoked_steps c @ [x]\<rparr>)"
proof -
  let ?c = "c\<lparr>cs_invoked_steps := cs_invoked_steps c @ [x]\<rparr>" and ?v = "put_value rs_sid (with_context r i c) vs"
  let ?st1 = "set_context_session i ?c st"
  have fits: "session_fits time_ok (with_context r i ?c)"
    using x by (intro within_fits [OF W]) simp_all
  have r1: "sm_runtime_session ?st1 = with_context r i ?c"
    using W by (simp add: within_def set_context_session_def with_context_def update_last)
  have "stored env ?st1 ?v gs" using W by (simp add: within_def set_context_session_def stored_def)
  then obtain db where p: "persist env None ?st1 = (?st1\<lparr>sm_table := db\<rparr>, Inr ())"
    and st: "stored env (?st1\<lparr>sm_table := db\<rparr>) (put_value rs_sid (with_context r i ?c) ?v) gs"
    by (rule stored_persist [OF E, of _ _ _ None]) (use fits in \<open>simp_all add: r1\<close>)
  have "mark_invoked_step env x st = (?st1\<lparr>sm_table := db\<rparr>, Inr ())"
    using within_current [OF W] p by (simp add: mark_invoked_step_def)
  moreover have "within env time_ok r i vs gs (?st1\<lparr>sm_table := db\<rparr>) ?c"
    using st r1 W fits put_value_twice [of rs_sid "with_context r i c" "with_context r i ?c" vs]
    by (simp add: within_def set_context_session_def with_context_def)
  ultimately show ?thesis using that by blast
qed

lemma marked_all_within:
  assumes E: "environment_ok env time_ok merge gmerge"
  shows "within env time_ok r i vs gs st c \<Longrightarrow> list_all plain_coordinates xs \<Longrightarrow>
    \<exists>st'. seach (mark_invoked_step env) xs st = (st', Inr ()) \<and>
      within env time_ok r i vs gs st' (c\<lparr>cs_invoked_steps := cs_invoked_steps c @ xs\<rparr>)"
proof (induction xs arbitrary: st c)
  case Nil
  then show ?case by simp
next
  case (Cons x xs)
  obtain st1 where "mark_invoked_step env x st = (st1, Inr ())"
    and "within env time_ok r i vs gs st1 (c\<lparr>cs_invoked_steps := cs_invoked_steps c @ [x]\<rparr>)"
    using E Cons.prems(1) by (rule marked_within) (use Cons.prems(2) in auto)
  with Cons.IH [of st1] Cons.prems(2) show ?case by fastforce
qed

lemma closed_within:
  assumes E: "environment_ok env time_ok merge gmerge" and W: "within env time_ok r i vs gs st c"
  obtains st' where "close_context_session env b st = (st', Inr ())"
    and "sm_runtime_session st' = with_context r i (c\<lparr>cs_sanitized := b\<rparr>)" and "sm_current_context_session st' = None"
    and "stored env st' (put_value rs_sid (with_context r i (c\<lparr>cs_sanitized := b\<rparr>)) vs) gs"
proof -
  let ?c = "c\<lparr>cs_sanitized := b\<rparr>" and ?v = "put_value rs_sid (with_context r i c) vs"
  let ?st1 = "(set_context_session i ?c st)\<lparr>sm_current_context_session := None, sm_current_session_pointer := None\<rparr>"
  have fits: "session_fits time_ok (with_context r i ?c)"
    by (intro within_fits [OF W]) simp_all
  have r1: "sm_runtime_session ?st1 = with_context r i ?c"
    using W by (simp add: within_def set_context_session_def with_context_def update_last)
  have "stored env ?st1 ?v gs" using W by (simp add: within_def set_context_session_def stored_def)
  then obtain db where p: "persist env None ?st1 = (?st1\<lparr>sm_table := db\<rparr>, Inr ())"
    and st: "stored env (?st1\<lparr>sm_table := db\<rparr>) (put_value rs_sid (with_context r i ?c) ?v) gs"
    by (rule stored_persist [OF E, of _ _ _ None]) (use fits in \<open>simp_all add: r1\<close>)
  have "close_context_session env b st = (?st1\<lparr>sm_table := db\<rparr>, Inr ())"
    using within_current [OF W] p E by (simp add: close_context_session_def sseq_def sbind_def
        persist_if_changed_quiet environment_ok_def sret_def Let_def)
  moreover have "sm_runtime_session (?st1\<lparr>sm_table := db\<rparr>) = with_context r i ?c" using r1 by simp
  moreover have "stored env (?st1\<lparr>sm_table := db\<rparr>) (put_value rs_sid (with_context r i ?c) vs) gs"
    using st put_value_twice [of rs_sid "with_context r i c" "with_context r i ?c" vs] by (simp add: with_context_def)
  ultimately show ?thesis using that [of "?st1\<lparr>sm_table := db\<rparr>"] by simp
qed

lemma numbered_fresh: "numbered d \<Longrightarrow> int (length d) \<notin> keys d"
  by (auto simp: numbered_def keys_def)

text \<open>One opening of the manager: it is initialized, steps are marked, and it is closed again.\<close>

definition one_context ::
  "('db, 'doc, 'gdb, 'gdoc) session_environment \<Rightarrow> int \<times> coordinates list \<times> exn option \<Rightarrow> ('db, 'gdb, unit) session_operation" where
  "one_context env run =
     (case run of (now, steps, exc) \<Rightarrow>
        sseq (session_initialize env now)
          (sseq (seach (mark_invoked_step env) steps) (session_deinitialize env exc)))"

definition run_fits :: "(int \<Rightarrow> bool) \<Rightarrow> int \<times> coordinates list \<times> exn option \<Rightarrow> bool" where
  "run_fits time_ok run \<longleftrightarrow> (case run of (now, steps, exc) \<Rightarrow> time_ok now \<and> list_all plain_coordinates steps)"

definition recorded_context :: "int \<Rightarrow> int \<times> coordinates list \<times> exn option \<Rightarrow> context_session" where
  "recorded_context i run =
     (case run of (now, steps, exc) \<Rightarrow>
        \<lparr>cs_session_no = i, cs_sanitized = (exc = None), cs_started_on = now, cs_invoked_steps = steps\<rparr>)"

lemma initialized_within:
  assumes E: "environment_ok env time_ok merge gmerge" and S: "stored env st vs gs"
    and none: "sm_current_context_session st = None" and F: "session_fits time_ok (sm_runtime_session st)" and now: "time_ok now"
  obtains st' where "session_initialize env now st = (st', Inr ())"
    and "within env time_ok (sm_runtime_session st) (int (length (rs_context_sessions (sm_runtime_session st)))) vs
      (put_value global_type (LastSession (Some (rs_sid (sm_runtime_session st)))) gs) st'
      \<lparr>cs_session_no = int (length (rs_context_sessions (sm_runtime_session st))), cs_sanitized = False,
       cs_started_on = now, cs_invoked_steps = []\<rparr>"
proof -
  let ?G = "se_globals env" and ?T = "se_global_typed env" and ?Q = "se_by_type env"
  let ?last = "LastSession (Some (rs_sid (sm_runtime_session st)))" and ?made = "\<lambda>k :: nat. LastSession None"
  have CG: "tiny_contract ?G gmerge" and KG: "keyed ?T gmerge ?Q global_type" and TG: "of_type ?T (LastSession s)" for s
    using E by (auto simp: environment_ok_def)
  have HG: "holds ?G ?T global_type (sm_globals st) gs" using S by (simp add: stored_def)
  obtain gdb v gs1 where find: "globals_find ?G ?T ?Q ?made 0 (sm_globals st) = (gdb, Inr v)"
    and H1: "holds ?G ?T global_type gdb gs1" and gs1: "gs1 = gs \<or> gs1 = put_value global_type (LastSession None) gs"
    using globals_find_map [OF CG KG HG, of ?made 0] TG by (auto split: option.splits)
  obtain gdb2 where save: "globals_save ?G ?T ?Q global_type ?last gdb = (gdb2, Inr ?last)"
    and H2: "holds ?G ?T global_type gdb2 (put_value global_type ?last gs1)"
    using globals_save_map [OF CG KG H1 TG] by blast
  have twice: "put_value global_type ?last gs1 = put_value global_type ?last gs"
    using gs1 put_value_twice [of global_type "LastSession None" ?last gs] by auto
  obtain f where f: "se_on_new_runtime_session env =
      (\<lambda>st. (st\<lparr>sm_previous_runtime_session := f (sm_previous_runtime_session st)\<rparr>, Inr ()))"
    and CT: "tiny_contract (se_tiny env) merge" and KT: "keyed (se_typed env) merge (se_by_sid env) rs_sid"
    using E by (auto simp: environment_ok_def)
  have HT: "holds (se_tiny env) (se_typed env) rs_sid (sm_table st) vs" using S by (simp add: stored_def)
  define ps where "ps = (case v of LastSession s \<Rightarrow> s | OtherGlobal _ \<Rightarrow> None)"
  let ?st1 = "\<lambda>p. st\<lparr>sm_globals := gdb2, sm_previous_runtime_session := p\<rparr>"
  have swap: "st\<lparr>sm_previous_runtime_session := p, sm_globals := gdb2\<rparr> = ?st1 p" for p by simp
  obtain p where p: "session_initialize env now st = open_context_session env now (?st1 p)"
  proof (cases ps)
    case None
    then show ?thesis
      using that [of "f (sm_previous_runtime_session st)"] find save
      by (simp add: session_initialize_def sbind_def sseq_def on_globals_def sret_def ps_def [symmetric]
          persist_if_changed_quiet f)
  next
    case (Some s)
    let ?prev = "List.find (\<lambda>v. rs_sid v = s) vs"
    have "on_table (get_from (se_tiny env) (se_typed env) (se_by_sid env s)) (st\<lparr>sm_globals := gdb\<rparr>) =
        (st\<lparr>sm_globals := gdb\<rparr>, Inr ?prev)"
      using holds_get [OF CT KT HT, of s] by (simp add: on_table_def)
    then show ?thesis
      using that [of ?prev] that [of "f ?prev"] find save Some
      by (cases "s = rs_sid (sm_runtime_session st)")
        (simp_all add: session_initialize_def sbind_def sseq_def on_globals_def sret_def ps_def [symmetric]
          persist_if_changed_quiet f swap)
  qed
  have S1: "stored env (?st1 p) vs (put_value global_type ?last gs)"
    using HT H2 twice by (simp add: stored_def)
  obtain st' where o: "open_context_session env now (?st1 p) = (st', Inr ())"
    and w: "within env time_ok (sm_runtime_session (?st1 p)) (int (length (rs_context_sessions (sm_runtime_session st)))) vs
      (put_value global_type ?last gs) st'
      \<lparr>cs_session_no = int (length (rs_context_sessions (sm_runtime_session st))), cs_sanitized = False,
       cs_started_on = now, cs_invoked_steps = []\<rparr>"
    by (rule opened_within [OF E S1]) (use none F now numbered_fresh [of "rs_context_sessions (sm_runtime_session st)"] in \<open>simp_all add: session_fits_def\<close>)
  show ?thesis by (rule that [of st']) (use p o w in simp_all)
qed

lemma one_context_stored:
  assumes E: "environment_ok env time_ok merge gmerge" and S: "stored env st vs gs"
    and none: "sm_current_context_session st = None" and F: "session_fits time_ok (sm_runtime_session st)" "run_fits time_ok run"
  obtains st' where "one_context env run st = (st', Inr ())" and "sm_current_context_session st' = None"
    and "sm_runtime_session st' = with_context (sm_runtime_session st)
      (int (length (rs_context_sessions (sm_runtime_session st))))
      (recorded_context (int (length (rs_context_sessions (sm_runtime_session st)))) run)"
    and "stored env st' (put_value rs_sid (sm_runtime_session st') vs)
      (put_value global_type (LastSession (Some (rs_sid (sm_runtime_session st)))) gs)"
proof -
  obtain now steps exc where run: "run = (now, steps, exc)" by (cases run)
  let ?i = "int (length (rs_context_sessions (sm_runtime_session st)))"
  obtain st1 where 1: "session_initialize env now st = (st1, Inr ())"
    and w1: "within env time_ok (sm_runtime_session st) ?i vs
      (put_value global_type (LastSession (Some (rs_sid (sm_runtime_session st)))) gs) st1
      \<lparr>cs_session_no = ?i, cs_sanitized = False, cs_started_on = now, cs_invoked_steps = []\<rparr>"
    by (rule initialized_within [OF E S none F(1)]) (use F(2) in \<open>auto simp: run run_fits_def\<close>)
  obtain st2 where 2: "seach (mark_invoked_step env) steps st1 = (st2, Inr ())"
    and w2: "within env time_ok (sm_runtime_session st) ?i vs
      (put_value global_type (LastSession (Some (rs_sid (sm_runtime_session st)))) gs) st2
      \<lparr>cs_session_no = ?i, cs_sanitized = False, cs_started_on = now, cs_invoked_steps = steps\<rparr>"
    using marked_all_within [OF E w1, of steps] F(2) by (auto simp: run run_fits_def)
  obtain st3 where 3: "close_context_session env (exc = None) st2 = (st3, Inr ())"
    and r3: "sm_runtime_session st3 = with_context (sm_runtime_session st) ?i (recorded_context ?i run)"
    and c3: "sm_current_context_session st3 = None"
    and s3: "stored env st3 (put_value rs_sid (with_context (sm_runtime_session st) ?i (recorded_context ?i run)) vs)
      (put_value global_type (LastSession (Some (rs_sid (sm_runtime_session st)))) gs)"
    by (rule closed_within [OF E w2, of "exc = None"]) (simp add: recorded_context_def run)
  show ?thesis
    by (rule that [of st3]) (use 1 2 3 r3 c3 s3 in \<open>simp_all add: one_context_def run sseq_def sbind_def session_deinitialize_def\<close>)
qed

fun numbered_contexts :: "int \<Rightarrow> (int \<times> coordinates list \<times> exn option) list \<Rightarrow> (int, context_session) dict" where
  "numbered_contexts i [] = []"
| "numbered_contexts i (run # runs) = (i, recorded_context i run) # numbered_contexts (i + 1) runs"

text \<open>Any number of openings, each of which ends as it likes.\<close>

lemma sessions_run:
  assumes E: "environment_ok env time_ok merge gmerge" and S: "stored env st vs gs"
    and none: "sm_current_context_session st = None" and fits: "session_fits time_ok (sm_runtime_session st)"
    and runs: "\<forall>run \<in> set runs. run_fits time_ok run" and some: "runs \<noteq> []"
  shows "\<exists>st'. seach (one_context env) runs st = (st', Inr ()) \<and> sm_current_context_session st' = None \<and>
    sm_runtime_session st' = (sm_runtime_session st)
      \<lparr>rs_context_sessions := rs_context_sessions (sm_runtime_session st) @
         numbered_contexts (int (length (rs_context_sessions (sm_runtime_session st)))) runs\<rparr> \<and>
    stored env st' (put_value rs_sid (sm_runtime_session st') vs)
      (put_value global_type (LastSession (Some (rs_sid (sm_runtime_session st)))) gs)"
  using S none fits runs some
proof (induction runs arbitrary: st vs gs)
  case Nil
  then show ?case by simp
next
  case (Cons run runs)
  let ?i = "int (length (rs_context_sessions (sm_runtime_session st)))"
  let ?gs = "put_value global_type (LastSession (Some (rs_sid (sm_runtime_session st)))) gs"
  obtain st1 where 1: "one_context env run st = (st1, Inr ())" "sm_current_context_session st1 = None"
    and r1: "sm_runtime_session st1 = with_context (sm_runtime_session st) ?i (recorded_context ?i run)"
    and s1: "stored env st1 (put_value rs_sid (sm_runtime_session st1) vs) ?gs"
    using E Cons.prems(1-3) by (rule one_context_stored) (use Cons.prems(4) in auto)
  show ?case
  proof (cases "runs = []")
    case True
    with 1 r1 s1 show ?thesis by (simp add: with_context_def)
  next
    case False
    have "context_fits time_ok (recorded_context ?i run)"
      using Cons.prems(4) by (auto simp: context_fits_def recorded_context_def run_fits_def split: prod.splits)
    from session_fits_with [OF Cons.prems(3) refl this] have "session_fits time_ok (sm_runtime_session st1)" by (simp add: r1)
    moreover have "\<forall>run \<in> set runs. run_fits time_ok run" using Cons.prems(4) by simp
    ultimately obtain st' where
      2: "seach (one_context env) runs st1 = (st', Inr ())" "sm_current_context_session st' = None"
      and r2: "sm_runtime_session st' = (sm_runtime_session st1)
        \<lparr>rs_context_sessions := rs_context_sessions (sm_runtime_session st1) @
           numbered_contexts (int (length (rs_context_sessions (sm_runtime_session st1)))) runs\<rparr>"
      and s2: "stored env st' (put_value rs_sid (sm_runtime_session st') (put_value rs_sid (sm_runtime_session st1) vs))
        (put_value global_type (LastSession (Some (rs_sid (sm_runtime_session st1)))) ?gs)"
      using Cons.IH [OF s1 1(2) _ _ False] by blast
    have sid: "rs_sid (sm_runtime_session st') = rs_sid (sm_runtime_session st1)"
      "rs_sid (sm_runtime_session st1) = rs_sid (sm_runtime_session st)"
      by (simp_all add: r2 r1 with_context_def)
    have "stored env st' (put_value rs_sid (sm_runtime_session st') vs) ?gs"
      using s2 put_value_twice [of rs_sid "sm_runtime_session st1" "sm_runtime_session st'" vs]
        put_value_twice [of global_type "LastSession (Some (rs_sid (sm_runtime_session st)))" _ gs] sid by simp
    moreover have "seach (one_context env) (run # runs) st = (st', Inr ())" using 1 2 by simp
    moreover have "sm_runtime_session st' = (sm_runtime_session st)
        \<lparr>rs_context_sessions := rs_context_sessions (sm_runtime_session st) @ numbered_contexts ?i (run # runs)\<rparr>"
      by (simp add: r2 r1 with_context_def algebra_simps)
    ultimately show ?thesis using 2(2) by blast
  qed
qed

end
