(* ===== verification/Task_Executor.thy ===== *)
theory Task_Executor
  imports Task_Model
begin

text \<open>
  \<open>SimpleTaskExecutor\<close> of \<open>thinking_executor/executor.py\<close>: running nested tasks with a
  stack of frames, the log of finished tasks that makes a later run skip them, and the
  callbacks around every task.

  The body of a task is code of the application. It is modelled by what it does with the
  executor: a list of actions (executing a task, possibly inside a \<open>try\<close> that swallows
  what the task raises, or opening a scope of \<open>skip_executed_stages\<close>), after which it
  returns or raises. The table of execution records stores coordinates as text, which is how
  the database compares them. The database itself is the package \<open>tinydb\<close>, a parameter:
  \<open>tinydb_contract\<close> is what its documentation says of inserting and searching.
  \<open>clock_at i\<close> is the \<open>i\<close>-th reading of the clock and \<open>callback_raises\<close> what the composite
  of the registered callbacks raises.
\<close>

record execution_frame =
  current_path :: "task_key list"
  next_subtask_order :: "int list"
  frame_type :: "task_type option"

record execution_record =
  rec_coordinates :: string
  rec_session :: "nat \<times> nat"
  rec_start :: int
  rec_finish :: int
  rec_latest_step :: "string option"

record task_record =
  tr_coordinates :: coordinates
  tr_session :: "nat \<times> nat"
  tr_start :: int
  tr_finish :: int
  tr_latest_step :: "coordinates option"

datatype task_event =
    BeforeSession
  | TaskSubmitted coordinates
  | TaskSkipped task_record
  | TaskInvoked int coordinates
  | TaskFinished int int coordinates "unit outcome"
  | AfterSession int "unit outcome"

record 'db tinydb =
  tdb_all :: "'db \<Rightarrow> execution_record list"
  tdb_search :: "(execution_record \<Rightarrow> bool) \<Rightarrow> 'db \<Rightarrow> execution_record list"
  tdb_insert :: "execution_record \<Rightarrow> 'db \<Rightarrow> 'db"

definition tinydb_contract :: "'db tinydb \<Rightarrow> bool" where
  "tinydb_contract d \<longleftrightarrow>
     (\<forall>q t. tdb_search d q t = filter q (tdb_all d t)) \<and>
     (\<forall>r t. tdb_all d (tdb_insert d r t) = tdb_all d t @ [r])"

record 'db environment =
  clock_at :: "nat \<Rightarrow> int"
  callback_raises :: "task_event \<Rightarrow> exn option"
  database :: "'db tinydb"

record 'db executor =
  stack :: "execution_frame list"
  session :: "(nat \<times> nat) option"
  skip_executed_stages :: bool
  latest_step :: "coordinates option"
  table :: 'db
  invoked_steps :: "coordinates list"
  events :: "task_event list"
  clock :: nat

datatype action =
    Execute bool task_key task_type "action list" "exn option"
  | SkipScope bool "action list"

section \<open>Small steps\<close>

definition now :: "'db environment \<Rightarrow> 'db executor \<Rightarrow> int \<times> 'db executor" where
  "now env s = (clock_at env (clock s), s\<lparr>clock := Suc (clock s)\<rparr>)"

text \<open>
  A callback of the composite. \<open>StepTrackingCallback\<close> is its last delegate: it marks an
  invoked step in the session when nothing before it raised.
\<close>

definition marks_step :: "task_event \<Rightarrow> coordinates list" where
  "marks_step e =
     (case e of TaskInvoked _ c \<Rightarrow> (if type_of c = STEP then [c] else []) | _ \<Rightarrow> [])"

definition call_back :: "'db environment \<Rightarrow> task_event \<Rightarrow> 'db executor \<Rightarrow> 'db executor \<times> exn option" where
  "call_back env e s =
     (case callback_raises env e of
        Some x \<Rightarrow> (s\<lparr>events := events s @ [e]\<rparr>, Some x)
      | None \<Rightarrow> (s\<lparr>events := events s @ [e], invoked_steps := invoked_steps s @ marks_step e\<rparr>, None))"

definition current_task_type :: "'db executor \<Rightarrow> task_type option" where
  "current_task_type s = frame_type (hd (stack s))"

text \<open>The top of the stack is the head of the list.\<close>

definition count_subtask :: "execution_frame \<Rightarrow> execution_frame" where
  "count_subtask f =
     f\<lparr>next_subtask_order := butlast (next_subtask_order f) @ [last (next_subtask_order f) + 1]\<rparr>"

definition count_on_top :: "'db executor \<Rightarrow> 'db executor" where
  "count_on_top s = s\<lparr>stack := (case stack s of [] \<Rightarrow> [] | f # fs \<Rightarrow> count_subtask f # fs)\<rparr>"

definition leave_frame :: "'db executor \<Rightarrow> 'db executor" where
  "leave_frame s = s\<lparr>stack := (case stack s of f # g # fs \<Rightarrow> count_subtask g # fs | fs \<Rightarrow> fs)\<rparr>"

section \<open>The log of finished tasks\<close>

definition deserialize_record :: "execution_record \<Rightarrow> task_record res" where
  "deserialize_record r =
     rbind (parse (rec_coordinates r))
       (\<lambda>c. rbind (case rec_latest_step r of None \<Rightarrow> Inr None | Some l \<Rightarrow> rbind (parse l) (\<lambda>x. Inr (Some x)))
          (\<lambda>l. Inr \<lparr>tr_coordinates = c, tr_session = rec_session r, tr_start = rec_start r,
                    tr_finish = rec_finish r, tr_latest_step = l\<rparr>))"

text \<open>\<open>sorted(found, key=finish, reverse=True)[0]\<close>: the first record with the latest finish.\<close>

fun latest_of :: "task_record \<Rightarrow> task_record list \<Rightarrow> task_record" where
  "latest_of r [] = r"
| "latest_of r (x # xs) = latest_of (if tr_finish x > tr_finish r then x else r) xs"

definition find_execution_log :: "'db environment \<Rightarrow> coordinates \<Rightarrow> 'db executor \<Rightarrow> task_record option res" where
  "find_execution_log env c s =
     rbind (traverse deserialize_record
              (tdb_search (database env) (\<lambda>r. rec_coordinates r = str_of_coordinates c) (table s)))
       (\<lambda>found.
          if \<not> (length found < 2 \<or> type_of c = STAGE) then Inl AssertionError
          else case found of [] \<Rightarrow> Inr None | r # rs \<Rightarrow> Inr (Some (latest_of r rs)))"

definition mark_finished :: "'db environment \<Rightarrow> coordinates \<Rightarrow> int \<Rightarrow> int \<Rightarrow> 'db executor \<Rightarrow> 'db executor" where
  "mark_finished env c start finish s =
     s\<lparr>table := tdb_insert (database env)
        \<lparr>rec_coordinates = str_of_coordinates c, rec_session = the (session s), rec_start = start,
          rec_finish = finish, rec_latest_step = map_option str_of_coordinates (latest_step s)\<rparr> (table s)\<rparr>"

section \<open>Executing\<close>

text \<open>
  \<open>_exception_handler\<close>: the exception that leaves \<open>run\<close> is the handler's own, or the
  task's unless it stops at a top-level task that is to be continued.
\<close>

definition exception_handler ::
  "'db environment \<Rightarrow> exn \<Rightarrow> int \<Rightarrow> coordinates \<Rightarrow> 'db executor \<Rightarrow> 'db executor \<times> exn option" where
  "exception_handler env e start c s =
     (let (finish, s1) = now env s
      in case outcome_of None (Some e) of
           Inl x \<Rightarrow> (s1, Some x)
         | Inr outcome \<Rightarrow>
             (case call_back env (TaskFinished start finish c outcome) s1 of
                (s2, Some x) \<Rightarrow> (s2, Some x)
              | (s2, None) \<Rightarrow>
                  (s2, if depth_of c > 1 then Some e
                       else case e of ToBeContinuedException _ \<Rightarrow> None | _ \<Rightarrow> Some e)))"

text \<open>\<open>except Exception\<close> and \<open>except KeyboardInterrupt\<close>; anything else passes.\<close>

definition handle ::
  "'db environment \<Rightarrow> int \<Rightarrow> coordinates \<Rightarrow> 'db executor \<times> exn option \<Rightarrow> 'db executor \<times> exn option" where
  "handle env start c attempt =
     (case attempt of
        (s, None) \<Rightarrow> (s, None)
      | (s, Some e) \<Rightarrow>
          (if is_exception e \<or> e = KeyboardInterrupt then exception_handler env e start c s
           else (s, Some e)))"

definition skip :: "'db environment \<Rightarrow> task_record \<Rightarrow> 'db executor \<Rightarrow> 'db executor \<times> exn option" where
  "skip env exec_log s = call_back env (TaskSkipped exec_log) (count_on_top s)"

text \<open>The end of a body that returned: the record is written, then the callbacks are told.\<close>

definition finish_task ::
  "'db environment \<Rightarrow> int \<Rightarrow> coordinates \<Rightarrow> 'db executor \<Rightarrow> 'db executor \<times> exn option" where
  "finish_task env start c s =
     (let (finish, s1) = now env s
      in call_back env (TaskFinished start finish c (Result None)) (mark_finished env c start finish s1))"

text \<open>
  \<open>execute\<close> up to the decision: the assertions, the coordinates, the callback and the log.
  \<open>try_key\<close> is the check of the key: a top-level task is named by a string.
\<close>

definition prepare ::
  "'db environment \<Rightarrow> task_key \<Rightarrow> task_type \<Rightarrow> 'db executor \<Rightarrow>
   'db executor \<times> (coordinates \<times> task_record option) res" where
  "prepare env key t s =
     (if session s = None then (s, Inl AssertionError)
      else if \<not> can_have_subtasks (current_task_type s) then (s, Inl AssertionError)
      else if length (stack s) = 1 \<and> (case key of IntKey _ \<Rightarrow> True | StrKey _ \<Rightarrow> False)
      then (s, Inl AssertionError)
      else let f = hd (stack s);
               c = \<lparr>path = current_path f @ [key], order_of = next_subtask_order f, type_of = t\<rparr>
           in case call_back env (TaskSubmitted c) s of
                (s1, Some e) \<Rightarrow> (s1, Inl e)
              | (s1, None) \<Rightarrow>
                  (case find_execution_log env c s1 of
                     Inl e \<Rightarrow> (s1, Inl e)
                   | Inr exec_log \<Rightarrow> (s1, Inr (c, exec_log))))"

definition enter_frame :: "coordinates \<Rightarrow> 'db executor \<Rightarrow> 'db executor" where
  "enter_frame c s =
     s\<lparr>stack := \<lparr>current_path = path c, next_subtask_order = order_of c @ [0],
                 frame_type = Some (type_of c)\<rparr> # stack s\<rparr>"

definition will_skip :: "task_type \<Rightarrow> task_record option \<Rightarrow> 'db executor \<Rightarrow> bool" where
  "will_skip t exec_log s \<longleftrightarrow> exec_log \<noteq> None \<and> (t = STEP \<or> skip_executed_stages s)"

definition after_skip ::
  "task_type \<Rightarrow> coordinates \<Rightarrow> task_record \<Rightarrow> 'db executor \<times> exn option \<Rightarrow> 'db executor \<times> exn option" where
  "after_skip t c exec_log r =
     (case r of
        (s, Some e) \<Rightarrow> (s, Some e)
      | (s, None) \<Rightarrow>
          (s\<lparr>latest_step := (if t = STEP then Some c else tr_latest_step exec_log)\<rparr>, None))"

definition after_run ::
  "task_type \<Rightarrow> coordinates \<Rightarrow> 'db executor \<times> exn option \<Rightarrow> 'db executor \<times> exn option" where
  "after_run t c r =
     (case r of
        (s, Some e) \<Rightarrow> (s, Some e)
      | (s, None) \<Rightarrow> ((if t = STEP then s\<lparr>latest_step := Some c\<rparr> else s), None))"

text \<open>
  The nested function \<open>run\<close>: \<open>body\<close> is what the task does with the executor, \<open>final\<close>
  what it raises at its end. The frame is pushed, and whatever happens it is popped again
  and the subtask counted.
\<close>

type_synonym 'db doing = "'db executor \<Rightarrow> 'db executor \<times> exn option"

definition attempt_task ::
  "'db environment \<Rightarrow> int \<Rightarrow> coordinates \<Rightarrow> 'db doing \<Rightarrow> exn option \<Rightarrow> 'db doing" where
  "attempt_task env start c body final s =
     (case call_back env (TaskInvoked start c) s of
        (s1, Some e) \<Rightarrow> (s1, Some e)
      | (s1, None) \<Rightarrow>
          (case body s1 of
             (s2, Some e) \<Rightarrow> (s2, Some e)
           | (s2, None) \<Rightarrow>
               (case final of
                  Some e \<Rightarrow> (s2, Some e)
                | None \<Rightarrow> finish_task env start c s2)))"

definition run_task :: "'db environment \<Rightarrow> task_type \<Rightarrow> coordinates \<Rightarrow> 'db doing \<Rightarrow> exn option \<Rightarrow> 'db doing" where
  "run_task env t c body final s =
     (let (start, s1) = now env (enter_frame c s);
          (s2, r) = handle env start c (attempt_task env start c body final s1)
      in after_run t c (leave_frame s2, r))"

definition execute :: "'db environment \<Rightarrow> task_key \<Rightarrow> task_type \<Rightarrow> 'db doing \<Rightarrow> exn option \<Rightarrow> 'db doing" where
  "execute env key t body final s =
     (case prepare env key t s of
        (s1, Inl e) \<Rightarrow> (s1, Some e)
      | (s1, Inr (c, exec_log)) \<Rightarrow>
          (if will_skip t exec_log s1
           then after_skip t c (the exec_log) (skip env (the exec_log) s1)
           else run_task env t c body final s1))"

text \<open>
  One action of a body. \<open>Execute catches k t body final\<close> runs the task \<open>k\<close>; the flag says
  whether the surrounding code swallows what it raises.
\<close>

fun run_action :: "'db environment \<Rightarrow> action \<Rightarrow> 'db doing"
  and run_actions :: "'db environment \<Rightarrow> action list \<Rightarrow> 'db doing" where
  "run_action env (Execute catches key t body final) s =
     (case execute env key t (\<lambda>s'. run_actions env body s') final s of
        (s1, None) \<Rightarrow> (s1, None)
      | (s1, Some e) \<Rightarrow> (s1, if catches then None else Some e))"
| "run_action env (SkipScope v body) s =
     (case run_actions env body (s\<lparr>skip_executed_stages := v\<rparr>) of
        (s1, r) \<Rightarrow> (s1\<lparr>skip_executed_stages := skip_executed_stages s\<rparr>, r))"
| "run_actions env [] s = (s, None)"
| "run_actions env (a # as) s =
     (case run_action env a s of
        (s1, Some e) \<Rightarrow> (s1, Some e)
      | (s1, None) \<Rightarrow> run_actions env as s1)"

section \<open>Opening and closing the executor\<close>

definition fresh_executor :: "'db \<Rightarrow> 'db executor" where
  "fresh_executor t =
     \<lparr>stack = [], session = None, skip_executed_stages = False, latest_step = None, table = t,
      invoked_steps = [], events = [], clock = 0\<rparr>"

definition initialize :: "'db environment \<Rightarrow> nat \<times> nat \<Rightarrow> 'db executor \<Rightarrow> 'db executor \<times> exn option" where
  "initialize env pointer s =
     (if session s \<noteq> None then (s, Some AssertionError)
      else call_back env BeforeSession
        (s\<lparr>stack := [\<lparr>current_path = [], next_subtask_order = [0], frame_type = None\<rparr>],
           session := Some pointer\<rparr>))"

definition deinitialize :: "'db environment \<Rightarrow> exn option \<Rightarrow> 'db executor \<Rightarrow> 'db executor \<times> exn option" where
  "deinitialize env exception s =
     (if session s = None then (s, Some AssertionError)
      else let s1 = s\<lparr>stack := [], session := None\<rparr>
           in case outcome_of None exception of
                Inl e \<Rightarrow> (s1, Some e)
              | Inr outcome \<Rightarrow> (let (t, s2) = now env s1 in call_back env (AfterSession t outcome) s2))"

text \<open>The fluent variants: a stage may be marked as to be continued.\<close>

definition execute_step :: "task_key \<Rightarrow> action list \<Rightarrow> exn option \<Rightarrow> action" where
  "execute_step key body final = Execute False key STEP body final"

definition execute_stage :: "task_key \<Rightarrow> action list \<Rightarrow> exn option \<Rightarrow> string option option \<Rightarrow> action" where
  "execute_stage key body final tbc =
     Execute False key STAGE body
       (case final of
          Some e \<Rightarrow> Some e
        | None \<Rightarrow>
            (case tbc of
               None \<Rightarrow> None
             | Some comment \<Rightarrow>
                 Some (ToBeContinuedException (case comment of None \<Rightarrow> [] | Some c \<Rightarrow> c))))"

section \<open>What a task leaves behind\<close>

text \<open>
  \<open>keeps s s'\<close>: the executor is as before but for the number of subtasks counted in the
  top frame, and its log and its events have only grown.
\<close>

definition added :: "'db environment \<Rightarrow> 'db \<Rightarrow> 'db \<Rightarrow> bool" where
  "added env d d' \<longleftrightarrow> (\<exists>rs. d' = fold (tdb_insert (database env)) rs d)"

lemma added_refl [simp]: "added env d d"
  by (auto simp: added_def intro: exI [of _ "[]"])

lemma added_insert: "added env d (tdb_insert (database env) r d)"
  by (auto simp: added_def intro: exI [of _ "[r]"])

lemma added_trans [trans]: "added env d d1 \<Longrightarrow> added env d1 d2 \<Longrightarrow> added env d d2"
proof -
  assume "added env d d1" "added env d1 d2"
  then obtain rs us where "d1 = fold (tdb_insert (database env)) rs d"
    "d2 = fold (tdb_insert (database env)) us d1" by (auto simp: added_def)
  then have "d2 = fold (tdb_insert (database env)) (rs @ us) d" by simp
  then show "added env d d2" unfolding added_def ..
qed

definition counted :: "nat \<Rightarrow> execution_frame \<Rightarrow> execution_frame" where
  "counted k f = (count_subtask ^^ k) f"

definition keeps :: "'db environment \<Rightarrow> 'db executor \<Rightarrow> 'db executor \<Rightarrow> bool" where
  "keeps env s s' \<longleftrightarrow>
     session s' = session s \<and> skip_executed_stages s' = skip_executed_stages s \<and>
     (\<exists>k. stack s' = (case stack s of [] \<Rightarrow> [] | f # fs \<Rightarrow> counted k f # fs)) \<and>
     added env (table s) (table s') \<and> (\<exists>es. events s' = events s @ es)"

lemma counted_0 [simp]: "counted 0 f = f"
  by (simp add: counted_def)

lemma counted_Suc: "counted (Suc 0) f = count_subtask f"
  by (simp add: counted_def)

lemma counted_counted: "counted j (counted k f) = counted (j + k) f"
  by (simp add: counted_def funpow_add)

lemma keeps_refl: "keeps env s s"
proof -
  have "\<exists>k. stack s = (case stack s of [] \<Rightarrow> [] | f # fs \<Rightarrow> counted k f # fs)"
    by (rule exI [of _ 0]) (simp split: list.split)
  then show ?thesis by (simp add: keeps_def)
qed

lemma keeps_trans:
  assumes "keeps env s s1" and "keeps env s1 s2"
  shows "keeps env s s2"
proof -
  from assms(1) obtain j where j: "stack s1 = (case stack s of [] \<Rightarrow> [] | f # fs \<Rightarrow> counted j f # fs)"
    by (auto simp: keeps_def)
  from assms(2) obtain k where k: "stack s2 = (case stack s1 of [] \<Rightarrow> [] | f # fs \<Rightarrow> counted k f # fs)"
    by (auto simp: keeps_def)
  have "stack s2 = (case stack s of [] \<Rightarrow> [] | f # fs \<Rightarrow> counted (k + j) f # fs)"
    using j k by (auto simp: counted_counted split: list.splits)
  with assms show ?thesis unfolding keeps_def by (auto intro: added_trans)
qed

lemma keeps_call_back: "call_back env e s = (s', r) \<Longrightarrow> keeps env s s'"
  using keeps_refl [of env s] by (auto simp: call_back_def keeps_def split: option.splits)

lemma keeps_now: "now env s = (t, s') \<Longrightarrow> keeps env s s'"
  using keeps_refl [of env s] by (auto simp: now_def keeps_def)

lemma stack_call_back [simp]:
  "call_back env e s = (s', r) \<Longrightarrow> stack s' = stack s \<and> session s' = session s \<and>
   skip_executed_stages s' = skip_executed_stages s \<and> latest_step s' = latest_step s \<and>
   table s' = table s \<and> events s' = events s @ [e] \<and> clock s' = clock s"
  by (auto simp: call_back_def split: option.splits)

text \<open>The bookkeeping after a body changes neither the stack nor the session.\<close>

definition frames_same :: "'db environment \<Rightarrow> 'db executor \<Rightarrow> 'db executor \<Rightarrow> bool" where
  "frames_same env s s' \<longleftrightarrow> stack s' = stack s \<and> session s' = session s \<and>
     skip_executed_stages s' = skip_executed_stages s \<and>
     added env (table s) (table s') \<and> (\<exists>es. events s' = events s @ es)"

lemma frames_same_refl: "frames_same env s s"
  by (simp add: frames_same_def)

lemma frames_same_trans: "frames_same env s s1 \<Longrightarrow> frames_same env s1 s2 \<Longrightarrow> frames_same env s s2"
  by (auto simp: frames_same_def intro: added_trans)

lemma frames_same_keeps: "frames_same env s s' \<Longrightarrow> keeps env s s'"
  using keeps_refl [of env s] by (auto simp: frames_same_def keeps_def)

lemma frames_same_call_back: "call_back env e s = (s', r) \<Longrightarrow> frames_same env s s'"
  by (simp add: frames_same_def)

lemma frames_same_finish: "finish_task env start c s = (s', r) \<Longrightarrow> frames_same env s s'"
  using frames_same_call_back
  by (fastforce simp: finish_task_def now_def mark_finished_def frames_same_def added_insert)

lemma frames_same_handle:
  assumes "handle env start c (s, r) = (s', r')"
  shows "frames_same env s s'"
proof -
  have "frames_same env s s'" if "exception_handler env e start c s = (s', r')" for e
    using that frames_same_call_back
    by (auto simp: exception_handler_def now_def Let_def frames_same_def
        split: sum.splits prod.splits option.splits dest!: stack_call_back)
  with assms show ?thesis
    by (auto simp: handle_def frames_same_refl split: option.splits if_splits)
qed

lemma keeps_attempt:
  assumes body: "\<And>s s' r. stack s \<noteq> [] \<Longrightarrow> body s = (s', r) \<Longrightarrow> keeps env s s'"
    and "attempt_task env start c body final s = (s', r)" and ne: "stack s \<noteq> []"
  shows "keeps env s s'"
proof -
  obtain s1 r1 where 1: "call_back env (TaskInvoked start c) s = (s1, r1)" by fastforce
  obtain s2 r2 where 2: "body s1 = (s2, r2)" by fastforce
  have "stack s1 \<noteq> []" using stack_call_back [OF 1] ne by simp
  note k = keeps_call_back [OF 1] body [OF this 2]
  show ?thesis
    using assms(2) 1 2 k keeps_trans [OF k]
    by (auto simp: attempt_task_def split: option.splits
        dest!: frames_same_keeps [OF frames_same_finish] intro: keeps_trans)
qed

lemma keeps_run_task:
  assumes body: "\<And>s s' r. stack s \<noteq> [] \<Longrightarrow> body s = (s', r) \<Longrightarrow> keeps env s s'"
    and run: "run_task env t c body final s = (s', r)" and ne: "stack s \<noteq> []"
  shows "keeps env s s'"
proof -
  let ?s1 = "snd (now env (enter_frame c s))" and ?start = "fst (now env (enter_frame c s))"
  obtain s2 r2 where 2: "attempt_task env ?start c body final ?s1 = (s2, r2)" by fastforce
  obtain s3 r3 where 3: "handle env ?start c (s2, r2) = (s3, r3)" by fastforce
  from run 2 3 have s': "stack s' = stack (leave_frame s3) \<and> session s' = session s3 \<and>
      skip_executed_stages s' = skip_executed_stages s3 \<and> table s' = table s3 \<and> events s' = events s3"
    by (auto simp: run_task_def after_run_def leave_frame_def split: option.splits if_splits prod.splits)
  have ne1: "stack ?s1 \<noteq> []" by (simp add: now_def enter_frame_def)
  have k: "keeps env ?s1 s3"
    using keeps_attempt [OF body 2 ne1] frames_same_keeps [OF frames_same_handle [OF 3]] by (rule keeps_trans)
  obtain f fs where f: "stack s = f # fs" using ne by (cases "stack s") auto
  from k f have "\<exists>g. stack s3 = g # f # fs" by (auto simp: keeps_def now_def enter_frame_def)
  with s' f have "stack s' = counted (Suc 0) f # fs" by (auto simp: leave_frame_def counted_Suc)
  then have "\<exists>k. stack s' = (case stack s of [] \<Rightarrow> [] | f # fs \<Rightarrow> counted k f # fs)"
    using f by (intro exI [of _ "Suc 0"]) simp
  with k s' show ?thesis by (auto simp: keeps_def now_def enter_frame_def)
qed

lemma keeps_prepare: "prepare env key t s = (s', r) \<Longrightarrow> keeps env s s'"
  using keeps_refl keeps_call_back
  by (auto simp: prepare_def Let_def split: if_splits prod.splits option.splits sum.splits)

lemma keeps_count: "stack s \<noteq> [] \<Longrightarrow> keeps env s (count_on_top s)"
  unfolding keeps_def count_on_top_def
  by (cases "stack s") (auto simp: counted_Suc [symmetric])

lemma keeps_latest: "keeps env s s' \<Longrightarrow> keeps env s (s'\<lparr>latest_step := l\<rparr>)"
  by (simp add: keeps_def)

lemma prepare_stack:
  "prepare env key t s = (s', Inr cl) \<Longrightarrow> stack s' = stack s \<and> session s \<noteq> None"
  by (auto simp: prepare_def Let_def dest!: stack_call_back
      split: if_splits prod.splits option.splits sum.splits)

lemma keeps_execute:
  assumes body: "\<And>s s' r. stack s \<noteq> [] \<Longrightarrow> body s = (s', r) \<Longrightarrow> keeps env s s'"
    and ex: "execute env key t body final s = (s', r)" and ne: "stack s \<noteq> []"
  shows "keeps env s s'"
proof -
  obtain s1 p where 1: "prepare env key t s = (s1, p)" by fastforce
  note k1 = keeps_prepare [OF 1]
  show ?thesis
  proof (cases p)
    case (Inl e)
    with ex 1 k1 show ?thesis by (simp add: execute_def)
  next
    case (Inr cl)
    obtain c exec_log where cl: "cl = (c, exec_log)" by fastforce
    have ne1: "stack s1 \<noteq> []" using prepare_stack [of env key t s s1 cl] 1 Inr ne by simp
    show ?thesis
    proof (cases "will_skip t exec_log s1")
      case True
      obtain s2 r2 where 2: "skip env (the exec_log) s1 = (s2, r2)" by fastforce
      then have "call_back env (TaskSkipped (the exec_log)) (count_on_top s1) = (s2, r2)"
        by (simp add: skip_def)
      with keeps_count [OF ne1] keeps_call_back have "keeps env s1 s2" by (blast intro: keeps_trans)
      with ex 1 Inr cl True 2 k1 show ?thesis
        by (auto simp: execute_def after_skip_def split: option.splits if_splits
            intro: keeps_trans keeps_latest)
    next
      case False
      with ex 1 Inr cl have "run_task env t c body final s1 = (s', r)" by (simp add: execute_def)
      from keeps_run_task [of body, OF _ this ne1] body have "keeps env s1 s'" by blast
      with k1 show ?thesis by (rule keeps_trans)
    qed
  qed
qed

lemma keeps_not_empty: "keeps env s s' \<Longrightarrow> stack s \<noteq> [] \<Longrightarrow> stack s' \<noteq> []"
  by (cases "stack s") (auto simp: keeps_def)

lemma keeps_scope: "keeps env (s\<lparr>skip_executed_stages := v\<rparr>) s' \<Longrightarrow>
   keeps env s (s'\<lparr>skip_executed_stages := skip_executed_stages s\<rparr>)"
  by (simp add: keeps_def)

lemma keeps_run:
  shows "run_action env a s = (s', r) \<Longrightarrow> stack s \<noteq> [] \<Longrightarrow> keeps env s s'"
    and "run_actions env as s = (s', r) \<Longrightarrow> stack s \<noteq> [] \<Longrightarrow> keeps env s s'"
proof (induction env a s and env as s arbitrary: s' r and s' r rule: run_action_run_actions.induct)
  case (1 env catches key t body final s)
  from 1(2) obtain r' where "execute env key t (\<lambda>s'. run_actions env body s') final s = (s', r')"
    by (auto split: prod.splits option.splits)
  from keeps_execute [OF _ this 1(3)] 1(1) show ?case by blast
next
  case (2 env v body s)
  from 2(2) obtain s1 where "run_actions env body (s\<lparr>skip_executed_stages := v\<rparr>) = (s1, r)"
    and s': "s' = s1\<lparr>skip_executed_stages := skip_executed_stages s\<rparr>"
    by (auto split: prod.splits)
  from 2(1) [OF this(1)] 2(3) show ?case by (simp add: s' keeps_scope)
next
  case (3 env s)
  then show ?case by (simp add: keeps_refl)
next
  case (4 env a as s)
  obtain s1 r1 where 1: "run_action env a s = (s1, r1)" by fastforce
  note k1 = 4(1) [OF 1 4(4)]
  show ?case
  proof (cases r1)
    case (Some e)
    with 4(3) 1 k1 show ?thesis by simp
  next
    case None
    with 4(3) 1 have rest: "run_actions env as s1 = (s', r)" by simp
    from 4(2) [OF 1 [symmetric] None rest keeps_not_empty [OF k1 4(4)]] k1 show ?thesis
      by (rule keeps_trans [rotated])
  qed
qed

section \<open>Resuming\<close>

text \<open>
  A script is a program whose tasks all return, whose keys survive being written, and whose
  steps do not execute tasks. \<open>steps_of\<close> lists its steps, for a frame with the path \<open>p\<close>
  whose next subtask has the order \<open>os @ [i]\<close>.
\<close>

fun scripted :: "bool \<Rightarrow> action list \<Rightarrow> bool" where
  "scripted root [] = True"
| "scripted root (Execute catches k t body final # as) =
     (\<not> catches \<and> plain_key k \<and> (root \<longrightarrow> (case k of StrKey _ \<Rightarrow> True | IntKey _ \<Rightarrow> False)) \<and> final = None \<and>
      (t = STEP \<longrightarrow> body = []) \<and> scripted False body \<and> scripted root as)"
| "scripted root (SkipScope v body # as) = False"

fun steps_of :: "task_key list \<Rightarrow> int list \<Rightarrow> int \<Rightarrow> action list \<Rightarrow> coordinates list" where
  "steps_of p os i [] = []"
| "steps_of p os i (Execute catches k t body final # as) =
     (if t = STEP then [\<lparr>path = p @ [k], order_of = os @ [i], type_of = t\<rparr>] else []) @
     steps_of (p @ [k]) (os @ [i]) 0 body @ steps_of p os (i + 1) as"
| "steps_of p os i (SkipScope v body # as) = []"

definition recorded :: "coordinates \<Rightarrow> execution_record list \<Rightarrow> bool" where
  "recorded c t \<longleftrightarrow> (\<exists>r \<in> set t. rec_coordinates r = str_of_coordinates c)"

definition records_of :: "coordinates \<Rightarrow> execution_record list \<Rightarrow> execution_record list" where
  "records_of c t = filter (\<lambda>r. rec_coordinates r = str_of_coordinates c) t"

definition written :: "string \<Rightarrow> bool" where
  "written s \<longleftrightarrow> (\<exists>c. plain_coordinates c \<and> s = str_of_coordinates c)"

definition entries :: "'db environment \<Rightarrow> 'db executor \<Rightarrow> execution_record list" where
  "entries env s = tdb_all (database env) (table s)"

lemma entries_simps [simp]:
  "entries env (s\<lparr>events := e\<rparr>) = entries env s"
  "entries env (s\<lparr>latest_step := l\<rparr>) = entries env s"
  "entries env (s\<lparr>stack := st\<rparr>) = entries env s"
  "entries env (s\<lparr>clock := n\<rparr>) = entries env s"
  "entries env (s\<lparr>invoked_steps := cs\<rparr>) = entries env s"
  by (simp_all add: entries_def)

definition table_ok :: "execution_record list \<Rightarrow> bool" where
  "table_ok t \<longleftrightarrow>
     (\<forall>r \<in> set t. written (rec_coordinates r) \<and> (\<forall>l. rec_latest_step r = Some l \<longrightarrow> written l)) \<and>
     (\<forall>c. plain_coordinates c \<longrightarrow> type_of c = STEP \<longrightarrow> length (records_of c t) \<le> 1)"

lemma table_ok_Nil [simp]: "table_ok []"
  by (simp add: table_ok_def records_of_def)

lemma recorded_iff: "recorded c t \<longleftrightarrow> records_of c t \<noteq> []"
  by (auto simp: recorded_def records_of_def filter_empty_conv)

lemma recorded_append: "recorded c (t @ u) \<longleftrightarrow> recorded c t \<or> recorded c u"
  by (auto simp: recorded_def)

lemma latest_of_in: "latest_of r rs \<in> insert r (set rs)"
proof (induction rs arbitrary: r)
  case (Cons x xs)
  from Cons [of x] Cons [of r] show ?case by auto
qed simp

lemma deserialize_written:
  assumes "written (rec_coordinates r)" and "\<forall>l. rec_latest_step r = Some l \<longrightarrow> written l"
  shows "\<exists>x. deserialize_record r = Inr x \<and> (\<forall>l. tr_latest_step x = Some l \<longrightarrow> plain_coordinates l)"
  using assms
  by (cases "rec_latest_step r") (auto simp: deserialize_record_def written_def parse_str)

lemma find_execution_log_ok:
  assumes db: "tinydb_contract (database env)" and t: "table_ok (entries env s)" and c: "plain_coordinates c"
  shows "\<exists>log. find_execution_log env c s = Inr log \<and> (log = None \<longleftrightarrow> \<not> recorded c (entries env s)) \<and>
    (\<forall>x l. log = Some x \<longrightarrow> tr_latest_step x = Some l \<longrightarrow> plain_coordinates l)"
proof -
  let ?rs = "records_of c (entries env s)"
  let ?P = "\<lambda>x. \<forall>l. tr_latest_step x = Some l \<longrightarrow> plain_coordinates l"
  have each: "\<exists>x. deserialize_record r = Inr x \<and> ?P x" if "r \<in> set ?rs" for r
    using that t by (intro deserialize_written) (auto simp: table_ok_def records_of_def)
  have "\<exists>found. traverse deserialize_record ?rs = Inr found"
    by (rule traverse_total) (use each in fast)
  then obtain found where f: "traverse deserialize_record ?rs = Inr found" ..
  then have all: "list_all2 (\<lambda>r x. deserialize_record r = Inr x) ?rs found" by (simp add: traverse_Inr_iff)
  have len: "length found = length ?rs" using list_all2_lengthD [OF all] by simp
  have P: "?P x" if "x \<in> set found" for x
  proof -
    from that obtain i where "i < length found" "found ! i = x" by (auto simp: in_set_conv_nth)
    with all len have "deserialize_record (?rs ! i) = Inr x" "?rs ! i \<in> set ?rs"
      by (auto dest: list_all2_nthD2)
    with each show ?thesis by fastforce
  qed
  have few: "length found < 2 \<or> type_of c = STAGE"
    using t c len by (cases "type_of c") (fastforce simp: table_ok_def)+
  have eq: "find_execution_log env c s =
      (case found of [] \<Rightarrow> Inr None | r # rs \<Rightarrow> Inr (Some (latest_of r rs)))"
    using f few db by (auto simp: find_execution_log_def records_of_def tinydb_contract_def entries_def)
  show ?thesis
  proof (cases found)
    case Nil
    with eq len show ?thesis by (auto simp: recorded_iff)
  next
    case (Cons r rs)
    with latest_of_in [of r rs] P have "?P (latest_of r rs)" by auto
    moreover have "recorded c (entries env s)" using Cons len by (auto simp: recorded_iff)
    ultimately show ?thesis using eq Cons by auto
  qed
qed

lemma table_ok_append:
  assumes t: "table_ok t" and c: "plain_coordinates c" and new: "type_of c = STEP \<Longrightarrow> \<not> recorded c t"
    and r: "rec_coordinates r = str_of_coordinates c"
    and l: "\<And>x. rec_latest_step r = Some x \<Longrightarrow> written x"
  shows "table_ok (t @ [r])"
  unfolding table_ok_def
proof (intro conjI ballI allI impI)
  fix x assume "x \<in> set (t @ [r])"
  with t c r show "written (rec_coordinates x)" by (auto simp: table_ok_def written_def)
next
  fix x y assume "x \<in> set (t @ [r])" "rec_latest_step x = Some y"
  with t l show "written y" by (auto simp: table_ok_def)
next
  fix d assume d: "plain_coordinates d" "type_of d = STEP"
  show "length (records_of d (t @ [r])) \<le> 1"
  proof (cases "c = d")
    case True
    with new d have "records_of d t = []" by (simp add: recorded_iff)
    then show ?thesis by (simp add: records_of_def)
  next
    case False
    with r d(1) c have "rec_coordinates r \<noteq> str_of_coordinates d" by (simp add: str_of_coordinates_inj)
    with t d show ?thesis by (simp add: table_ok_def records_of_def)
  qed
qed

text \<open>
  \<open>ready env s f fs\<close>: an executor that can run a script in the frame \<open>f\<close>. \<open>resumed env s s' i n\<close>
  relates it to the executor after the script, whose frame has counted on from \<open>i\<close>, and
  says of the steps that were invoked, \<open>ns\<close>, that they were new.
\<close>

definition dependable :: "'db environment \<Rightarrow> bool" where
  "dependable env \<longleftrightarrow> (\<forall>e. callback_raises env e = None) \<and> tinydb_contract (database env)"

definition ready :: "'db environment \<Rightarrow> 'db executor \<Rightarrow> execution_frame \<Rightarrow> execution_frame list \<Rightarrow> bool" where
  "ready env s f fs \<longleftrightarrow>
     session s \<noteq> None \<and> stack s = f # fs \<and> frame_type f \<noteq> Some STEP \<and> table_ok (entries env s) \<and>
     (\<forall>l. latest_step s = Some l \<longrightarrow> plain_coordinates l) \<and> (\<forall>k \<in> set (current_path f). plain_key k)"

definition resumed :: "'db environment \<Rightarrow> 'db executor \<Rightarrow> 'db executor \<Rightarrow> coordinates list \<Rightarrow> bool" where
  "resumed env s s' steps \<longleftrightarrow>
     session s' = session s \<and> skip_executed_stages s' = skip_executed_stages s \<and>
     table_ok (entries env s') \<and> (\<forall>l. latest_step s' = Some l \<longrightarrow> plain_coordinates l) \<and>
     (\<exists>rs. entries env s' = entries env s @ rs) \<and>
     (\<not> skip_executed_stages s \<longrightarrow> (\<forall>c \<in> set steps. recorded c (entries env s'))) \<and>
     (\<exists>ns. invoked_steps s' = invoked_steps s @ ns \<and> distinct ns \<and> set ns \<subseteq> set steps \<and>
        (\<forall>c \<in> set ns. \<not> recorded c (entries env s) \<and> recorded c (entries env s')))"

lemma resumed_trans:
  assumes 1: "resumed env s s1 a" and 2: "resumed env s1 s2 b"
  shows "resumed env s s2 (a @ b)"
proof -
  from 1 obtain m where m: "invoked_steps s1 = invoked_steps s @ m" "distinct m" "set m \<subseteq> set a"
    "\<forall>c \<in> set m. \<not> recorded c (entries env s) \<and> recorded c (entries env s1)" by (auto simp: resumed_def)
  from 2 obtain n where n: "invoked_steps s2 = invoked_steps s1 @ n" "distinct n" "set n \<subseteq> set b"
    "\<forall>c \<in> set n. \<not> recorded c (entries env s1) \<and> recorded c (entries env s2)" by (auto simp: resumed_def)
  from 1 obtain u where u: "entries env s1 = entries env s @ u" by (auto simp: resumed_def)
  from 2 obtain v where v: "entries env s2 = entries env s1 @ v" by (auto simp: resumed_def)
  note t = u v
  have "distinct (m @ n)" using m n by auto
  moreover have "\<forall>c \<in> set (m @ n). \<not> recorded c (entries env s) \<and> recorded c (entries env s2)"
    using m n t by (auto simp: recorded_append)
  moreover have "invoked_steps s2 = invoked_steps s @ (m @ n)" using m n by simp
  moreover have "set (m @ n) \<subseteq> set (a @ b)" using m n by auto
  ultimately have "\<exists>ns. invoked_steps s2 = invoked_steps s @ ns \<and> distinct ns \<and> set ns \<subseteq> set (a @ b) \<and>
      (\<forall>c \<in> set ns. \<not> recorded c (entries env s) \<and> recorded c (entries env s2))" by blast
  with 1 2 t show ?thesis by (auto simp: resumed_def recorded_append)
qed

lemma resumed_refl: "ready env s f fs \<Longrightarrow> resumed env s s []"
  by (auto simp: resumed_def ready_def)

lemma quiet_call_back: "dependable env \<Longrightarrow> call_back env e s =
   (s\<lparr>events := events s @ [e], invoked_steps := invoked_steps s @ marks_step e\<rparr>, None)"
  by (simp add: call_back_def dependable_def)

definition entered_task :: "'db environment \<Rightarrow> coordinates \<Rightarrow> 'db executor \<Rightarrow> 'db executor" where
  "entered_task env c s =
     (enter_frame c s)\<lparr>clock := Suc (clock s),
        events := events s @ [TaskInvoked (clock_at env (clock s)) c],
        invoked_steps := invoked_steps s @ (if type_of c = STEP then [c] else [])\<rparr>"

lemma run_task_quiet:
  assumes q: "dependable env" and body: "body (entered_task env c s) = (s1, None)"
  shows "\<exists>n ev r. run_task env t c body None s =
      ((leave_frame s1)\<lparr>clock := n, table := tdb_insert (database env) r (table s1), events := ev,
         latest_step := (if t = STEP then Some c else latest_step s1)\<rparr>, None) \<and>
    rec_coordinates r = str_of_coordinates c \<and>
    rec_latest_step r = map_option str_of_coordinates (latest_step s1)"
proof -
  let ?start = "clock_at env (clock s)" and ?finish = "clock_at env (clock s1)"
  let ?r = "\<lparr>rec_coordinates = str_of_coordinates c, rec_session = the (session s1), rec_start = ?start,
    rec_finish = ?finish, rec_latest_step = map_option str_of_coordinates (latest_step s1)\<rparr>"
  have enter: "call_back env (TaskInvoked ?start c) ((enter_frame c s)\<lparr>clock := Suc (clock s)\<rparr>) =
      (entered_task env c s, None)"
    using q by (simp add: quiet_call_back entered_task_def marks_step_def enter_frame_def)
  have "run_task env t c body None s =
      ((leave_frame s1)\<lparr>clock := Suc (clock s1), table := tdb_insert (database env) ?r (table s1),
         events := events s1 @ [TaskFinished ?start ?finish c (Result None)],
         latest_step := (if t = STEP then Some c else latest_step s1)\<rparr>, None)"
    using q enter body
    by (simp add: run_task_def attempt_task_def now_def handle_def after_run_def finish_task_def
        quiet_call_back mark_finished_def marks_step_def leave_frame_def enter_frame_def)
  then show ?thesis by (intro exI [of _ "Suc (clock s1)"] exI [of _ ?r] exI conjI) auto
qed

lemma plain_coordinatesI:
  "\<forall>k \<in> set p. plain_key k \<Longrightarrow> plain_key k \<Longrightarrow>
   plain_coordinates \<lparr>path = p @ [k], order_of = os @ [i], type_of = t\<rparr>"
  by (auto simp: plain_coordinates_def)

lemma prepare_quiet:
  assumes q: "dependable env" and r: "ready env s f fs"
    and key: "fs = [] \<longrightarrow> (case k of StrKey _ \<Rightarrow> True | IntKey _ \<Rightarrow> False)" and k: "plain_key k"
    and o: "next_subtask_order f = os @ [i]"
    and c: "c = \<lparr>path = current_path f @ [k], order_of = os @ [i], type_of = t\<rparr>"
  shows "\<exists>log. prepare env k t s = (s\<lparr>events := events s @ [TaskSubmitted c]\<rparr>, Inr (c, log)) \<and>
    (log = None \<longleftrightarrow> \<not> recorded c (entries env s)) \<and>
    (\<forall>x l. log = Some x \<longrightarrow> tr_latest_step x = Some l \<longrightarrow> plain_coordinates l)"
proof -
  let ?s = "s\<lparr>events := events s @ [TaskSubmitted c]\<rparr>"
  have pc: "plain_coordinates c" using r k by (auto simp: c ready_def intro: plain_coordinatesI)
  have "table_ok (entries env ?s)" using r by (simp add: ready_def)
  from find_execution_log_ok [OF _ this pc] q obtain log where l: "find_execution_log env c ?s = Inr log"
    "log = None \<longleftrightarrow> \<not> recorded c (entries env s)"
    "\<forall>x l. log = Some x \<longrightarrow> tr_latest_step x = Some l \<longrightarrow> plain_coordinates l"
    by (auto simp: dependable_def)
  have sub: "can_have_subtasks (current_task_type s)"
    using r by (cases "frame_type f"; cases "the (frame_type f)") (auto simp: ready_def current_task_type_def)
  have "prepare env k t s = (?s, Inr (c, log))"
  proof -
    have c': "\<lparr>path = current_path (hd (stack s)) @ [k], order_of = next_subtask_order (hd (stack s)), type_of = t\<rparr> = c"
      using r o by (simp add: c ready_def)
    have top: "\<not> (length (stack s) = 1 \<and> (case k of IntKey _ \<Rightarrow> True | StrKey _ \<Rightarrow> False))"
      using r key by (cases k) (auto simp: ready_def)
    have "session s \<noteq> None" using r by (simp add: ready_def)
    then show ?thesis
      using sub top q l(1) by (simp add: prepare_def c' quiet_call_back marks_step_def Let_def del: not_None_eq)
  qed
  with l show ?thesis by blast
qed

lemma count_subtask_order: "next_subtask_order f = os @ [i] \<Longrightarrow> count_subtask f = f\<lparr>next_subtask_order := os @ [i + 1]\<rparr>"
  by (simp add: count_subtask_def)

text \<open>
  A task in general, whose body may also change the database beside the log: what is executed, and what the
  database is afterwards.
\<close>

lemma execute_resumed:
  assumes q: "dependable env" and r: "ready env s f fs"
    and key: "fs = [] \<longrightarrow> (case k of StrKey _ \<Rightarrow> True | IntKey _ \<Rightarrow> False)" and k: "plain_key k"
    and o: "next_subtask_order f = os @ [i]"
    and c: "c = \<lparr>path = current_path f @ [k], order_of = os @ [i], type_of = t\<rparr>"
    and e: "e = entered_task env c (s\<lparr>events := events s @ [TaskSubmitted c]\<rparr>)"
    and step: "t = STEP \<Longrightarrow> steps = [] \<and> (recorded c (entries env s) \<or>
      (\<exists>s2. body e = (s2, None) \<and> stack s2 = stack e \<and> entries env s2 = entries env e \<and> resumed env e s2 []))"
    and stage: "t = STAGE \<Longrightarrow> ready env e
        \<lparr>current_path = current_path f @ [k], next_subtask_order = (os @ [i]) @ [0], frame_type = Some t\<rparr> (f # fs) \<Longrightarrow>
      \<exists>s2 g'. body e = (s2, None) \<and> stack s2 = g' # f # fs \<and> resumed env e s2 steps"
  shows "\<exists>s'. execute env k t body None s = (s', None) \<and>
    stack s' = f\<lparr>next_subtask_order := os @ [i + 1]\<rparr> # fs \<and>
    resumed env s s' ((if t = STEP then [c] else []) @ steps) \<and>
    (t = STEP \<and> recorded c (entries env s) \<longrightarrow> table s' = table s) \<and>
    (\<not> (t = STEP \<and> recorded c (entries env s)) \<and> \<not> skip_executed_stages s \<longrightarrow>
      (\<exists>s2 x. body e = (s2, None) \<and> rec_coordinates x = str_of_coordinates c \<and>
        table s' = tdb_insert (database env) x (table s2)))"
proof -
  from prepare_quiet [OF q r key k o c] obtain log where
    p: "prepare env k t s = (s\<lparr>events := events s @ [TaskSubmitted c]\<rparr>, Inr (c, log))"
    and log: "log = None \<longleftrightarrow> \<not> recorded c (entries env s)"
      "\<forall>x l. log = Some x \<longrightarrow> tr_latest_step x = Some l \<longrightarrow> plain_coordinates l" by blast
  let ?s = "s\<lparr>events := events s @ [TaskSubmitted c]\<rparr>"
  let ?c = "(if t = STEP then [c] else []) @ steps"
  have pc: "plain_coordinates c" using r k by (auto simp: c ready_def intro: plain_coordinatesI)
  have st: "stack s = f # fs" using r by (simp add: ready_def)
  show ?thesis
  proof (cases "will_skip t log ?s")
    case True
    let ?s' = "(count_on_top ?s)\<lparr>events := events ?s @ [TaskSkipped (the log)],
      latest_step := (if t = STEP then Some c else tr_latest_step (the log))\<rparr>"
    have ex: "execute env k t body None s = (?s', None)"
      using p True q
      by (simp add: execute_def skip_def quiet_call_back after_skip_def marks_step_def count_on_top_def)
    have "stack ?s' = f\<lparr>next_subtask_order := os @ [i + 1]\<rparr> # fs"
      using st o by (simp add: count_on_top_def count_subtask_order)
    moreover have "resumed env s ?s' ?c"
      using r log True pc step
      by (cases t) (auto simp: resumed_def ready_def count_on_top_def will_skip_def)
    moreover have "table ?s' = table s" "recorded c (entries env s)" "t = STEP \<or> skip_executed_stages s"
      using True log by (auto simp: count_on_top_def will_skip_def)
    ultimately show ?thesis using ex by blast
  next
    case False
    with p have ex: "execute env k t body None s = run_task env t c body None ?s" by (simp add: execute_def)
    have re: "t = STAGE \<Longrightarrow> ready env e
        \<lparr>current_path = current_path f @ [k], next_subtask_order = (os @ [i]) @ [0], frame_type = Some t\<rparr> (f # fs)"
      using r k by (auto simp: ready_def entered_task_def enter_frame_def c e)
    have new: "t = STEP \<Longrightarrow> \<not> recorded c (entries env s)" using False log by (auto simp: will_skip_def)
    have se: "stack e = \<lparr>current_path = current_path f @ [k], next_subtask_order = (os @ [i]) @ [0], frame_type = Some t\<rparr> # f # fs"
      using st by (simp add: e c entered_task_def enter_frame_def)
    obtain s1 g' where b: "body e = (s1, None)" "stack s1 = g' # f # fs" and rs: "resumed env e s1 steps"
      and same: "t = STEP \<Longrightarrow> entries env s1 = entries env e"
    proof (cases t)
      case STEP
      with step new that se show thesis by auto
    next
      case STAGE
      from stage [OF STAGE re [OF STAGE]] that STAGE show thesis by auto
    qed
    from run_task_quiet [of env body c ?s s1 t, OF q b(1) [unfolded e]] obtain n ev x where
      run: "run_task env t c body None ?s = ((leave_frame s1)\<lparr>clock := n, table := tdb_insert (database env) x (table s1), events := ev,
         latest_step := (if t = STEP then Some c else latest_step s1)\<rparr>, None)" (is "_ = (?s', None)")
      and x: "rec_coordinates x = str_of_coordinates c"
        "rec_latest_step x = map_option str_of_coordinates (latest_step s1)" by blast
    have "stack ?s' = f\<lparr>next_subtask_order := os @ [i + 1]\<rparr> # fs"
      using b(2) o by (simp add: leave_frame_def count_subtask_order)
    moreover have "resumed env s ?s' ?c"
    proof -
      have ok1: "table_ok (entries env s1)" and pl1: "\<forall>l. latest_step s1 = Some l \<longrightarrow> plain_coordinates l"
        using rs by (auto simp: resumed_def)
      have "table_ok (entries env s1 @ [x])"
      proof (rule table_ok_append [OF ok1 pc _ x(1)])
        show "type_of c = STEP \<Longrightarrow> \<not> recorded c (entries env s1)"
          using new same by (simp add: c e entered_task_def enter_frame_def)
        show "rec_latest_step x = Some y \<Longrightarrow> written y" for y
          using x(2) pl1 by (auto simp: written_def)
      qed
      moreover have "entries env ?s' = entries env s1 @ [x]"
        using q by (simp add: entries_def dependable_def tinydb_contract_def leave_frame_def)
      moreover have rx: "recorded c (entries env s1 @ [x])" using x(1) by (auto simp: recorded_def)
      moreover obtain ns where ns: "invoked_steps s1 = invoked_steps e @ ns" "distinct ns" "set ns \<subseteq> set steps"
        "\<forall>d \<in> set ns. \<not> recorded d (entries env e) \<and> recorded d (entries env s1)"
        using rs by (auto simp: resumed_def)
      moreover obtain rs' where "entries env s1 = entries env s @ rs'"
        using rs by (auto simp: resumed_def e entered_task_def enter_frame_def)
      moreover have "t = STEP \<Longrightarrow> ns = []" using step ns(3) by auto
      ultimately show ?thesis
        using rs pc pl1 new
        by (cases t) (auto simp: resumed_def e entered_task_def enter_frame_def leave_frame_def c recorded_append)
    qed
    moreover have "table ?s' = tdb_insert (database env) x (table s1)" by simp
    ultimately show ?thesis using ex run b(1) x(1) new by auto
  qed
qed

lemma resumed_entered:
  "ready env s f fs \<Longrightarrow> resumed env (entered_task env c (s\<lparr>events := ev\<rparr>)) (entered_task env c (s\<lparr>events := ev\<rparr>)) []"
  by (auto simp: resumed_def ready_def entered_task_def enter_frame_def)

lemma execute_resumes:
  assumes q: "dependable env" and r: "ready env s f fs"
    and key: "fs = [] \<longrightarrow> (case k of StrKey _ \<Rightarrow> True | IntKey _ \<Rightarrow> False)" and k: "plain_key k"
    and o: "next_subtask_order f = os @ [i]"
    and c: "c = \<lparr>path = current_path f @ [k], order_of = os @ [i], type_of = t\<rparr>"
    and g: "g = \<lparr>current_path = current_path f @ [k], next_subtask_order = (os @ [i]) @ [0], frame_type = Some t\<rparr>"
    and step: "t = STEP \<Longrightarrow> steps = [] \<and> (\<forall>s. body s = (s, None))"
    and stage: "\<And>s1. t = STAGE \<Longrightarrow> ready env s1 g (f # fs) \<Longrightarrow>
      s1 = entered_task env c (s\<lparr>events := events s @ [TaskSubmitted c]\<rparr>) \<Longrightarrow>
      \<exists>s2 g'. body s1 = (s2, None) \<and> stack s2 = g' # f # fs \<and> resumed env s1 s2 steps"
  shows "\<exists>s'. execute env k t body None s = (s', None) \<and>
    stack s' = f\<lparr>next_subtask_order := os @ [i + 1]\<rparr> # fs \<and>
    resumed env s s' ((if t = STEP then [c] else []) @ steps)"
proof -
  note general = execute_resumed [where body = body and steps = steps, OF q r key k o c refl]
  show ?thesis
  proof (cases t)
    case STEP
    then show ?thesis using general step resumed_entered [OF r] by fastforce
  next
    case STAGE
    then show ?thesis using general stage g by fastforce
  qed
qed

lemma script_resumes:
  assumes q: "dependable env"
  shows "scripted root as \<Longrightarrow> ready env s f fs \<Longrightarrow> root = (fs = []) \<Longrightarrow> next_subtask_order f = os @ [i] \<Longrightarrow>
    p = current_path f \<Longrightarrow>
    \<exists>s' j. run_actions env as s = (s', None) \<and> stack s' = f\<lparr>next_subtask_order := os @ [j]\<rparr> # fs \<and>
      resumed env s s' (steps_of p os i as)"
proof (induction p os i as arbitrary: root s f fs rule: steps_of.induct)
  case (1 p os i)
  then have "stack s = f\<lparr>next_subtask_order := os @ [i]\<rparr> # fs" by (cases f) (simp add: ready_def)
  with resumed_refl [OF 1(2)] show ?case by auto
next
  case (2 p os i catches k t body final as)
  from 2(3) have sc: "\<not> catches" "plain_key k" "root \<longrightarrow> (case k of StrKey _ \<Rightarrow> True | IntKey _ \<Rightarrow> False)"
    "final = None" "t = STEP \<longrightarrow> body = []" "scripted False body" "scripted root as" by auto
  let ?c = "\<lparr>path = current_path f @ [k], order_of = os @ [i], type_of = t\<rparr>"
  let ?g = "\<lparr>current_path = current_path f @ [k], next_subtask_order = (os @ [i]) @ [0], frame_type = Some t\<rparr>"
  let ?steps = "steps_of (p @ [k]) (os @ [i]) 0 body"
  have "\<exists>s'. execute env k t (\<lambda>s. run_actions env body s) None s = (s', None) \<and>
      stack s' = f\<lparr>next_subtask_order := os @ [i + 1]\<rparr> # fs \<and>
      resumed env s s' ((if t = STEP then [?c] else []) @ ?steps)"
  proof (rule execute_resumes [OF q 2(4) _ sc(2) 2(6) refl refl])
    show "fs = [] \<longrightarrow> (case k of StrKey _ \<Rightarrow> True | IntKey _ \<Rightarrow> False)" using sc(3) 2(5) by simp
    show "t = STEP \<Longrightarrow> ?steps = [] \<and> (\<forall>s. run_actions env body s = (s, None))" using sc(5) by simp
    show "\<exists>s2 g'. run_actions env body s1 = (s2, None) \<and> stack s2 = g' # f # fs \<and> resumed env s1 s2 ?steps"
      if "t = STAGE" "ready env s1 ?g (f # fs)" for s1
      using 2(1) [OF sc(6) that(2)] 2(7) by auto
  qed
  then obtain s1 where s1: "execute env k t (\<lambda>s. run_actions env body s) None s = (s1, None)"
    "stack s1 = f\<lparr>next_subtask_order := os @ [i + 1]\<rparr> # fs"
    "resumed env s s1 ((if t = STEP then [?c] else []) @ ?steps)" by blast
  have "ready env s1 (f\<lparr>next_subtask_order := os @ [i + 1]\<rparr>) fs"
    using 2(4) s1(2,3) by (auto simp: ready_def resumed_def)
  from 2(2) [OF sc(7) this 2(5)] 2(7) obtain s' j where s':
    "run_actions env as s1 = (s', None)" "stack s' = f\<lparr>next_subtask_order := os @ [j]\<rparr> # fs"
    "resumed env s1 s' (steps_of p os (i + 1) as)" by auto
  with s1(1) sc(1,4) have "run_actions env (Execute catches k t body final # as) s = (s', None)" by simp
  moreover have "resumed env s s' (steps_of p os i (Execute catches k t body final # as))"
    using resumed_trans [OF s1(3) s'(3)] 2(7) by simp
  ultimately show ?case using s'(2) by blast
next
  case (3 p os i v body as)
  then show ?case by simp
qed

section \<open>Properties\<close>

text \<open>C16: Whatever tasks do and raise, callbacks included, an action leaves the executor with the
  stack of frames it found (but for the subtasks counted in the top frame), the same
  session and the same setting of \<open>skip_executed_stages\<close>; records of finished tasks and
  events are only added.\<close>

theorem stack_discipline:
  assumes "run_actions env as s = (s', r)" and "stack s = f # fs"
  shows "\<exists>k. stack s' = counted k f # fs \<and> session s' = session s \<and>
    skip_executed_stages s' = skip_executed_stages s \<and>
    added env (table s) (table s') \<and> (\<exists>es. events s' = events s @ es)"
proof -
  have "keeps env s s'" using keeps_run(2) [OF assms(1)] assms(2) by simp
  with assms(2) show ?thesis by (auto simp: keeps_def)
qed

definition ex_env :: "execution_record list environment" where
  "ex_env =
     \<lparr>clock_at = int, callback_raises = (\<lambda>_. None),
      database = \<lparr>tdb_all = (\<lambda>t. t), tdb_search = filter, tdb_insert = (\<lambda>r t. t @ [r])\<rparr>\<rparr>"

definition ex_script :: "action list" where
  "ex_script =
     [Execute False (StrKey ''load'') STEP [] None,
      Execute False (StrKey ''train'') STAGE
        [Execute False (IntKey 0) STEP [] None, Execute False (IntKey 1) STEP [] None] None]"

definition ex_open :: "execution_record list \<Rightarrow> execution_record list executor" where
  "ex_open t = fst (initialize ex_env (1, 0) (fresh_executor t))"

theorem stack_discipline_witness:
  "\<exists>k. stack (fst (run_actions ex_env [Execute True (StrKey ''x'') STAGE ex_script (Some (AppError 1))] (ex_open [])))
     = [counted k \<lparr>current_path = [], next_subtask_order = [0], frame_type = None\<rparr>]"
proof -
  have "stack (ex_open []) = [\<lparr>current_path = [], next_subtask_order = [0], frame_type = None\<rparr>]" by code_simp
  with stack_discipline [of ex_env "[Execute True (StrKey ''x'') STAGE ex_script (Some (AppError 1))]"]
  show ?thesis by (metis prod.collapse)
qed

text \<open>C6: Resuming. A script, run by an executor whose log is consistent, returns; each of its steps
  is invoked at most once, and only if the log had no record of it; and unless executed
  stages are skipped, every step is on record afterwards. The log stays consistent.\<close>

theorem script_runs_missing_steps:
  assumes "dependable env" and "scripted True as" and "table_ok (tdb_all (database env) t)"
    and "initialize env pointer (fresh_executor t) = (s, None)"
  shows "\<exists>s' ns. run_actions env as s = (s', None) \<and> table_ok (entries env s') \<and>
    invoked_steps s' = ns \<and> distinct ns \<and> set ns \<subseteq> set (steps_of [] [] 0 as) \<and>
    (\<forall>c \<in> set ns. \<not> recorded c (tdb_all (database env) t)) \<and>
    (\<forall>c \<in> set (steps_of [] [] 0 as). recorded c (entries env s'))"
proof -
  let ?f = "\<lparr>current_path = [], next_subtask_order = [0], frame_type = None\<rparr> :: execution_frame"
  have s: "ready env s ?f []" "entries env s = tdb_all (database env) t" "invoked_steps s = []" "\<not> skip_executed_stages s"
    using assms(1,3,4)
    by (auto simp: initialize_def fresh_executor_def quiet_call_back ready_def marks_step_def entries_def)
  from script_resumes [OF assms(1,2) s(1), of "[]" 0 "[]"] s(2-4) show ?thesis
    by (fastforce simp: resumed_def)
qed

lemma ex_opened: "initialize ex_env (1, 0) (fresh_executor t) = (ex_open t, None)"
  by (simp add: ex_open_def initialize_def fresh_executor_def ex_env_def call_back_def)

lemma ex_open_eq:
  "ex_open t = \<lparr>stack = [\<lparr>current_path = [], next_subtask_order = [0], frame_type = None\<rparr>],
     session = Some (1, 0), skip_executed_stages = False, latest_step = None, table = t,
     invoked_steps = [], events = [BeforeSession], clock = 0\<rparr>"
  by (simp add: ex_open_def initialize_def fresh_executor_def ex_env_def call_back_def marks_step_def)

lemma ex_quiet: "dependable ex_env"
  by (simp add: dependable_def ex_env_def tinydb_contract_def)

lemma ex_scripted: "scripted True ex_script"
  by code_simp

theorem script_runs_missing_steps_witness:
  "set (invoked_steps (fst (run_actions ex_env ex_script (ex_open [])))) \<subseteq> set (steps_of [] [] 0 ex_script)"
  using script_runs_missing_steps [OF ex_quiet ex_scripted _ ex_opened, of "[]"] by (auto simp: ex_env_def)

text \<open>C7: Running a script a second time invokes none of its steps, however the second run treats
  executed stages, provided that the log is the one the first run left.\<close>

theorem second_run_invokes_nothing:
  assumes "dependable env1" and "dependable env2" and db: "database env2 = database env1"
    and sc: "scripted True as" and "table_ok (tdb_all (database env1) t)"
    and i1: "initialize env1 pointer1 (fresh_executor t) = (s1, None)"
    and r1: "run_actions env1 as s1 = (s1', r1)"
    and i2: "initialize env2 pointer2 ((fresh_executor (table s1'))\<lparr>skip_executed_stages := v\<rparr>) = (s2, None)"
  shows "\<exists>s2'. run_actions env2 as s2 = (s2', None) \<and> invoked_steps s2' = []"
proof -
  let ?f = "\<lparr>current_path = [], next_subtask_order = [0], frame_type = None\<rparr> :: execution_frame"
  have s1: "ready env1 s1 ?f []" "\<not> skip_executed_stages s1"
    using assms(1,5) i1
    by (auto simp: initialize_def fresh_executor_def quiet_call_back ready_def entries_def)
  from script_resumes [OF assms(1) sc s1(1), of "[]" 0 "[]"] s1(2) r1
  have t: "table_ok (entries env1 s1')" "\<forall>c \<in> set (steps_of [] [] 0 as). recorded c (entries env1 s1')"
    by (auto simp: resumed_def)
  have s2: "ready env2 s2 ?f []" "entries env2 s2 = entries env1 s1'" "invoked_steps s2 = []"
    using assms(2) t(1) i2 db
    by (auto simp: initialize_def fresh_executor_def quiet_call_back ready_def marks_step_def entries_def)
  from script_resumes [OF assms(2) sc s2(1), of "[]" 0 "[]"] obtain s2' where
    "run_actions env2 as s2 = (s2', None)" and rs: "resumed env2 s2 s2' (steps_of [] [] 0 as)" by auto
  moreover have "invoked_steps s2' = []"
  proof -
    from rs obtain ns where ns: "invoked_steps s2' = invoked_steps s2 @ ns"
      "set ns \<subseteq> set (steps_of [] [] 0 as)" "\<forall>c \<in> set ns. \<not> recorded c (entries env2 s2)"
      by (auto simp: resumed_def)
    with t(2) s2(2) have "set ns = {}" by (metis equals0I subsetD)
    with ns(1) s2(3) show ?thesis by simp
  qed
  ultimately show ?thesis by blast
qed

theorem second_run_invokes_nothing_witness:
  "invoked_steps (fst (run_actions ex_env ex_script
     (ex_open (table (fst (run_actions ex_env ex_script (ex_open []))))))) = []"
proof -
  obtain s1' r1 where r1: "run_actions ex_env ex_script (ex_open []) = (s1', r1)" by fastforce
  have "(fresh_executor (table s1'))\<lparr>skip_executed_stages := False\<rparr> = fresh_executor (table s1')"
    by (simp add: fresh_executor_def)
  moreover have "table_ok (tdb_all (database ex_env) [])" by (simp add: ex_env_def)
  ultimately show ?thesis
    using second_run_invokes_nothing [OF ex_quiet ex_quiet refl ex_scripted _ ex_opened r1, of "(1, 0)" False]
      ex_opened r1 by auto
qed

lemma execute_raises:
  assumes q: "dependable env" and r: "ready env s f fs"
    and key: "fs = [] \<longrightarrow> (case k of StrKey _ \<Rightarrow> True | IntKey _ \<Rightarrow> False)" and k: "plain_key k"
    and o: "next_subtask_order f = os @ [i]"
    and c: "c = \<lparr>path = current_path f @ [k], order_of = os @ [i], type_of = t\<rparr>"
    and new: "t = STEP \<or> skip_executed_stages s \<Longrightarrow> \<not> recorded c (entries env s)"
    and e: "is_exception e \<or> e = KeyboardInterrupt"
    and body: "body (entered_task env c (s\<lparr>events := events s @ [TaskSubmitted c]\<rparr>)) = (s2, b)"
    and raised: "(case b of Some x \<Rightarrow> Some x | None \<Rightarrow> final) = Some e"
  shows "\<exists>n l start finish out. execute env k t body final s =
      ((leave_frame s2)\<lparr>clock := n, events := events s2 @ [TaskFinished start finish c out], latest_step := l\<rparr>,
       if current_path f = [] \<and> (\<exists>comment. e = ToBeContinuedException comment) then None else Some e) \<and>
    \<not> is_Success out \<and> (l = latest_step s2 \<or> l = Some c)"
proof -
  define s0 where "s0 = s\<lparr>events := events s @ [TaskSubmitted c]\<rparr>"
  from prepare_quiet [OF q r key k o c] obtain log where
    p: "prepare env k t s = (s0, Inr (c, log))" and log: "log = None \<longleftrightarrow> \<not> recorded c (entries env s)"
    by (auto simp: s0_def)
  have run: "\<not> will_skip t log s0" using new log by (auto simp: will_skip_def s0_def)
  obtain out where out: "outcome_of None (Some e) = Inr out" "\<not> is_Success (out :: unit outcome)"
    using outcome_of_exception by blast
  let ?start = "clock_at env (clock s0)" and ?finish = "clock_at env (clock s2)"
  define res where
    "res = (if current_path f = [] \<and> (\<exists>comment. e = ToBeContinuedException comment) then None else Some e)"
  define s3 where "s3 = s2\<lparr>clock := Suc (clock s2), events := events s2 @ [TaskFinished ?start ?finish c out]\<rparr>"
  have top: "(if depth_of c > 1 then Some e else case e of ToBeContinuedException _ \<Rightarrow> None | _ \<Rightarrow> Some e) = res"
    by (auto simp: depth_of_def c res_def split: exn.splits)
  have "call_back env (TaskInvoked ?start c) ((enter_frame c s0)\<lparr>clock := Suc (clock s0)\<rparr>) = (entered_task env c s0, None)"
    using q by (simp add: quiet_call_back entered_task_def marks_step_def enter_frame_def)
  then have att: "attempt_task env ?start c body final ((enter_frame c s0)\<lparr>clock := Suc (clock s0)\<rparr>) = (s2, Some e)"
    using body raised by (auto simp: attempt_task_def s0_def split: option.splits)
  have "exception_handler env e ?start c s2 = (s3, res)"
    using out(1) top q
    by (simp add: exception_handler_def now_def quiet_call_back marks_step_def s3_def del: One_nat_def)
  moreover have "clock (enter_frame c s0) = clock s0" by (simp add: enter_frame_def)
  ultimately have "run_task env t c body final s0 = after_run t c (leave_frame s3, res)"
    using att e by (simp add: run_task_def now_def handle_def)
  then have "execute env k t body final s =
      ((leave_frame s3)\<lparr>latest_step := (if res = None \<and> t = STEP then Some c else latest_step s2)\<rparr>, res)"
    using p run by (cases res) (auto simp: execute_def after_run_def s3_def leave_frame_def)
  then show ?thesis
    using out(2) unfolding res_def [symmetric]
    by (intro exI [of _ "Suc (clock s2)"] exI [of _ ?start] exI [of _ ?finish] exI [of _ out]
        exI [of _ "if res = None \<and> t = STEP then Some c else latest_step s2"])
      (auto simp: s3_def leave_frame_def)
qed

text \<open>C24: A task that raises is not put on record, and a nested task always lets its exception pass.
  A top-level task lets every exception pass but \<open>ToBeContinuedException\<close>. In both cases
  the callbacks are told of an unsuccessful outcome.\<close>

theorem raising_task:
  assumes q: "dependable env" and r: "ready env s f fs"
    and k: "plain_key k" "fs = [] \<Longrightarrow> \<exists>name. k = StrKey name"
    and o: "next_subtask_order f = os @ [i]"
    and new: "\<not> recorded \<lparr>path = current_path f @ [k], order_of = os @ [i], type_of = t\<rparr> (entries env s)"
    and e: "is_exception e \<or> e = KeyboardInterrupt"
    and body: "\<And>s. snd (body s) = Some e"
  shows "\<exists>s' s1 start finish out. execute env k t body final s =
      (s', if current_path f = [] \<and> (\<exists>comment. e = ToBeContinuedException comment) then None else Some e) \<and>
    table s1 = table s \<and> table s' = table (fst (body s1)) \<and> \<not> is_Success out \<and>
    last (events s') = TaskFinished start finish \<lparr>path = current_path f @ [k], order_of = os @ [i], type_of = t\<rparr> out"
proof -
  define c where "c = \<lparr>path = current_path f @ [k], order_of = os @ [i], type_of = t\<rparr>"
  let ?s1 = "entered_task env c (s\<lparr>events := events s @ [TaskSubmitted c]\<rparr>)"
  have key: "fs = [] \<longrightarrow> (case k of StrKey _ \<Rightarrow> True | IntKey _ \<Rightarrow> False)" using k(2) by auto
  obtain s2 where b: "body ?s1 = (s2, Some e)" using body [of ?s1] by (cases "body ?s1") auto
  have "table ?s1 = table s" by (simp add: entered_task_def enter_frame_def)
  with execute_raises [where body = body and final = final, OF q r key k(1) o c_def _ e b] new b show ?thesis
    unfolding c_def by (fastforce simp: leave_frame_def)
qed

theorem raising_task_witness:
  "snd (execute ex_env (StrKey ''x'') STAGE (\<lambda>s. (s, Some (ToBeContinuedException ''later''))) None (ex_open [])) = None"
proof -
  have "ready ex_env (ex_open []) \<lparr>current_path = [], next_subtask_order = [0], frame_type = None\<rparr> []"
    by (simp add: ex_open_eq ready_def entries_def ex_env_def)
  moreover have "plain_key (StrKey ''x'')" by code_simp
  moreover have "\<not> recorded c (entries ex_env (ex_open []))" for c
    by (simp add: ex_open_eq recorded_def entries_def ex_env_def)
  ultimately show ?thesis
    using raising_task [OF ex_quiet, of "ex_open []" _ "[]" "StrKey ''x''" "[]" 0 STAGE
      "ToBeContinuedException ''later''" "\<lambda>s. (s, Some (ToBeContinuedException ''later''))" None]
    by fastforce
qed

text \<open>A step cannot have subtasks: in the frame of a step every attempt to execute a task fails
  with \<open>AssertionError\<close> and changes nothing, and so does executing anything before the
  executor is initialised.\<close>

theorem no_subtasks_of_steps:
  assumes "frame_type (hd (stack s)) = Some STEP \<or> session s = None"
  shows "execute env k t body final s = (s, Some AssertionError)"
  using assms by (auto simp: execute_def prepare_def current_task_type_def)

theorem no_subtasks_of_steps_witness:
  "execute ex_env (StrKey ''x'') STEP (\<lambda>s. (s, None)) None (fresh_executor []) =
     (fresh_executor [], Some AssertionError)"
  by (rule no_subtasks_of_steps) (simp add: fresh_executor_def)

end
