(* ===== verification/Consistency.thy ===== *)
theory Consistency
  imports Dolt_Versioning Sessions Task_Executor
begin

text \<open>
  The callback that keeps the versions of the data consistent with the tasks,
  \<open>ConsistentDataVersioningCallback\<close> of \<open>thinking_executor_data/common/consistency.py\<close>, and the
  dispatch of \<open>StepExecutorCallback\<close> of \<open>thinking_executor/callbacks/executor.py\<close> from tasks to
  steps and stages. The properties join the task executor with the permission to write.
\<close>

section \<open>The callback\<close>

record 's data_state =
  versioned :: 's
  access :: read_write

definition on_versioned :: "('s, 'a) operation \<Rightarrow> ('s data_state, 'a) operation" where
  "on_versioned m d = (case m (versioned d) of (s, r) \<Rightarrow> (d\<lparr>versioned := s\<rparr>, r))"

definition on_access :: "(read_write, 'a) operation \<Rightarrow> ('s data_state, 'a) operation" where
  "on_access m d = (case m (access d) of (a, r) \<Rightarrow> (d\<lparr>access := a\<rparr>, r))"

definition on_step_skipped :: "'s versioning_manager \<Rightarrow> task_record \<Rightarrow> ('s data_state, unit) operation" where
  "on_step_skipped m exec_log = on_versioned (manager_checkout m (Some (tr_coordinates exec_log)))"

definition on_stage_skipped :: "'s versioning_manager \<Rightarrow> task_record \<Rightarrow> ('s data_state, unit) operation" where
  "on_stage_skipped m exec_log = on_versioned (manager_checkout m (tr_latest_step exec_log))"

definition on_step_invoked :: "'s versioning_manager \<Rightarrow> coordinates \<Rightarrow> ('s data_state, unit) operation" where
  "on_step_invoked m c =
     sseq (on_versioned (ensure_empty_branch m (Some c)))
       (sseq (on_versioned (manager_checkout m (Some c))) (on_access allow_writing))"

definition on_step_finished :: "'s versioning_manager \<Rightarrow> 'r outcome \<Rightarrow> ('s data_state, unit) operation" where
  "on_step_finished m out =
     sseq (on_versioned (if is_Success out then manager_commit m else manager_rollback m))
       (on_access disallow_writing)"

text \<open>
  \<open>warn\<close> raises when warnings are configured to be errors, \<open>warnings_raise\<close>; otherwise it
  returns. The \<open>except\<close> clause rolls back and raises again.
\<close>

definition on_stage_finished :: "bool \<Rightarrow> 's versioning_manager \<Rightarrow> ('s data_state, unit) operation" where
  "on_stage_finished warnings_raise m =
     scatch
       (sbind (on_versioned (manager_is_dirty m))
         (\<lambda>dirty. if dirty \<and> warnings_raise then slift (Inl UnmanagedWritesWarning) else sret ()))
       (\<lambda>e. if e = UnmanagedWritesWarning
            then sseq (on_versioned (manager_rollback m)) (slift (Inl e)) else slift (Inl e))"

text \<open>
  A previous session whose last context session was not closed is rolled back, and marked.
  A session without context sessions has no last one: its attribute is looked up on \<open>None\<close>.
\<close>

definition mark_sanitized :: "runtime_session \<Rightarrow> runtime_session" where
  "mark_sanitized r =
     (let i = Max (keys (rs_context_sessions r))
      in r\<lparr>rs_context_sessions := map_values (\<lambda>j c. if j = i then c\<lparr>cs_sanitized := True\<rparr> else c) (rs_context_sessions r)\<rparr>)"

definition on_new_runtime_session ::
  "'s versioning_manager \<Rightarrow> runtime_session option \<Rightarrow> ('s data_state, runtime_session option \<times> bool) operation" where
  "on_new_runtime_session m previous_session =
     (case previous_session of
        None \<Rightarrow> sret (None, False)
      | Some p \<Rightarrow>
          (case last_context_session p of
             None \<Rightarrow> slift (Inl AttributeError)
           | Some c \<Rightarrow>
               (if cs_sanitized c then sret (Some p, False)
                else sseq (on_versioned (manager_rollback m)) (sret (Some (mark_sanitized p), True)))))"

section \<open>Dispatch\<close>

text \<open>
  The methods that a subclass of \<open>StepExecutorCallback\<close> overrides; the task methods
  dispatch to them on the type of the task.
\<close>

record ('s, 'r) step_callback =
  before_session_cb :: "('s, unit) operation"
  step_submitted_cb :: "coordinates \<Rightarrow> ('s, unit) operation"
  stage_submitted_cb :: "coordinates \<Rightarrow> ('s, unit) operation"
  step_skipped_cb :: "task_record \<Rightarrow> ('s, unit) operation"
  stage_skipped_cb :: "task_record \<Rightarrow> ('s, unit) operation"
  step_invoked_cb :: "int \<Rightarrow> coordinates \<Rightarrow> ('s, unit) operation"
  stage_invoked_cb :: "int \<Rightarrow> coordinates \<Rightarrow> ('s, unit) operation"
  step_finished_cb :: "int \<Rightarrow> int \<Rightarrow> coordinates \<Rightarrow> unit outcome \<Rightarrow> ('s, unit) operation"
  stage_finished_cb :: "int \<Rightarrow> int \<Rightarrow> coordinates \<Rightarrow> unit outcome \<Rightarrow> ('s, unit) operation"
  after_session_cb :: "int \<Rightarrow> unit outcome \<Rightarrow> ('s, unit) operation"

fun by_type :: "task_type \<Rightarrow> 'a \<Rightarrow> 'a \<Rightarrow> 'a" where
  "by_type STEP a b = a"
| "by_type STAGE a b = b"

fun dispatch :: "('s, 'r) step_callback \<Rightarrow> task_event \<Rightarrow> ('s, unit) operation" where
  "dispatch cb BeforeSession = before_session_cb cb"
| "dispatch cb (TaskSubmitted c) = by_type (type_of c) (step_submitted_cb cb c) (stage_submitted_cb cb c)"
| "dispatch cb (TaskSkipped exec_log) =
     by_type (type_of (tr_coordinates exec_log)) (step_skipped_cb cb exec_log) (stage_skipped_cb cb exec_log)"
| "dispatch cb (TaskInvoked start c) = by_type (type_of c) (step_invoked_cb cb start c) (stage_invoked_cb cb start c)"
| "dispatch cb (TaskFinished start finish c out) =
     by_type (type_of c) (step_finished_cb cb start finish c out) (stage_finished_cb cb start finish c out)"
| "dispatch cb (AfterSession finished out) = after_session_cb cb finished out"

definition ConsistentDataVersioningCallback ::
  "bool \<Rightarrow> 's versioning_manager \<Rightarrow> ('s data_state, unit) step_callback" where
  "ConsistentDataVersioningCallback warnings_raise m =
     \<lparr>before_session_cb = sret (), step_submitted_cb = (\<lambda>c. sret ()), stage_submitted_cb = (\<lambda>c. sret ()),
      step_skipped_cb = on_step_skipped m, stage_skipped_cb = on_stage_skipped m,
      step_invoked_cb = (\<lambda>start. on_step_invoked m), stage_invoked_cb = (\<lambda>start c. sret ()),
      step_finished_cb = (\<lambda>start finish c. on_step_finished m),
      stage_finished_cb = (\<lambda>start finish c out. on_stage_finished warnings_raise m),
      after_session_cb = (\<lambda>finished out. sret ())\<rparr>"

section \<open>The events of a run\<close>

text \<open>Every invocation of a step is followed at once by its end.\<close>

fun steps_closed :: "task_event list \<Rightarrow> bool" where
  "steps_closed [] = True"
| "steps_closed (e # es) =
     (case e of
        TaskInvoked start c \<Rightarrow>
          (if type_of c = STEP
           then (case es of TaskFinished start' finish c' out # es' \<Rightarrow> start' = start \<and> c' = c \<and> steps_closed es' | _ \<Rightarrow> False)
           else steps_closed es)
      | _ \<Rightarrow> steps_closed es)"

lemma steps_closed_append: "steps_closed es \<Longrightarrow> steps_closed fs \<Longrightarrow> steps_closed (es @ fs)"
  by (induction es rule: steps_closed.induct) (auto split: task_event.splits list.splits if_splits)

text \<open>Scripts in which nothing raises \<open>SystemExit\<close>: no handler of the executor catches that.\<close>

fun calm :: "action \<Rightarrow> bool" and all_calm :: "action list \<Rightarrow> bool" where
  "calm (Execute catches key t body final) = (final \<noteq> Some SystemExit \<and> all_calm body)"
| "calm (SkipScope v body) = all_calm body"
| "all_calm [] = True"
| "all_calm (a # as) = (calm a \<and> all_calm as)"

definition silent :: "'db environment \<Rightarrow> bool" where
  "silent env \<longleftrightarrow> (\<forall>e. callback_raises env e = None)"

lemma silent_call_back:
  "silent env \<Longrightarrow> call_back env e s =
   (s\<lparr>events := events s @ [e], invoked_steps := Task_Executor.invoked_steps s @ marks_step e\<rparr>, None)"
  by (simp add: silent_def call_back_def)

text \<open>Nothing happens in the body of a step: a subtask is refused before anything is told.\<close>

lemma in_step:
  shows "current_task_type s = Some STEP \<Longrightarrow> run_action env a s = (s', r) \<Longrightarrow>
      stack s' = stack s \<and> events s' = events s \<and> r \<noteq> Some SystemExit"
    and "current_task_type s = Some STEP \<Longrightarrow> run_actions env as s = (s', r) \<Longrightarrow>
      stack s' = stack s \<and> events s' = events s \<and> r \<noteq> Some SystemExit"
proof (induction env a s and env as s arbitrary: s' r and s' r rule: run_action_run_actions.induct)
  case (1 env catches key t body final s)
  have "execute env key t (\<lambda>s'. run_actions env body s') final s = (s, Some AssertionError)"
    using 1(2) by (simp add: execute_def prepare_def)
  with 1(3) show ?case by (auto split: if_splits)
next
  case (2 env v body s)
  then show ?case by (auto simp: current_task_type_def split: prod.splits)
next
  case (3 env s)
  then show ?case by simp
next
  case (4 env a as s)
  obtain s1 r1 where a: "run_action env a s = (s1, r1)" by fastforce
  from 4(1) [OF 4(3) a] have s1: "stack s1 = stack s" "events s1 = events s" "r1 \<noteq> Some SystemExit" by auto
  then have c1: "current_task_type s1 = Some STEP" using 4(3) by (simp add: current_task_type_def)
  show ?case
  proof (cases r1)
    case None
    with 4(4) a have "run_actions env as s1 = (s', r)" by simp
    with 4(2) [OF a [symmetric] None c1] s1 show ?thesis by (simp add: None)
  next
    case (Some e)
    with 4(4) a s1 show ?thesis by auto
  qed
qed

lemma parse_errors: "parse t = Inl e \<Longrightarrow> e = KeyError \<or> e = ValueError"
proof -
  have int_error: "py_int x = Inl e \<Longrightarrow> e = ValueError" for x
    by (auto simp: py_int_def split: list.splits option.splits if_splits)
  assume e: "parse t = Inl e"
  obtain a b rest where 1: "py_partition (CHR '':'') t = (a, b, rest)" by (cases "py_partition (CHR '':'') t") auto
  obtain p q os where 2: "py_partition (CHR ''@'') rest = (p, q, os)" by (cases "py_partition (CHR ''@'') rest") auto
  from e show ?thesis
    by (auto simp: parse_def 1 2 type_named_def res_simps split: if_splits elim!: traverse_InlE dest: int_error)
qed

lemma find_execution_log_errors: "find_execution_log env c s \<noteq> Inl SystemExit"
proof
  assume "find_execution_log env c s = Inl SystemExit"
  then obtain r where "deserialize_record r = Inl SystemExit"
    by (auto simp: find_execution_log_def res_simps split: if_splits list.splits elim!: traverse_InlE)
  then show False
    by (auto simp: deserialize_record_def res_simps dest!: parse_errors split: option.splits)
qed

definition good_end :: "'db executor \<Rightarrow> 'db executor \<times> exn option \<Rightarrow> bool" where
  "good_end s x \<longleftrightarrow> (\<exists>es. events (fst x) = events s @ es \<and> steps_closed es) \<and> snd x \<noteq> Some SystemExit"

lemma good_endI: "events s' = events s @ es \<Longrightarrow> steps_closed es \<Longrightarrow> r \<noteq> Some SystemExit \<Longrightarrow> good_end s (s', r)"
  by (auto simp: good_end_def)

lemma good_end_trans:
  "good_end s (s1, r1) \<Longrightarrow> good_end s1 (s2, r2) \<Longrightarrow> good_end s (s2, r2)"
  unfolding good_end_def by (auto intro: steps_closed_append)

lemma run_task_events:
  assumes silent: "silent env" and final: "final \<noteq> Some SystemExit" and c: "type_of c = t"
    and body: "\<And>s1. good_end s1 (body s1)"
    and step: "\<And>s1. t = STEP \<Longrightarrow> current_task_type s1 = Some STEP \<Longrightarrow> events (fst (body s1)) = events s1"
  shows "good_end s (run_task env t c body final s)"
proof -
  obtain start s1 where now: "now env (enter_frame c s) = (start, s1)" by fastforce
  then have e1: "events s1 = events s" and t1: "current_task_type s1 = Some t"
    by (auto simp: now_def enter_frame_def current_task_type_def c)
  let ?s2 = "s1\<lparr>events := events s1 @ [TaskInvoked start c], invoked_steps := Task_Executor.invoked_steps s1 @ marks_step (TaskInvoked start c)\<rparr>"
  obtain s3 r3 where b: "body ?s2 = (s3, r3)" by fastforce
  have t2: "current_task_type ?s2 = Some t" using t1 by (simp add: current_task_type_def)
  obtain es where es: "events s3 = events ?s2 @ es" "steps_closed es" "r3 \<noteq> Some SystemExit"
    using body [of ?s2] b by (auto simp: good_end_def)
  have nil: "es = []" if "t = STEP" using step [OF that, of ?s2] t2 b es(1) that by simp
  have "\<exists>finish out s4 r4. handle env start c (attempt_task env start c body final s1) = (s4, r4) \<and>
      events s4 = events s3 @ [TaskFinished start finish c out] \<and> r4 \<noteq> Some SystemExit"
  proof (cases "case r3 of Some e \<Rightarrow> Some e | None \<Rightarrow> final")
    case None
    then have "r3 = None" "final = None" by (auto split: option.splits)
    then show ?thesis
      using b by (simp add: attempt_task_def silent_call_back [OF silent] finish_task_def now_def handle_def mark_finished_def)
  next
    case (Some e)
    then have a: "attempt_task env start c body final s1 = (s3, Some e)" and e: "e \<noteq> SystemExit"
      using b es(3) final by (auto simp: attempt_task_def silent_call_back [OF silent] split: option.splits)
    have "is_exception e \<or> e = KeyboardInterrupt" using e by (cases e) simp_all
    moreover obtain out :: "unit outcome" where out: "outcome_of None (Some e) = Inr out" using outcome_of_exception by blast
    moreover define x where "x = (if depth_of c > 1 then Some e else case e of ToBeContinuedException _ \<Rightarrow> None | _ \<Rightarrow> Some e)"
    moreover have "x \<noteq> Some SystemExit" using e unfolding x_def by (cases e) simp_all
    ultimately show ?thesis
      using a by (simp add: handle_def exception_handler_def now_def out silent_call_back [OF silent])
  qed
  then obtain finish out s4 r4 where h: "handle env start c (attempt_task env start c body final s1) = (s4, r4)"
    and e4: "events s4 = events s3 @ [TaskFinished start finish c out]" and r4: "r4 \<noteq> Some SystemExit"
    by blast
  have all: "events s4 = events s @ TaskInvoked start c # es @ [TaskFinished start finish c out]"
    using e4 es(1) e1 by simp
  have "steps_closed (TaskInvoked start c # es @ [TaskFinished start finish c out])"
    using nil c steps_closed_append [OF es(2), of "[TaskFinished start finish c out]"] by auto
  with all r4 h now show ?thesis
    by (auto simp: run_task_def leave_frame_def after_run_def good_end_def split: option.splits)
qed

lemma execute_events:
  assumes silent: "silent env" and final: "final \<noteq> Some SystemExit"
    and body: "\<And>s1. good_end s1 (body s1)"
    and step: "\<And>s1. t = STEP \<Longrightarrow> current_task_type s1 = Some STEP \<Longrightarrow> events (fst (body s1)) = events s1"
  shows "good_end s (execute env key t body final s)"
proof -
  obtain s1 p where p: "prepare env key t s = (s1, p)" by fastforce
  show ?thesis
  proof (cases p)
    case (Inl e)
    have "e \<noteq> SystemExit \<and> (\<exists>es. events s1 = events s @ es \<and> steps_closed es)"
      using p Inl find_execution_log_errors
      by (auto simp: prepare_def silent_call_back [OF silent] Let_def split: if_splits sum.splits)
    with p Inl show ?thesis by (auto simp: execute_def good_end_def)
  next
    case (Inr cl)
    obtain c l where cl: "cl = (c, l)" by fastforce
    have c: "type_of c = t" and e1: "events s1 = events s @ [TaskSubmitted c]"
      using p Inr cl by (auto simp: prepare_def silent_call_back [OF silent] Let_def split: if_splits sum.splits)
    have sub: "good_end s (s1, None)" using e1 by (auto simp: good_end_def)
    show ?thesis
    proof (cases "will_skip t l s1")
      case True
      then show ?thesis
        using p Inr cl e1 by (auto simp: execute_def skip_def silent_call_back [OF silent] after_skip_def
            count_on_top_def good_end_def)
    next
      case False
      obtain s2 r2 where r: "run_task env t c body final s1 = (s2, r2)" by fastforce
      have "good_end s1 (s2, r2)" using run_task_events [OF silent final c body step, of s1] r by simp
      with sub have "good_end s (s2, r2)" by (rule good_end_trans)
      then show ?thesis using p Inr cl False r by (simp add: execute_def)
    qed
  qed
qed

lemma run_events:
  shows "silent env \<Longrightarrow> calm a \<Longrightarrow> good_end s (run_action env a s)"
    and "silent env \<Longrightarrow> all_calm as \<Longrightarrow> good_end s (run_actions env as s)"
proof (induction env a s and env as s rule: run_action_run_actions.induct)
  case (1 env catches key t body final s)
  have "good_end s (execute env key t (\<lambda>s'. run_actions env body s') final s)"
  proof (rule execute_events [OF 1(2)])
    show "final \<noteq> Some SystemExit" using 1(3) by simp
    show "good_end s1 (run_actions env body s1)" for s1 using 1 by simp
    show "events (fst (run_actions env body s1)) = events s1" if "current_task_type s1 = Some STEP" for s1
      using in_step(2) [OF that prod.collapse [symmetric]] by blast
  qed
  then show ?case by (auto simp: good_end_def split: prod.split option.split)
next
  case (2 env v body s)
  then have "good_end (s\<lparr>skip_executed_stages := v\<rparr>) (run_actions env body (s\<lparr>skip_executed_stages := v\<rparr>))" by simp
  then show ?case by (auto simp: good_end_def split: prod.split)
next
  case (3 env s)
  then show ?case by (auto simp: good_end_def)
next
  case (4 env a as s)
  obtain s1 r1 where a: "run_action env a s = (s1, r1)" by fastforce
  have g: "good_end s (s1, r1)" using 4 a by simp
  show ?case
  proof (cases r1)
    case None
    obtain s2 r2 where b: "run_actions env as s1 = (s2, r2)" by fastforce
    have "good_end s1 (s2, r2)" using 4(2) [OF a [symmetric] None] 4(3,4) b by simp
    with g have "good_end s (s2, r2)" by (rule good_end_trans)
    then show ?thesis using a None b by simp
  next
    case (Some e)
    with a g show ?thesis by simp
  qed
qed

section \<open>Permission to write\<close>

text \<open>A manager none of whose operations raises.\<close>

definition returns :: "('s, 'a) operation \<Rightarrow> bool" where
  "returns m \<longleftrightarrow> (\<forall>s. \<exists>s' x. m s = (s', Inr x))"

definition reliable :: "'s versioning_manager \<Rightarrow> bool" where
  "reliable m \<longleftrightarrow> (\<forall>c. returns (ensure_empty_branch m c)) \<and> (\<forall>c. returns (manager_checkout m c)) \<and>
     returns (manager_commit m) \<and> returns (manager_rollback m) \<and> returns (manager_is_dirty m)"

lemma returns_on_versioned:
  assumes "returns m"
  obtains s' x where "on_versioned m d = (d\<lparr>versioned := s'\<rparr>, Inr x)"
proof -
  obtain s' x where "m (versioned d) = (s', Inr x)" using assms unfolding returns_def by blast
  then show ?thesis using that by (simp add: on_versioned_def)
qed

definition invokes_step :: "task_event \<Rightarrow> bool" where
  "invokes_step e \<longleftrightarrow> (case e of TaskInvoked start c \<Rightarrow> type_of c = STEP | _ \<Rightarrow> False)"

lemma dispatch_access:
  assumes R: "reliable m" and ro: "access d = RO \<or> \<not> invokes_step e"
  shows "\<exists>d'. dispatch (ConsistentDataVersioningCallback False m) e d = (d', Inr ()) \<and>
    access d' = (if invokes_step e then RW
      else if (case e of TaskFinished start finish c out \<Rightarrow> type_of c = STEP | _ \<Rightarrow> False) then RO else access d)"
proof -
  have quiet: "\<exists>d'. on_versioned (f :: ('a, unit) operation) d = (d', Inr ()) \<and> access d' = access d" if "returns f" for f d
    by (rule returns_on_versioned [OF that, of d]) simp
  have step: "\<exists>d'. on_step_invoked m c d = (d', Inr ()) \<and> access d' = RW" if "access d = RO" for c
  proof -
    have "returns (ensure_empty_branch m (Some c))" "returns (manager_checkout m (Some c))"
      using R by (simp_all add: reliable_def)
    then obtain d1 d2 where "on_versioned (ensure_empty_branch m (Some c)) d = (d1, Inr ())" "access d1 = access d"
      and "on_versioned (manager_checkout m (Some c)) d1 = (d2, Inr ())" "access d2 = access d1"
      using quiet by meson
    then show ?thesis using that by (simp add: on_step_invoked_def sseq_def sbind_def on_access_def allow_writing_def)
  qed
  have finish: "\<exists>d'. on_step_finished m out d = (d', Inr ()) \<and> access d' = RO" for out :: "unit outcome"
  proof -
    have "returns (if is_Success out then manager_commit m else manager_rollback m)" using R by (simp add: reliable_def)
    then obtain d1 where "on_versioned (if is_Success out then manager_commit m else manager_rollback m) d = (d1, Inr ())"
      using quiet by meson
    then show ?thesis by (simp add: on_step_finished_def sseq_def sbind_def on_access_def disallow_writing_def)
  qed
  have skipped: "\<exists>d'. on_versioned (manager_checkout m c) d = (d', Inr ()) \<and> access d' = access d" for c
    using R by (intro quiet) (simp add: reliable_def)
  have dirty: "returns (manager_is_dirty m)" using R by (simp add: reliable_def)
  have stage: "\<exists>d'. on_stage_finished False m d = (d', Inr ()) \<and> access d' = access d"
    by (rule returns_on_versioned [OF dirty, of d])
      (simp add: on_stage_finished_def scatch_def sbind_def sret_def)
  note facts = ConsistentDataVersioningCallback_def invokes_step_def sret_def on_step_skipped_def on_stage_skipped_def
    step finish skipped stage
  show ?thesis
  proof (cases e)
    case (TaskSubmitted c)
    then show ?thesis by (cases "type_of c") (simp_all add: facts)
  next
    case (TaskSkipped l)
    then show ?thesis by (cases "type_of (tr_coordinates l)") (simp_all add: facts)
  next
    case (TaskInvoked start c)
    then show ?thesis using ro by (cases "type_of c") (simp_all add: facts)
  next
    case (TaskFinished start f c out)
    then show ?thesis by (cases "type_of c") (simp_all add: facts)
  qed (simp_all add: facts)
qed

text \<open>The two shapes of a list of events whose steps are closed.\<close>

lemma steps_closed_cases:
  assumes "steps_closed es"
  obtains (none) "es = []"
    | (other) e es' where "es = e # es'" and "\<not> invokes_step e" and "steps_closed es'"
    | (step) e g es' where "es = e # g # es'" and "invokes_step e" and "\<not> invokes_step g"
        and "case g of TaskFinished start finish c out \<Rightarrow> type_of c = STEP | _ \<Rightarrow> False" and "steps_closed es'"
proof (cases es)
  case Nil
  then show ?thesis by (rule none)
next
  case (Cons e es1)
  show ?thesis
  proof (cases "invokes_step e")
    case False
    with assms Cons have "steps_closed es1" by (auto simp: invokes_step_def split: task_event.splits)
    with Cons False show ?thesis by (rule other)
  next
    case True
    then obtain start c where e: "e = TaskInvoked start c" "type_of c = STEP"
      by (auto simp: invokes_step_def split: task_event.splits)
    with assms Cons obtain f out es' where g: "es1 = TaskFinished start f c out # es'" "steps_closed es'"
      by (auto split: list.splits task_event.splits)
    show ?thesis
      by (rule step [of e "TaskFinished start f c out" es']) (use Cons True g e in \<open>simp_all add: invokes_step_def\<close>)
  qed
qed

lemma last_not_invoked: "steps_closed es \<Longrightarrow> es \<noteq> [] \<Longrightarrow> \<not> invokes_step (last es)"
proof (induction "length es" arbitrary: es rule: less_induct)
  case less
  from less.prems(1) show ?case
  proof (cases rule: steps_closed_cases)
    case none
    with less.prems(2) show ?thesis by simp
  next
    case (other e es')
    then show ?thesis using less.hyps [of es'] by (cases "es' = []") auto
  next
    case (step e g es')
    then show ?thesis using less.hyps [of es'] by (cases "es' = []") auto
  qed
qed

lemma access_along:
  assumes R: "reliable m"
  shows "steps_closed es \<Longrightarrow> es = told @ untold \<Longrightarrow> access d = RO \<Longrightarrow>
    \<exists>d'. seach (dispatch (ConsistentDataVersioningCallback False m)) told d = (d', Inr ()) \<and>
      (access d' = RW \<longleftrightarrow> told \<noteq> [] \<and> invokes_step (last told))"
proof (induction "length es" arbitrary: es told d rule: less_induct)
  case less
  let ?D = "dispatch (ConsistentDataVersioningCallback False m)"
  show ?case
  proof (cases told)
    case Nil
    then show ?thesis using less.prems by simp
  next
    case (Cons e told')
    obtain d1 where d1: "?D e d = (d1, Inr ())"
      and a1: "access d1 = (if invokes_step e then RW
        else if (case e of TaskFinished start finish c out \<Rightarrow> type_of c = STEP | _ \<Rightarrow> False) then RO else access d)"
      using dispatch_access [OF R, of d e] less.prems(3) by blast
    from less.prems(1) show ?thesis
    proof (cases rule: steps_closed_cases)
      case none
      with Cons less.prems(2) show ?thesis by simp
    next
      case (other e0 es')
      with Cons less.prems(2) have e0: "e0 = e" and es': "es' = told' @ untold" by auto
      have "access d1 = RO" using other(2) e0 a1 less.prems(3) by simp
      with less.hyps [of es' told' d1] other(1,3) es' obtain d' where "seach ?D told' d1 = (d', Inr ())"
        and "access d' = RW \<longleftrightarrow> told' \<noteq> [] \<and> invokes_step (last told')" by auto
      with d1 Cons other(2) e0 show ?thesis by auto
    next
      case (step e0 g es')
      with Cons less.prems(2) have e0: "e0 = e" and gs: "g # es' = told' @ untold" by auto
      show ?thesis
      proof (cases told')
        case Nil
        with step(2) e0 d1 a1 Cons show ?thesis by simp
      next
        case (Cons g0 told'')
        with gs have g0: "g0 = g" and es'': "es' = told'' @ untold" by auto
        obtain d2 where d2: "?D g d1 = (d2, Inr ())" and a2: "access d2 = RO"
          using dispatch_access [OF R, of d1 g] step(3,4) by auto
        from less.hyps [of es' told'' d2] step(1,5) es'' a2 obtain d' where "seach ?D told'' d2 = (d', Inr ())"
          and "access d' = RW \<longleftrightarrow> told'' \<noteq> [] \<and> invokes_step (last told'')" by auto
        with d1 d2 \<open>told = e # told'\<close> Cons g0 step(3) show ?thesis by auto
      qed
    qed
  qed
qed

text \<open>C10: Data can be written exactly while the body of a step runs. Whatever tasks an application executes,
  nested in any way, failing or interrupted, the consistency callback, told the events of the
  executor as they come, never raises, not even by the assertion that writing was not
  allowed; after any number of events writing is allowed if and only if the last of
  them is the invocation of a step; and when the application is done, it is not allowed.
  This is for versionings that do not fail, callbacks that do not raise, and tasks that do not raise
  \<open>SystemExit\<close>, for which the executor reports no end.\<close>

theorem writing_within_steps:
  assumes "reliable m" and "silent env" and "all_calm as"
  shows "\<exists>es. events (fst (run_actions env as s)) = events s @ es \<and>
    (\<forall>told untold d. es = told @ untold \<longrightarrow> access d = WritabilityManager \<longrightarrow>
      (\<exists>d'. seach (dispatch (ConsistentDataVersioningCallback False m)) told d = (d', Inr ()) \<and>
        (can_write (access d') \<longleftrightarrow> told \<noteq> [] \<and> invokes_step (last told)) \<and>
        (untold = [] \<longrightarrow> require_writing db (access d') = Inl (WritingDisabledException db))))"
proof -
  obtain es where es: "events (fst (run_actions env as s)) = events s @ es" "steps_closed es"
    using run_events(2) [OF assms(2,3), of s] by (auto simp: good_end_def)
  have "\<exists>d'. seach (dispatch (ConsistentDataVersioningCallback False m)) told d = (d', Inr ()) \<and>
        (can_write (access d') \<longleftrightarrow> told \<noteq> [] \<and> invokes_step (last told)) \<and>
        (untold = [] \<longrightarrow> require_writing db (access d') = Inl (WritingDisabledException db))"
    if told: "es = told @ untold" and d: "access d = WritabilityManager" for told untold d
  proof -
    obtain d' where "seach (dispatch (ConsistentDataVersioningCallback False m)) told d = (d', Inr ())"
      and "access d' = RW \<longleftrightarrow> told \<noteq> [] \<and> invokes_step (last told)"
      using access_along [OF assms(1) es(2) told] d by (auto simp: WritabilityManager_def)
    moreover have "untold = [] \<Longrightarrow> \<not> (told \<noteq> [] \<and> invokes_step (last told))"
      using last_not_invoked [OF es(2)] told by auto
    ultimately show ?thesis by (auto simp: can_write_def require_writing_def)
  qed
  with es(1) show ?thesis by blast
qed

text \<open>A versioning that keeps the number of its uncommitted changes, for the witness.\<close>

definition ex_counting :: "nat versioning" where
  "ex_counting =
     \<lparr>is_dirty = (\<lambda>n. (n, Inr (0 < n))), has_branch = (\<lambda>c. sret False), new_branch = (\<lambda>c. sret ()),
      delete_branch = (\<lambda>c. sret ()), checkout = (\<lambda>c n. (0, Inr ())), commit = (\<lambda>msg n. (0, Inr ())),
      rollback = (\<lambda>n. (0, Inr ()))\<rparr>"

definition ex_manager :: "nat versioning_manager" where
  "ex_manager = \<lparr>versionings = [ex_counting], versioning_callbacks = (\<lambda>e. sret ())\<rparr>"

lemma ex_reliable: "reliable ex_manager"
proof -
  have "manager_is_dirty ex_manager n = (n, Inr (0 < n))" for n
    by (simp add: manager_is_dirty_def ex_manager_def ex_counting_def)
  then have "returns (manager_is_dirty ex_manager)" by (simp add: returns_def)
  then show ?thesis
    by (simp add: reliable_def)
      (simp add: returns_def ex_manager_def ex_counting_def ensure_empty_branch_def manager_checkout_def
        manager_commit_def manager_rollback_def sseq_def sbind_def sret_def)
qed

definition ex_nested :: "action list" where
  "ex_nested =
     [Execute True (StrKey ''a'') STAGE
        [Execute False (StrKey ''b'') STEP [Execute True (StrKey ''c'') STEP [] None] (Some RuntimeError)] None]"

theorem writing_within_steps_witness:
  "\<exists>es. events (fst (run_actions ex_env ex_nested (ex_open []))) = events (ex_open []) @ es \<and>
    (\<forall>told untold d. es = told @ untold \<longrightarrow> access d = WritabilityManager \<longrightarrow>
      (\<exists>d'. seach (dispatch (ConsistentDataVersioningCallback False ex_manager)) told d = (d', Inr ()) \<and>
        (can_write (access d') \<longleftrightarrow> told \<noteq> [] \<and> invokes_step (last told)) \<and>
        (untold = [] \<longrightarrow> require_writing None (access d') = Inl (WritingDisabledException None))))"
proof (rule writing_within_steps [OF ex_reliable])
  show "silent ex_env" by (simp add: silent_def ex_env_def)
  show "all_calm ex_nested" by (simp add: ex_nested_def)
qed

section \<open>The data of a step\<close>

lemma on_versioned_does:
  assumes "does m R (versioned d) x r"
  obtains d' where "on_versioned m d = (d', Inr x)" and "m (versioned d) = (versioned d', Inr x)"
    and "access d' = access d" and "R (versioned d') = r"
proof -
  from assms obtain s' where s': "m (versioned d) = (s', Inr x)" "R s' = r" by (rule doesE)
  show thesis by (rule that [of "d\<lparr>versioned := s'\<rparr>"]) (simp_all add: on_versioned_def s')
qed

lemma step_invoked_data:
  assumes C: "dolt_contract q repo_of" and ok: "repo_ok (repo_in repo_of (versioned d))"
    and r: "repo_in repo_of (versioned d) = r" and ro: "access d = RO"
    and n: "quotable (branch_id uuid5 c)" "branch_id uuid5 c \<noteq> active r" "quotable (active r)"
  shows "\<exists>d1. on_step_invoked (quiet_manager uuid5 q) c d = (d1, Inr ()) \<and> access d1 = RW \<and>
    repo_in repo_of (versioned d1) =
      repo_checkout (branch_id uuid5 c) (repo_branch (branch_id uuid5 c) (active r) r) \<and>
    map_of (known (versioned d1)) (branch_id uuid5 c) = Some (''TaskCoordinates'', str_of_coordinates c)"
proof -
  let ?R = "repo_in repo_of" and ?n = "branch_id uuid5 c" and ?m = "quiet_manager uuid5 q"
  let ?r1 = "repo_branch ?n (active r) r"
  have N: "name_of_branch uuid5 (Some c) = ?n" by (simp add: name_of_branch_def)
  have okr: "repo_ok r" and act: "active r \<in> dom (heads r)" using ok r by (auto simp: repo_ok_def)
  have "does (ensure_empty_branch ?m (Some c)) ?R (versioned d) () ?r1"
    using does_ensure_empty_branch [OF C ok r, of uuid5 "Some c"] n by (simp add: N)
  then obtain d0 where d0: "on_versioned (ensure_empty_branch ?m (Some c)) d = (d0, Inr ())" "access d0 = RO"
    "?R (versioned d0) = ?r1" by (rule on_versioned_does) (use ro in simp)
  have "does (manager_checkout ?m (Some c)) ?R (versioned d0) () (repo_checkout ?n ?r1)"
    using does_manager_checkout [OF C _ d0(3), of uuid5 "Some c"] n(1) act repo_ok_steps(1) [OF okr act] d0(3)
    by (auto simp: N repo_branch_def)
  then obtain d1 where d1: "on_versioned (manager_checkout ?m (Some c)) d0 = (d1, Inr ())"
    "manager_checkout ?m (Some c) (versioned d0) = (versioned d1, Inr ())" "access d1 = RO"
    "?R (versioned d1) = repo_checkout ?n ?r1" by (rule on_versioned_does) (use d0(2) in simp)
  from d0(1) d1(1,3) have "on_step_invoked ?m c d = (d1\<lparr>access := RW\<rparr>, Inr ())"
    by (simp add: on_step_invoked_def sseq_def sbind_def on_access_def allow_writing_def)
  with d1(4) known_manager_checkout [OF d1(2)] show ?thesis by (intro exI [of _ "d1\<lparr>access := RW\<rparr>"]) simp
qed

lemma step_finished_data:
  assumes C: "dolt_contract q repo_of" and ok: "repo_ok (repo_in repo_of (versioned d))"
    and r: "repo_in repo_of (versioned d) = r"
    and at: "from_branch_name ''main'' (active r) (known (versioned d)) = Inr at" "quotable (str_of_optional at)"
  shows "\<exists>d'. on_step_finished (quiet_manager uuid5 q) out d = (d', Inr ()) \<and> access d' = RO \<and>
    repo_in repo_of (versioned d') = (if is_Success out then repo_commit r else repo_reset r)"
proof -
  let ?m = "quiet_manager uuid5 q" and ?R = "repo_in repo_of"
  have "does (dolt_commit q None) ?R (versioned d) () (repo_commit r)"
    by (rule does_commit_of [OF C ok r at(1)]) (simp add: at(2))
  then have com: "does (manager_commit ?m) ?R (versioned d) () (repo_commit r)"
    unfolding manager_commit_def quiet_manager_def versioning_manager.select_convs
    by (intro does_after_sret does_single) (simp add: SqlAlchemyDoltVersioning_def)
  have "does (dolt_rollback q) ?R (versioned d) () (repo_reset r)"
    unfolding dolt_rollback_def by (rule dolt_procedures(7) [OF C ok r])
  then have "does (manager_rollback ?m) ?R (versioned d) () (repo_reset r)"
    unfolding manager_rollback_def quiet_manager_def versioning_manager.select_convs
    by (intro does_after_sret does_single) (simp add: SqlAlchemyDoltVersioning_def)
  with com have "does (if is_Success out then manager_commit ?m else manager_rollback ?m) ?R (versioned d) ()
      (if is_Success out then repo_commit r else repo_reset r)" by simp
  then obtain d' where "on_versioned (if is_Success out then manager_commit ?m else manager_rollback ?m) d = (d', Inr ())"
    "?R (versioned d') = (if is_Success out then repo_commit r else repo_reset r)" by (rule on_versioned_does)
  then show ?thesis
    by (intro exI [of _ "d'\<lparr>access := RO\<rparr>"])
      (simp add: on_step_finished_def sseq_def sbind_def on_access_def disallow_writing_def)
qed

text \<open>C11: The data of a step. When the consistency callback is told that a step is invoked, on a
  repository with another active branch, the branch of the step is made anew from the head of
  the active branch, whether or not it exists, becomes active, and writing is allowed.
  Whatever the step then makes of the tables: when the callback is told that the step has
  finished successfully, this is the committed data of its branch; when it has finished in any other way, the
  branch keeps the committed data of the branch before it, and the tables which are in there are restored in its
  working set, where tables that the step created stay untracked. In both cases
  no other branch has changed, committed or not, and writing is no longer allowed.\<close>

theorem step_data:
  fixes repo_of :: "'s \<Rightarrow> 'd repo"
  assumes "dolt_contract q repo_of" and "repo_ok (repo_in repo_of (versioned d))"
    and "repo_in repo_of (versioned d) = r" and "heads r (active r) = Some base" and "access d = RO"
    and "type_of c = STEP" and "plain_coordinates c" and "quotable (str_of_coordinates c)"
    and "quotable (branch_id uuid5 c)" and "branch_id uuid5 c \<notin> {active r, ''main''}" and "quotable (active r)"
  shows "\<exists>d1. dispatch (ConsistentDataVersioningCallback warnings_raise (quiet_manager uuid5 q))
        (TaskInvoked start c) d = (d1, Inr ()) \<and> access d1 = RW \<and>
      repo_in repo_of (versioned d1) = r\<lparr>heads := (heads r)(branch_id uuid5 c \<mapsto> base),
        workings := (workings r)(branch_id uuid5 c \<mapsto> base), active := branch_id uuid5 c\<rparr> \<and>
      (\<forall>d2 x finish out. known (versioned d2) = known (versioned d1) \<longrightarrow>
        repo_in repo_of (versioned d2) = repo_write x (repo_in repo_of (versioned d1)) \<longrightarrow>
        (\<exists>d3. dispatch (ConsistentDataVersioningCallback warnings_raise (quiet_manager uuid5 q))
            (TaskFinished start finish c out) d2 = (d3, Inr ()) \<and> access d3 = RO \<and>
          repo_in repo_of (versioned d3) =
            r\<lparr>heads := (heads r)(branch_id uuid5 c \<mapsto> (if is_Success out then x else base)),
              workings := (workings r)(branch_id uuid5 c \<mapsto>
                (if is_Success out then x else restore_tracked base x)),
              active := branch_id uuid5 c\<rparr>))"
proof -
  let ?R = "repo_in repo_of" and ?n = "branch_id uuid5 c" and ?m = "quiet_manager uuid5 q"
  let ?r1 = "r\<lparr>heads := (heads r)(?n \<mapsto> base), workings := (workings r)(?n \<mapsto> base), active := ?n\<rparr>"
  have act: "active r \<in> dom (heads r)" and okr: "repo_ok r" using assms(2,3) by (auto simp: repo_ok_def)
  have r1: "repo_checkout ?n (repo_branch ?n (active r) r) = ?r1" using assms(4) by (simp add: repo_defs)
  have ok1: "repo_ok ?r1" unfolding r1 [symmetric]
    by (intro repo_ok_steps(3) repo_ok_steps(1) okr act) (use act in \<open>auto simp: repo_branch_def\<close>)
  obtain d1 where d1: "on_step_invoked ?m c d = (d1, Inr ())" "access d1 = RW" "?R (versioned d1) = ?r1"
    and k: "map_of (known (versioned d1)) ?n = Some (''TaskCoordinates'', str_of_coordinates c)"
    using step_invoked_data [OF assms(1,2,3,5,9) _ assms(11)] assms(10) r1 by auto
  have "\<exists>d3. on_step_finished ?m out d2 = (d3, Inr ()) \<and> access d3 = RO \<and>
      ?R (versioned d3) = r\<lparr>heads := (heads r)(?n \<mapsto> (if is_Success out then x else base)),
        workings := (workings r)(?n \<mapsto> (if is_Success out then x else restore_tracked base x)), active := ?n\<rparr>"
    if d2: "known (versioned d2) = known (versioned d1)" "?R (versioned d2) = repo_write x (?R (versioned d1))"
    for d2 x and out :: "unit outcome"
  proof -
    have R2: "?R (versioned d2) = repo_write x ?r1" using d2(2) d1(3) by simp
    then have ok2: "repo_ok (?R (versioned d2))" using repo_ok_steps(6) [OF ok1] by simp
    have "from_branch_name ''main'' (active (repo_write x ?r1)) (known (versioned d2)) = Inr (Some c)"
      using from_branch_name_known [OF _ assms(7) k, of "''main''"] d2(1) assms(10) by (simp add: repo_write_def)
    from step_finished_data [OF assms(1) ok2 R2 this, of uuid5 out] assms(8)
    obtain d3 where "on_step_finished ?m out d2 = (d3, Inr ())" "access d3 = RO"
      "?R (versioned d3) = (if is_Success out then repo_commit (repo_write x ?r1) else repo_reset (repo_write x ?r1))"
      by (auto simp: str_of_optional_def)
    then show ?thesis by (intro exI [of _ d3]) (simp add: repo_defs)
  qed
  with d1 assms(6) show ?thesis
    by (intro exI [of _ d1]) (simp add: ConsistentDataVersioningCallback_def)
qed

definition ex_data_state :: "nat repo dolt_state data_state" where
  "ex_data_state = \<lparr>versioned = ex_dolt, access = RO\<rparr>"

theorem step_data_witness:
  "\<exists>d1. dispatch (ConsistentDataVersioningCallback False (quiet_manager ex_uuid5 ex_session))
      (TaskInvoked 7 ex_coordinates) ex_data_state = (d1, Inr ()) \<and>
    active (database_state (versioned d1)) = branch_id ex_uuid5 ex_coordinates \<and>
    heads (database_state (versioned d1)) (branch_id ex_uuid5 ex_coordinates) = Some [''users'' \<mapsto> 5]"
proof -
  have a: "active (repo_in (\<lambda>r. r) (versioned ex_data_state)) = ''main''"
    "heads (repo_in (\<lambda>r. r) (versioned ex_data_state)) ''main'' = Some [''users'' \<mapsto> 5]"
    "repo_ok (repo_in (\<lambda>r. r) (versioned ex_data_state))" "access ex_data_state = RO"
    using ex_dolt_ok by (simp_all add: repo_in_def ex_dolt_def ex_data_state_def)
  have "type_of ex_coordinates = STEP" by (simp add: ex_coordinates_def)
  from step_data [OF ex_session_contract a(3) refl _ a(4) this ex_plain ex_quotable(1,2), of "[''users'' \<mapsto> 5]" False 7]
  show ?thesis using a ex_quotable(3,4) by (auto simp: repo_in_def)
qed

end
