(* ===== verification/Serialization.thy ===== *)
theory Serialization
  imports Task_Model
begin

text \<open>
  \<open>thinking_programming/serialization.py\<close>: values of the program to plain values and back, which
  is how everything gets into TinyDB and out of it.

  A value is natively serializable (none, a number, text), a date, a UUID, a member of an
  enumeration, coordinates (the one class with a serialization of its own), a list, a
  dictionary, an object of a class that mixes in the serialization of its attributes, an array,
  or an object of some other class. A representation is such a value made of native values, lists and
  dictionaries. Floats, dates and UUIDs are those of the standard library: their conversions are
  parameters, with what is documented of them where a property needs it.
\<close>

section \<open>Values and types\<close>

datatype 'f py =
    PyNone
  | PyBool bool
  | PyInt int
  | PyFloat 'f
  | PyStr string
  | PyDatetime int
  | PyUuid nat
  | PyEnum nat string
  | PyCoordinates coordinates
  | PyList "'f py list"
  | PyDict "('f py \<times> 'f py) list"
  | PyObject nat "(string \<times> 'f py) list"
  | PyArray "'f list"
  | PyOther nat

text \<open>
  Types as they are written in hints; \<open>HNative\<close> is the union \<open>NativelySerializableValue\<close>, the
  aliases \<open>list[...]\<close> and \<open>dict[...]\<close> carry their arguments.
\<close>

datatype hint =
    HStr | HInt | HFloat | HBool | HNone | HNative
  | HDatetime | HUuid | HEnum nat | HCoordinates | HList | HDict | HArray
  | HClass nat | HOther nat
  | HListOf "hint list" | HDictOf "hint list"

text \<open>A class with its type hints, and the defaults of the initialiser that \<open>dataclass\<close> makes.\<close>

record 'f class_def =
  cd_type_id :: string
  cd_polymorphic :: bool
  cd_fields :: "(string \<times> hint \<times> 'f py option) list"

record 'f python =
  timestamp :: "int \<Rightarrow> 'f"
  fromtimestamp :: "'f py \<Rightarrow> int res"
  uuid_text :: "nat \<Rightarrow> string"
  uuid_of :: "'f py \<Rightarrow> nat res"
  as_integer :: "'f \<Rightarrow> int option"
  truncated :: "'f \<Rightarrow> int res"
  float_of :: "'f py \<Rightarrow> 'f res"
  text_of :: "'f py \<Rightarrow> string"
  asarray :: "'f py \<Rightarrow> 'f py res"
  numpy_found :: bool
  derives :: "nat \<Rightarrow> nat \<Rightarrow> bool"
  class_of :: "nat \<Rightarrow> 'f class_def"
  enum_members :: "nat \<Rightarrow> string list"
  ID_TO_CLS :: "(string, nat) dict"

section \<open>Instances and conversions\<close>

fun is_alias_hint :: "hint \<Rightarrow> bool" where
  "is_alias_hint (HListOf hs) = True"
| "is_alias_hint (HDictOf hs) = True"
| "is_alias_hint _ = False"

text \<open>\<open>isinstance(o, NativelySerializableValue)\<close>, and \<open>isinstance(o, t)\<close> for a type that is no alias.\<close>

fun is_native :: "'f py \<Rightarrow> bool" where
  "is_native PyNone = True"
| "is_native (PyBool b) = True"
| "is_native (PyInt i) = True"
| "is_native (PyFloat x) = True"
| "is_native (PyStr s) = True"
| "is_native _ = False"

fun is_easy :: "'f py \<Rightarrow> bool" where
  "is_easy (PyDatetime d) = True"
| "is_easy (PyUuid u) = True"
| "is_easy v = is_native v"

fun is_instance :: "'f python \<Rightarrow> 'f py \<Rightarrow> hint \<Rightarrow> bool" where
  "is_instance p v HNative = is_native v"
| "is_instance p v HStr = (case v of PyStr s \<Rightarrow> True | _ \<Rightarrow> False)"
| "is_instance p v HInt = (case v of PyInt i \<Rightarrow> True | PyBool b \<Rightarrow> True | _ \<Rightarrow> False)"
| "is_instance p v HFloat = (case v of PyFloat x \<Rightarrow> True | _ \<Rightarrow> False)"
| "is_instance p v HBool = (case v of PyBool b \<Rightarrow> True | _ \<Rightarrow> False)"
| "is_instance p v HNone = (v = PyNone)"
| "is_instance p v HDatetime = (case v of PyDatetime d \<Rightarrow> True | _ \<Rightarrow> False)"
| "is_instance p v HUuid = (case v of PyUuid u \<Rightarrow> True | _ \<Rightarrow> False)"
| "is_instance p v (HEnum e) = (case v of PyEnum e' n \<Rightarrow> e' = e | _ \<Rightarrow> False)"
| "is_instance p v HCoordinates = (case v of PyCoordinates c \<Rightarrow> True | _ \<Rightarrow> False)"
| "is_instance p v HList = (case v of PyList xs \<Rightarrow> True | _ \<Rightarrow> False)"
| "is_instance p v HDict = (case v of PyDict d \<Rightarrow> True | _ \<Rightarrow> False)"
| "is_instance p v HArray = (case v of PyArray xs \<Rightarrow> True | _ \<Rightarrow> False)"
| "is_instance p v (HClass c) = (case v of PyObject c' attrs \<Rightarrow> derives p c' c | _ \<Rightarrow> False)"
| "is_instance p v (HOther c) = (case v of PyOther c' \<Rightarrow> derives p c' c | _ \<Rightarrow> False)"
| "is_instance p v (HListOf hs) = False"
| "is_instance p v (HDictOf hs) = False"

text \<open>\<open>issubclass(t, EasilySerializableValue)\<close>: the first argument has to be a class.\<close>

fun is_easy_class :: "hint \<Rightarrow> bool res" where
  "is_easy_class (HListOf hs) = Inl TypeError"
| "is_easy_class (HDictOf hs) = Inl TypeError"
| "is_easy_class HNative = Inl TypeError"
| "is_easy_class h = Inr (h \<in> {HStr, HInt, HFloat, HBool, HNone, HDatetime, HUuid})"

text \<open>The calls \<open>str(o)\<close>, \<open>int(o)\<close>, \<open>float(o)\<close>, \<open>bool(o)\<close> and \<open>NoneType(o)\<close>.\<close>

fun truth :: "'f python \<Rightarrow> 'f py \<Rightarrow> bool" where
  "truth p PyNone = False"
| "truth p (PyBool b) = b"
| "truth p (PyInt i) = (i \<noteq> 0)"
| "truth p (PyFloat x) = (as_integer p x \<noteq> Some 0)"
| "truth p (PyStr s) = (s \<noteq> [])"
| "truth p (PyList xs) = (xs \<noteq> [])"
| "truth p (PyDict d) = (d \<noteq> [])"
| "truth p v = True"

fun to_int :: "'f python \<Rightarrow> 'f py \<Rightarrow> int res" where
  "to_int p (PyBool b) = Inr (if b then 1 else 0)"
| "to_int p (PyInt i) = Inr i"
| "to_int p (PyFloat x) = truncated p x"
| "to_int p (PyStr s) = py_int s"
| "to_int p v = Inl TypeError"

fun to_str :: "'f python \<Rightarrow> 'f py \<Rightarrow> string" where
  "to_str p (PyStr s) = s"
| "to_str p (PyInt i) = str_of_int i"
| "to_str p (PyBool b) = (if b then ''True'' else ''False'')"
| "to_str p PyNone = ''None''"
| "to_str p v = text_of p v"

fun convert :: "'f python \<Rightarrow> hint \<Rightarrow> 'f py \<Rightarrow> 'f py res" where
  "convert p HStr v = Inr (PyStr (to_str p v))"
| "convert p HInt v = rbind (to_int p v) (\<lambda>i. Inr (PyInt i))"
| "convert p HFloat v = rbind (float_of p v) (\<lambda>x. Inr (PyFloat x))"
| "convert p HBool v = Inr (PyBool (truth p v))"
| "convert p HNone v = Inl TypeError"
| "convert p h v = Inl AssertionError"

section \<open>Dictionaries of plain values\<close>

text \<open>
  Equal numbers are equal keys, whatever their type. Assigning to a present key keeps the
  key that is there.
\<close>

datatype 'f key = KNone | KNumber int | KFloat 'f | KText string | KOther "'f py"

fun key_of :: "'f python \<Rightarrow> 'f py \<Rightarrow> 'f key" where
  "key_of p PyNone = KNone"
| "key_of p (PyBool b) = KNumber (if b then 1 else 0)"
| "key_of p (PyInt i) = KNumber i"
| "key_of p (PyFloat x) = (case as_integer p x of None \<Rightarrow> KFloat x | Some i \<Rightarrow> KNumber i)"
| "key_of p (PyStr s) = KText s"
| "key_of p v = KOther v"

fun dict_put :: "'f python \<Rightarrow> 'f py \<Rightarrow> 'f py \<Rightarrow> ('f py \<times> 'f py) list \<Rightarrow> ('f py \<times> 'f py) list" where
  "dict_put p k v [] = [(k, v)]"
| "dict_put p k v ((k', v') # d) =
     (if key_of p k' = key_of p k then (k', v) # d else (k', v') # dict_put p k v d)"

definition dict_of :: "'f python \<Rightarrow> ('f py \<times> 'f py) list \<Rightarrow> ('f py \<times> 'f py) list" where
  "dict_of p items = fold (\<lambda>(k, v). dict_put p k v) items []"

fun dict_find :: "'f python \<Rightarrow> 'f py \<Rightarrow> ('f py \<times> 'f py) list \<Rightarrow> 'f py option" where
  "dict_find p k [] = None"
| "dict_find p k ((k', v) # d) = (if key_of p k' = key_of p k then Some v else dict_find p k d)"

definition dict_del :: "'f python \<Rightarrow> 'f py \<Rightarrow> ('f py \<times> 'f py) list \<Rightarrow> ('f py \<times> 'f py) list" where
  "dict_del p k d = filter (\<lambda>(k', v). key_of p k' \<noteq> key_of p k) d"

section \<open>Serializing\<close>

definition TYPE_ID_FIELD :: string where
  "TYPE_ID_FIELD = ''__type_id__''"

definition enhance :: "'f python \<Rightarrow> nat \<Rightarrow> ('f py \<times> 'f py) list \<Rightarrow> ('f py \<times> 'f py) list" where
  "enhance p c d =
     (if cd_polymorphic (class_of p c) then dict_put p (PyStr TYPE_ID_FIELD) (PyStr (cd_type_id (class_of p c))) d
      else d)"

fun serialize :: "'f python \<Rightarrow> 'f py \<Rightarrow> 'f py res" where
  "serialize p (PyDatetime d) = Inr (PyFloat (timestamp p d))"
| "serialize p (PyUuid u) = Inr (PyStr (uuid_text p u))"
| "serialize p (PyEnum e n) = Inr (PyStr n)"
| "serialize p (PyCoordinates c) = Inr (PyStr (str_of_coordinates c))"
| "serialize p (PyObject c attrs) =
     rbind (traverse (\<lambda>(k, v). rbind (serialize p v) (\<lambda>r. Inr (PyStr k, r))) attrs)
       (\<lambda>items. Inr (PyDict (enhance p c items)))"
| "serialize p (PyList xs) = rbind (traverse (serialize p) xs) (\<lambda>rs. Inr (PyList rs))"
| "serialize p (PyDict d) =
     rbind (traverse (\<lambda>(k, v). rbind (guard_that (is_easy k) AssertionError)
              (\<lambda>_. rbind (serialize p v) (\<lambda>rv. rbind (serialize p k) (\<lambda>rk. Inr (rk, rv))))) d)
       (\<lambda>items. Inr (PyDict (dict_of p items)))"
| "serialize p (PyArray xs) = (if numpy_found p then Inr (PyList (map PyFloat xs)) else Inl AssertionError)"
| "serialize p (PyOther c) = Inl AssertionError"
| "serialize p v = Inr v"

section \<open>Deserializing\<close>

definition choose_type :: "'f python \<Rightarrow> nat \<Rightarrow> ('f py \<times> 'f py) list \<Rightarrow> nat res" where
  "choose_type p c d =
     (if \<not> cd_polymorphic (class_of p c) then Inr c
      else case dict_find p (PyStr TYPE_ID_FIELD) d of
             None \<Rightarrow> Inl KeyError
           | Some v \<Rightarrow>
               (case v of
                  PyStr i \<Rightarrow> (case map_of (ID_TO_CLS p) i of None \<Rightarrow> Inl KeyError | Some t \<Rightarrow> Inr t)
                | PyList xs \<Rightarrow> Inl TypeError
                | PyDict e \<Rightarrow> Inl TypeError
                | _ \<Rightarrow> Inl KeyError))"

text \<open>\<open>_simplify\<close> deletes the identifier of the type from the dictionary itself.\<close>

definition simplify :: "'f python \<Rightarrow> nat \<Rightarrow> ('f py \<times> 'f py) list \<Rightarrow> ('f py \<times> 'f py) list" where
  "simplify p c d = (if cd_polymorphic (class_of p c) then dict_del p (PyStr TYPE_ID_FIELD) d else d)"

definition type_hint :: "'f python \<Rightarrow> nat \<Rightarrow> 'f py \<Rightarrow> (string \<times> hint) res" where
  "type_hint p t k =
     (case k of
        PyStr n \<Rightarrow> (case map_of (cd_fields (class_of p t)) n of None \<Rightarrow> Inl KeyError | Some (h, _) \<Rightarrow> Inr (n, h))
      | _ \<Rightarrow> Inl KeyError)"

text \<open>\<open>t(**serial_data)\<close> for a dataclass: every argument is a field, every field without a default is given.\<close>

definition construct :: "'f python \<Rightarrow> nat \<Rightarrow> (string \<times> 'f py) list \<Rightarrow> 'f py res" where
  "construct p t given =
     (let fields = cd_fields (class_of p t)
      in if \<exists>k \<in> set (map fst given). k \<notin> set (map fst fields) then Inl TypeError
         else rbind (traverse (\<lambda>(n, h, def).
                case map_of given n of
                  Some v \<Rightarrow> Inr (n, v)
                | None \<Rightarrow> (case def of Some v \<Rightarrow> Inr (n, v) | None \<Rightarrow> Inl TypeError)) fields)
              (\<lambda>attrs. Inr (PyObject t attrs)))"

definition parse_coordinates :: "'f py \<Rightarrow> 'f py res" where
  "parse_coordinates v =
     (case v of PyStr s \<Rightarrow> rbind (parse s) (\<lambda>c. Inr (PyCoordinates c)) | _ \<Rightarrow> Inl AttributeError)"

text \<open>The entries of \<open>DESERIALIZERS\<close> that need no recursion, and the native types after them.\<close>

fun by_type_of_hint :: "'f python \<Rightarrow> hint \<Rightarrow> 'f py \<Rightarrow> 'f py res" where
  "by_type_of_hint p HDatetime v = rbind (fromtimestamp p v) (\<lambda>d. Inr (PyDatetime d))"
| "by_type_of_hint p HUuid v = rbind (uuid_of p v) (\<lambda>u. Inr (PyUuid u))"
| "by_type_of_hint p (HEnum e) v =
     (case v of
        PyStr n \<Rightarrow> (if n \<in> set (enum_members p e) then Inr (PyEnum e n) else Inl KeyError)
      | PyList xs \<Rightarrow> Inl TypeError
      | PyDict d \<Rightarrow> Inl TypeError
      | _ \<Rightarrow> Inl KeyError)"
| "by_type_of_hint p HCoordinates v = parse_coordinates v"
| "by_type_of_hint p HArray v = (if numpy_found p then asarray p v else Inl AssertionError)"
| "by_type_of_hint p (HListOf hs) v = Inl TypeError"
| "by_type_of_hint p (HDictOf hs) v = Inl TypeError"
| "by_type_of_hint p HNative v = Inl TypeError"
| "by_type_of_hint p h v = convert p h v"

lemma size_in_list [termination_simp]: "x \<in> set xs \<Longrightarrow> size x < Suc (size_list size xs)"
  by (induction xs) auto

lemma size_value_in_dict [termination_simp]: "(k, v) \<in> set d \<Longrightarrow> size v < Suc (size_list (size_prod size size) d)"
  by (induction d) auto

lemma size_key_in_dict [termination_simp]: "(k, v) \<in> set d \<Longrightarrow> size k < Suc (size_list (size_prod size size) d)"
  by (induction d) auto

lemma in_simplify: "x \<in> set (simplify p c d) \<Longrightarrow> x \<in> set d"
  by (auto simp: simplify_def dict_del_def split: if_splits)

function deserialize :: "'f python \<Rightarrow> 'f py \<Rightarrow> hint \<Rightarrow> 'f py res" where
  "deserialize p v h =
     (if v = PyNone \<or> \<not> is_alias_hint h \<and> is_instance p v h then Inr v
      else case (v, h) of
        (PyList xs, HListOf hs) \<Rightarrow>
          (if length hs = 1 then rbind (traverse (\<lambda>x. deserialize p x (hd hs)) xs) (\<lambda>ys. Inr (PyList ys))
           else Inl AssertionError)
      | (PyList xs, HDictOf hs) \<Rightarrow> Inl AssertionError
      | (PyDict d, HDictOf [hk, hv]) \<Rightarrow>
          rbind (is_easy_class hk)
            (\<lambda>easy. if easy
               then rbind (traverse (\<lambda>(k, x). rbind (deserialize p k hk)
                        (\<lambda>k'. rbind (deserialize p x hv) (\<lambda>x'. Inr (k', x')))) d)
                      (\<lambda>items. Inr (PyDict (dict_of p items)))
               else Inl TypeError)
      | (PyDict d, HClass c) \<Rightarrow>
          rbind (choose_type p c d)
            (\<lambda>t. rbind (traverse (\<lambda>(k, x). rbind (type_hint p t k)
                     (\<lambda>(n, h'). rbind (deserialize p x h') (\<lambda>x'. Inr (n, x')))) (simplify p c d))
               (construct p t))
      | (_, HClass c) \<Rightarrow> Inl (if cd_polymorphic (class_of p c) then TypeError else AttributeError)
      | _ \<Rightarrow> by_type_of_hint p h v)"
  by pat_completeness auto

termination
  by (relation "measure (\<lambda>(p, v, h). size v)")
    (auto dest!: in_simplify simp: termination_simp)

declare deserialize.simps [simp del]

section \<open>Storing as JSON\<close>

text \<open>
  TinyDB stores documents as JSON, whose keys are text: the \<open>json\<close> module writes other keys as
  text, and reading gives back text. Of equal keys the last one counts.
\<close>

fun json_key :: "'f python \<Rightarrow> 'f py \<Rightarrow> string" where
  "json_key p (PyStr s) = s"
| "json_key p (PyInt i) = str_of_int i"
| "json_key p (PyBool b) = (if b then ''true'' else ''false'')"
| "json_key p PyNone = ''null''"
| "json_key p v = text_of p v"

fun jsonify :: "'f python \<Rightarrow> 'f py \<Rightarrow> 'f py" where
  "jsonify p (PyList xs) = PyList (map (jsonify p) xs)"
| "jsonify p (PyDict d) = PyDict (dict_of p (map (\<lambda>(k, v). (PyStr (json_key p k), jsonify p v)) d))"
| "jsonify p v = v"

definition carried :: "'f python \<Rightarrow> bool \<Rightarrow> 'f py \<Rightarrow> 'f py" where
  "carried p json v = (if json then jsonify p v else v)"

section \<open>Values that fit a hint\<close>

definition plain :: "'f python \<Rightarrow> 'f py \<Rightarrow> 'f py" where
  "plain p k = (case serialize p k of Inl e \<Rightarrow> PyNone | Inr r \<Rightarrow> r)"

text \<open>Through JSON come keys that are text, integers or UUIDs, not those of other types.\<close>

fun json_key_ok :: "hint \<Rightarrow> 'f py \<Rightarrow> bool" where
  "json_key_ok HStr k = (case k of PyStr s \<Rightarrow> True | _ \<Rightarrow> False)"
| "json_key_ok HInt k = (case k of PyInt i \<Rightarrow> True | _ \<Rightarrow> False)"
| "json_key_ok HUuid k = (case k of PyUuid u \<Rightarrow> True | _ \<Rightarrow> False)"
| "json_key_ok h k = False"

definition keys_fit :: "'f python \<Rightarrow> bool \<Rightarrow> hint \<Rightarrow> 'f py list \<Rightarrow> bool" where
  "keys_fit p json hk ks \<longleftrightarrow>
     is_easy_class hk = Inr True \<and> list_all is_easy ks \<and> (json \<longrightarrow> list_all (json_key_ok hk) ks) \<and>
     distinct (map (key_of p) ks) \<and> distinct (map (key_of p \<circ> plain p) ks)"

definition class_fits :: "'f python \<Rightarrow> nat \<Rightarrow> nat \<Rightarrow> bool" where
  "class_fits p c0 c \<longleftrightarrow>
     (if cd_polymorphic (class_of p c0)
      then cd_polymorphic (class_of p c) \<and> map_of (ID_TO_CLS p) (cd_type_id (class_of p c)) = Some c
      else c = c0)"

definition names_fit :: "'f python \<Rightarrow> nat \<Rightarrow> string list \<Rightarrow> bool" where
  "names_fit p c ns \<longleftrightarrow>
     ns = map fst (cd_fields (class_of p c)) \<and> distinct ns \<and> TYPE_ID_FIELD \<notin> set ns"

definition hint_of :: "'f python \<Rightarrow> nat \<Rightarrow> string \<Rightarrow> hint" where
  "hint_of p c n = (case map_of (cd_fields (class_of p c)) n of Some (h, _) \<Rightarrow> h | None \<Rightarrow> HNone)"

text \<open>
  \<open>fits p json h v\<close>: \<open>v\<close> is a value of the type that \<open>h\<close> says, with dates, UUIDs and coordinates
  that their own conversions give back, and keys that stay apart. With \<open>json\<close>, its keys also
  come through JSON. Every field may be none.
\<close>

fun fits :: "'f python \<Rightarrow> bool \<Rightarrow> hint \<Rightarrow> 'f py \<Rightarrow> bool" where
  "fits p json h PyNone = True"
| "fits p json h (PyBool b) = (h \<in> {HBool, HInt, HNative})"
| "fits p json h (PyInt i) = (h \<in> {HInt, HNative})"
| "fits p json h (PyFloat x) = (h \<in> {HFloat, HNative})"
| "fits p json h (PyStr s) = (h \<in> {HStr, HNative})"
| "fits p json h (PyDatetime d) = (h = HDatetime \<and> fromtimestamp p (PyFloat (timestamp p d)) = Inr d)"
| "fits p json h (PyUuid u) = (h = HUuid \<and> uuid_of p (PyStr (uuid_text p u)) = Inr u)"
| "fits p json h (PyEnum e n) = (h = HEnum e \<and> n \<in> set (enum_members p e))"
| "fits p json h (PyCoordinates c) = (h = HCoordinates \<and> plain_coordinates c)"
| "fits p json h (PyList xs) =
     (case h of
        HListOf hs \<Rightarrow> length hs = 1 \<and> (\<forall>x \<in> set xs. fits p json (hd hs) x)
      | HList \<Rightarrow> list_all is_native xs
      | _ \<Rightarrow> False)"
| "fits p json h (PyDict d) =
     (case h of
        HDictOf [hk, hv] \<Rightarrow>
          keys_fit p json hk (map fst d) \<and> (\<forall>(k, x) \<in> set d. fits p json hk k \<and> fits p json hv x)
      | _ \<Rightarrow> False)"
| "fits p json h (PyObject c attrs) =
     (case h of
        HClass c0 \<Rightarrow> class_fits p c0 c \<and> names_fit p c (map fst attrs) \<and>
          (\<forall>(n, x) \<in> set attrs. fits p json (hint_of p c n) x)
      | _ \<Rightarrow> False)"
| "fits p json h (PyArray xs) =
     (h = HArray \<and> numpy_found p \<and> asarray p (PyList (map PyFloat xs)) = Inr (PyArray xs))"
| "fits p json h (PyOther c) = False"

section \<open>Dictionaries with distinct keys\<close>

lemma dict_put_new:
  "key_of p k \<notin> set (map (key_of p \<circ> fst) d) \<Longrightarrow> dict_put p k v d = d @ [(k, v)]"
  by (induction p k v d rule: dict_put.induct) auto

lemma dict_of_append:
  "distinct (map (key_of p \<circ> fst) (acc @ d)) \<Longrightarrow> fold (\<lambda>(k, v). dict_put p k v) d acc = acc @ d"
  by (induction d arbitrary: acc) (auto simp: dict_put_new)

lemma dict_of_distinct: "distinct (map (key_of p \<circ> fst) d) \<Longrightarrow> dict_of p d = d"
  using dict_of_append [of p "[]" d] by (simp add: dict_of_def)

lemma dict_find_append:
  "key_of p k \<notin> set (map (key_of p \<circ> fst) d) \<Longrightarrow> dict_find p k (d @ [(k, v)]) = Some v"
  by (induction d) auto

lemma dict_del_append:
  "key_of p k \<notin> set (map (key_of p \<circ> fst) d) \<Longrightarrow> dict_del p k (d @ [(k, v)]) = d"
  by (fastforce simp: dict_del_def image_iff intro!: filter_True)

lemma str_of_int_inj: "str_of_int i = str_of_int j \<longleftrightarrow> i = j"
  by (metis py_int_str_of_int sum.inject(2))

lemma distinct_map_coarser:
  assumes "distinct (map f xs)" and "\<And>x y. x \<in> set xs \<Longrightarrow> y \<in> set xs \<Longrightarrow> g x = g y \<Longrightarrow> f x = f y"
  shows "distinct (map g xs)"
  using assms(1) assms(2) unfolding distinct_map inj_on_def by blast

section \<open>One step of deserializing\<close>

lemma deserialize_none [simp]: "deserialize p PyNone h = Inr PyNone"
  by (simp add: deserialize.simps)

lemma deserialize_instance: "\<not> is_alias_hint h \<Longrightarrow> is_instance p v h \<Longrightarrow> deserialize p v h = Inr v"
  by (simp add: deserialize.simps)

lemma deserialize_list:
  "deserialize p (PyList xs) (HListOf [h]) = rbind (traverse (\<lambda>x. deserialize p x h) xs) (\<lambda>ys. Inr (PyList ys))"
  by (simp add: deserialize.simps [of p "PyList xs"])

lemma deserialize_dict:
  "is_easy_class hk = Inr True \<Longrightarrow> deserialize p (PyDict d) (HDictOf [hk, hv]) =
     rbind (traverse (\<lambda>(k, x). rbind (deserialize p k hk) (\<lambda>k'. rbind (deserialize p x hv) (\<lambda>x'. Inr (k', x')))) d)
       (\<lambda>items. Inr (PyDict (dict_of p items)))"
  by (simp add: deserialize.simps [of p "PyDict d"])

lemma deserialize_object:
  "deserialize p (PyDict d) (HClass c) =
     rbind (choose_type p c d)
       (\<lambda>t. rbind (traverse (\<lambda>(k, x). rbind (type_hint p t k)
                (\<lambda>(n, h'). rbind (deserialize p x h') (\<lambda>x'. Inr (n, x')))) (simplify p c d))
          (construct p t))"
  by (simp add: deserialize.simps [of p "PyDict d"])

section \<open>Round trips\<close>

lemma plain_simps [simp]:
  "plain p PyNone = PyNone" "plain p (PyBool b) = PyBool b" "plain p (PyInt i) = PyInt i"
  "plain p (PyFloat x) = PyFloat x" "plain p (PyStr s) = PyStr s"
  "plain p (PyDatetime d) = PyFloat (timestamp p d)" "plain p (PyUuid u) = PyStr (uuid_text p u)"
  by (simp_all add: plain_def)

lemma serialize_easy: "is_easy k \<Longrightarrow> serialize p k = Inr (plain p k)"
  by (cases k) (simp_all add: plain_def)

lemma serialize_native: "is_native v \<Longrightarrow> serialize p v = Inr v"
  by (cases v) simp_all

text \<open>What is not a container is carried as it is; most of it is read back by the type of its hint.\<close>

lemma fits_leaf:
  assumes "fits p json h v" and "\<forall>xs. v \<noteq> PyList xs" and "\<forall>d. v \<noteq> PyDict d" and "\<forall>c attrs. v \<noteq> PyObject c attrs"
  shows "\<exists>r. serialize p v = Inr r \<and> deserialize p (carried p json r) h = Inr v"
  using assms
  by (cases v)
    (auto simp: carried_def deserialize.simps [of p "PyFloat x" for x] deserialize.simps [of p "PyStr x" for x]
      deserialize.simps [of p "PyList x" for x] deserialize_instance parse_coordinates_def parse_str map_idI comp_def
      split: if_splits)

text \<open>Keys of a fitting dictionary, as they are stored.\<close>

definition stored_key :: "'f python \<Rightarrow> bool \<Rightarrow> 'f py \<Rightarrow> 'f py" where
  "stored_key p json k = (if json then PyStr (json_key p (plain p k)) else plain p k)"

lemma stored_key_back:
  assumes "fits p json hk k" and "is_easy k" and "is_easy_class hk = Inr True" and "json \<Longrightarrow> json_key_ok hk k"
  shows "deserialize p (stored_key p json k) hk = Inr k"
proof (cases json)
  case True
  then show ?thesis using assms
    by (cases hk; cases k)
      (simp_all add: stored_key_def deserialize.simps [of p "PyStr x" for x] py_int_str_of_int)
next
  case False
  have "\<exists>r. serialize p k = Inr r \<and> deserialize p (carried p json r) hk = Inr k"
    using assms(2) by (intro fits_leaf [OF assms(1)]) auto
  with False assms(2) show ?thesis by (simp add: serialize_easy stored_key_def carried_def)
qed

lemma json_keys_apart:
  assumes "json_key_ok hk k" and "json_key_ok hk k'" and "json_key p (plain p k) = json_key p (plain p k')"
  shows "key_of p (plain p k) = key_of p (plain p k')"
  using assms by (cases hk; cases k; cases k') (simp_all add: str_of_int_inj)

lemma stored_keys_distinct:
  assumes "keys_fit p json hk ks"
  shows "distinct (map (key_of p \<circ> stored_key p json) ks)"
proof (cases json)
  case True
  show ?thesis
  proof (rule distinct_map_coarser)
    show "distinct (map (key_of p \<circ> plain p) ks)" using assms by (simp add: keys_fit_def)
    fix k k' assume "k \<in> set ks" "k' \<in> set ks"
      and "(key_of p \<circ> stored_key p json) k = (key_of p \<circ> stored_key p json) k'"
    with True assms json_keys_apart [of hk k k' p]
    show "(key_of p \<circ> plain p) k = (key_of p \<circ> plain p) k'"
      by (auto simp: keys_fit_def stored_key_def list_all_iff)
  qed
next
  case False
  with assms show ?thesis by (simp add: keys_fit_def stored_key_def [abs_def] comp_def)
qed

text \<open>\<open>comes_back p json h v\<close>: the value is serialized, and what is stored of it is read back.\<close>

definition comes_back :: "'f python \<Rightarrow> bool \<Rightarrow> hint \<Rightarrow> 'f py \<Rightarrow> bool" where
  "comes_back p json h v \<longleftrightarrow>
     serialize p v = Inr (plain p v) \<and> deserialize p (carried p json (plain p v)) h = Inr v"

lemma comes_back_leaf:
  assumes "fits p json h v" and "\<forall>xs. v \<noteq> PyList xs" and "\<forall>d. v \<noteq> PyDict d" and "\<forall>c attrs. v \<noteq> PyObject c attrs"
  shows "comes_back p json h v"
  using fits_leaf [OF assms] by (auto simp: comes_back_def plain_def)

lemma traverse_map_Inr:
  "(\<And>x. x \<in> set xs \<Longrightarrow> f (g x) = Inr (h x)) \<Longrightarrow> traverse f (map g xs) = Inr (map h xs)"
  by (induction xs) auto

lemmas traverse_Inr_all = traverse_map_Inr [where g = "\<lambda>x. x", simplified]

lemma carried_list: "carried p json (PyList xs) = PyList (map (carried p json) xs)"
  by (simp add: carried_def [abs_def])

lemma carried_native: "is_native v \<Longrightarrow> carried p json v = v"
  by (cases v) (simp_all add: carried_def)

lemma comes_back_list:
  assumes "\<And>x. x \<in> set xs \<Longrightarrow> comes_back p json h x"
  shows "comes_back p json (HListOf [h]) (PyList xs)"
proof -
  have "traverse (serialize p) xs = Inr (map (plain p) xs)"
    using assms by (intro traverse_Inr_all) (simp add: comes_back_def)
  then have s: "serialize p (PyList xs) = Inr (PyList (map (plain p) xs))" by simp
  have "traverse (\<lambda>x. deserialize p x h) (map (\<lambda>x. carried p json (plain p x)) xs) = Inr (map (\<lambda>x. x) xs)"
    using assms by (intro traverse_map_Inr) (simp add: comes_back_def)
  then show ?thesis
    using s by (simp add: comes_back_def plain_def [of p "PyList xs"] carried_list deserialize_list comp_def)
qed

lemma comes_back_bare_list:
  assumes "list_all is_native xs"
  shows "comes_back p json HList (PyList xs)"
proof -
  have "traverse (serialize p) xs = Inr (map (\<lambda>x. x) xs)"
    using assms by (intro traverse_Inr_all) (simp add: serialize_native list_all_iff)
  then have s: "serialize p (PyList xs) = Inr (PyList xs)" by simp
  have "map (carried p json) xs = xs"
    using assms by (intro map_idI) (simp add: carried_native list_all_iff)
  with s show ?thesis by (simp add: comes_back_def plain_def [of p "PyList xs"] carried_list deserialize_instance)
qed

lemma carried_dict:
  assumes "keys_fit p json hk (map fst d)"
  shows "carried p json (PyDict (map (\<lambda>(k, x). (plain p k, r x)) d)) =
    PyDict (map (\<lambda>(k, x). (stored_key p json k, carried p json (r x))) d)"
proof (cases json)
  case True
  have "distinct (map (key_of p \<circ> fst) (map (\<lambda>(k, x). (PyStr (json_key p (plain p k)), jsonify p (r x))) d))"
    using stored_keys_distinct [OF assms] True
    by (simp add: comp_def split_def stored_key_def [abs_def])
  from dict_of_distinct [OF this] True show ?thesis
    by (simp add: carried_def stored_key_def comp_def split_def)
qed (simp add: carried_def stored_key_def)

lemma comes_back_dict:
  assumes K: "keys_fit p json hk (map fst d)"
    and k: "\<And>k x. (k, x) \<in> set d \<Longrightarrow> fits p json hk k" and x: "\<And>k x. (k, x) \<in> set d \<Longrightarrow> comes_back p json hv x"
  shows "comes_back p json (HDictOf [hk, hv]) (PyDict d)"
proof -
  let ?items = "map (\<lambda>(k, x). (plain p k, plain p x)) d"
  have easy: "is_easy k" "json \<Longrightarrow> json_key_ok hk k" if "(k, x) \<in> set d" for k x
    using K that by (force simp: keys_fit_def list_all_iff)+
  have "distinct (map (key_of p \<circ> fst) ?items)" using K by (simp add: keys_fit_def comp_def split_def)
  moreover have "traverse (\<lambda>(k, v). rbind (guard_that (is_easy k) AssertionError)
      (\<lambda>_. rbind (serialize p v) (\<lambda>rv. rbind (serialize p k) (\<lambda>rk. Inr (rk, rv))))) d = Inr ?items"
    using x easy by (intro traverse_Inr_all) (auto simp: guard_that_def serialize_easy comes_back_def)
  ultimately have s: "serialize p (PyDict d) = Inr (PyDict ?items)" by (simp add: dict_of_distinct)
  have read: "traverse (\<lambda>(k, x). rbind (deserialize p k hk) (\<lambda>k'. rbind (deserialize p x hv) (\<lambda>x'. Inr (k', x'))))
      (map (\<lambda>(k, x). (stored_key p json k, carried p json (plain p x))) d) = Inr (map (\<lambda>i. i) d)"
    using K k x easy stored_key_back [of p json hk]
    by (intro traverse_map_Inr) (auto simp: keys_fit_def comes_back_def)
  have "dict_of p d = d" using K by (intro dict_of_distinct) (simp add: keys_fit_def comp_def)
  with s read K show ?thesis
    by (simp add: comes_back_def plain_def [of p "PyDict d"] carried_dict [OF K] deserialize_dict keys_fit_def)
qed

text \<open>Objects: the fields of the document are the names of the attributes, and the type's identifier.\<close>

definition fields_of :: "(string \<times> 'f py) list \<Rightarrow> ('f py \<times> 'f py) list" where
  "fields_of attrs = map (\<lambda>(n, x). (PyStr n, x)) attrs"

definition type_entry :: "'f python \<Rightarrow> nat \<Rightarrow> (string \<times> 'f py) list" where
  "type_entry p c =
     (if cd_polymorphic (class_of p c) then [(TYPE_ID_FIELD, PyStr (cd_type_id (class_of p c)))] else [])"

lemma keys_fields_of: "map (key_of p \<circ> fst) (fields_of attrs) = map KText (map fst attrs)"
  by (simp add: fields_of_def split_def comp_def)

lemma distinct_fields: "distinct (map (key_of p \<circ> fst) (fields_of attrs)) \<longleftrightarrow> distinct (map fst attrs)"
  unfolding keys_fields_of by (simp add: distinct_map inj_on_def)

lemma new_field: "n \<notin> set (map fst attrs) \<Longrightarrow> key_of p (PyStr n) \<notin> set (map (key_of p \<circ> fst) (fields_of attrs))"
  unfolding keys_fields_of by auto

lemma enhance_fields:
  assumes "TYPE_ID_FIELD \<notin> set (map fst attrs)"
  shows "enhance p c (fields_of attrs) = fields_of (attrs @ type_entry p c)"
  using dict_put_new [OF new_field [OF assms]]
  by (simp add: enhance_def type_entry_def fields_of_def)

lemma choose_and_simplify:
  assumes "TYPE_ID_FIELD \<notin> set (map fst attrs)" and "class_fits p c0 c"
  shows "choose_type p c0 (fields_of (attrs @ type_entry p c)) = Inr c"
    and "simplify p c0 (fields_of (attrs @ type_entry p c)) = fields_of attrs"
  using assms(2) dict_find_append [OF new_field [OF assms(1)]] dict_del_append [OF new_field [OF assms(1)]]
  by (auto simp: class_fits_def choose_type_def simplify_def type_entry_def fields_of_def split: if_splits)

lemma json_fields:
  assumes "distinct (map fst attrs)"
  shows "carried p json (PyDict (fields_of attrs)) = PyDict (fields_of (map (\<lambda>(n, x). (n, carried p json x)) attrs))"
proof -
  let ?stored = "map (\<lambda>(n, x). (n, jsonify p x)) attrs"
  have "map fst ?stored = map fst attrs" by (simp add: comp_def split_def)
  then have "dict_of p (fields_of ?stored) = fields_of ?stored"
    using assms by (intro dict_of_distinct) (metis distinct_fields)
  moreover have "map (\<lambda>(k, v). (PyStr (json_key p k), jsonify p v)) (fields_of attrs) = fields_of ?stored"
    by (simp add: fields_of_def comp_def split_def)
  ultimately show ?thesis by (cases json) (simp_all add: carried_def)
qed

lemma json_type_entry: "map (\<lambda>(n, x). (n, carried p json x)) (type_entry p c) = type_entry p c"
  by (simp add: type_entry_def carried_native)

lemma map_of_fst: "distinct (map fst xs) \<Longrightarrow> (k, v) \<in> set xs \<Longrightarrow> map_of xs k = Some v"
  by simp

lemma names_fitD:
  assumes "names_fit p c ns"
  shows "map fst (cd_fields (class_of p c)) = ns" and "distinct ns" and "TYPE_ID_FIELD \<notin> set ns"
  using assms unfolding names_fit_def by blast+

lemma construct_all:
  assumes "names_fit p c (map fst attrs)"
  shows "construct p c attrs = Inr (PyObject c attrs)"
proof -
  have names: "map fst (cd_fields (class_of p c)) = map fst attrs" and d: "distinct (map fst attrs)"
    using names_fitD [OF assms] by simp_all
  have "traverse (\<lambda>(n, h, def). case map_of attrs n of Some v \<Rightarrow> Inr (n, v)
      | None \<Rightarrow> (case def of Some v \<Rightarrow> Inr (n, v) | None \<Rightarrow> Inl TypeError)) fields = Inr given"
    if "map fst fields = map fst given" "\<And>n v. (n, v) \<in> set given \<Longrightarrow> map_of attrs n = Some v"
    for fields :: "(string \<times> hint \<times> 'a py option) list" and given
    using that
  proof (induction fields arbitrary: given)
    case (Cons f fs)
    then obtain g gs where g: "given = g # gs" by (cases given) auto
    with Cons.prems have "map fst fs = map fst gs" "fst f = fst g" by auto
    moreover have "map_of attrs (fst g) = Some (snd g)" using Cons.prems(2) [of "fst g" "snd g"] g by simp
    ultimately show ?case using g Cons.IH [of gs, OF _ Cons.prems(2)] by (cases f; cases g) simp
  qed simp
  from this [OF names] d have "traverse (\<lambda>(n, h, def). case map_of attrs n of Some v \<Rightarrow> Inr (n, v)
      | None \<Rightarrow> (case def of Some v \<Rightarrow> Inr (n, v) | None \<Rightarrow> Inl TypeError)) (cd_fields (class_of p c)) = Inr attrs"
    by simp
  moreover have "\<not> (\<exists>k \<in> set (map fst attrs). k \<notin> set (map fst (cd_fields (class_of p c))))"
    unfolding names by simp
  ultimately show ?thesis by (simp add: construct_def Let_def del: set_map)
qed

text \<open>What is stored of an object.\<close>

definition stored_fields :: "'f python \<Rightarrow> bool \<Rightarrow> (string \<times> 'f py) list \<Rightarrow> (string \<times> 'f py) list" where
  "stored_fields p json attrs = map (\<lambda>(n, x). (n, carried p json (plain p x))) attrs"

lemma stored_fields_names: "map fst (stored_fields p json attrs) = map fst attrs"
  by (simp add: stored_fields_def comp_def split_def)

lemma object_stored:
  assumes n: "names_fit p c (map fst attrs)" and x: "\<And>n x. (n, x) \<in> set attrs \<Longrightarrow> serialize p x = Inr (plain p x)"
  shows "serialize p (PyObject c attrs) = Inr (plain p (PyObject c attrs))"
    and "carried p json (plain p (PyObject c attrs)) = PyDict (fields_of (stored_fields p json attrs @ type_entry p c))"
proof -
  let ?plain = "map (\<lambda>(n, x). (n, plain p x)) attrs"
  have names: "map fst ?plain = map fst attrs" by (simp add: comp_def split_def)
  have T: "TYPE_ID_FIELD \<notin> set (map fst attrs)" and d: "distinct (map fst attrs)" using names_fitD [OF n] by simp_all
  have "traverse (\<lambda>(k, v). rbind (serialize p v) (\<lambda>r. Inr (PyStr k, r))) attrs =
      Inr (map (\<lambda>(n, x). (PyStr n :: 'a py, plain p x)) attrs)"
    using x by (intro traverse_Inr_all) auto
  moreover have "map (\<lambda>(n, x). (PyStr n :: 'a py, plain p x)) attrs = fields_of ?plain"
    by (simp add: fields_of_def comp_def split_def)
  ultimately have s: "serialize p (PyObject c attrs) = Inr (PyDict (fields_of (?plain @ type_entry p c)))"
    using enhance_fields [of ?plain p c] T names by simp
  then show "serialize p (PyObject c attrs) = Inr (plain p (PyObject c attrs))" by (simp add: plain_def)
  have "distinct (map fst attrs @ map fst (type_entry p c))" using T d by (auto simp: type_entry_def)
  then have "distinct (map fst (?plain @ type_entry p c))" unfolding map_append names .
  from json_fields [OF this, of p json] s
  show "carried p json (plain p (PyObject c attrs)) = PyDict (fields_of (stored_fields p json attrs @ type_entry p c))"
    unfolding map_append json_type_entry by (simp add: plain_def [of p "PyObject c attrs"] stored_fields_def comp_def split_def)
qed

lemma comes_back_object:
  assumes c: "class_fits p c0 c" and n: "names_fit p c (map fst attrs)"
    and x: "\<And>n x. (n, x) \<in> set attrs \<Longrightarrow> comes_back p json (hint_of p c n) x"
  shows "comes_back p json (HClass c0) (PyObject c attrs)"
proof -
  have T: "TYPE_ID_FIELD \<notin> set (map fst attrs)" and known: "map fst attrs = map fst (cd_fields (class_of p c))"
    using names_fitD [OF n] by simp_all
  have "type_hint p c (PyStr m) = Inr (m, hint_of p c m)" if "(m, y) \<in> set attrs" for m y
  proof -
    have "m \<in> fst ` set (cd_fields (class_of p c))" using that known by (metis fst_conv image_eqI image_set)
    then show ?thesis by (auto simp: type_hint_def hint_of_def map_of_eq_None_iff split: option.split)
  qed
  with x have read: "traverse (\<lambda>(k, x). rbind (type_hint p c k) (\<lambda>(n, h'). rbind (deserialize p x h') (\<lambda>x'. Inr (n, x'))))
      (map (\<lambda>(n, x). (PyStr n, carried p json (plain p x))) attrs) = Inr (map (\<lambda>i. i) attrs)"
    by (intro traverse_map_Inr) (auto simp: comes_back_def)
  have "map (\<lambda>(n, x). (PyStr n, carried p json (plain p x))) attrs = fields_of (stored_fields p json attrs)"
    by (simp add: fields_of_def stored_fields_def comp_def split_def)
  with read have "deserialize p (PyDict (fields_of (stored_fields p json attrs @ type_entry p c))) (HClass c0) = Inr (PyObject c attrs)"
    using choose_and_simplify [of "stored_fields p json attrs", OF _ c] T construct_all [OF n]
    by (simp add: deserialize_object stored_fields_names del: set_map)
  moreover have "serialize p x = Inr (plain p x)" if "(m, x) \<in> set attrs" for m x using assms(3) [OF that] by (simp add: comes_back_def)
  ultimately show ?thesis using object_stored(1) [OF n] object_stored(2) [OF n, where json = json] by (simp add: comes_back_def)
qed

lemma fits_comes_back: "fits p json h v \<Longrightarrow> comes_back p json h v"
proof (induction v arbitrary: h)
  case (PyList xs)
  show ?case
  proof (cases h)
    case (HListOf hs)
    then obtain h' where h: "h = HListOf [h']" using PyList.prems by (cases hs) auto
    show ?thesis unfolding h using PyList h by (intro comes_back_list) auto
  qed (use PyList.prems in \<open>simp_all add: comes_back_bare_list\<close>)
next
  case (PyDict d)
  then obtain hk hv where h: "h = HDictOf [hk, hv]" by (auto split: hint.splits list.splits)
  show ?case unfolding h
  proof (rule comes_back_dict)
    show "keys_fit p json hk (map fst d)" using PyDict.prems h by simp
    fix k x assume "(k, x) \<in> set d"
    with PyDict h show "fits p json hk k" and "comes_back p json hv x"
      by (auto simp: prod_set_defs dest: bspec)
  qed
next
  case (PyObject c attrs)
  then obtain c0 where h: "h = HClass c0" by (auto split: hint.splits)
  show ?case unfolding h
  proof (rule comes_back_object)
    show "class_fits p c0 c" and "names_fit p c (map fst attrs)" using PyObject.prems h by simp_all
    fix n x assume "(n, x) \<in> set attrs"
    with PyObject h show "comes_back p json (hint_of p c n) x" by (auto simp: prod_set_defs dest: bspec)
  qed
qed (simp_all add: comes_back_leaf)

text \<open>C31: Values survive storing. A value that fits a type, that is, whose dates, UUIDs, enumeration members
  and coordinates their own conversions give back and whose dictionaries have keys that stay apart
  when they are serialized, is serialized without complaint, and deserializing the result for
  that type gives the value back, through polymorphic classes, nested objects, lists and
  dictionaries. If its keys are text, integers or UUIDs, this also holds when
  the representation went through JSON, which turns all keys into text, as TinyDB does.\<close>

theorem serialization_roundtrip:
  assumes "fits p json h v"
  shows "\<exists>r. serialize p v = Inr r \<and> deserialize p (if json then jsonify p r else r) h = Inr v"
  using fits_comes_back [OF assms] by (auto simp: comes_back_def carried_def)

text \<open>
  Deserializing changes its argument: the identifier of the type is gone, so that the same
  representation of a polymorphic value is not read twice.
\<close>

lemma simplified_twice:
  assumes "cd_polymorphic (class_of p c)"
  shows "deserialize p (PyDict (simplify p c d)) (HClass c) = Inl KeyError"
proof -
  have "dict_find p k (dict_del p k e) = None" for k :: "'a py" and e
    by (induction e) (auto simp: dict_del_def)
  with assms show ?thesis by (simp add: deserialize_object choose_type_def simplify_def)
qed

section \<open>The classes that the program stores\<close>

text \<open>
  \<open>TaskExecutionRecord\<close>, \<open>RuntimeSession\<close> with the classes of its parts, the globals and
  \<open>ContextSessionPointer\<close>. \<open>RuntimeMode\<close> is the enumeration 0 of the runtime library; the default factories of
  the metadata give the record of the current runtime, the name of the host and the number of the process.
\<close>

definition stored_class :: "'f py \<Rightarrow> 'f py \<Rightarrow> 'f py \<Rightarrow> nat \<Rightarrow> 'f class_def" where
  "stored_class runtime hostname pid c =
     (if c = 0 then
        \<lparr>cd_type_id = ''thinking_executor.executor_model.TaskExecutionRecord'', cd_polymorphic = False,
         cd_fields = [(''coordinates'', HCoordinates, None), (''session_id'', HUuid, None), (''session_no'', HInt, None),
           (''start'', HDatetime, None), (''finish'', HDatetime, None), (''latest_step'', HCoordinates, Some PyNone)]\<rparr>
      else if c = 1 then
        \<lparr>cd_type_id = ''thinking_executor.session_model.RuntimeSession'', cd_polymorphic = False,
         cd_fields = [(''sid'', HUuid, None), (''metadata'', HClass 2, None),
           (''context_sessions'', HDictOf [HInt, HClass 4], None)]\<rparr>
      else if c = 2 then
        \<lparr>cd_type_id = ''thinking_executor.session_model.RuntimeSessionMetadata'', cd_polymorphic = False,
         cd_fields = [(''runtime'', HClass 3, Some runtime), (''hostname'', HStr, Some hostname), (''pid'', HInt, Some pid)]\<rparr>
      else if c = 3 then
        \<lparr>cd_type_id = ''thinking_executor.session_model.RuntimeRecord'', cd_polymorphic = False,
         cd_fields = [(''mode'', HEnum 0, None), (''active_facet_names'', HListOf [HStr], None),
           (''started_on'', HDatetime, None)]\<rparr>
      else if c = 4 then
        \<lparr>cd_type_id = ''thinking_executor.session_model.ContextSession'', cd_polymorphic = False,
         cd_fields = [(''session_no'', HInt, None), (''sanitized'', HBool, None), (''started_on'', HDatetime, None),
           (''invoked_steps'', HListOf [HCoordinates], None)]\<rparr>
      else if c = 5 then
        \<lparr>cd_type_id = ''thinking_executor.globals_manager.Global'', cd_polymorphic = True, cd_fields = []\<rparr>
      else if c = 6 then
        \<lparr>cd_type_id = ''thinking_executor.globals_manager.LastSession'', cd_polymorphic = True,
         cd_fields = [(''sid'', HUuid, Some PyNone)]\<rparr>
      else
        \<lparr>cd_type_id = ''thinking_executor.session_model.ContextSessionPointer'', cd_polymorphic = False,
         cd_fields = [(''runtime_sid'', HUuid, None), (''context_session_no'', HInt, None)]\<rparr>)"

text \<open>A standard library in which a date is its time stamp in seconds, and a UUID its number.\<close>

definition ex_python :: "int python" where
  "ex_python =
     \<lparr>timestamp = (\<lambda>d. d), fromtimestamp = (\<lambda>v. case v of PyFloat x \<Rightarrow> Inr x | PyInt i \<Rightarrow> Inr i | _ \<Rightarrow> Inl TypeError),
      uuid_text = (\<lambda>u. ''u'' @ str_of_int (int u)),
      uuid_of = (\<lambda>v. case v of PyStr (c # s) \<Rightarrow> rbind (py_int s) (\<lambda>i. Inr (nat i)) | _ \<Rightarrow> Inl ValueError),
      as_integer = Some, truncated = Inr, float_of = (\<lambda>v. case v of PyFloat x \<Rightarrow> Inr x | _ \<Rightarrow> Inl ValueError),
      text_of = (\<lambda>v. ''?''), asarray = (\<lambda>v. Inl ValueError), numpy_found = False, derives = (=),
      class_of = stored_class PyNone (PyStr ''localhost'') (PyInt 1), enum_members = (\<lambda>e. [''APP'', ''TEST'']),
      ID_TO_CLS = [(cd_type_id (stored_class PyNone PyNone PyNone 6 :: int class_def), 6)]\<rparr>"

definition ex_stored_session :: "int py" where
  "ex_stored_session =
     PyObject 1 [(''sid'', PyUuid 7),
       (''metadata'', PyObject 2 [(''runtime'', PyObject 3 [(''mode'', PyEnum 0 ''TEST''),
            (''active_facet_names'', PyList [PyStr ''logging'']), (''started_on'', PyDatetime 5)]),
          (''hostname'', PyStr ''localhost''), (''pid'', PyInt 12)]),
       (''context_sessions'', PyDict [(PyInt 0, PyObject 4 [(''session_no'', PyInt 0), (''sanitized'', PyBool True),
            (''started_on'', PyDatetime 6), (''invoked_steps'', PyList [PyCoordinates
               \<lparr>path = [StrKey ''a'', IntKey 3], order_of = [0, 1], type_of = STEP\<rparr>])]),
          (PyInt 1, PyObject 4 [(''session_no'', PyInt 1), (''sanitized'', PyBool False),
            (''started_on'', PyDatetime 8), (''invoked_steps'', PyList [])])])]"

theorem serialization_roundtrip_witness:
  "(\<exists>r. serialize ex_python ex_stored_session = Inr r \<and>
      deserialize ex_python (jsonify ex_python r) (HClass 1) = Inr ex_stored_session) \<and>
   (\<exists>r. serialize ex_python (PyObject 6 [(''sid'', PyUuid 7)]) = Inr r \<and>
      deserialize ex_python r (HClass 5) = Inr (PyObject 6 [(''sid'', PyUuid 7)]))"
proof -
  have u: "uuid_of ex_python (PyStr (uuid_text ex_python u)) = Inr u" for u
    by (simp add: ex_python_def py_int_str_of_int)
  have d: "fromtimestamp ex_python (PyFloat (timestamp ex_python d)) = Inr d" for d
    by (simp add: ex_python_def)
  have c: "class_of ex_python = stored_class PyNone (PyStr ''localhost'') (PyInt 1)" "enum_members ex_python 0 = [''APP'', ''TEST'']"
    "ID_TO_CLS ex_python = [(''thinking_executor.globals_manager.LastSession'', 6)]"
    by (simp_all add: ex_python_def stored_class_def)
  have coordinates: "plain_coordinates \<lparr>path = [StrKey ''a'', IntKey 3], order_of = [0, 1], type_of = STEP\<rparr>"
    by code_simp
  have "fits ex_python True (HClass 1) ex_stored_session"
    using u d coordinates
    by (simp add: ex_stored_session_def class_fits_def names_fit_def hint_of_def keys_fit_def c stored_class_def
        TYPE_ID_FIELD_def)
  from serialization_roundtrip [OF this] have 1: "\<exists>r. serialize ex_python ex_stored_session = Inr r \<and>
      deserialize ex_python (jsonify ex_python r) (HClass 1) = Inr ex_stored_session" by simp
  have "fits ex_python False (HClass 5) (PyObject 6 [(''sid'', PyUuid 7)])"
    using u by (simp add: class_fits_def names_fit_def hint_of_def c stored_class_def TYPE_ID_FIELD_def)
  from serialization_roundtrip [OF this] 1 show ?thesis by simp
qed

end
