(* ===== verification/Typed_Columns.thy ===== *)
theory Typed_Columns
  imports Serialization
begin

text \<open>
  \<open>thinking_executor_data/dolt/sqlalchemy/base.py\<close>: columns that hold any serializable value, packed
  by \<open>json\<close>, \<open>bson\<close> or \<open>pickle\<close>, and the text of an entity. What the packing libraries do is a
  parameter; raw values are what the database stores.
\<close>

section \<open>Packing\<close>

record ('f, 'raw) backend =
  dumps :: "'f py \<Rightarrow> 'raw res"
  loads :: "'raw \<Rightarrow> 'f py res"
  pack :: "'f py \<Rightarrow> 'f py"
  unpack :: "'f py \<Rightarrow> 'f py res"

text \<open>\<open>JSON\<close> and \<open>Pickle\<close> keep the two methods of \<open>DumpsLoads\<close>; \<open>BSON\<close> packs documents only.\<close>

definition DumpsLoads :: "('f py \<Rightarrow> 'raw res) \<Rightarrow> ('raw \<Rightarrow> 'f py res) \<Rightarrow> ('f, 'raw) backend" where
  "DumpsLoads d l = \<lparr>dumps = d, loads = l, pack = (\<lambda>v. v), unpack = Inr\<rparr>"

definition BSON :: "'f python \<Rightarrow> ('f py \<Rightarrow> 'raw res) \<Rightarrow> ('raw \<Rightarrow> 'f py res) \<Rightarrow> ('f, 'raw) backend" where
  "BSON p d l =
     \<lparr>dumps = d, loads = l, pack = (\<lambda>v. PyDict [(PyStr ''_x'', v)]),
      unpack = (\<lambda>v. case v of
         PyDict e \<Rightarrow> (case dict_find p (PyStr ''_x'') e of None \<Rightarrow> Inl KeyError | Some x \<Rightarrow> Inr x)
       | _ \<Rightarrow> Inl TypeError)\<rparr>"

definition process_bind_param :: "('f, 'raw) backend \<Rightarrow> 'f py \<Rightarrow> 'raw option res" where
  "process_bind_param b value =
     (if value \<noteq> PyNone then rbind (dumps b (pack b value)) (\<lambda>raw. Inr (Some raw)) else Inr None)"

definition process_result_value :: "('f, 'raw) backend \<Rightarrow> 'raw option \<Rightarrow> 'f py res" where
  "process_result_value b value =
     (case value of None \<Rightarrow> Inr PyNone | Some raw \<Rightarrow> rbind (loads b raw) (unpack b))"

text \<open>\<open>JSON[T]\<close> and its like: \<open>TypedDumpLoads\<close> serializes before packing.\<close>

definition typed_bind_param :: "'f python \<Rightarrow> ('f, 'raw) backend \<Rightarrow> 'f py \<Rightarrow> 'raw option res" where
  "typed_bind_param p b value = rbind (serialize p value) (process_bind_param b)"

definition typed_result_value :: "'f python \<Rightarrow> ('f, 'raw) backend \<Rightarrow> hint \<Rightarrow> 'raw option \<Rightarrow> 'f py res" where
  "typed_result_value p b t value = rbind (process_result_value b value) (\<lambda>s. deserialize p s t)"

text \<open>\<open>str(entity)\<close>: the columns with their values.\<close>

definition str_of_entity :: "string \<Rightarrow> string list \<Rightarrow> (string \<Rightarrow> string res) \<Rightarrow> string res" where
  "str_of_entity type_name column_names value_of =
     rbind (traverse (\<lambda>n. rbind (value_of n) (\<lambda>v. Inr (n @ ''='' @ v))) column_names)
       (\<lambda>fs. Inr (type_name @ ''('' @ py_join '', '' fs @ '')''))"

section \<open>Columns give back what they were given\<close>

text \<open>
  What the libraries document: \<open>json\<close> writes native values, lists and dictionaries, whose keys are text or
  integers and come back as text; \<open>bson\<close> writes documents, which are dictionaries whose keys are text without
  a null character, with integers of 64 bits; \<open>pickle\<close> writes all of these values.
\<close>

datatype packing = JsonFormat | BsonFormat | PickleFormat

fun key_storable :: "packing \<Rightarrow> 'f py \<Rightarrow> bool" where
  "key_storable JsonFormat k = (case k of PyStr s \<Rightarrow> True | PyInt i \<Rightarrow> True | _ \<Rightarrow> False)"
| "key_storable BsonFormat k = (case k of PyStr s \<Rightarrow> CHR 0x00 \<notin> set s | _ \<Rightarrow> False)"
| "key_storable PickleFormat k = is_native k"

fun storable :: "packing \<Rightarrow> 'f python \<Rightarrow> 'f py \<Rightarrow> bool" where
  "storable f p (PyInt i) = (f = BsonFormat \<longrightarrow> - (2 ^ 63) \<le> i \<and> i < 2 ^ 63)"
| "storable f p (PyList xs) = (\<forall>x \<in> set xs. storable f p x)"
| "storable f p (PyDict d) =
     (distinct (map (key_of p \<circ> fst) d) \<and> (\<forall>(k, x) \<in> set d. key_storable f k \<and> storable f p x))"
| "storable f p v = is_native v"

definition packing_contract :: "'f python \<Rightarrow> packing \<Rightarrow> ('f py \<Rightarrow> 'raw res) \<Rightarrow> ('raw \<Rightarrow> 'f py res) \<Rightarrow> bool" where
  "packing_contract p f d l \<longleftrightarrow>
     (\<forall>v. storable f p v \<longrightarrow> (f = BsonFormat \<longrightarrow> (\<exists>e. v = PyDict e)) \<longrightarrow>
       (\<exists>raw. d v = Inr raw \<and> l raw = Inr (carried p (f = JsonFormat) v)))"

text \<open>The type of a column for each of the libraries.\<close>

definition column_type :: "'f python \<Rightarrow> packing \<Rightarrow> ('f py \<Rightarrow> 'raw res) \<Rightarrow> ('raw \<Rightarrow> 'f py res) \<Rightarrow> ('f, 'raw) backend" where
  "column_type p f d l = (if f = BsonFormat then BSON p d l else DumpsLoads d l)"

lemma column_type_carries:
  assumes "packing_contract p f d l" and "storable f p v"
  obtains raw where "dumps (column_type p f d l) (pack (column_type p f d l) v) = Inr raw"
    and "rbind (loads (column_type p f d l) raw) (unpack (column_type p f d l)) = Inr (carried p (f = JsonFormat) v)"
proof (cases "f = BsonFormat")
  case True
  with assms(2) have "storable f p (PyDict [(PyStr ''_x'', v)])" by simp
  from assms(1) [unfolded packing_contract_def, rule_format, OF this] True
  obtain raw where "d (PyDict [(PyStr ''_x'', v)]) = Inr raw"
    "l raw = Inr (carried p False (PyDict [(PyStr ''_x'', v)]))" by auto
  with True show thesis by (intro that [of raw]) (simp_all add: column_type_def BSON_def carried_def)
next
  case False
  with assms obtain raw where "d v = Inr raw" "l raw = Inr (carried p (f = JsonFormat) v)"
    unfolding packing_contract_def by blast
  with False show thesis by (intro that [of raw]) (simp_all add: column_type_def DumpsLoads_def)
qed

text \<open>
  What a fitting value is serialized to can be stored by \<open>json\<close> and by \<open>pickle\<close>.
\<close>

lemma storable_native: "f \<noteq> BsonFormat \<Longrightarrow> is_native v \<Longrightarrow> storable f p v"
  by (cases v) auto

lemma storable_dict:
  assumes f: "f \<noteq> BsonFormat" and K: "keys_fit p (f = JsonFormat) hk (map fst d)"
    and x: "\<And>k x. (k, x) \<in> set d \<Longrightarrow> serialize p x = Inr (plain p x) \<and> storable f p (plain p x)"
  shows "storable f p (plain p (PyDict d))"
proof -
  let ?items = "map (\<lambda>(k, x). (plain p k, plain p x)) d"
  have easy: "is_easy k" "f = JsonFormat \<Longrightarrow> json_key_ok hk k" if "(k, x) \<in> set d" for k x
    using K that by (force simp: keys_fit_def list_all_iff)+
  have dist: "distinct (map (key_of p \<circ> fst) ?items)" using K by (simp add: keys_fit_def comp_def split_def)
  moreover have "traverse (\<lambda>(k, v). rbind (guard_that (is_easy k) AssertionError)
      (\<lambda>_. rbind (serialize p v) (\<lambda>rv. rbind (serialize p k) (\<lambda>rk. Inr (rk, rv))))) d = Inr ?items"
    using x easy by (intro traverse_Inr_all) (auto simp: guard_that_def serialize_easy)
  ultimately have items: "plain p (PyDict d) = PyDict ?items" by (simp add: plain_def dict_of_distinct)
  have "key_storable f (plain p k)" if "(k, x) \<in> set d" for k x
    using f easy [OF that] by (cases f; cases k; cases hk) auto
  with x dist show ?thesis unfolding items by auto
qed

lemma storable_object:
  assumes f: "f \<noteq> BsonFormat" and n: "names_fit p c (map fst attrs)"
    and x: "\<And>n x. (n, x) \<in> set attrs \<Longrightarrow> serialize p x = Inr (plain p x) \<and> storable f p (plain p x)"
  shows "storable f p (plain p (PyObject c attrs))"
proof -
  let ?fields = "stored_fields p False attrs @ type_entry p c"
  have "plain p (PyObject c attrs) = PyDict (fields_of ?fields)"
    using object_stored(2) [OF n, of False] x by (simp add: carried_def)
  moreover have "distinct (map fst ?fields)"
    using names_fitD [OF n] by (auto simp: stored_fields_names type_entry_def simp del: set_map)
  then have "distinct (map (key_of p \<circ> fst) (fields_of ?fields))" by (simp only: distinct_fields)
  moreover have "key_storable f k \<and> storable f p y" if ky: "(k, y) \<in> set (fields_of ?fields)" for k y
  proof -
    from ky obtain m where "k = PyStr m" and "(m, y) \<in> set ?fields" by (auto simp: fields_of_def)
    then have "storable f p y" using x f by (auto simp: stored_fields_def carried_def type_entry_def split: if_splits)
    with \<open>k = PyStr m\<close> f show ?thesis by (cases f) auto
  qed
  ultimately show ?thesis by auto
qed

lemma fits_serialized: "fits p json h v \<Longrightarrow> serialize p v = Inr (plain p v)"
  by (drule fits_comes_back) (simp add: comes_back_def)

lemma fits_storable:
  assumes f: "f \<noteq> BsonFormat"
  shows "fits p (f = JsonFormat) h v \<Longrightarrow> storable f p (plain p v)"
proof (induction v arbitrary: h)
  case (PyList xs)
  have "serialize p x = Inr (plain p x) \<and> storable f p (plain p x)" if "x \<in> set xs" for x
  proof (cases h)
    case (HListOf hs)
    with PyList.prems that have "fits p (f = JsonFormat) (hd hs) x" by simp
    then show ?thesis using PyList.IH [OF that] fits_serialized by blast
  next
    case HList
    with PyList.prems that have "is_native x" by (simp add: list_all_iff)
    then show ?thesis using storable_native [OF f, of x p] by (simp add: serialize_native plain_def)
  qed (use PyList.prems in simp_all)
  then have "traverse (serialize p) xs = Inr (map (plain p) xs)" and "\<forall>x \<in> set xs. storable f p (plain p x)"
    by (auto intro: traverse_Inr_all)
  then show ?case by (simp add: plain_def [of p "PyList xs"])
next
  case (PyDict d)
  then obtain hk hv where h: "h = HDictOf [hk, hv]" by (auto split: hint.splits list.splits)
  show ?case
  proof (rule storable_dict [OF f])
    show "keys_fit p (f = JsonFormat) hk (map fst d)" using PyDict.prems h by simp
    fix k x assume kx: "(k, x) \<in> set d"
    with PyDict.prems h have "fits p (f = JsonFormat) hv x" by auto
    then show "serialize p x = Inr (plain p x) \<and> storable f p (plain p x)"
      using PyDict.IH kx fits_serialized by (fastforce simp: prod_set_defs)
  qed
next
  case (PyObject c attrs)
  then obtain c0 where h: "h = HClass c0" by (auto split: hint.splits)
  show ?case
  proof (rule storable_object [OF f])
    show "names_fit p c (map fst attrs)" using PyObject.prems h by simp
    fix n x assume nx: "(n, x) \<in> set attrs"
    with PyObject.prems h have "fits p (f = JsonFormat) (hint_of p c n) x" by auto
    then show "serialize p x = Inr (plain p x) \<and> storable f p (plain p x)"
      using PyObject.IH nx fits_serialized by (fastforce simp: prod_set_defs)
  qed
qed (use f in \<open>auto simp: plain_def\<close>)

text \<open>C34: A typed column gives back every value that fits its type: binding stores it without
  complaint, as the SQL null exactly when it is none, and reading the stored value gives the value that was
  bound, through classes, lists and dictionaries, whether it is packed by \<open>json\<close>, which makes text of its keys, by
  \<open>pickle\<close>, or by \<open>bson\<close>, for which it is wrapped into a document. With \<open>bson\<close> the value has to be
  serialized to integers of 64 bits and to dictionaries whose keys are text.\<close>

theorem column_roundtrip:
  assumes "packing_contract p f d l" and "fits p (f = JsonFormat) t v"
    and "f = BsonFormat \<longrightarrow> storable f p (plain p v)"
  shows "\<exists>raw. typed_bind_param p (column_type p f d l) v = Inr raw \<and>
    typed_result_value p (column_type p f d l) t raw = Inr v \<and> (raw = None \<longleftrightarrow> v = PyNone)"
proof -
  have v: "serialize p v = Inr (plain p v)" "deserialize p (carried p (f = JsonFormat) (plain p v)) t = Inr v"
    using fits_comes_back [OF assms(2)] by (simp_all add: comes_back_def)
  have "plain p v = PyNone \<longleftrightarrow> v = PyNone"
    using v(2) by (auto simp: carried_native)
  moreover have "storable f p (plain p v)" using assms(3) fits_storable [OF _ assms(2)] by blast
  then obtain raw where "dumps (column_type p f d l) (pack (column_type p f d l) (plain p v)) = Inr raw"
    and "rbind (loads (column_type p f d l) raw) (unpack (column_type p f d l)) =
      Inr (carried p (f = JsonFormat) (plain p v))"
    by (rule column_type_carries [OF assms(1)])
  ultimately show ?thesis
    using v by (cases "v = PyNone")
      (auto simp: typed_bind_param_def process_bind_param_def typed_result_value_def process_result_value_def)
qed

text \<open>Libraries that store the representation itself, and refuse what they do not support.\<close>

definition ex_dumps :: "packing \<Rightarrow> int py \<Rightarrow> int py res" where
  "ex_dumps f v = (if storable f ex_python v then Inr (carried ex_python (f = JsonFormat) v) else Inl TypeError)"

lemma ex_packing: "packing_contract ex_python f (ex_dumps f) Inr"
  by (simp add: packing_contract_def ex_dumps_def)

theorem column_roundtrip_witness:
  "(\<exists>raw. typed_bind_param ex_python (column_type ex_python BsonFormat (ex_dumps BsonFormat) Inr) (PyUuid 7) = Inr raw \<and>
      typed_result_value ex_python (column_type ex_python BsonFormat (ex_dumps BsonFormat) Inr) HUuid raw = Inr (PyUuid 7)) \<and>
   (\<exists>raw. typed_bind_param ex_python (column_type ex_python JsonFormat (ex_dumps JsonFormat) Inr)
        (PyDict [(PyInt 3, PyUuid 7)]) = Inr raw \<and>
      typed_result_value ex_python (column_type ex_python JsonFormat (ex_dumps JsonFormat) Inr)
        (HDictOf [HInt, HUuid]) raw = Inr (PyDict [(PyInt 3, PyUuid 7)]))"
proof
  have u: "uuid_of ex_python (PyStr (uuid_text ex_python u)) = Inr u" for u
    by (simp add: ex_python_def py_int_str_of_int)
  from column_roundtrip [OF ex_packing [of BsonFormat], of HUuid "PyUuid 7"] u
  show "\<exists>raw. typed_bind_param ex_python (column_type ex_python BsonFormat (ex_dumps BsonFormat) Inr) (PyUuid 7) = Inr raw \<and>
      typed_result_value ex_python (column_type ex_python BsonFormat (ex_dumps BsonFormat) Inr) HUuid raw = Inr (PyUuid 7)"
    by auto
  from column_roundtrip [OF ex_packing [of JsonFormat], of "HDictOf [HInt, HUuid]" "PyDict [(PyInt 3, PyUuid 7)]"] u
  show "\<exists>raw. typed_bind_param ex_python (column_type ex_python JsonFormat (ex_dumps JsonFormat) Inr)
        (PyDict [(PyInt 3, PyUuid 7)]) = Inr raw \<and>
      typed_result_value ex_python (column_type ex_python JsonFormat (ex_dumps JsonFormat) Inr)
        (HDictOf [HInt, HUuid]) raw = Inr (PyDict [(PyInt 3, PyUuid 7)])"
    by (auto simp: keys_fit_def)
qed

end
