(* ===== verification/Dolt_Storage.thy ===== *)
theory Dolt_Storage
  imports Dolt_Versioning Tiny_Schema
begin

text \<open>
  \<open>thinking_executor_data/dolt/sqlalchemy/storage.py\<close> and \<open>common/storage.py\<close>: repositories of
  entities over a session of SQLAlchemy, which create the schema when a table is missing.

  The session is a parameter: a state and the operations that the repository calls. A query
  of SQLAlchemy is its predicate on entities. Exceptions carry the chain of their contexts, which the
  language keeps: \<open>contexts e\<close> are those of \<open>e\<close>, the innermost last.
\<close>

section \<open>Sessions and repositories\<close>

record ('s, 'e) orm =
  orm_merge :: "nat \<Rightarrow> 'e \<Rightarrow> ('s, 'e) operation"
  orm_flush :: "'e list \<Rightarrow> ('s, unit) operation"
  orm_all :: "nat \<Rightarrow> ('e \<Rightarrow> bool) \<Rightarrow> ('s, 'e list) operation"
  orm_first :: "nat \<Rightarrow> ('e \<Rightarrow> bool) \<Rightarrow> ('s, 'e option) operation"
  orm_count :: "nat \<Rightarrow> ('e \<Rightarrow> bool) \<Rightarrow> ('s, nat) operation"
  orm_exists :: "nat \<Rightarrow> ('e \<Rightarrow> bool) \<Rightarrow> ('s, bool) operation"
  orm_delete :: "nat \<Rightarrow> ('e \<Rightarrow> bool) \<Rightarrow> ('s, unit) operation"
  orm_rollback :: "('s, unit) operation"
  orm_create_all :: "('s, unit) operation"

record ('s, 'e, 'k) dolt_repository =
  entity_type :: nat
  id_columns :: "('e \<Rightarrow> 'k) list"
  is_entity :: "'e \<Rightarrow> bool"
  is_id :: "'k \<Rightarrow> bool"
  repo_session :: "('s, 'e) orm"
  repo_versioning :: "'s versioning"
  contexts :: "exn \<Rightarrow> exn list"

text \<open>
  \<open>DoltStorage.repository\<close>: the repositories work on the session that the versioning uses, so that
  their operations are those of the session on its part of the state of the versioning.
\<close>

definition on_dolt :: "('s, 'e) orm \<Rightarrow> ('s dolt_state, 'e) orm" where
  "on_dolt o' =
     \<lparr>orm_merge = (\<lambda>t e. on_session (orm_merge o' t e)), orm_flush = (\<lambda>es. on_session (orm_flush o' es)),
      orm_all = (\<lambda>t q. on_session (orm_all o' t q)), orm_first = (\<lambda>t q. on_session (orm_first o' t q)),
      orm_count = (\<lambda>t q. on_session (orm_count o' t q)), orm_exists = (\<lambda>t q. on_session (orm_exists o' t q)),
      orm_delete = (\<lambda>t q. on_session (orm_delete o' t q)), orm_rollback = on_session (orm_rollback o'),
      orm_create_all = on_session (orm_create_all o')\<rparr>"

definition DoltStorage_repository ::
  "uuid5 \<Rightarrow> 's sql_session \<Rightarrow> ('s, 'e) orm \<Rightarrow> (exn \<Rightarrow> exn list) \<Rightarrow> nat \<Rightarrow> ('e \<Rightarrow> 'k) list \<Rightarrow> ('e \<Rightarrow> bool) \<Rightarrow>
   ('k \<Rightarrow> bool) \<Rightarrow> ('s dolt_state, 'e, 'k) dolt_repository" where
  "DoltStorage_repository uuid5 q o' cs t columns of_entity of_id =
     \<lparr>entity_type = t, id_columns = columns, is_entity = of_entity, is_id = of_id, repo_session = on_dolt o',
      repo_versioning = SqlAlchemyDoltVersioning uuid5 q, contexts = cs\<rparr>"

section \<open>The schema on demand\<close>

text \<open>The walk along the contexts of an exception, up to a missing table (MySQL error 1146).\<close>

fun missing_table :: "exn list \<Rightarrow> bool" where
  "missing_table [] = False"
| "missing_table (e # es) = (e = ProgrammingError 1146 \<or> missing_table es)"

definition create_schema_if_needed ::
  "('s, 'e, 'k) dolt_repository \<Rightarrow> ('s, 'a) operation \<Rightarrow> ('s, 'a) operation" where
  "create_schema_if_needed repo foo =
     scatch foo (\<lambda>e.
       if missing_table (e # contexts repo e)
       then sseq (orm_rollback (repo_session repo))
              (sseq (orm_create_all (repo_session repo))
                 (sseq (commit (repo_versioning repo) (Some ''DDL'')) foo))
       else slift (Inl e))"

section \<open>Filters\<close>

definition id_column :: "('s, 'e, 'k) dolt_repository \<Rightarrow> ('e \<Rightarrow> 'k) res" where
  "id_column repo = (case id_columns repo of [c] \<Rightarrow> Inr c | _ \<Rightarrow> Inl AssertionError)"

definition do_query :: "('e \<Rightarrow> bool) option \<Rightarrow> 'e \<Rightarrow> bool" where
  "do_query q = (case q of None \<Rightarrow> (\<lambda>e. True) | Some p \<Rightarrow> p)"

definition id_is :: "('s, 'e, 'k) dolt_repository \<Rightarrow> 'k \<Rightarrow> ('e \<Rightarrow> bool) res" where
  "id_is repo i = rbind (id_column repo) (\<lambda>c. Inr (\<lambda>e. c e = i))"

definition ids_of :: "('s, 'e, 'k) dolt_repository \<Rightarrow> 'k collectable list \<Rightarrow> 'k list res" where
  "ids_of repo ids =
     rbind (id_column repo) (\<lambda>c. case collect (is_id repo) ids of (xs, Some e) \<Rightarrow> Inl e | (xs, None) \<Rightarrow> Inr xs)"

definition id_in :: "('s, 'e, 'k) dolt_repository \<Rightarrow> 'k collectable list \<Rightarrow> ('e \<Rightarrow> bool) res" where
  "id_in repo ids = rbind (ids_of repo ids) (\<lambda>xs. rbind (id_column repo) (\<lambda>c. Inr (\<lambda>e. c e \<in> set xs)))"

text \<open>A query whose filter may raise.\<close>

definition with_filter :: "('e \<Rightarrow> bool) res \<Rightarrow> (('e \<Rightarrow> bool) \<Rightarrow> ('s, 'a) operation) \<Rightarrow> ('s, 'a) operation" where
  "with_filter q f = sbind (slift q) (\<lambda>p. f (do_query (Some p)))"

section \<open>Operations\<close>

text \<open>
  \<open>save\<close> merges the entities while it collects them, so that those before one of the wrong type
  are merged when the assertion fails. \<open>access\<close> is the state of the writability manager.
\<close>

definition save ::
  "('s, 'e, 'k) dolt_repository \<Rightarrow> read_write \<Rightarrow> 'e collectable list \<Rightarrow> ('s, 'e list) operation" where
  "save repo access entities =
     create_schema_if_needed repo
       (sseq (slift (require_writing (Some ''dolt'') access))
          (case collect (is_entity repo) entities of (to_save, stop) \<Rightarrow>
             sbind (smap (orm_merge (repo_session repo) (entity_type repo)) to_save)
               (\<lambda>out. case stop of
                  Some e \<Rightarrow> slift (Inl e)
                | None \<Rightarrow> sseq (orm_flush (repo_session repo) out) (sret out))))"

definition save_one :: "('s, 'e, 'k) dolt_repository \<Rightarrow> read_write \<Rightarrow> 'e \<Rightarrow> ('s, 'e) operation" where
  "save_one repo access entity =
     sbind (save repo access [One entity]) (\<lambda>out. slift (if out = [] then Inl IndexError else Inr (hd out)))"

definition find_by_id :: "('s, 'e, 'k) dolt_repository \<Rightarrow> 'k \<Rightarrow> ('s, 'e option) operation" where
  "find_by_id repo i =
     create_schema_if_needed repo (with_filter (id_is repo i) (orm_first (repo_session repo) (entity_type repo)))"

definition find_by_ids :: "('s, 'e, 'k) dolt_repository \<Rightarrow> 'k collectable list \<Rightarrow> ('s, 'e list) operation" where
  "find_by_ids repo ids =
     create_schema_if_needed repo (with_filter (id_in repo ids) (orm_all (repo_session repo) (entity_type repo)))"

definition find_where :: "('s, 'e, 'k) dolt_repository \<Rightarrow> ('e \<Rightarrow> bool) \<Rightarrow> ('s, 'e list) operation" where
  "find_where repo q =
     create_schema_if_needed repo (orm_all (repo_session repo) (entity_type repo) (do_query (Some q)))"

definition find_all :: "('s, 'e, 'k) dolt_repository \<Rightarrow> ('s, 'e list) operation" where
  "find_all repo = create_schema_if_needed repo (orm_all (repo_session repo) (entity_type repo) (do_query None))"

definition count_where :: "('s, 'e, 'k) dolt_repository \<Rightarrow> ('e \<Rightarrow> bool) \<Rightarrow> ('s, nat) operation" where
  "count_where repo q =
     create_schema_if_needed repo (orm_count (repo_session repo) (entity_type repo) (do_query (Some q)))"

definition count_by_ids :: "('s, 'e, 'k) dolt_repository \<Rightarrow> 'k collectable list \<Rightarrow> ('s, nat) operation" where
  "count_by_ids repo ids = create_schema_if_needed repo (sbind (slift (id_in repo ids)) (count_where repo))"

definition count_all :: "('s, 'e, 'k) dolt_repository \<Rightarrow> ('s, nat) operation" where
  "count_all repo = create_schema_if_needed repo (orm_count (repo_session repo) (entity_type repo) (do_query None))"

definition exist_by_id :: "('s, 'e, 'k) dolt_repository \<Rightarrow> 'k \<Rightarrow> ('s, bool) operation" where
  "exist_by_id repo i =
     create_schema_if_needed repo (with_filter (id_is repo i) (orm_exists (repo_session repo) (entity_type repo)))"

definition exist_where :: "('s, 'e, 'k) dolt_repository \<Rightarrow> ('e \<Rightarrow> bool) \<Rightarrow> ('s, bool) operation" where
  "exist_where repo q =
     create_schema_if_needed repo (orm_exists (repo_session repo) (entity_type repo) (do_query (Some q)))"

text \<open>\<open>exist().by_ids(...)\<close> collects the identifiers; its result has \<open>all\<close> and \<open>any\<close>.\<close>

definition exist_by_ids :: "('s, 'e, 'k) dolt_repository \<Rightarrow> 'k collectable list \<Rightarrow> ('s, 'k list) operation" where
  "exist_by_ids repo ids = create_schema_if_needed repo (slift (ids_of repo ids))"

definition all_exist :: "('s, 'e, 'k) dolt_repository \<Rightarrow> 'k list \<Rightarrow> ('s, bool) operation" where
  "all_exist repo ids =
     create_schema_if_needed repo
       (sbind (with_filter (id_in repo [Many ids]) (orm_count (repo_session repo) (entity_type repo)))
          (\<lambda>n. sret (n = length ids)))"

definition any_exist :: "('s, 'e, 'k) dolt_repository \<Rightarrow> 'k list \<Rightarrow> ('s, bool) operation" where
  "any_exist repo ids =
     create_schema_if_needed repo
       (with_filter (id_in repo [Many ids]) (orm_exists (repo_session repo) (entity_type repo)))"

definition delete_by_id :: "('s, 'e, 'k) dolt_repository \<Rightarrow> 'k \<Rightarrow> ('s, unit) operation" where
  "delete_by_id repo i =
     create_schema_if_needed repo (with_filter (id_is repo i) (orm_delete (repo_session repo) (entity_type repo)))"

definition delete_by_ids :: "('s, 'e, 'k) dolt_repository \<Rightarrow> 'k collectable list \<Rightarrow> ('s, unit) operation" where
  "delete_by_ids repo ids =
     create_schema_if_needed repo (with_filter (id_in repo ids) (orm_delete (repo_session repo) (entity_type repo)))"

definition delete_where :: "('s, 'e, 'k) dolt_repository \<Rightarrow> ('e \<Rightarrow> bool) \<Rightarrow> ('s, unit) operation" where
  "delete_where repo q =
     create_schema_if_needed repo (orm_delete (repo_session repo) (entity_type repo) (do_query (Some q)))"

definition delete_all :: "('s, 'e, 'k) dolt_repository \<Rightarrow> ('s, unit) operation" where
  "delete_all repo = create_schema_if_needed repo (orm_delete (repo_session repo) (entity_type repo) (do_query None))"

section \<open>What SQLAlchemy and Dolt document\<close>

text \<open>
  The tables as the session sees them in its transaction, in the working set of the active branch, where a
  transaction that is committed leaves them, and at the head of that branch; the entities that
  are merged but not flushed; and the active branch.
\<close>

record 'e tables =
  live :: "nat \<Rightarrow> 'e list option"
  saved :: "nat \<Rightarrow> 'e list option"
  branch_head :: "nat \<Rightarrow> 'e list option"
  pending :: "(nat \<times> 'e) list"
  on_branch :: string

definition answers_as :: "('s, 'a) operation \<Rightarrow> ('s \<Rightarrow> 'e tables) \<Rightarrow> 's \<Rightarrow> 'a \<Rightarrow> 'e tables \<Rightarrow> bool" where
  "answers_as m view s x v \<longleftrightarrow> (\<exists>s'. m s = (s', Inr x) \<and> view s' = v)"

definition refuses :: "(exn \<Rightarrow> exn list) \<Rightarrow> ('s, 'a) operation \<Rightarrow> ('s \<Rightarrow> 'v) \<Rightarrow> 's \<Rightarrow> bool" where
  "refuses cs m view s \<longleftrightarrow> (\<exists>s' e. m s = (s', Inl e) \<and> missing_table (e # cs e) \<and> view s' = view s)"

text \<open>Queries on a table that exists, when nothing is pending.\<close>

definition queries_ok :: "('s, 'e) orm \<Rightarrow> ('s \<Rightarrow> 'e tables) \<Rightarrow> bool" where
  "queries_ok o' view \<longleftrightarrow>
     (\<forall>t q s rs. live (view s) t = Some rs \<longrightarrow> pending (view s) = [] \<longrightarrow>
        answers_as (orm_all o' t q) view s (filter q rs) (view s) \<and>
        answers_as (orm_first o' t q) view s (List.find q rs) (view s) \<and>
        answers_as (orm_count o' t q) view s (length (filter q rs)) (view s) \<and>
        answers_as (orm_exists o' t q) view s (\<exists>e \<in> set rs. q e) (view s) \<and>
        answers_as (orm_delete o' t q) view s ()
          ((view s)\<lparr>live := (live (view s))(t \<mapsto> filter (\<lambda>e. \<not> q e) rs)\<rparr>))"

text \<open>
  Merging an entity that is \<open>complete\<close>, that is, whose identifier and attributes are all set, gives
  a copy of it and makes it pending; flushing writes the pending ones by their keys. Of one key only one entity
  may be pending. For an entity without identifier the database makes one when it is flushed: nothing is said
  about those.
\<close>

definition put_row :: "('e \<Rightarrow> 'k) \<Rightarrow> nat \<times> 'e \<Rightarrow> (nat \<Rightarrow> 'e list option) \<Rightarrow> nat \<Rightarrow> 'e list option" where
  "put_row key r l = l(fst r \<mapsto> put_value key (snd r) (case l (fst r) of None \<Rightarrow> [] | Some rs \<Rightarrow> rs))"

definition writes_ok ::
  "('s, 'e) orm \<Rightarrow> nat \<Rightarrow> ('e \<Rightarrow> bool) \<Rightarrow> ('e \<Rightarrow> 'k) \<Rightarrow> ('s \<Rightarrow> 'e tables) \<Rightarrow> bool" where
  "writes_ok o' t complete key view \<longleftrightarrow>
     (\<forall>e s. live (view s) t \<noteq> None \<longrightarrow> complete e \<longrightarrow>
        (\<forall>x \<in> set (pending (view s)). fst x = t \<and> key (snd x) \<noteq> key e) \<longrightarrow>
        answers_as (orm_merge o' t e) view s e ((view s)\<lparr>pending := pending (view s) @ [(t, e)]\<rparr>)) \<and>
     (\<forall>s. live (view s) t \<noteq> None \<longrightarrow> (\<forall>x \<in> set (pending (view s)). fst x = t \<and> complete (snd x)) \<longrightarrow>
        distinct (map (key \<circ> snd) (pending (view s))) \<longrightarrow>
        answers_as (orm_flush o' (map snd (pending (view s)))) view s ()
          ((view s)\<lparr>live := fold (put_row key) (pending (view s)) (live (view s)), pending := []\<rparr>))"

definition missing_ok :: "(exn \<Rightarrow> exn list) \<Rightarrow> ('s, 'e) orm \<Rightarrow> nat \<Rightarrow> ('e \<Rightarrow> bool) \<Rightarrow> ('s \<Rightarrow> 'e tables) \<Rightarrow> bool" where
  "missing_ok cs o' t complete view \<longleftrightarrow>
     (\<forall>s q e. live (view s) t = None \<longrightarrow>
        refuses cs (orm_all o' t q) view s \<and> refuses cs (orm_first o' t q) view s \<and>
        refuses cs (orm_count o' t q) view s \<and> refuses cs (orm_exists o' t q) view s \<and>
        refuses cs (orm_delete o' t q) view s \<and> (complete e \<longrightarrow> refuses cs (orm_merge o' t e) view s))"

text \<open>
  Rolling back the transaction gives the working set back and drops what is pending. Creating all tables adds
  those that are missing, which are committed to the working set, as every definition of data is. \<open>DOLT_COMMIT\<close>
  commits the transaction and makes the working set the head of the active branch.
\<close>

definition all_tables :: "(nat \<Rightarrow> 'e list option) \<Rightarrow> nat \<Rightarrow> 'e list option" where
  "all_tables l t = (case l t of None \<Rightarrow> Some [] | Some rs \<Rightarrow> Some rs)"

definition schema_contract :: "('s, 'e) orm \<Rightarrow> 's sql_session \<Rightarrow> ('s \<Rightarrow> 'e tables) \<Rightarrow> bool" where
  "schema_contract o' q view \<longleftrightarrow>
     (\<forall>s. answers_as (orm_rollback o') view s () ((view s)\<lparr>live := saved (view s), pending := []\<rparr>)) \<and>
     (\<forall>s. live (view s) = saved (view s) \<longrightarrow> pending (view s) = [] \<longrightarrow>
        answers_as (orm_create_all o') view s ()
          ((view s)\<lparr>live := all_tables (live (view s)), saved := all_tables (saved (view s))\<rparr>)) \<and>
     (\<forall>s. answers_as (scalar_text q ''SELECT active_branch();'') view s (on_branch (view s)) (view s)) \<and>
     (\<forall>s t. pending (view s) = [] \<longrightarrow> quotable t \<longrightarrow>
        answers_as (run_statement q (procedure_call ''DOLT_COMMIT'' [''-A'', ''--allow-empty'', ''-m'', t])) view s ()
          ((view s)\<lparr>saved := live (view s), branch_head := live (view s)\<rparr>))"

text \<open>What this comes to: all tables are there, empty when they were not committed, and are committed.\<close>

definition created :: "'e tables \<Rightarrow> 'e tables" where
  "created v =
     v\<lparr>live := all_tables (saved v), saved := all_tables (saved v), branch_head := all_tables (saved v), pending := []\<rparr>"

section \<open>Repositories over existing tables\<close>

lemma answers_asI: "m s = (s', Inr x) \<Longrightarrow> view s' = v \<Longrightarrow> answers_as m view s x v"
  by (auto simp: answers_as_def)

lemma answers_asE:
  assumes "answers_as m view s x v"
  obtains s' where "m s = (s', Inr x)" and "view s' = v"
  using assms by (auto simp: answers_as_def)

lemma answers_with_schema: "answers_as foo view s x v \<Longrightarrow> answers_as (create_schema_if_needed repo foo) view s x v"
  by (auto simp: answers_as_def create_schema_if_needed_def scatch_def)

lemma answers_with_filter: "q = Inr p \<Longrightarrow> answers_as (f p) view s x v \<Longrightarrow> answers_as (with_filter q f) view s x v"
  by (simp add: answers_as_def with_filter_def sbind_def slift_def do_query_def)

lemma answers_then: "answers_as m view s x v \<Longrightarrow> answers_as (sbind m (\<lambda>y. sret (f y))) view s (f x) v"
  by (auto simp: answers_as_def sbind_def sret_def)

lemma queries_okD:
  assumes "queries_ok o' view" and "live (view s) t = Some rs" and "pending (view s) = []"
  shows "answers_as (orm_all o' t q) view s (filter q rs) (view s)"
    and "answers_as (orm_first o' t q) view s (List.find q rs) (view s)"
    and "answers_as (orm_count o' t q) view s (length (filter q rs)) (view s)"
    and "answers_as (orm_exists o' t q) view s (\<exists>e \<in> set rs. q e) (view s)"
    and "answers_as (orm_delete o' t q) view s () ((view s)\<lparr>live := (live (view s))(t \<mapsto> filter (\<lambda>e. \<not> q e) rs)\<rparr>)"
  using assms unfolding queries_ok_def by blast+

text \<open>A repository with one identifying column, and what its filters are.\<close>

definition keyed_by :: "('s, 'e, 'k) dolt_repository \<Rightarrow> ('e \<Rightarrow> 'k) \<Rightarrow> bool" where
  "keyed_by repo key \<longleftrightarrow> id_columns repo = [key]"

lemma keyed_filters:
  assumes "keyed_by repo key"
  shows "id_is repo i = Inr (\<lambda>e. key e = i)"
    and "\<forall>i \<in> set is. is_id repo i \<Longrightarrow> id_in repo [Many is] = Inr (\<lambda>e. key e \<in> set is)"
  using assms
  by (simp_all add: id_is_def id_in_def ids_of_def id_column_def keyed_by_def collect_many_ok)

lemma save_merges:
  assumes W: "writes_ok o' t complete key view"
  shows "live (view s) t \<noteq> None \<Longrightarrow> \<forall>e \<in> set es. complete e \<Longrightarrow> distinct (map key es) \<Longrightarrow>
    \<forall>x \<in> set (pending (view s)). fst x = t \<and> key (snd x) \<notin> key ` set es \<Longrightarrow>
    answers_as (smap (orm_merge o' t) es) view s es ((view s)\<lparr>pending := pending (view s) @ map (Pair t) es\<rparr>)"
proof (induction es arbitrary: s)
  case (Cons e es)
  then have "answers_as (orm_merge o' t e) view s e ((view s)\<lparr>pending := pending (view s) @ [(t, e)]\<rparr>)"
    using W by (simp add: writes_ok_def)
  then obtain s1 where s1: "orm_merge o' t e s = (s1, Inr e)" "view s1 = (view s)\<lparr>pending := pending (view s) @ [(t, e)]\<rparr>"
    by (rule answers_asE)
  from Cons.IH [of s1] Cons.prems s1(2)
  obtain s2 where "smap (orm_merge o' t) es s1 = (s2, Inr es)"
    and "view s2 = (view s1)\<lparr>pending := pending (view s1) @ map (Pair t) es\<rparr>" by (auto elim: answers_asE)
  with s1 show ?case by (intro answers_asI [of _ _ s2]) simp_all
qed (simp add: answers_as_def)

lemma live_fold_put_row:
  "l t = Some rs \<Longrightarrow> fold (put_row key) (map (Pair t) es) l = l(t \<mapsto> fold (put_value key) es rs)"
  by (induction es arbitrary: l rs) (simp_all add: put_row_def fun_upd_idem)

lemma saving:
  assumes W: "writes_ok (repo_session repo) (entity_type repo) complete key view"
    and t: "live (view s) (entity_type repo) = Some rs" and p: "pending (view s) = []"
    and es: "\<forall>e \<in> set es. is_entity repo e \<and> complete e" and d: "distinct (map key es)"
  shows "answers_as (sseq (slift (require_writing (Some ''dolt'') RW)) (case collect (is_entity repo) [Many es] of
      (to_save, stop) \<Rightarrow> sbind (smap (orm_merge (repo_session repo) (entity_type repo)) to_save)
        (\<lambda>out. case stop of Some e \<Rightarrow> slift (Inl e) | None \<Rightarrow> sseq (orm_flush (repo_session repo) out) (sret out)))) view s es
    ((view s)\<lparr>live := (live (view s))(entity_type repo \<mapsto> fold (put_value key) es rs)\<rparr>)"
proof -
  let ?t = "entity_type repo" and ?o = "repo_session repo"
  have "answers_as (smap (orm_merge ?o ?t) es) view s es ((view s)\<lparr>pending := map (Pair ?t) es\<rparr>)"
    using save_merges [OF W, of s es] t p es d by simp
  then obtain s1 where s1: "smap (orm_merge ?o ?t) es s = (s1, Inr es)" "view s1 = (view s)\<lparr>pending := map (Pair ?t) es\<rparr>"
    by (rule answers_asE)
  have "answers_as (orm_flush ?o (map snd (pending (view s1)))) view s1 ()
      ((view s1)\<lparr>live := fold (put_row key) (pending (view s1)) (live (view s1)), pending := []\<rparr>)"
    by (rule W [unfolded writes_ok_def, THEN conjunct2, rule_format]) (use s1(2) t es d in \<open>auto simp: comp_def\<close>)
  then obtain s2 where s2: "orm_flush ?o es s1 = (s2, Inr ())"
    "view s2 = (view s)\<lparr>live := (live (view s))(?t \<mapsto> fold (put_value key) es rs), pending := []\<rparr>"
    using s1(2) live_fold_put_row [where l = "live (view s)" and t = ?t, OF t, of key es] by (auto elim!: answers_asE simp: comp_def)
  have "collect (is_entity repo) [Many es] = (es, None)" using es by (simp add: collect_many_ok)
  with s1 s2 p show ?thesis
    by (intro answers_asI [of _ _ s2])
      (simp_all add: sseq_def sbind_def slift_def sret_def require_writing_def can_write_def)
qed

lemma saved_rows:
  assumes "writes_ok (repo_session repo) (entity_type repo) complete key view"
    and "live (view s) (entity_type repo) = Some rs"
    and "pending (view s) = []" and "\<forall>e \<in> set es. is_entity repo e \<and> complete e" and "distinct (map key es)"
  shows "answers_as (save repo RW [Many es]) view s es
    ((view s)\<lparr>live := (live (view s))(entity_type repo \<mapsto> fold (put_value key) es rs)\<rparr>)"
  unfolding save_def by (rule answers_with_schema [OF saving [OF assms]])

lemma count_ids:
  assumes "distinct (map key rs)"
  shows "length (filter (\<lambda>e. key e \<in> is) rs) = card (is \<inter> key ` set rs)"
proof -
  have "distinct (map key (filter (\<lambda>e. key e \<in> is) rs))" using assms by (simp add: distinct_map_filter)
  then have "length (filter (\<lambda>e. key e \<in> is) rs) = card (key ` set (filter (\<lambda>e. key e \<in> is) rs))"
    by (metis distinct_card length_map list.set_map)
  also have "key ` set (filter (\<lambda>e. key e \<in> is) rs) = is \<inter> key ` set rs" by auto
  finally show ?thesis .
qed

lemma all_ids_present:
  assumes "distinct (map key rs)" and "distinct is"
  shows "length (filter (\<lambda>e. key e \<in> set is) rs) = length is \<longleftrightarrow> set is \<subseteq> key ` set rs"
  unfolding count_ids [OF assms(1)]
  using distinct_card [OF assms(2)] card_subset_eq [of "set is" "set is \<inter> key ` set rs"] by (auto simp: Int_absorb2)

lemma answers_counting:
  "id_in repo ids = Inr p \<Longrightarrow> answers_as (orm_count (repo_session repo) (entity_type repo) p) view s n v \<Longrightarrow>
   answers_as (count_by_ids repo ids) view s n v"
  using answers_with_schema [of "orm_count (repo_session repo) (entity_type repo) p" view s n v repo]
  unfolding count_by_ids_def
  by (intro answers_with_schema) (simp add: answers_as_def sbind_def slift_def count_where_def do_query_def)


section \<open>Tables that are missing\<close>

text \<open>What the session documents, on the state of the versioning.\<close>

lemma answers_on_session:
  assumes "answers_as m view (database_state d) x v"
  shows "\<exists>d'. on_session m d = (d', Inr x) \<and> view (database_state d') = v \<and> known d' = known d"
proof -
  from assms obtain s' where s': "m (database_state d) = (s', Inr x)" "view s' = v" by (rule answers_asE)
  show ?thesis by (rule exI [of _ "d\<lparr>database_state := s'\<rparr>"]) (simp add: on_session_def s')
qed

lemma answers_lift:
  assumes "answers_as m view (database_state d) x v"
  shows "answers_as (on_session m) (view \<circ> database_state) d x v"
  using answers_on_session [OF assms] by (auto simp: answers_as_def)

lemma refuses_lift:
  "refuses cs m view (database_state d) \<Longrightarrow> refuses cs (on_session m) (\<lambda>d. (view (database_state d), known d)) d"
  by (auto simp: refuses_def on_session_def split: prod.splits)

lemma on_dolt_simps [simp]:
  "orm_merge (on_dolt o') t e = on_session (orm_merge o' t e)" "orm_flush (on_dolt o') es = on_session (orm_flush o' es)"
  "orm_all (on_dolt o') t p = on_session (orm_all o' t p)" "orm_first (on_dolt o') t p = on_session (orm_first o' t p)"
  "orm_count (on_dolt o') t p = on_session (orm_count o' t p)" "orm_exists (on_dolt o') t p = on_session (orm_exists o' t p)"
  "orm_delete (on_dolt o') t p = on_session (orm_delete o' t p)" "orm_rollback (on_dolt o') = on_session (orm_rollback o')"
  "orm_create_all (on_dolt o') = on_session (orm_create_all o')"
  by (simp_all add: on_dolt_def)

lemma queries_on_dolt: "queries_ok o' view \<Longrightarrow> queries_ok (on_dolt o') (view \<circ> database_state)"
  unfolding queries_ok_def on_dolt_simps comp_apply by (intro allI impI conjI; rule answers_lift [unfolded comp_def]; simp)

lemma writes_on_dolt:
  fixes o' :: "('s, 'e) orm"
  assumes "writes_ok o' t complete key view"
  shows "writes_ok (on_dolt o') t complete key (view \<circ> database_state)"
proof -
  let ?V = "view \<circ> database_state"
  have "answers_as (orm_merge (on_dolt o') t e) ?V d e ((?V d)\<lparr>pending := pending (?V d) @ [(t, e)]\<rparr>)"
    if "live (?V d) t \<noteq> None" "complete e" "\<forall>x \<in> set (pending (?V d)). fst x = t \<and> key (snd x) \<noteq> key e" for e d
    using assms that answers_lift [of "orm_merge o' t e" view d] by (simp add: writes_ok_def)
  moreover have "answers_as (orm_flush (on_dolt o') (map snd (pending (?V d)))) ?V d ()
      ((?V d)\<lparr>live := fold (put_row key) (pending (?V d)) (live (?V d)), pending := []\<rparr>)"
    if "live (?V d) t \<noteq> None" "\<forall>x \<in> set (pending (?V d)). fst x = t \<and> complete (snd x)"
      "distinct (map (key \<circ> snd) (pending (?V d)))" for d
    using assms that answers_lift [of "orm_flush o' (map snd (pending (?V d)))" view d]
    by (simp add: writes_ok_def)
  ultimately show ?thesis unfolding writes_ok_def by blast
qed

text \<open>Rolling back, creating all tables and committing with the versioning, in this order.\<close>

lemma schema_created:
  assumes S: "schema_contract o' q view"
    and c: "from_branch_name ''main'' (on_branch (view (database_state d))) (known d) = Inr at"
      "quotable (str_of_optional at @ '' [DDL]'')"
  shows "answers_as (sseq (orm_rollback (on_dolt o')) (sseq (orm_create_all (on_dolt o'))
      (commit (SqlAlchemyDoltVersioning uuid5 q) (Some ''DDL'')))) (view \<circ> database_state) d ()
    (created (view (database_state d)))"
proof -
  let ?v = "view (database_state d)"
  let ?call = "procedure_call ''DOLT_COMMIT'' [''-A'', ''--allow-empty'', ''-m'', str_of_optional at @ '' [DDL]'']"
  note laws = S [unfolded schema_contract_def]
  from answers_on_session [OF laws [THEN conjunct1, rule_format, of "database_state d"]]
  obtain d1 where d1: "on_session (orm_rollback o') d = (d1, Inr ())"
    "view (database_state d1) = ?v\<lparr>live := saved ?v, pending := []\<rparr>" "known d1 = known d" by blast
  have "live (view (database_state d1)) = saved (view (database_state d1))" "pending (view (database_state d1)) = []"
    by (simp_all add: d1(2))
  from answers_on_session [OF laws [THEN conjunct2, THEN conjunct1, rule_format, OF this]]
  obtain d2 where d2: "on_session (orm_create_all o') d1 = (d2, Inr ())" "known d2 = known d"
    "view (database_state d2) = ?v\<lparr>live := all_tables (saved ?v), saved := all_tables (saved ?v), pending := []\<rparr>"
    unfolding d1(2,3) by auto
  from answers_on_session [OF laws [THEN conjunct2, THEN conjunct2, THEN conjunct1, rule_format, of "database_state d2"]]
  obtain d3 where d3: "on_session (scalar_text q ''SELECT active_branch();'') d2 = (d3, Inr (on_branch ?v))"
    "view (database_state d3) = view (database_state d2)" "known d3 = known d"
    unfolding d2(2,3) by auto
  have "pending (view (database_state d3)) = []" using d2(3) d3(2) by simp
  from answers_on_session [OF laws [THEN conjunct2, THEN conjunct2, THEN conjunct2, rule_format, OF this c(2)]]
  obtain d4 where d4: "on_session (run_statement q ?call) d3 = (d4, Inr ())" "view (database_state d4) = created ?v"
    unfolding d3(2) d2(3) by (auto simp: created_def)
  have "commit (SqlAlchemyDoltVersioning uuid5 q) (Some ''DDL'') d2 = (d4, Inr ())"
    using d3 d4(1) c(1)
    by (simp add: SqlAlchemyDoltVersioning_def dolt_commit_def current_coordinates_def current_branch_def
        call_procedure_def sbind_def)
  with d1(1) d2(1) d4(2) show ?thesis
    by (intro answers_asI [of _ _ d4]) (simp_all add: sseq_def sbind_def)
qed

lemma answers_after_creating:
  assumes "refuses (contexts repo) foo (\<lambda>d. (view d, kept d)) s"
    and S: "\<And>s1. view s1 = view s \<Longrightarrow> kept s1 = kept s \<Longrightarrow>
      answers_as (sseq (orm_rollback (repo_session repo)) (sseq (orm_create_all (repo_session repo))
        (commit (repo_versioning repo) (Some ''DDL'')))) view s1 () (created (view s))"
    and "\<And>s1. view s1 = created (view s) \<Longrightarrow> answers_as foo view s1 x v"
  shows "answers_as (create_schema_if_needed repo foo) view s x v"
proof -
  obtain s1 e where 1: "foo s = (s1, Inl e)" "missing_table (e # contexts repo e)" "view s1 = view s" "kept s1 = kept s"
    using assms(1) by (auto simp: refuses_def)
  obtain s2 where 2: "sseq (orm_rollback (repo_session repo)) (sseq (orm_create_all (repo_session repo))
      (commit (repo_versioning repo) (Some ''DDL''))) s1 = (s2, Inr ())" "view s2 = created (view s)"
    using S [OF 1(3,4)] by (rule answers_asE)
  obtain s3 where "foo s2 = (s3, Inr x)" "view s3 = v" using assms(3) [OF 2(2)] by (rule answers_asE)
  with 1 2 show ?thesis
    by (intro answers_asI [of _ _ s3])
      (auto simp: create_schema_if_needed_def scatch_def sseq_def sbind_def simp del: missing_table.simps split: prod.splits sum.splits)
qed

lemma created_then:
  fixes view :: "'s \<Rightarrow> 'e tables"
  assumes R: "repo = DoltStorage_repository uuid5 q o' cs t columns of_entity of_id"
    and S: "schema_contract o' q view" and v: "v = view (database_state d)"
    and c: "from_branch_name ''main'' (on_branch v) (known d) = Inr at" "quotable (str_of_optional at @ '' [DDL]'')"
    and no: "refuses cs foo (\<lambda>d. ((view \<circ> database_state) d, known d)) d"
    and yes: "\<And>d1. (view \<circ> database_state) d1 = created v \<Longrightarrow> answers_as foo (view \<circ> database_state) d1 x v'"
  shows "answers_as (create_schema_if_needed repo foo) (view \<circ> database_state) d x v'"
proof (rule answers_after_creating)
  show "refuses (contexts repo) foo (\<lambda>d. ((view \<circ> database_state) d, known d)) d"
    using no by (simp add: R DoltStorage_repository_def)
  show "answers_as foo (view \<circ> database_state) d1 x v'" if "(view \<circ> database_state) d1 = created ((view \<circ> database_state) d)" for d1
    using yes [of d1] that v by simp
next
  fix d1 :: "'s dolt_state"
  assume d1: "(view \<circ> database_state) d1 = (view \<circ> database_state) d" "known d1 = known d"
  then have "answers_as (sseq (orm_rollback (on_dolt o')) (sseq (orm_create_all (on_dolt o'))
      (commit (SqlAlchemyDoltVersioning uuid5 q) (Some ''DDL'')))) (view \<circ> database_state) d1 ()
        (created (view (database_state d1)))"
    using c v by (intro schema_created [OF S]) simp_all
  then show "answers_as (sseq (orm_rollback (repo_session repo)) (sseq (orm_create_all (repo_session repo))
      (commit (repo_versioning repo) (Some ''DDL'')))) (view \<circ> database_state) d1 () (created ((view \<circ> database_state) d))"
    using d1(1) by (simp add: R DoltStorage_repository_def)
qed

text \<open>C33: The schema is created on first use. When the table of a repository that the storage made does
  not exist, reading finds no entities and saving (while writing is allowed) stores the given ones, in a
  table that now exists. For that the session is rolled back, all tables are created and the versioning
  commits: of every other table only what was committed is left, and the head of the active branch
  has exactly these tables; what had been saved before in the same step is gone. This is for entities whose
  identifiers and attributes are set, and an active branch that this program has named.\<close>

theorem first_use_creates_schema:
  fixes view :: "'s \<Rightarrow> 'e tables"
  assumes R: "repo = DoltStorage_repository uuid5 q o' cs t columns of_entity of_id"
    and Q: "queries_ok o' view" and W: "writes_ok o' t complete key view"
    and M: "missing_ok cs o' t complete view" and S: "schema_contract o' q view"
    and v: "v = view (database_state d)" and t: "live v t = None" "saved v t = None"
    and c: "from_branch_name ''main'' (on_branch v) (known d) = Inr at" "quotable (str_of_optional at @ '' [DDL]'')"
  shows "answers_as (find_all repo) (view \<circ> database_state) d [] (created v) \<and>
    (\<forall>p. answers_as (find_where repo p) (view \<circ> database_state) d [] (created v) \<and>
      answers_as (count_where repo p) (view \<circ> database_state) d 0 (created v) \<and>
      answers_as (exist_where repo p) (view \<circ> database_state) d False (created v)) \<and>
    (\<forall>e es. (\<forall>x \<in> set (e # es). is_entity repo x \<and> complete x) \<longrightarrow> distinct (map key (e # es)) \<longrightarrow>
      answers_as (save repo RW [Many (e # es)]) (view \<circ> database_state) d (e # es)
        ((created v)\<lparr>live := (live (created v))(t \<mapsto> fold (put_value key) (e # es) [])\<rparr>)) \<and>
    (\<forall>other. branch_head (created v) other = live (created v) other \<and>
      live (created v) other = (case saved v other of None \<Rightarrow> Some [] | Some rs \<Rightarrow> Some rs))"
proof (intro conjI allI impI)
  let ?V = "view \<circ> database_state" and ?o = "on_dolt o'"
  have repo [simp]: "repo_session repo = ?o" "repo_versioning repo = SqlAlchemyDoltVersioning uuid5 q"
    "contexts repo = cs" "entity_type repo = t"
    by (simp_all add: R DoltStorage_repository_def)
  have V: "?V d = v" by (simp add: v)
  have made: "live (created v) t = Some []" "pending (created v) = []"
    using t by (simp_all add: created_def all_tables_def)
  have q: "live (?V d1) t = Some []" "pending (?V d1) = []" if "?V d1 = created v" for d1
    using made that by simp_all
  note QV = queries_on_dolt [OF Q] and WV = writes_on_dolt [OF W]
  have M: "refuses cs (orm_all ?o t p) (\<lambda>d. (?V d, known d)) d" "refuses cs (orm_count ?o t p) (\<lambda>d. (?V d, known d)) d"
    "refuses cs (orm_exists ?o t p) (\<lambda>d. (?V d, known d)) d"
    "complete e \<Longrightarrow> refuses cs (orm_merge ?o t e) (\<lambda>d. (?V d, known d)) d" for p e
    using M t(1) unfolding missing_ok_def v comp_apply on_dolt_simps by (blast intro: refuses_lift)+
  note create = created_then [OF R S v c]
  show "answers_as (find_all repo) ?V d [] (created v)" unfolding find_all_def repo
    using queries_okD(1) [OF QV q] by (intro create [OF M(1)]) fastforce
  show "answers_as (find_where repo p) ?V d [] (created v)" for p unfolding find_where_def repo
    using queries_okD(1) [OF QV q] by (intro create [OF M(1)]) fastforce
  show "answers_as (count_where repo p) ?V d 0 (created v)" for p unfolding count_where_def repo
    using queries_okD(3) [OF QV q] by (intro create [OF M(2)]) fastforce
  show "answers_as (exist_where repo p) ?V d False (created v)" for p unfolding exist_where_def repo
    using queries_okD(4) [OF QV q] by (intro create [OF M(3)]) fastforce
  show "answers_as (save repo RW [Many (e # es)]) ?V d (e # es)
      ((created v)\<lparr>live := (live (created v))(t \<mapsto> fold (put_value key) (e # es) [])\<rparr>)"
    if es: "\<forall>x \<in> set (e # es). is_entity repo x \<and> complete x" "distinct (map key (e # es))" for e es unfolding save_def repo
  proof (rule create)
    let ?foo = "sseq (slift (require_writing (Some ''dolt'') RW)) (case collect (is_entity repo) [Many (e # es)] of
      (to_save, stop) \<Rightarrow> sbind (smap (orm_merge ?o t) to_save)
        (\<lambda>out. case stop of Some e \<Rightarrow> slift (Inl e) | None \<Rightarrow> sseq (orm_flush ?o out) (sret out)))"
    have "collect (is_entity repo) [Many (e # es)] = (e # es, None)" using es(1) by (simp add: collect_many_ok)
    then show "refuses cs ?foo (\<lambda>d. (?V d, known d)) d"
      using M(4) [of e] es
      by (auto simp: refuses_def sseq_def sbind_def slift_def require_writing_def can_write_def
          simp del: missing_table.simps collect.simps split: prod.splits option.splits)
    show "answers_as ?foo ?V d1 (e # es)
        ((created v)\<lparr>live := (live (created v))(t \<mapsto> fold (put_value key) (e # es) [])\<rparr>)"
      if "?V d1 = created v" for d1
      using saving [of repo complete key ?V d1 "[]" "e # es", unfolded repo, OF WV q [OF that] es] unfolding that .
  qed
next
  fix other
  show "branch_head (created v) other = live (created v) other" by (simp add: created_def)
  show "live (created v) other = (case saved v other of None \<Rightarrow> Some [] | Some rs \<Rightarrow> Some rs)"
    by (simp add: created_def all_tables_def)
qed

section \<open>A session in memory\<close>

definition ex_query :: "('e tables \<Rightarrow> 'e list \<Rightarrow> 'a) \<Rightarrow> ('e tables \<Rightarrow> 'e list \<Rightarrow> 'e tables) \<Rightarrow> nat \<Rightarrow> ('e tables, 'a) operation" where
  "ex_query f g t s = (case live s t of None \<Rightarrow> (s, Inl (ProgrammingError 1146)) | Some rs \<Rightarrow> (g s rs, Inr (f s rs)))"

definition ex_sessions :: "((nat \<times> nat) tables, nat \<times> nat) orm" where
  "ex_sessions =
     \<lparr>orm_merge = (\<lambda>t e. ex_query (\<lambda>s rs. e) (\<lambda>s rs. s\<lparr>pending := pending s @ [(t, e)]\<rparr>) t),
      orm_flush = (\<lambda>es s. (s\<lparr>live := fold (put_row fst) (pending s) (live s), pending := []\<rparr>, Inr ())),
      orm_all = (\<lambda>t q. ex_query (\<lambda>s. filter q) (\<lambda>s rs. s) t),
      orm_first = (\<lambda>t q. ex_query (\<lambda>s. List.find q) (\<lambda>s rs. s) t),
      orm_count = (\<lambda>t q. ex_query (\<lambda>s rs. length (filter q rs)) (\<lambda>s rs. s) t),
      orm_exists = (\<lambda>t q. ex_query (\<lambda>s rs. \<exists>e \<in> set rs. q e) (\<lambda>s rs. s) t),
      orm_delete = (\<lambda>t q. ex_query (\<lambda>s rs. ()) (\<lambda>s rs. s\<lparr>live := (live s)(t \<mapsto> filter (\<lambda>e. \<not> q e) rs)\<rparr>) t),
      orm_rollback = (\<lambda>s. (s\<lparr>live := saved s, pending := []\<rparr>, Inr ())),
      orm_create_all = (\<lambda>s. (s\<lparr>live := all_tables (live s), saved := all_tables (saved s)\<rparr>, Inr ()))\<rparr>"

definition ex_statements :: "(nat \<times> nat) tables sql_session" where
  "ex_statements =
     \<lparr>run_statement = (\<lambda>q s. (if starts_with ''CALL DOLT_COMMIT('' q then s\<lparr>saved := live s, branch_head := live s\<rparr> else s, Inr ())),
      scalar_text = (\<lambda>q s. (s, Inr (on_branch s))), scalar_int = (\<lambda>q s. (s, Inr 0)), session_dirty = (\<lambda>s. pending s \<noteq> [])\<rparr>"

text \<open>Entities are pairs of an identifier and a text; the identifier 0 stands for one that is not set.\<close>

definition ex_repository :: "nat \<Rightarrow> ((nat \<times> nat) tables dolt_state, nat \<times> nat, nat) dolt_repository" where
  "ex_repository t =
     DoltStorage_repository ex_uuid5 ex_statements ex_sessions (\<lambda>e. []) t [fst] (\<lambda>e. True) (\<lambda>i. True)"

definition ex_tables :: "(nat \<times> nat) tables" where
  "ex_tables =
     \<lparr>live = [1 \<mapsto> [(5, 50), (6, 60)]], saved = [1 \<mapsto> [(5, 50)]], branch_head = [1 \<mapsto> [(5, 50)]], pending = [],
      on_branch = ''main''\<rparr>"

definition ex_dolt_tables :: "(nat \<times> nat) tables dolt_state" where
  "ex_dolt_tables = \<lparr>database_state = ex_tables, known = []\<rparr>"

definition ex_complete :: "nat \<times> nat \<Rightarrow> bool" where
  "ex_complete e \<longleftrightarrow> fst e \<noteq> 0"

lemma ex_queries: "queries_ok ex_sessions (\<lambda>s. s)"
  by (simp add: queries_ok_def answers_as_def ex_sessions_def ex_query_def)

lemma ex_writes: "writes_ok ex_sessions t ex_complete fst (\<lambda>s. s)"
  by (auto simp: writes_ok_def answers_as_def ex_sessions_def ex_query_def)

lemma ex_missing: "missing_ok (\<lambda>e. []) ex_sessions t ex_complete (\<lambda>s. s)"
  by (simp add: missing_ok_def refuses_def ex_sessions_def ex_query_def)

lemma ex_schema: "schema_contract ex_sessions ex_statements (\<lambda>s. s)"
proof -
  have "starts_with ''CALL DOLT_COMMIT('' (procedure_call ''DOLT_COMMIT'' args)" for args
    by (simp add: starts_with_def procedure_call_def)
  then show ?thesis
    by (auto simp: schema_contract_def answers_as_def ex_sessions_def ex_statements_def)
qed

lemma ex_repository_simps [simp]:
  "repo_session (ex_repository t) = on_dolt ex_sessions" "contexts (ex_repository t) = (\<lambda>e. [])"
  "entity_type (ex_repository t) = t" "is_entity (ex_repository t) = (\<lambda>e. True)" "is_id (ex_repository t) = (\<lambda>i. True)"
  by (simp_all add: ex_repository_def DoltStorage_repository_def)


theorem first_use_creates_schema_witness:
  "answers_as (save (ex_repository 2) RW [Many [(7, 70)]]) ((\<lambda>s. s) \<circ> database_state) ex_dolt_tables [(7, 70)]
     ((created ex_tables)\<lparr>live := (live (created ex_tables))(2 \<mapsto> [(7, 70)])\<rparr>) \<and>
   live (created ex_tables) 1 = Some [(5, 50)]"
proof -
  have v: "ex_tables = (\<lambda>s. s) (database_state ex_dolt_tables)" by (simp add: ex_dolt_tables_def)
  have t: "live ex_tables 2 = None" "saved ex_tables 2 = None" by (simp_all add: ex_tables_def)
  have c: "from_branch_name ''main'' (on_branch ex_tables) (known ex_dolt_tables) = Inr None"
    by (simp add: ex_tables_def from_branch_name_def)
  have q: "quotable (str_of_optional None @ '' [DDL]'')" by code_simp
  note f = first_use_creates_schema [OF ex_repository_def ex_queries ex_writes ex_missing ex_schema v t c q]
  have "answers_as (save (ex_repository 2) RW [Many (e # es)]) ((\<lambda>s. s) \<circ> database_state) ex_dolt_tables (e # es)
      ((created ex_tables)\<lparr>live := (live (created ex_tables))(2 \<mapsto> fold (put_value fst) (e # es) [])\<rparr>)"
    if "\<forall>x \<in> set (e # es). ex_complete x" "distinct (map fst (e # es))" for e es
    using f [THEN conjunct2, THEN conjunct2, THEN conjunct1, rule_format, of e es] that by simp
  from this [of "(7, 70)" "[]"] have "answers_as (save (ex_repository 2) RW [Many [(7, 70)]])
      ((\<lambda>s. s) \<circ> database_state) ex_dolt_tables [(7, 70)]
      ((created ex_tables)\<lparr>live := (live (created ex_tables))(2 \<mapsto> [(7, 70)])\<rparr>)"
    by (simp add: ex_complete_def put_value_def)
  moreover have "live (created ex_tables) 1 = Some [(5, 50)]" by (simp add: created_def all_tables_def ex_tables_def)
  ultimately show ?thesis ..
qed

end
