(* ===== verification/Declarations.thy ===== *)
theory Declarations
  imports Py_Strings
begin

text \<open>
  What a class declares: \<open>thinking_reflection/model/source_scope.py\<close>, \<open>model/members.py\<close> and
  \<open>declarations.py\<close>, with the tests for methods that they use of \<open>inspect_mate.py\<close>.

  The interpreter is a table of classes: bases, method resolution order, own annotations, own
  dictionary, the sorted names that \<open>dir\<close> gives, and where the source is, which the standard library
  finds. Types are numbers.
\<close>

section \<open>Where something is in the source\<close>

record source_scope =
  filename :: string
  first_line_no :: int
  line_count :: int

definition last_line_no :: "source_scope \<Rightarrow> int" where
  "last_line_no s = first_line_no s + line_count s - 1"

definition in_source_scope :: "source_scope option \<Rightarrow> source_scope \<Rightarrow> bool" where
  "in_source_scope item self =
     (case item of
        None \<Rightarrow> False
      | Some i \<Rightarrow>
          if filename i \<noteq> filename self then False
          else if last_line_no i < first_line_no self then False
          else if first_line_no i > last_line_no self then False
          else True)"

record descriptor_source_scope =
  declared_at :: "source_scope option"
  getter :: "source_scope option"
  setter :: "source_scope option"

definition in_descriptor_scope :: "descriptor_source_scope \<Rightarrow> source_scope \<Rightarrow> bool" where
  "in_descriptor_scope item self = list_ex (\<lambda>x. in_source_scope x self) [declared_at item, getter item, setter item]"

section \<open>Attributes of classes\<close>

datatype annotation = NoAnnotation | NoneLiteralAnnotation | Annotated nat

record signature =
  parameters :: "(string \<times> annotation) list"
  return_annotation :: annotation

record py_function =
  fn_signature :: signature
  fn_scope :: "source_scope option"
  fn_abstract :: "bool option"

text \<open>
  What a name is bound to in the dictionary of a class. A static or class method wraps a
  function; a builtin is a routine without source; other descriptors may have no setter, and
  then pass for routines.
\<close>

datatype binding =
    Function py_function
  | StaticMethod py_function
  | ClassMethod py_function
  | Builtin
  | Property "py_function option" "py_function option" "bool option"
  | OtherDescriptor bool
  | PlainValue

text \<open>A type as it is read or written through an attribute, which may be the literal \<open>None\<close>.\<close>

datatype accessor = UNSUPPORTED | NoneAccessor | Accessor nat

record reflected_class =
  rc_bases :: "nat list"
  rc_mro :: "nat list"
  rc_annotations :: "(string \<times> accessor) list"
  rc_dict :: "(string \<times> binding) list"
  rc_dir :: "string list"
  rc_scope :: "source_scope option"

record interpreter =
  reflected :: "nat \<Rightarrow> reflected_class"
  object_cls :: nat
  NoneType_cls :: nat
  Protocol_cls :: nat
  ABC_cls :: nat

fun bound_in :: "interpreter \<Rightarrow> nat list \<Rightarrow> string \<Rightarrow> binding option" where
  "bound_in w [] n = None"
| "bound_in w (c # cs) n = (case map_of (rc_dict (reflected w c)) n of Some b \<Rightarrow> Some b | None \<Rightarrow> bound_in w cs n)"

fun is_routine :: "binding \<Rightarrow> bool" where
  "is_routine (Function f) = True"
| "is_routine (StaticMethod f) = True"
| "is_routine (ClassMethod f) = True"
| "is_routine Builtin = True"
| "is_routine (Property g s a) = False"
| "is_routine (OtherDescriptor read_only) = read_only"
| "is_routine PlainValue = False"

fun is_descriptor :: "binding \<Rightarrow> bool" where
  "is_descriptor PlainValue = False"
| "is_descriptor _ = True"

text \<open>The tests look the name up again, along the method resolution order.\<close>

fun bound_as :: "(binding \<Rightarrow> bool) \<Rightarrow> interpreter \<Rightarrow> nat list \<Rightarrow> string \<Rightarrow> binding \<Rightarrow> bool" where
  "bound_as f w [] n v = False"
| "bound_as f w (c # cs) n v =
     (if is_routine v
      then case map_of (rc_dict (reflected w c)) n of Some b \<Rightarrow> f b | None \<Rightarrow> bound_as f w cs n v
      else bound_as f w cs n v)"

definition is_static_method :: "interpreter \<Rightarrow> nat \<Rightarrow> string \<Rightarrow> binding \<Rightarrow> bool" where
  "is_static_method w t n v =
     bound_as (\<lambda>b. case b of StaticMethod f \<Rightarrow> True | _ \<Rightarrow> False) w (rc_mro (reflected w t)) n v"

definition is_class_method :: "interpreter \<Rightarrow> nat \<Rightarrow> string \<Rightarrow> binding \<Rightarrow> bool" where
  "is_class_method w t n v =
     bound_as (\<lambda>b. case b of ClassMethod f \<Rightarrow> True | _ \<Rightarrow> False) w (rc_mro (reflected w t)) n v"

definition is_regular_method :: "interpreter \<Rightarrow> nat \<Rightarrow> string \<Rightarrow> binding \<Rightarrow> bool" where
  "is_regular_method w t n v \<longleftrightarrow>
     is_routine v \<and> \<not> is_static_method w t n v \<and> \<not> is_class_method w t n v"

section \<open>Fields and methods\<close>

record field_descriptor =
  get_type :: accessor
  set_type :: accessor

definition value_type :: "field_descriptor \<Rightarrow> accessor res" where
  "value_type f =
     (if get_type f \<noteq> UNSUPPORTED then Inr (get_type f)
      else if set_type f \<noteq> UNSUPPORTED then Inr (set_type f)
      else Inl AssertionError)"

record method_descriptor =
  md_signature :: signature
  md_scope :: "source_scope option"

record type_declaration =
  raw_type :: nat
  decl_fields :: "(string, field_descriptor) dict"
  decl_methods :: "(string, method_descriptor) dict"

section \<open>Descriptors\<close>

record descriptor_analyser =
  da_can_analyse :: "binding \<Rightarrow> bool"
  da_get_source_scope :: "binding \<Rightarrow> descriptor_source_scope option"
  da_analyse :: "interpreter \<Rightarrow> binding \<Rightarrow> field_descriptor res"

fun annotated_or_object :: "interpreter \<Rightarrow> annotation \<Rightarrow> accessor" where
  "annotated_or_object w NoAnnotation = Accessor (object_cls w)"
| "annotated_or_object w NoneLiteralAnnotation = NoneAccessor"
| "annotated_or_object w (Annotated t) = Accessor t"

definition property_get_type :: "interpreter \<Rightarrow> py_function option \<Rightarrow> accessor" where
  "property_get_type w fget =
     (case fget of None \<Rightarrow> UNSUPPORTED | Some f \<Rightarrow> annotated_or_object w (return_annotation (fn_signature f)))"

definition property_set_type :: "interpreter \<Rightarrow> py_function option \<Rightarrow> accessor" where
  "property_set_type w fset =
     (case fset of
        None \<Rightarrow> UNSUPPORTED
      | Some f \<Rightarrow>
          (case parameters (fn_signature f) of
             (_ # p # _) \<Rightarrow> annotated_or_object w (snd p)
           | _ \<Rightarrow> UNSUPPORTED))"

definition PropertyAnalyser :: descriptor_analyser where
  "PropertyAnalyser =
     \<lparr>da_can_analyse = (\<lambda>b. case b of Property g s a \<Rightarrow> True | _ \<Rightarrow> False),
      da_get_source_scope = (\<lambda>b. case b of
         Property g s a \<Rightarrow> Some \<lparr>declared_at = None, getter = Option.bind g fn_scope, setter = Option.bind s fn_scope\<rparr>
       | _ \<Rightarrow> None),
      da_analyse = (\<lambda>w b. case b of
         Property g s a \<Rightarrow> Inr \<lparr>get_type = property_get_type w g, set_type = property_set_type w s\<rparr>
       | _ \<Rightarrow> Inl AttributeError)\<rparr>"

definition IgnoringAnalyser :: descriptor_analyser where
  "IgnoringAnalyser =
     \<lparr>da_can_analyse = (\<lambda>b. True), da_get_source_scope = (\<lambda>b. None), da_analyse = (\<lambda>w b. Inl NotImplementedError)\<rparr>"

definition DESCRIPTOR_ANALYSERS :: "descriptor_analyser list" where
  "DESCRIPTOR_ANALYSERS = [PropertyAnalyser, IgnoringAnalyser]"

definition register_descriptor_analyser :: "descriptor_analyser \<Rightarrow> descriptor_analyser list \<Rightarrow> descriptor_analyser list" where
  "register_descriptor_analyser a as = a # as"

section \<open>What is public\<close>

definition is_public :: "string \<Rightarrow> bool" where
  "is_public name \<longleftrightarrow>
     \<not> starts_with ''_'' name \<or> (starts_with ''__'' name \<and> \<not> starts_with ''___'' name)"

text \<open>The mark of an abstract method or property, if the object has one.\<close>

fun abstract_mark :: "binding \<Rightarrow> bool option" where
  "abstract_mark (Function f) = fn_abstract f"
| "abstract_mark (StaticMethod f) = fn_abstract f"
| "abstract_mark (ClassMethod f) = fn_abstract f"
| "abstract_mark (Property g s a) = a"
| "abstract_mark _ = None"

definition is_abstract :: "binding \<Rightarrow> bool" where
  "is_abstract foo = (case abstract_mark foo of None \<Rightarrow> False | Some b \<Rightarrow> b)"

section \<open>Types\<close>

record type_analyser =
  can_analyse :: "interpreter \<Rightarrow> nat \<Rightarrow> bool"
  annotation_filter :: "string \<Rightarrow> bool"
  method_filter :: "string \<Rightarrow> binding \<Rightarrow> bool"
  descriptor_filter :: "string \<Rightarrow> binding \<Rightarrow> bool"

definition ProtocolAnalyser :: type_analyser where
  "ProtocolAnalyser =
     \<lparr>can_analyse = (\<lambda>w t. Protocol_cls w \<in> set (rc_bases (reflected w t))), annotation_filter = (\<lambda>n. True),
      method_filter = (\<lambda>n b. True), descriptor_filter = (\<lambda>n b. True)\<rparr>"

definition ABCAnalyser :: type_analyser where
  "ABCAnalyser =
     \<lparr>can_analyse = (\<lambda>w t. ABC_cls w \<in> set (rc_bases (reflected w t))), annotation_filter = (\<lambda>n. True),
      method_filter = (\<lambda>n b. is_public n \<or> is_abstract b), descriptor_filter = (\<lambda>n b. is_public n \<or> is_abstract b)\<rparr>"

definition CommonAnalyser :: type_analyser where
  "CommonAnalyser =
     \<lparr>can_analyse = (\<lambda>w t. True), annotation_filter = is_public, method_filter = (\<lambda>n b. is_public n),
      descriptor_filter = (\<lambda>n b. is_public n)\<rparr>"

definition TYPE_ANALYSERS :: "type_analyser list" where
  "TYPE_ANALYSERS = [ProtocolAnalyser, ABCAnalyser, CommonAnalyser]"

definition register_type_analyser :: "type_analyser \<Rightarrow> type_analyser list \<Rightarrow> type_analyser list" where
  "register_type_analyser a as = a # as"

text \<open>
  The parameters of a signature cannot be assigned: one annotated with the literal \<open>None\<close> makes
  the assignment raise. A return annotation \<open>None\<close> becomes its type.
\<close>

definition postprocess_signature :: "interpreter \<Rightarrow> signature \<Rightarrow> signature res" where
  "postprocess_signature w s =
     (if list_ex (\<lambda>(n, a). a = NoneLiteralAnnotation) (parameters s) then Inl TypeError
      else Inr (if return_annotation s = NoneLiteralAnnotation
                then s\<lparr>return_annotation := Annotated (NoneType_cls w)\<rparr> else s))"

text \<open>The search for an analyser of a descriptor: the first that gives a scope in the type's decides.\<close>

fun analyse_descriptor ::
  "interpreter \<Rightarrow> descriptor_analyser list \<Rightarrow> (binding \<Rightarrow> bool) \<Rightarrow> source_scope \<Rightarrow> binding \<Rightarrow> field_descriptor option res" where
  "analyse_descriptor w [] keep type_scope val = Inr None"
| "analyse_descriptor w (a # as) keep type_scope val =
     (if da_can_analyse a val
      then case da_get_source_scope a val of
             None \<Rightarrow> analyse_descriptor w as keep type_scope val
           | Some sc \<Rightarrow>
               (if in_descriptor_scope sc type_scope \<and> keep val then rbind (da_analyse a w val) (\<lambda>f. Inr (Some f))
                else analyse_descriptor w as keep type_scope val)
      else analyse_descriptor w as keep type_scope val)"

definition function_of :: "binding \<Rightarrow> py_function option" where
  "function_of b =
     (case b of Function f \<Rightarrow> Some f | StaticMethod f \<Rightarrow> Some f | ClassMethod f \<Rightarrow> Some f | _ \<Rightarrow> None)"

text \<open>A member of the class: a method, a field, or nothing.\<close>

datatype analysed = AMethod method_descriptor | AField field_descriptor | Ignored

definition analyse_member ::
  "interpreter \<Rightarrow> descriptor_analyser list \<Rightarrow> type_analyser \<Rightarrow> nat \<Rightarrow> source_scope \<Rightarrow> string \<Rightarrow> binding \<Rightarrow> analysed res" where
  "analyse_member w das a t type_scope name val =
     (if is_regular_method w t name val
      then case function_of val of
             None \<Rightarrow> Inr Ignored
           | Some f \<Rightarrow>
               (if in_source_scope (fn_scope f) type_scope \<and> method_filter a name val
                then rbind (postprocess_signature w (fn_signature f))
                       (\<lambda>sig. Inr (AMethod \<lparr>md_signature = sig, md_scope = fn_scope f\<rparr>))
                else Inr Ignored)
      else if is_descriptor val
      then rbind (analyse_descriptor w das (descriptor_filter a name) type_scope val)
             (\<lambda>r. Inr (case r of None \<Rightarrow> Ignored | Some f \<Rightarrow> AField f))
      else Inr Ignored)"

fun analyse_members ::
  "interpreter \<Rightarrow> descriptor_analyser list \<Rightarrow> type_analyser \<Rightarrow> nat \<Rightarrow> source_scope \<Rightarrow> string list \<Rightarrow>
   type_declaration \<Rightarrow> type_declaration res" where
  "analyse_members w das a t type_scope [] d = Inr d"
| "analyse_members w das a t type_scope (name # names) d =
     (case bound_in w (rc_mro (reflected w t)) name of
        None \<Rightarrow> Inl AttributeError
      | Some val \<Rightarrow>
          rbind (analyse_member w das a t type_scope name val)
            (\<lambda>r. analyse_members w das a t type_scope names
               (case r of
                  AMethod m \<Rightarrow> d\<lparr>decl_methods := AList.update name m (decl_methods d)\<rparr>
                | AField f \<Rightarrow> d\<lparr>decl_fields := AList.update name f (decl_fields d)\<rparr>
                | Ignored \<Rightarrow> d)))"

definition annotated_fields :: "type_analyser \<Rightarrow> (string \<times> accessor) list \<Rightarrow> (string, field_descriptor) dict" where
  "annotated_fields a as =
     map (\<lambda>(n, t). (n, \<lparr>get_type = t, set_type = t\<rparr>)) (filter (annotation_filter a \<circ> fst) as)"

definition analyse :: "interpreter \<Rightarrow> descriptor_analyser list \<Rightarrow> type_analyser \<Rightarrow> nat \<Rightarrow> type_declaration res" where
  "analyse w das a t =
     (let d = \<lparr>raw_type = t, decl_fields = annotated_fields a (rc_annotations (reflected w t)), decl_methods = []\<rparr>
      in case rc_scope (reflected w t) of
           None \<Rightarrow> Inr d
         | Some type_scope \<Rightarrow> analyse_members w das a t type_scope (rc_dir (reflected w t)) d)"

fun analyse_declaration ::
  "interpreter \<Rightarrow> descriptor_analyser list \<Rightarrow> type_analyser list \<Rightarrow> nat \<Rightarrow> type_declaration res" where
  "analyse_declaration w das [] t = Inl AssertionError"
| "analyse_declaration w das (a # as) t =
     (if can_analyse a w t then analyse w das a t else analyse_declaration w das as t)"

definition TypeDeclaration_of :: "interpreter \<Rightarrow> nat \<Rightarrow> type_declaration res" where
  "TypeDeclaration_of w t = analyse_declaration w DESCRIPTOR_ANALYSERS TYPE_ANALYSERS t"

section \<open>What a declaration holds\<close>

lemma bound_as_no_routine: "\<not> is_routine v \<Longrightarrow> \<not> bound_as f w cs n v"
  by (induction cs) auto

lemma bound_as_first: "bound_in w cs n = Some v \<Longrightarrow> bound_as f w cs n v \<longleftrightarrow> is_routine v \<and> f v"
  by (induction cs) (auto simp: bound_as_no_routine split: option.splits)

lemma regular_method_iff:
  assumes "bound_in w (rc_mro (reflected w t)) n = Some v"
  shows "is_regular_method w t n v \<longleftrightarrow>
    (case v of Function f \<Rightarrow> True | Builtin \<Rightarrow> True | OtherDescriptor b \<Rightarrow> b | _ \<Rightarrow> False)"
  using bound_as_first [OF assms]
  by (cases v) (auto simp: is_regular_method_def is_static_method_def is_class_method_def)

text \<open>What the members of a list of names contribute, each name by itself.\<close>

definition member_at ::
  "interpreter \<Rightarrow> descriptor_analyser list \<Rightarrow> type_analyser \<Rightarrow> nat \<Rightarrow> source_scope \<Rightarrow> string \<Rightarrow> analysed res" where
  "member_at w das a t sc n =
     (case bound_in w (rc_mro (reflected w t)) n of
        None \<Rightarrow> Inl AttributeError
      | Some val \<Rightarrow> analyse_member w das a t sc n val)"

lemma analyse_members_at:
  assumes "analyse_members w das a t sc names d0 = Inr d" and "distinct names"
  shows "raw_type d = raw_type d0 \<and>
    (\<forall>n \<in> set names. \<exists>r. member_at w das a t sc n = Inr r) \<and>
    (\<forall>n. map_of (decl_methods d) n =
      (if n \<in> set names then case member_at w das a t sc n of
         Inr (AMethod m) \<Rightarrow> Some m | _ \<Rightarrow> map_of (decl_methods d0) n
       else map_of (decl_methods d0) n)) \<and>
    (\<forall>n. map_of (decl_fields d) n =
      (if n \<in> set names then case member_at w das a t sc n of
         Inr (AField f) \<Rightarrow> Some f | _ \<Rightarrow> map_of (decl_fields d0) n
       else map_of (decl_fields d0) n))"
  using assms
proof (induction names arbitrary: d0)
  case (Cons n ns)
  then obtain v r where v: "bound_in w (rc_mro (reflected w t)) n = Some v" "analyse_member w das a t sc n v = Inr r"
    by (auto simp: res_simps split: option.splits)
  then have at: "member_at w das a t sc n = Inr r" by (simp add: member_at_def)
  let ?d = "case r of AMethod m \<Rightarrow> d0\<lparr>decl_methods := AList.update n m (decl_methods d0)\<rparr>
    | AField f \<Rightarrow> d0\<lparr>decl_fields := AList.update n f (decl_fields d0)\<rparr> | Ignored \<Rightarrow> d0"
  have "analyse_members w das a t sc ns ?d = Inr d" using Cons.prems(1) v by simp
  from Cons.IH [OF this] Cons.prems(2) at show ?case
    by (cases r) (auto simp: update_conv' split: sum.splits analysed.splits)
qed simp

text \<open>What an analyser keeps, for the three that are there: all of a protocol, the public and
  the abstract of an abstract class, else the public.\<close>

definition visible :: "interpreter \<Rightarrow> nat \<Rightarrow> string \<Rightarrow> binding \<Rightarrow> bool" where
  "visible w t n v \<longleftrightarrow>
     Protocol_cls w \<in> set (rc_bases (reflected w t)) \<or> is_public n \<or>
     ABC_cls w \<in> set (rc_bases (reflected w t)) \<and> is_abstract v"

definition annotation_visible :: "interpreter \<Rightarrow> nat \<Rightarrow> string \<Rightarrow> bool" where
  "annotation_visible w t n \<longleftrightarrow>
     Protocol_cls w \<in> set (rc_bases (reflected w t)) \<or> ABC_cls w \<in> set (rc_bases (reflected w t)) \<or> is_public n"

lemma TypeDeclaration_of_analyser:
  obtains a where "TypeDeclaration_of w t = analyse w DESCRIPTOR_ANALYSERS a t"
    and "method_filter a = visible w t" and "descriptor_filter a = visible w t"
    and "annotation_filter a = annotation_visible w t"
proof -
  consider (protocol) "Protocol_cls w \<in> set (rc_bases (reflected w t))"
    | (abc) "Protocol_cls w \<notin> set (rc_bases (reflected w t))" "ABC_cls w \<in> set (rc_bases (reflected w t))"
    | (common) "Protocol_cls w \<notin> set (rc_bases (reflected w t))" "ABC_cls w \<notin> set (rc_bases (reflected w t))"
    by blast
  then show ?thesis
  proof cases
    case protocol
    then show ?thesis
      by (intro that [of ProtocolAnalyser])
        (auto simp: TypeDeclaration_of_def TYPE_ANALYSERS_def ProtocolAnalyser_def visible_def annotation_visible_def fun_eq_iff)
  next
    case abc
    then show ?thesis
      by (intro that [of ABCAnalyser])
        (auto simp: TypeDeclaration_of_def TYPE_ANALYSERS_def ProtocolAnalyser_def ABCAnalyser_def visible_def
          annotation_visible_def fun_eq_iff)
  next
    case common
    then show ?thesis
      by (intro that [of CommonAnalyser])
        (auto simp: TypeDeclaration_of_def TYPE_ANALYSERS_def ProtocolAnalyser_def ABCAnalyser_def CommonAnalyser_def
          visible_def annotation_visible_def fun_eq_iff)
  qed
qed

text \<open>What each binding of a class contributes to its declaration.\<close>

definition own_property :: "source_scope \<Rightarrow> binding \<Rightarrow> bool" where
  "own_property sc v \<longleftrightarrow>
     (case v of Property g s a \<Rightarrow> in_source_scope (Option.bind g fn_scope) sc \<or> in_source_scope (Option.bind s fn_scope) sc
      | _ \<Rightarrow> False)"

lemma in_no_scope: "\<not> in_source_scope None sc"
  by (simp add: in_source_scope_def)

lemma member_of_binding:
  assumes "bound_in w (rc_mro (reflected w t)) n = Some v"
    and "method_filter a = visible w t" and "descriptor_filter a = visible w t"
  shows "member_at w DESCRIPTOR_ANALYSERS a t sc n =
    (case v of
       Function f \<Rightarrow>
         (if in_source_scope (fn_scope f) sc \<and> visible w t n v
          then rbind (postprocess_signature w (fn_signature f)) (\<lambda>sig. Inr (AMethod \<lparr>md_signature = sig, md_scope = fn_scope f\<rparr>))
          else Inr Ignored)
     | Property g s b \<Rightarrow>
         Inr (if own_property sc v \<and> visible w t n v
              then AField \<lparr>get_type = property_get_type w g, set_type = property_set_type w s\<rparr> else Ignored)
     | _ \<Rightarrow> Inr Ignored)"
  using regular_method_iff [OF assms(1)] assms
  by (cases v)
    (auto simp: member_at_def analyse_member_def function_of_def DESCRIPTOR_ANALYSERS_def PropertyAnalyser_def
      IgnoringAnalyser_def own_property_def in_descriptor_scope_def in_no_scope)

lemma map_of_annotated_fields:
  "map_of (annotated_fields a as) n =
     (if annotation_filter a n then map_option (\<lambda>t. \<lparr>get_type = t, set_type = t\<rparr>) (map_of as n) else None)"
  by (induction as) (auto simp: annotated_fields_def)

text \<open>The method and the field that a name declares.\<close>

definition declares_method :: "interpreter \<Rightarrow> nat \<Rightarrow> source_scope \<Rightarrow> string \<Rightarrow> method_descriptor \<Rightarrow> bool" where
  "declares_method w t sc n m \<longleftrightarrow>
     n \<in> set (rc_dir (reflected w t)) \<and>
     (\<exists>f. bound_in w (rc_mro (reflected w t)) n = Some (Function f) \<and> in_source_scope (fn_scope f) sc \<and>
        visible w t n (Function f) \<and> postprocess_signature w (fn_signature f) = Inr (md_signature m) \<and> md_scope m = fn_scope f)"

definition declares_property :: "interpreter \<Rightarrow> nat \<Rightarrow> source_scope \<Rightarrow> string \<Rightarrow> field_descriptor \<Rightarrow> bool" where
  "declares_property w t sc n fd \<longleftrightarrow>
     n \<in> set (rc_dir (reflected w t)) \<and>
     (\<exists>g s b. bound_in w (rc_mro (reflected w t)) n = Some (Property g s b) \<and> own_property sc (Property g s b) \<and>
        visible w t n (Property g s b) \<and> fd = \<lparr>get_type = property_get_type w g, set_type = property_set_type w s\<rparr>)"

definition declares_annotation :: "interpreter \<Rightarrow> nat \<Rightarrow> string \<Rightarrow> field_descriptor \<Rightarrow> bool" where
  "declares_annotation w t n fd \<longleftrightarrow>
     annotation_visible w t n \<and>
     (\<exists>a. map_of (rc_annotations (reflected w t)) n = Some a \<and> fd = \<lparr>get_type = a, set_type = a\<rparr>)"

lemma method_at:
  assumes "method_filter a = visible w t" and "descriptor_filter a = visible w t"
    and "member_at w DESCRIPTOR_ANALYSERS a t sc n = Inr r" and "n \<in> set (rc_dir (reflected w t))"
  shows "r = AMethod m \<longleftrightarrow> declares_method w t sc n m" and "r = AField f \<longleftrightarrow> declares_property w t sc n f"
proof -
  obtain v where v: "bound_in w (rc_mro (reflected w t)) n = Some v"
    using assms(3) by (auto simp: member_at_def split: option.splits)
  note m = assms(3) [unfolded member_of_binding [OF v assms(1,2)]]
  show "r = AMethod m \<longleftrightarrow> declares_method w t sc n m"
    using m assms(4) v
    by (cases v; cases m) (auto simp: declares_method_def res_simps split: if_splits)
  show "r = AField f \<longleftrightarrow> declares_property w t sc n f"
    using m assms(4) v
    by (cases v) (auto simp: declares_property_def res_simps split: if_splits)
qed

text \<open>C35: What the declaration of a class is. Its methods are the names of its \<open>dir\<close> that are bound, along the
  method resolution order, to plain functions (no static or class methods) whose source is in
  that of the class and which the kind of the class lets through: all of a protocol, the public and the
  abstract ones of an abstract class, the public ones of any other. Its fields are the properties with an accessor in
  the source of the class and, for names without one, the class's own annotations.\<close>

theorem declaration_correct:
  assumes "TypeDeclaration_of w t = Inr d" and "rc_scope (reflected w t) = Some sc"
    and "distinct (rc_dir (reflected w t))"
  shows "raw_type d = t \<and>
    (\<forall>n m. map_of (decl_methods d) n = Some m \<longleftrightarrow> declares_method w t sc n m) \<and>
    (\<forall>n f. map_of (decl_fields d) n = Some f \<longleftrightarrow>
      declares_property w t sc n f \<or> (\<forall>g. \<not> declares_property w t sc n g) \<and> declares_annotation w t n f)"
proof -
  obtain a where a: "TypeDeclaration_of w t = analyse w DESCRIPTOR_ANALYSERS a t"
    and f: "method_filter a = visible w t" "descriptor_filter a = visible w t" "annotation_filter a = annotation_visible w t"
    by (rule TypeDeclaration_of_analyser)
  let ?at = "member_at w DESCRIPTOR_ANALYSERS a t sc"
  from a assms have "analyse_members w DESCRIPTOR_ANALYSERS a t sc (rc_dir (reflected w t))
      \<lparr>raw_type = t, decl_fields = annotated_fields a (rc_annotations (reflected w t)), decl_methods = []\<rparr> = Inr d"
    by (simp add: analyse_def Let_def)
  note D = analyse_members_at [OF this assms(3), unfolded type_declaration.select_convs map_of.simps]
  have none: "\<not> declares_method w t sc n m" "\<not> declares_property w t sc n g" if "n \<notin> set (rc_dir (reflected w t))" for n m g
    using that by (simp_all add: declares_method_def declares_property_def)
  have "map_of (decl_methods d) n = Some m \<longleftrightarrow> declares_method w t sc n m" for n m
  proof (cases "n \<in> set (rc_dir (reflected w t))")
    case True
    then obtain r where r: "?at n = Inr r" using D by blast
    have "declares_method w t sc n m \<longleftrightarrow> r = AMethod m" using method_at(1) [OF f(1,2) r True] by simp
    with D True r show ?thesis by (cases r) simp_all
  qed (use D none in auto)
  moreover have "map_of (decl_fields d) n = Some g \<longleftrightarrow>
      declares_property w t sc n g \<or> (\<forall>g. \<not> declares_property w t sc n g) \<and> declares_annotation w t n g" for n g
  proof -
    have annotated: "map_of (annotated_fields a (rc_annotations (reflected w t))) n = Some g \<longleftrightarrow> declares_annotation w t n g"
      by (auto simp: map_of_annotated_fields declares_annotation_def f(3))
    show ?thesis
    proof (cases "n \<in> set (rc_dir (reflected w t))")
      case True
      then obtain r where r: "?at n = Inr r" using D by blast
      have p: "declares_property w t sc n g \<longleftrightarrow> r = AField g" for g using method_at(2) [OF f(1,2) r True] by simp
      from D True r annotated show ?thesis by (cases r) (simp_all add: p)
    qed (use D none annotated in auto)
  qed
  ultimately show ?thesis using D by blast
qed

definition ex_function :: "int \<Rightarrow> int \<Rightarrow> annotation \<Rightarrow> py_function" where
  "ex_function line n r =
     \<lparr>fn_signature = \<lparr>parameters = [(''self'', NoAnnotation), (''x'', Annotated 3)], return_annotation = r\<rparr>,
      fn_scope = Some \<lparr>filename = ''m.py'', first_line_no = line, line_count = n\<rparr>, fn_abstract = None\<rparr>"

definition ex_class :: reflected_class where
  "ex_class =
     \<lparr>rc_bases = [6], rc_mro = [5, 6], rc_annotations = [(''a'', Accessor 3), (''_b'', Accessor 3)],
      rc_dict = [(''run'', Function (ex_function 24 2 NoneLiteralAnnotation)),
        (''p'', Property (Some (ex_function 28 2 (Annotated 4))) None None), (''s'', StaticMethod (ex_function 31 2 NoAnnotation))],
      rc_dir = [''inherited'', ''p'', ''run'', ''s''],
      rc_scope = Some \<lparr>filename = ''m.py'', first_line_no = 20, line_count = 15\<rparr>\<rparr>"

definition ex_base :: reflected_class where
  "ex_base =
     \<lparr>rc_bases = [], rc_mro = [6], rc_annotations = [],
      rc_dict = [(''inherited'', Function (ex_function 3 2 NoAnnotation))], rc_dir = [''inherited''],
      rc_scope = Some \<lparr>filename = ''m.py'', first_line_no = 1, line_count = 6\<rparr>\<rparr>"

definition ex_interpreter :: interpreter where
  "ex_interpreter =
     \<lparr>reflected = (\<lambda>t. if t = 5 then ex_class else ex_base),
      object_cls = 0, NoneType_cls = 1, Protocol_cls = 8, ABC_cls = 9\<rparr>"

definition ex_declaration :: type_declaration where
  "ex_declaration =
     \<lparr>raw_type = 5,
      decl_fields = [(''a'', \<lparr>get_type = Accessor 3, set_type = Accessor 3\<rparr>),
        (''p'', \<lparr>get_type = Accessor 4, set_type = UNSUPPORTED\<rparr>)],
      decl_methods = [(''run'',
        \<lparr>md_signature = (fn_signature (ex_function 24 2 NoneLiteralAnnotation))\<lparr>return_annotation := Annotated 1\<rparr>,
         md_scope = fn_scope (ex_function 24 2 NoneLiteralAnnotation)\<rparr>)]\<rparr>"

lemma ex_interpreter_simps [simp]:
  "reflected ex_interpreter 5 = ex_class" "reflected ex_interpreter 6 = ex_base" "object_cls ex_interpreter = 0"
  "NoneType_cls ex_interpreter = 1" "Protocol_cls ex_interpreter = 8" "ABC_cls ex_interpreter = 9"
  by (simp_all add: ex_interpreter_def)

lemma ex_class_simps [simp]:
  "rc_bases ex_class = [6]" "rc_mro ex_class = [5, 6]" "rc_annotations ex_class = [(''a'', Accessor 3), (''_b'', Accessor 3)]"
  "rc_dir ex_class = [''inherited'', ''p'', ''run'', ''s'']"
  "rc_scope ex_class = Some \<lparr>filename = ''m.py'', first_line_no = 20, line_count = 15\<rparr>"
  by (simp_all add: ex_class_def)

lemma ex_bound [simp]:
  "bound_in ex_interpreter [5, 6] ''inherited'' = Some (Function (ex_function 3 2 NoAnnotation))"
  "bound_in ex_interpreter [5, 6] ''p'' = Some (Property (Some (ex_function 28 2 (Annotated 4))) None None)"
  "bound_in ex_interpreter [5, 6] ''run'' = Some (Function (ex_function 24 2 NoneLiteralAnnotation))"
  "bound_in ex_interpreter [5, 6] ''s'' = Some (StaticMethod (ex_function 31 2 NoAnnotation))"
  by (simp_all add: ex_class_def ex_base_def)

declare bound_in.simps [simp del]

lemma ex_function_simps [simp]:
  "fn_scope (ex_function line n r) = Some \<lparr>filename = ''m.py'', first_line_no = line, line_count = n\<rparr>"
  "fn_signature (ex_function line n r) =
     \<lparr>parameters = [(''self'', NoAnnotation), (''x'', Annotated 3)], return_annotation = r\<rparr>"
  by (simp_all add: ex_function_def)

lemma ex_public: "is_public ''p''" "is_public ''run''" "is_public ''a''" "\<not> is_public ''_b''"
  by (simp_all add: is_public_def starts_with_def)

lemma ex_members:
  "analyse_member ex_interpreter DESCRIPTOR_ANALYSERS CommonAnalyser 5
     \<lparr>filename = ''m.py'', first_line_no = 20, line_count = 15\<rparr> ''inherited'' (Function (ex_function 3 2 NoAnnotation)) = Inr Ignored"
  "analyse_member ex_interpreter DESCRIPTOR_ANALYSERS CommonAnalyser 5
     \<lparr>filename = ''m.py'', first_line_no = 20, line_count = 15\<rparr> ''p'' (Property (Some (ex_function 28 2 (Annotated 4))) None None) =
     Inr (AField \<lparr>get_type = Accessor 4, set_type = UNSUPPORTED\<rparr>)"
  "analyse_member ex_interpreter DESCRIPTOR_ANALYSERS CommonAnalyser 5
     \<lparr>filename = ''m.py'', first_line_no = 20, line_count = 15\<rparr> ''run'' (Function (ex_function 24 2 NoneLiteralAnnotation)) =
     Inr (AMethod (snd (hd (decl_methods ex_declaration))))"
  "analyse_member ex_interpreter DESCRIPTOR_ANALYSERS CommonAnalyser 5
     \<lparr>filename = ''m.py'', first_line_no = 20, line_count = 15\<rparr> ''s'' (StaticMethod (ex_function 31 2 NoAnnotation)) = Inr Ignored"
  by (simp_all add: regular_method_iff analyse_member_def function_of_def DESCRIPTOR_ANALYSERS_def PropertyAnalyser_def
      IgnoringAnalyser_def in_descriptor_scope_def in_source_scope_def last_line_no_def CommonAnalyser_def ex_public
      property_get_type_def property_set_type_def postprocess_signature_def ex_declaration_def)

lemma ex_declared: "TypeDeclaration_of ex_interpreter 5 = Inr ex_declaration"
proof -
  have "TypeDeclaration_of ex_interpreter 5 = analyse ex_interpreter DESCRIPTOR_ANALYSERS CommonAnalyser 5"
    by (simp add: TypeDeclaration_of_def TYPE_ANALYSERS_def ProtocolAnalyser_def ABCAnalyser_def CommonAnalyser_def)
  moreover have "annotated_fields CommonAnalyser [(''a'', Accessor 3), (''_b'', Accessor 3)] = [(''a'', \<lparr>get_type = Accessor 3, set_type = Accessor 3\<rparr>)]"
    by (simp add: annotated_fields_def CommonAnalyser_def ex_public)
  ultimately show ?thesis
    by (simp add: analyse_def Let_def ex_members) (simp add: ex_declaration_def)
qed

theorem declaration_correct_witness:
  "raw_type ex_declaration = 5 \<and>
   (\<exists>m. declares_method ex_interpreter 5 \<lparr>filename = ''m.py'', first_line_no = 20, line_count = 15\<rparr> ''run'' m) \<and>
   (\<forall>m. \<not> declares_method ex_interpreter 5 \<lparr>filename = ''m.py'', first_line_no = 20, line_count = 15\<rparr> ''inherited'' m)"
proof -
  have "rc_scope (reflected ex_interpreter 5) = Some \<lparr>filename = ''m.py'', first_line_no = 20, line_count = 15\<rparr>"
    "distinct (rc_dir (reflected ex_interpreter 5))" by simp_all
  note D = declaration_correct [OF ex_declared this]
  note methods = D [THEN conjunct2, THEN conjunct1, rule_format]
  have none: "map_of (decl_methods ex_declaration) ''inherited'' = None" by (simp add: ex_declaration_def)
  obtain m' where "map_of (decl_methods ex_declaration) ''run'' = Some m'" by (simp add: ex_declaration_def)
  then have "declares_method ex_interpreter 5 \<lparr>filename = ''m.py'', first_line_no = 20, line_count = 15\<rparr> ''run'' m'"
    by (simp only: methods)
  moreover have "\<not> declares_method ex_interpreter 5 \<lparr>filename = ''m.py'', first_line_no = 20, line_count = 15\<rparr> ''inherited'' m" for m
    unfolding methods [symmetric] none by simp
  ultimately show ?thesis using D [THEN conjunct1] by blast
qed

end
