(* ===== verification/Resumption.thy ===== *)
theory Resumption
  imports Task_Executor
begin

text \<open>
  Scripts that are run again until they succeed: \<open>thinking_executor/executor.py\<close> over several sessions
  with one log. \<open>with_faults F\<close> is the script in which a step \<open>c\<close> raises what \<open>F c\<close> says, at its end.
\<close>

definition passes :: "exn \<Rightarrow> bool" where
  "passes e \<longleftrightarrow> (is_exception e \<or> e = KeyboardInterrupt) \<and> (\<forall>m. e \<noteq> ToBeContinuedException m)"

fun with_faults :: "(coordinates \<Rightarrow> exn option) \<Rightarrow> task_key list \<Rightarrow> int list \<Rightarrow> int \<Rightarrow> action list \<Rightarrow> action list" where
  "with_faults F p os i [] = []"
| "with_faults F p os i (Execute catches k t body final # as) =
     Execute catches k t (with_faults F (p @ [k]) (os @ [i]) 0 body)
       (if t = STEP then F \<lparr>path = p @ [k], order_of = os @ [i], type_of = t\<rparr> else final) #
     with_faults F p os (i + 1) as"
| "with_faults F p os i (SkipScope v body # as) = SkipScope v body # with_faults F p os i as"

text \<open>A session: the executor is opened, runs the program, and is closed with what the program raised.\<close>

definition run_session :: "'db environment \<Rightarrow> nat \<times> nat \<Rightarrow> 'db doing \<Rightarrow> 'db \<Rightarrow> 'db \<times> exn option" where
  "run_session env pointer program t =
     (case initialize env pointer (fresh_executor t) of
        (s, Some e) \<Rightarrow> (table s, Some e)
      | (s, None) \<Rightarrow>
          (case program s of (s1, r) \<Rightarrow>
            (case deinitialize env r s1 of
               (s2, Some e) \<Rightarrow> (table s2, Some e)
             | (s2, None) \<Rightarrow> (table s2, r))))"

definition run_script :: "'db environment \<Rightarrow> nat \<times> nat \<Rightarrow> action list \<Rightarrow> 'db \<Rightarrow> 'db \<times> exn option" where
  "run_script env pointer as t = run_session env pointer (run_actions env as) t"

text \<open>The log before the session \<open>n\<close>, when the faults of session \<open>k\<close> are \<open>F k\<close>.\<close>

fun log_before ::
  "'db environment \<Rightarrow> (nat \<Rightarrow> nat \<times> nat) \<Rightarrow> (nat \<Rightarrow> coordinates \<Rightarrow> exn option) \<Rightarrow> action list \<Rightarrow> 'db \<Rightarrow> nat \<Rightarrow> 'db" where
  "log_before env pointer F as t 0 = t"
| "log_before env pointer F as t (Suc n) =
     fst (run_script env (pointer n) (with_faults (F n) [] [] 0 as) (log_before env pointer F as t n))"

definition session_result ::
  "'db environment \<Rightarrow> (nat \<Rightarrow> nat \<times> nat) \<Rightarrow> (nat \<Rightarrow> coordinates \<Rightarrow> exn option) \<Rightarrow> action list \<Rightarrow> 'db \<Rightarrow> nat \<Rightarrow> exn option" where
  "session_result env pointer F as t n =
     snd (run_script env (pointer n) (with_faults (F n) [] [] 0 as) (log_before env pointer F as t n))"

section \<open>A session with faults\<close>

text \<open>The script resumes what is missing, and returns or stops at a missing step that raises.\<close>

definition stops_at ::
  "(coordinates \<Rightarrow> exn option) \<Rightarrow> execution_record list \<Rightarrow> exn \<Rightarrow> coordinates list \<Rightarrow> bool" where
  "stops_at F log e steps \<longleftrightarrow>
     (\<exists>pre c post. steps = pre @ c # post \<and> F c = Some e \<and> \<not> recorded c log \<and> (\<forall>d \<in> set pre. recorded d log))"

definition stopped ::
  "'db environment \<Rightarrow> (coordinates \<Rightarrow> exn option) \<Rightarrow> 'db executor \<Rightarrow> 'db executor \<Rightarrow> exn option \<Rightarrow> coordinates list \<Rightarrow> bool" where
  "stopped env F s s' r steps \<longleftrightarrow>
     (case r of
        None \<Rightarrow> resumed env s s' steps
      | Some e \<Rightarrow>
          session s' = session s \<and> table_ok (entries env s') \<and> (\<forall>l. latest_step s' = Some l \<longrightarrow> plain_coordinates l) \<and>
          (\<exists>rs. entries env s' = entries env s @ rs) \<and> stops_at F (entries env s') e steps)"

lemma stopped_None [simp]: "stopped env F s s' None steps = resumed env s s' steps"
  by (simp add: stopped_def)

lemma stops_at_append: "stops_at F log e a \<Longrightarrow> stops_at F log e (a @ b)"
  unfolding stops_at_def by fastforce

lemma stops_at_prepend: "stops_at F log e b \<Longrightarrow> \<forall>d \<in> set a. recorded d log \<Longrightarrow> stops_at F log e (a @ b)"
proof -
  assume "stops_at F log e b" and a: "\<forall>d \<in> set a. recorded d log"
  then obtain pre c post where b: "b = pre @ c # post" "F c = Some e" "\<not> recorded c log" "\<forall>d \<in> set pre. recorded d log"
    by (auto simp: stops_at_def)
  show ?thesis
    unfolding stops_at_def by (rule exI [of _ "a @ pre"]) (use a b in auto)
qed

lemma stops_at_single: "F c = Some e \<Longrightarrow> \<not> recorded c log \<Longrightarrow> stops_at F log e [c]"
  unfolding stops_at_def by (rule exI [of _ "[]"]) simp

lemma stopped_append: "stopped env F s s' (Some e) a \<Longrightarrow> stopped env F s s' (Some e) (a @ b)"
  by (simp add: stopped_def stops_at_append)

lemma stopped_trans:
  assumes 1: "resumed env s s1 a" and 2: "stopped env F s1 s2 r b" and n: "\<not> skip_executed_stages s"
  shows "stopped env F s s2 r (a @ b)"
proof (cases r)
  case None
  with resumed_trans [OF 1] 2 show ?thesis by simp
next
  case (Some e)
  with 1 2 n have "\<forall>d \<in> set a. recorded d (entries env s2)" by (auto simp: stopped_def resumed_def recorded_append)
  with 1 2 Some show ?thesis by (auto simp: stopped_def resumed_def stops_at_prepend)
qed

lemma execute_skips:
  assumes q: "dependable env" and r: "ready env s f fs"
    and key: "fs = [] \<longrightarrow> (case k of StrKey _ \<Rightarrow> True | IntKey _ \<Rightarrow> False)" and k: "plain_key k"
    and o: "next_subtask_order f = os @ [i]"
    and c: "c = \<lparr>path = current_path f @ [k], order_of = os @ [i], type_of = STEP\<rparr>"
    and "recorded c (entries env s)"
  shows "execute env k STEP body final s = execute env k STEP body None s"
  using prepare_quiet [OF q r key k o c] assms(7) by (auto simp: execute_def will_skip_def)

lemma raised_stops:
  assumes q: "dependable env" and r: "ready env s f fs"
    and key: "fs = [] \<longrightarrow> (case k of StrKey _ \<Rightarrow> True | IntKey _ \<Rightarrow> False)" and k: "plain_key k"
    and o: "next_subtask_order f = os @ [i]"
    and c: "c = \<lparr>path = current_path f @ [k], order_of = os @ [i], type_of = t\<rparr>"
    and new: "t = STEP \<or> skip_executed_stages s \<Longrightarrow> \<not> recorded c (entries env s)"
    and e: "passes e"
    and body: "body (entered_task env c (s\<lparr>events := events s @ [TaskSubmitted c]\<rparr>)) = (s2, b)"
    and raised: "(case b of Some x \<Rightarrow> Some x | None \<Rightarrow> final) = Some e"
    and s2: "stopped env F (entered_task env c (s\<lparr>events := events s @ [TaskSubmitted c]\<rparr>)) s2 (Some e) steps"
      "stack s2 = g' # f # fs"
  shows "\<exists>s'. execute env k t body final s = (s', Some e) \<and>
    stack s' = f\<lparr>next_subtask_order := os @ [i + 1]\<rparr> # fs \<and> stopped env F s s' (Some e) steps \<and> table s' = table s2"
proof -
  have "is_exception e \<or> e = KeyboardInterrupt" "\<not> (\<exists>comment. e = ToBeContinuedException comment)"
    using e by (auto simp: passes_def)
  with execute_raises [where body = body and final = final, OF q r key k o c new _ body raised] obtain n l ev where
    ex: "execute env k t body final s = ((leave_frame s2)\<lparr>clock := n, events := ev, latest_step := l\<rparr>, Some e)"
    and l: "l = latest_step s2 \<or> l = Some c" by auto
  have "plain_coordinates c" using r k by (auto simp: c ready_def intro: plain_coordinatesI)
  then have "stopped env F s ((leave_frame s2)\<lparr>clock := n, events := ev, latest_step := l\<rparr>) (Some e) steps"
    using s2 l by (auto simp: stopped_def entered_task_def enter_frame_def leave_frame_def)
  with ex s2(2) o show ?thesis by (simp add: leave_frame_def count_subtask_order)
qed

lemma entered_facts:
  assumes "ready env s f fs" and "plain_key k" and c: "c = \<lparr>path = current_path f @ [k], order_of = os @ [i], type_of = t\<rparr>"
  defines "e \<equiv> entered_task env c (s\<lparr>events := events s @ [TaskSubmitted c]\<rparr>)"
  shows "stack e = \<lparr>current_path = current_path f @ [k], next_subtask_order = (os @ [i]) @ [0], frame_type = Some t\<rparr> # f # fs"
    and "t = STAGE \<Longrightarrow> ready env e
      \<lparr>current_path = current_path f @ [k], next_subtask_order = (os @ [i]) @ [0], frame_type = Some t\<rparr> (f # fs)"
    and "skip_executed_stages e = skip_executed_stages s" and "entries env e = entries env s"
    and "session e = session s" and "latest_step e = latest_step s"
  using assms by (auto simp: ready_def entered_task_def enter_frame_def)

lemma execute_stops:
  assumes q: "dependable env" and r: "ready env s f fs" and ns: "\<not> skip_executed_stages s"
    and key: "fs = [] \<longrightarrow> (case k of StrKey _ \<Rightarrow> True | IntKey _ \<Rightarrow> False)" and k: "plain_key k"
    and o: "next_subtask_order f = os @ [i]"
    and c: "c = \<lparr>path = current_path f @ [k], order_of = os @ [i], type_of = t\<rparr>"
    and F: "\<And>c e. F c = Some e \<Longrightarrow> passes e"
    and final: "final = (if t = STEP then F c else None)"
    and step: "t = STEP \<Longrightarrow> steps = [] \<and> (\<forall>s. body s = (s, None))"
    and stage: "\<And>s1. t = STAGE \<Longrightarrow> \<not> skip_executed_stages s1 \<Longrightarrow> ready env s1
        \<lparr>current_path = current_path f @ [k], next_subtask_order = (os @ [i]) @ [0], frame_type = Some t\<rparr> (f # fs) \<Longrightarrow>
      \<exists>s2 r g'. body s1 = (s2, r) \<and> stack s2 = g' # f # fs \<and> stopped env F s1 s2 r steps"
  shows "\<exists>s' r. execute env k t body final s = (s', r) \<and>
    stack s' = f\<lparr>next_subtask_order := os @ [i + 1]\<rparr> # fs \<and>
    stopped env F s s' r ((if t = STEP then [c] else []) @ steps)"
proof -
  define e where "e = entered_task env c (s\<lparr>events := events s @ [TaskSubmitted c]\<rparr>)"
  note entered = entered_facts [OF r k c, folded e_def]
  note quiet = execute_resumes [where body = body and steps = steps, OF q r key k o c refl step]
  show ?thesis
  proof (cases t)
    case STEP
    note body = step [OF STEP]
    have returns: "\<exists>s'. execute env k t body None s = (s', None) \<and>
        stack s' = f\<lparr>next_subtask_order := os @ [i + 1]\<rparr> # fs \<and> stopped env F s s' None ([c] @ steps)"
      using quiet STEP by auto
    show ?thesis
    proof (cases "recorded c (entries env s) \<or> F c = None")
      case True
      then have "execute env k t body final s = execute env k t body None s"
        using execute_skips [OF q r key k o c [unfolded STEP]] final STEP by auto
      with returns STEP show ?thesis by auto
    next
      case False
      then obtain x where x: "F c = Some x" "\<not> recorded c (entries env s)" by blast
      have "stopped env F e e (Some x) [c]"
        using r x entered by (auto simp: stopped_def stops_at_single ready_def)
      moreover have "body e = (e, None)" "(case None of Some x \<Rightarrow> Some x | None \<Rightarrow> final) = Some x"
        using body x final STEP by simp_all
      ultimately show ?thesis
        using raised_stops [where body = body and final = final, OF q r key k o c x(2) F [OF x(1)]] STEP body entered(1)
        unfolding e_def by fastforce
    qed
  next
    case STAGE
    then have none: "final = None" using final by simp
    have "ready env e \<lparr>current_path = current_path f @ [k], next_subtask_order = (os @ [i]) @ [0], frame_type = Some t\<rparr> (f # fs)"
      by (rule entered(2) [OF STAGE])
    from stage [OF STAGE _ this] ns entered(3) obtain s2 b g' where
      b: "body e = (s2, b)" "stack s2 = g' # f # fs" "stopped env F e s2 b steps" by auto
    show ?thesis
    proof (cases b)
      case None
      with b quiet STAGE none show ?thesis by (auto simp: e_def)
    next
      case (Some x)
      then have "passes x" using b(3) F by (auto simp: stopped_def stops_at_def)
      moreover have "(case b of Some x \<Rightarrow> Some x | None \<Rightarrow> final) = Some x" "stopped env F e s2 (Some x) steps"
        using b(3) Some by simp_all
      ultimately show ?thesis
        using raised_stops [where body = body and final = final and b = b, OF q r key k o c] b(1,2) STAGE ns
        unfolding e_def by fastforce
    qed
  qed
qed

lemma script_stops:
  assumes q: "dependable env" and F: "\<forall>c e. F c = Some e \<longrightarrow> passes e"
  shows "scripted root as \<Longrightarrow> ready env s f fs \<Longrightarrow> \<not> skip_executed_stages s \<Longrightarrow> root = (fs = []) \<Longrightarrow>
    next_subtask_order f = os @ [i] \<Longrightarrow> p = current_path f \<Longrightarrow>
    \<exists>s' r j. run_actions env (with_faults F p os i as) s = (s', r) \<and>
      stack s' = f\<lparr>next_subtask_order := os @ [j]\<rparr> # fs \<and> stopped env F s s' r (steps_of p os i as)"
proof (induction p os i as arbitrary: root s f fs rule: steps_of.induct)
  case (1 p os i)
  then have "stack s = f\<lparr>next_subtask_order := os @ [i]\<rparr> # fs" by (cases f) (simp add: ready_def)
  with resumed_refl [OF 1(2)] show ?case by auto
next
  case (2 p os i catches k t body final as)
  from 2(3) have sc: "\<not> catches" "plain_key k" "root \<longrightarrow> (case k of StrKey _ \<Rightarrow> True | IntKey _ \<Rightarrow> False)"
    "final = None" "t = STEP \<longrightarrow> body = []" "scripted False body" "scripted root as" by auto
  let ?c = "\<lparr>path = current_path f @ [k], order_of = os @ [i], type_of = t\<rparr>"
  let ?steps = "steps_of (p @ [k]) (os @ [i]) 0 body" and ?body = "with_faults F (p @ [k]) (os @ [i]) 0 body"
  let ?final = "if t = STEP then F ?c else None"
  have "\<exists>s' r. execute env k t (\<lambda>s. run_actions env ?body s) ?final s = (s', r) \<and>
      stack s' = f\<lparr>next_subtask_order := os @ [i + 1]\<rparr> # fs \<and>
      stopped env F s s' r ((if t = STEP then [?c] else []) @ ?steps)"
  proof (rule execute_stops [OF q 2(4,5) _ sc(2) 2(7) refl F [rule_format] refl])
    show "fs = [] \<longrightarrow> (case k of StrKey _ \<Rightarrow> True | IntKey _ \<Rightarrow> False)" using sc(3) 2(6) by simp
    show "t = STEP \<Longrightarrow> ?steps = [] \<and> (\<forall>s. run_actions env ?body s = (s, None))" using sc(5) by simp
    show "\<exists>s2 r g'. run_actions env ?body s1 = (s2, r) \<and> stack s2 = g' # f # fs \<and> stopped env F s1 s2 r ?steps"
      if "t = STAGE" "\<not> skip_executed_stages s1" "ready env s1
        \<lparr>current_path = current_path f @ [k], next_subtask_order = (os @ [i]) @ [0], frame_type = Some t\<rparr> (f # fs)" for s1
      using 2(1) [OF sc(6) that(3,2)] 2(8) by auto
  qed
  then obtain s1 r1 where s1: "execute env k t (\<lambda>s. run_actions env ?body s) ?final s = (s1, r1)"
    "stack s1 = f\<lparr>next_subtask_order := os @ [i + 1]\<rparr> # fs"
    "stopped env F s s1 r1 ((if t = STEP then [?c] else []) @ ?steps)" by blast
  let ?rest = "with_faults F p os (i + 1) as"
  have unfold: "run_actions env (with_faults F p os i (Execute catches k t body final # as)) s =
      (case (s1, r1) of (s1, Some e) \<Rightarrow> (s1, Some e) | (s1, None) \<Rightarrow> run_actions env ?rest s1)"
    using s1(1) sc(1,4) 2(8) by (cases r1) (simp_all split: option.splits)
  show ?case
  proof (cases r1)
    case (Some e)
    with unfold s1(2) stopped_append [OF s1(3) [unfolded Some]] 2(8) show ?thesis by (fastforce)
  next
    case None
    note quiet = s1(3) [unfolded None stopped_None]
    have "ready env s1 (f\<lparr>next_subtask_order := os @ [i + 1]\<rparr>) fs" "\<not> skip_executed_stages s1"
      using 2(4,5) s1(2) quiet by (auto simp: ready_def resumed_def)
    from 2(2) [OF sc(7) this 2(6)] 2(8) obtain s' r j where s': "run_actions env ?rest s1 = (s', r)"
      "stack s' = f\<lparr>next_subtask_order := os @ [j]\<rparr> # fs" "stopped env F s1 s' r (steps_of p os (i + 1) as)" by auto
    from stopped_trans [OF quiet s'(3) 2(5)] unfold None s'(1,2) 2(8) show ?thesis by auto
  qed
next
  case (3 p os i v body as)
  then show ?case by simp
qed

section \<open>Sessions one after the other\<close>

definition first_frame :: execution_frame where
  "first_frame = \<lparr>current_path = [], next_subtask_order = [0], frame_type = None\<rparr>"

lemma session_opens:
  assumes "dependable env" and "table_ok (tdb_all (database env) t)"
  shows "\<exists>s. initialize env pointer (fresh_executor t) = (s, None) \<and> ready env s first_frame [] \<and> table s = t \<and>
    \<not> skip_executed_stages s"
  using assms by (auto simp: initialize_def fresh_executor_def quiet_call_back ready_def marks_step_def entries_def first_frame_def)

lemma session_closes:
  assumes q: "dependable env" and F: "\<forall>c e. F c = Some e \<longrightarrow> passes e"
    and i: "initialize env pointer (fresh_executor t) = (s, None)" and s: "session s \<noteq> None"
    and a: "program s = (s1, x)" and st: "stopped env F s s1 x steps"
  shows "run_session env pointer program t = (table s1, x)"
proof -
  have "\<exists>out. outcome_of None x = Inr (out :: unit outcome)"
  proof (cases x)
    case (Some e)
    with st F have "is_exception e \<or> e = KeyboardInterrupt" by (auto simp: stopped_def stops_at_def passes_def)
    with Some outcome_of_exception show ?thesis by blast
  qed (simp add: outcome_of_def)
  moreover have "session s1 \<noteq> None" using s st by (cases x) (auto simp: stopped_def resumed_def)
  ultimately have "\<exists>s2. deinitialize env x s1 = (s2, None) \<and> table s2 = table s1"
    using q by (auto simp: deinitialize_def now_def Let_def quiet_call_back)
  with i a show ?thesis by (auto simp: run_session_def)
qed

lemma session_stops:
  assumes q: "dependable env" and sc: "scripted True as" and t: "table_ok (tdb_all (database env) t)"
    and F: "\<forall>c e. F c = Some e \<longrightarrow> passes e"
    and run: "run_script env pointer (with_faults F [] [] 0 as) t = (t', r)"
  shows "table_ok (tdb_all (database env) t')" and "\<exists>rs. tdb_all (database env) t' = tdb_all (database env) t @ rs"
    and "case r of None \<Rightarrow> \<forall>c \<in> set (steps_of [] [] 0 as). recorded c (tdb_all (database env) t')
      | Some e \<Rightarrow> stops_at F (tdb_all (database env) t') e (steps_of [] [] 0 as)"
proof -
  from session_opens [OF q t] obtain s where i: "initialize env pointer (fresh_executor t) = (s, None)"
    and s: "ready env s first_frame []" "table s = t" "\<not> skip_executed_stages s" by blast
  from script_stops [where F = F and os = "[]" and i = 0 and p = "[]", OF q F sc s(1,3)] obtain s1 x where
    a: "run_actions env (with_faults F [] [] 0 as) s = (s1, x)" and st: "stopped env F s s1 x (steps_of [] [] 0 as)"
    by (auto simp: first_frame_def)
  have "session s \<noteq> None" using s(1) by (simp add: ready_def)
  from session_closes [where program = "run_actions env (with_faults F [] [] 0 as)", OF q F i this a st] run have "t' = table s1" "r = x" by (simp_all add: run_script_def)
  then show "table_ok (tdb_all (database env) t')" and "\<exists>rs. tdb_all (database env) t' = tdb_all (database env) t @ rs"
    and "case r of None \<Rightarrow> \<forall>c \<in> set (steps_of [] [] 0 as). recorded c (tdb_all (database env) t')
      | Some e \<Rightarrow> stops_at F (tdb_all (database env) t') e (steps_of [] [] 0 as)"
    using st s(2,3) by (cases x; simp add: stopped_def resumed_def entries_def)+
qed

text \<open>The steps that are not on record, in the order of the script.\<close>

definition missing :: "coordinates list \<Rightarrow> execution_record list \<Rightarrow> coordinates list" where
  "missing steps log = filter (\<lambda>c. \<not> recorded c log) steps"

lemma missing_append: "missing steps (log @ rs) = filter (\<lambda>c. \<not> recorded c (log @ rs)) (missing steps log)"
  by (auto simp: missing_def recorded_append intro: filter_cong)

lemma stops_at_missing: "stops_at F log e steps \<Longrightarrow> \<exists>c rest. missing steps log = c # rest \<and> F c = Some e"
  by (auto simp: stops_at_def missing_def)

lemma not_missing: "missing steps log = [] \<longleftrightarrow> (\<forall>c \<in> set steps. recorded c log)"
  by (auto simp: missing_def filter_empty_conv)

text \<open>
  While steps are missing, the first of them is the one that stopped the last session; every session brings
  at least this one on record.
\<close>

lemma sessions_progress:
  fixes log_of and result
  assumes grows: "\<And>n. \<exists>rs. log_of (Suc n) = log_of n @ (rs :: execution_record list)"
    and session: "\<And>n. case result n of None \<Rightarrow> missing steps (log_of (Suc n)) = []
      | Some e \<Rightarrow> stops_at (F n) (log_of (Suc n)) e steps"
    and transient: "\<forall>n c e. F n c = Some e \<longrightarrow> F (Suc n) c = None"
  shows "missing steps (log_of (Suc n)) = [] \<or>
    length (missing steps (log_of (Suc n))) + n \<le> length steps \<and>
    (\<exists>c e rest. missing steps (log_of (Suc n)) = c # rest \<and> F n c = Some e)"
proof (induction n)
  case 0
  show ?case
  proof (cases "result 0")
    case (Some e)
    then have "stops_at (F 0) (log_of (Suc 0)) e steps" using session [of 0] by simp
    then show ?thesis by (auto simp: missing_def dest!: stops_at_missing)
  qed (use session [of 0] in simp)
next
  case (Suc n)
  obtain rs where "log_of (Suc (Suc n)) = log_of (Suc n) @ rs" using grows by blast
  then have less: "missing steps (log_of (Suc (Suc n))) =
      filter (\<lambda>c. \<not> recorded c (log_of (Suc (Suc n)))) (missing steps (log_of (Suc n)))" by (simp add: missing_append)
  show ?case
  proof (cases "result (Suc n)")
    case None
    then show ?thesis using session [of "Suc n"] by simp
  next
    case (Some e)
    then have "stops_at (F (Suc n)) (log_of (Suc (Suc n))) e steps" using session [of "Suc n"] by simp
    then obtain c' rest' where c': "missing steps (log_of (Suc (Suc n))) = c' # rest'" "F (Suc n) c' = Some e"
      by (blast dest: stops_at_missing)
    with less have "missing steps (log_of (Suc n)) \<noteq> []" by (metis filter.simps(1) list.distinct(1))
    with Suc obtain c x rest where c: "missing steps (log_of (Suc n)) = c # rest" "F n c = Some x"
      "Suc (length rest) + n \<le> length steps" by auto
    have "F (Suc n) c = None" using transient c(2) by blast
    then have "c' \<noteq> c" using c'(2) by auto
    then have "missing steps (log_of (Suc (Suc n))) = filter (\<lambda>c. \<not> recorded c (log_of (Suc (Suc n)))) rest"
      using less c(1) c'(1) by (auto split: if_splits)
    then have "length (missing steps (log_of (Suc (Suc n)))) \<le> length rest" by simp
    with c(3) c' show ?thesis by auto
  qed
qed

text \<open>C8: Work gets done. A script is run again and again, in sessions that share the log, and its steps may
  raise what they like (but \<open>ToBeContinuedException\<close>, which a top-level task swallows), as long as no step fails in two consecutive
  sessions. Then from the session whose number is the number of steps on, every session returns, and
  every step is on record. Without the log a script might never get to its end.\<close>

theorem repeated_sessions_finish:
  assumes "dependable env" and "scripted True as" and "table_ok (tdb_all (database env) t)"
    and "\<And>n c e. F n c = Some e \<Longrightarrow> passes e \<and> F (Suc n) c = None"
    and "length (steps_of [] [] 0 as) \<le> n"
  shows "session_result env pointer F as t n = None \<and>
    (\<forall>c \<in> set (steps_of [] [] 0 as). recorded c (tdb_all (database env) (log_before env pointer F as t (Suc n))))"
proof -
  let ?steps = "steps_of [] [] 0 as"
  let ?log = "\<lambda>n. tdb_all (database env) (log_before env pointer F as t n)"
  have run: "run_script env (pointer n) (with_faults (F n) [] [] 0 as) (log_before env pointer F as t n) =
      (log_before env pointer F as t (Suc n), session_result env pointer F as t n)" for n
    by (simp add: session_result_def)
  have ok: "table_ok (?log n)" for n
  proof (induction n)
    case (Suc n)
    show ?case by (rule session_stops(1) [OF assms(1,2) Suc _ run]) (use assms(4) in blast)
  qed (simp add: assms(3))
  have grows: "\<exists>rs. ?log (Suc n) = ?log n @ rs" for n
    by (rule session_stops(2) [OF assms(1,2) ok _ run]) (use assms(4) in blast)
  have step: "case session_result env pointer F as t n of None \<Rightarrow> missing ?steps (?log (Suc n)) = []
     | Some e \<Rightarrow> stops_at (F n) (?log (Suc n)) e ?steps" for n
    unfolding not_missing by (rule session_stops(3) [OF assms(1,2) ok _ run]) (use assms(4) in blast)
  have transient: "\<forall>n c e. F n c = Some e \<longrightarrow> F (Suc n) c = None" using assms(4) by blast
  have gone: "missing ?steps (?log (Suc n)) = []"
    using sessions_progress [where log_of = ?log and F = F and n = n, OF grows step transient] assms(5)
    by (auto simp del: log_before.simps)
  then have "session_result env pointer F as t n = None"
    using step [of n] by (cases "session_result env pointer F as t n") (auto simp del: log_before.simps dest!: stops_at_missing)
  with gone show ?thesis by (simp add: not_missing)
qed

text \<open>The script of \<open>Task_Executor\<close>, whose step \<open>k\<close> fails in session \<open>k\<close>: it is complete with the fourth.\<close>

definition ex_faults :: "nat \<Rightarrow> coordinates \<Rightarrow> exn option" where
  "ex_faults n c = (if n < 3 \<and> c = steps_of [] [] 0 ex_script ! n then Some (AppError n) else None)"

theorem repeated_sessions_finish_witness:
  "session_result ex_env (\<lambda>n. (n, 0)) ex_faults ex_script [] 3 = None"
proof -
  have "length (steps_of [] [] 0 ex_script) = 3" by (simp add: ex_script_def)
  moreover have "passes e \<and> ex_faults (Suc n) c = None" if "ex_faults n c = Some e" for n c e
  proof -
    have "distinct (steps_of [] [] 0 ex_script)" by (simp add: ex_script_def)
    with that calculation show ?thesis by (auto simp: ex_faults_def passes_def nth_eq_iff_index_eq split: if_splits)
  qed
  moreover have "table_ok (tdb_all (database ex_env) [])" by (simp add: ex_env_def)
  ultimately show ?thesis
    using repeated_sessions_finish [where t = "[]" and F = ex_faults and n = 3 and pointer = "\<lambda>n. (n, 0)", OF ex_quiet ex_scripted] by simp
qed

end
