(* ===== verification/Executor_Access.thy ===== *)
theory Executor_Access
  imports Task_Executor Contexts Callbacks
begin

text \<open>
  The rest of \<open>thinking_executor/executor.py\<close>, what a task sees of the executor that runs it and the
  decorators, and the executor of \<open>thinking_executor/contextful.py\<close>, which injects the arguments of a task.

  A closed executor has no stack; in \<open>Task_Executor\<close> it is the empty list, and \<open>session\<close> tells.
\<close>

section \<open>What a task sees of its executor\<close>

definition is_open :: "'db executor \<Rightarrow> bool" where
  "is_open s \<longleftrightarrow> session s \<noteq> None"

definition assert_initialized :: "'db executor \<Rightarrow> unit res" where
  "assert_initialized s = guard_that (is_open s) AssertionError"

text \<open>\<open>stack[-1]\<close> and \<open>stack[-2]\<close>.\<close>

definition top_frame :: "'db executor \<Rightarrow> execution_frame res" where
  "top_frame s = (case stack s of f # fs \<Rightarrow> Inr f | [] \<Rightarrow> Inl IndexError)"

definition outer_frame :: "'db executor \<Rightarrow> execution_frame res" where
  "outer_frame s = (case stack s of f # g # fs \<Rightarrow> Inr g | _ \<Rightarrow> Inl IndexError)"

definition current_task_path :: "'db executor \<Rightarrow> task_key list res" where
  "current_task_path s = rbind (assert_initialized s) (\<lambda>_. rbind (top_frame s) (\<lambda>f. Inr (current_path f)))"

definition current_key :: "'db executor \<Rightarrow> task_key res" where
  "current_key s = rbind (current_task_path s) (\<lambda>p. if p = [] then Inl IndexError else Inr (last p))"

definition current_order :: "'db executor \<Rightarrow> int list res" where
  "current_order s = rbind (assert_initialized s) (\<lambda>_. rbind (outer_frame s) (\<lambda>g. Inr (next_subtask_order g)))"

definition executor_coordinates :: "'db executor \<Rightarrow> (task_key list \<times> int list \<times> task_type option) res" where
  "executor_coordinates s =
     rbind (current_task_path s) (\<lambda>p. rbind (current_order s) (\<lambda>os.
       rbind (top_frame s) (\<lambda>f. Inr (p, os, frame_type f))))"

definition current_session :: "'db executor \<Rightarrow> (nat \<times> nat) option" where
  "current_session s = session s"

text \<open>A task that asks for its coordinates gets those it was started with.\<close>

lemma running_task_coordinates:
  assumes "stack s = f # fs" and "is_open s" and "order_of c = next_subtask_order f"
  shows "executor_coordinates (enter_frame c s) = Inr (path c, order_of c, Some (type_of c))"
    and "path c \<noteq> [] \<Longrightarrow> current_key (enter_frame c s) = Inr (last (path c))"
  using assms
  by (simp_all add: executor_coordinates_def current_task_path_def current_key_def current_order_def top_frame_def outer_frame_def
      assert_initialized_def guard_that_def is_open_def enter_frame_def)

lemma no_current_task:
  "session s = None \<Longrightarrow> executor_coordinates s = Inl AssertionError"
  "stack s = [f] \<Longrightarrow> is_open s \<Longrightarrow> executor_coordinates s = Inl IndexError"
  by (simp_all add: executor_coordinates_def current_task_path_def current_order_def top_frame_def outer_frame_def
      assert_initialized_def guard_that_def is_open_def)

section \<open>Callbacks\<close>

text \<open>
  \<open>inject_requirements\<close> adds a \<open>StepTrackingCallback\<close> unless one is among the delegates; a delegate is
  \<open>Inl\<close> such a callback with its session manager, or \<open>Inr\<close> another one.
\<close>

definition add_callback :: "'c list \<Rightarrow> 'c list \<Rightarrow> 'c list" where
  "add_callback callbacks delegates = add_delegate callbacks delegates"

definition is_step_tracking :: "'m + 'c \<Rightarrow> bool" where
  "is_step_tracking c = (case c of Inl m \<Rightarrow> True | Inr _ \<Rightarrow> False)"

definition executor_inject_requirements :: "'m \<Rightarrow> ('m + 'c) list \<Rightarrow> ('m + 'c) list \<Rightarrow> ('m + 'c) list" where
  "executor_inject_requirements session_manager callbacks delegates =
     (let delegates' = add_delegate callbacks delegates
      in if \<not> list_ex is_step_tracking delegates' then add_callback [Inl session_manager] delegates' else delegates')"

text \<open>Steps are always tracked, after every callback of the application.\<close>

lemma step_tracking_added:
  "\<exists>m. Inl m \<in> set (executor_inject_requirements session_manager callbacks delegates)"
  "list_all (\<lambda>c. \<not> is_step_tracking c) (delegates @ callbacks) \<Longrightarrow>
   executor_inject_requirements session_manager callbacks delegates = delegates @ callbacks @ [Inl session_manager]"
proof -
  have tracking: "is_step_tracking x \<longleftrightarrow> (\<exists>m. x = Inl m)" for x :: "'a + 'b"
    by (cases x) (simp_all add: is_step_tracking_def)
  show "\<exists>m. Inl m \<in> set (executor_inject_requirements session_manager callbacks delegates)"
    by (auto simp: executor_inject_requirements_def add_callback_def add_delegate_def list_ex_iff tracking Let_def)
  show "list_all (\<lambda>c. \<not> is_step_tracking c) (delegates @ callbacks) \<Longrightarrow>
   executor_inject_requirements session_manager callbacks delegates = delegates @ callbacks @ [Inl session_manager]"
    by (auto simp: executor_inject_requirements_def add_callback_def add_delegate_def list_ex_iff list_all_iff Let_def)
qed

section \<open>Decorators\<close>

text \<open>\<open>None\<close> as a key is \<open>DEFAULT_NAME\<close>: the task is then named after its function.\<close>

definition step_decorator :: "task_key option \<Rightarrow> string \<Rightarrow> action list \<Rightarrow> exn option \<Rightarrow> action" where
  "step_decorator key function_name body final =
     execute_step (case key of None \<Rightarrow> StrKey function_name | Some k \<Rightarrow> k) body final"

definition stage_decorator :: "task_key option \<Rightarrow> string \<Rightarrow> action list \<Rightarrow> exn option \<Rightarrow> action" where
  "stage_decorator key function_name body final =
     execute_stage (case key of None \<Rightarrow> StrKey function_name | Some k \<Rightarrow> k) body final None"

section \<open>The contextful executor\<close>

text \<open>
  The arguments that \<open>ContextfulTaskExecutor.execute\<close> hands on: what the invoker gathers for the body of the task, overridden by the
  given arguments.
\<close>

definition contextful_arguments :: "(string, 'v) dict res \<Rightarrow> 'v call_args option \<Rightarrow> 'v call_args res" where
  "contextful_arguments gathered task_args =
     rbind gathered (\<lambda>kws. args_lshift (args_of [] kws) (case task_args of None \<Rightarrow> args_of [] [] | Some a \<Rightarrow> a))"

definition contextful_execute ::
  "'db environment \<Rightarrow> (string, 'v) dict res \<Rightarrow> task_key \<Rightarrow> task_type \<Rightarrow> ('v call_args \<Rightarrow> 'db doing) \<Rightarrow> exn option \<Rightarrow>
   'v call_args option \<Rightarrow> 'db doing" where
  "contextful_execute env gathered key t body final task_args s =
     (case contextful_arguments gathered task_args of
        Inl e \<Rightarrow> (s, Some e)
      | Inr a \<Rightarrow> execute env key t (body a) final s)"

text \<open>
  A task with something to inject is never executed: overriding fails for arguments that are not empty,
  because of \<open>without_kwargs\<close>. Without anything to inject the arguments are those given.
\<close>

lemma contextful_execute_cases:
  "kws \<noteq> [] \<Longrightarrow> contextful_execute env (Inr kws) key t body final task_args s = (s, Some AssertionError)"
  "dict_ok (kwargs a) \<Longrightarrow> \<exists>b. contextful_execute env (Inr []) key t body final (Some a) s = execute env key t (body b) final s \<and>
     positional b = positional a \<and> map_of (kwargs b) = map_of (kwargs a)"
proof -
  show "kws \<noteq> [] \<Longrightarrow> contextful_execute env (Inr kws) key t body final task_args s = (s, Some AssertionError)"
    by (simp add: contextful_execute_def contextful_arguments_def args_lshift_def with_overrides_kwargs args_of_def)
  assume "dict_ok (kwargs a)"
  then have "\<exists>b. contextful_arguments (Inr []) (Some a) = Inr b \<and> positional b = positional a \<and> map_of (kwargs b) = map_of (kwargs a)"
    by (auto simp: contextful_arguments_def args_lshift_def with_overrides_def without_kwargs_def args_of_def args_add_def
        map_of_fold_update map_of_rev dict_ok_def)
  then show "\<exists>b. contextful_execute env (Inr []) key t body final (Some a) s = execute env key t (body b) final s \<and>
     positional b = positional a \<and> map_of (kwargs b) = map_of (kwargs a)"
    by (auto simp: contextful_execute_def)
qed

end
