(* ===== verification/Definitions.thy ===== *)
theory Definitions
  imports Declarations Py_Types
begin

text \<open>
  The definition of a type, collected over its supertypes: \<open>thinking_reflection/model/classes.py\<close> and
  \<open>thinking_reflection/definitions.py\<close>.

  \<open>w\<close> is what the interpreter reports of the classes, \<open>v\<close> the tables of \<open>Py_Types\<close>, with the known
  interfaces and \<open>issubclass\<close>. Declarations and descriptors are compared by value; as declarations
  are computed from the class, two of one class are equal. What a signature holds is hashable.
\<close>

section \<open>Tuples without repetition\<close>

text \<open>The generator of \<open>unique_concat\<close> with the set of what it yielded.\<close>

fun yield_fresh :: "'a list \<Rightarrow> 'a list \<Rightarrow> 'a list" where
  "yield_fresh yielded [] = []"
| "yield_fresh yielded (x # xs) =
     (if x \<in> set yielded then yield_fresh yielded xs else x # yield_fresh (set_add x yielded) xs)"

definition unique_concat :: "'a list list \<Rightarrow> 'a list" where
  "unique_concat ts = yield_fresh [] (concat ts)"

definition merge_entry :: "'k \<times> 'v list \<Rightarrow> ('k, 'v list) dict \<Rightarrow> ('k, 'v list) dict" where
  "merge_entry e out =
     (case map_of out (fst e) of
        None \<Rightarrow> AList.update (fst e) (unique_concat [[], snd e]) (AList.update (fst e) [] out)
      | Some u \<Rightarrow> AList.update (fst e) (unique_concat [u, snd e]) out)"

definition unique_merge :: "('k, 'v list) dict \<Rightarrow> ('k, 'v list) dict \<Rightarrow> ('k, 'v list) dict" where
  "unique_merge d1 d2 = fold merge_entry d2 d1"

section \<open>Descriptors of types\<close>

record TypeDescriptor =
  td_fields :: "(string, field_descriptor list) dict"
  td_methods :: "(string, method_descriptor list) dict"

definition empty_descriptor :: TypeDescriptor where
  "empty_descriptor = \<lparr>td_fields = [], td_methods = []\<rparr>"

definition add_descriptors :: "TypeDescriptor \<Rightarrow> TypeDescriptor \<Rightarrow> TypeDescriptor" where
  "add_descriptors a b =
     \<lparr>td_fields = unique_merge (td_fields a) (td_fields b), td_methods = unique_merge (td_methods a) (td_methods b)\<rparr>"

definition wrap_values :: "('k, 'v) dict \<Rightarrow> ('k, 'v list) dict" where
  "wrap_values d = map (\<lambda>(k, v). (k, [v])) d"

definition descriptor_of :: "type_declaration \<Rightarrow> TypeDescriptor" where
  "descriptor_of d = \<lparr>td_fields = wrap_values (decl_fields d), td_methods = wrap_values (decl_methods d)\<rparr>"

section \<open>Specifications of types\<close>

definition safe_issubclass :: "world \<Rightarrow> ty \<Rightarrow> ty \<Rightarrow> bool" where
  "safe_issubclass v a b = (case py_issubclass v a b of Inl e \<Rightarrow> False | Inr r \<Rightarrow> r)"

text \<open>
  \<open>add\<close> turns the declaration of the other type into a tuple, which takes the declaration, a tuple
  itself, apart. Its type and its two dictionaries land among the supertypes.
\<close>

datatype supertype =
    Declared type_declaration
  | ItsType ty
  | ItsFields "(string, field_descriptor) dict"
  | ItsMethods "(string, method_descriptor) dict"

record TypeSpecification =
  this_type :: type_declaration
  nominal_supertypes :: "type_declaration list"
  structural_supertypes :: "supertype list"

definition empty_specification :: "interpreter \<Rightarrow> TypeSpecification" where
  "empty_specification w =
     \<lparr>this_type = \<lparr>raw_type = object_cls w, decl_fields = [], decl_methods = []\<rparr>,
      nominal_supertypes = [], structural_supertypes = []\<rparr>"

definition specification_from :: "interpreter \<Rightarrow> world \<Rightarrow> type_declaration \<Rightarrow> TypeSpecification res" where
  "specification_from w v d =
     rbind (traverse (TypeDeclaration_of w) (rc_mro (reflected w (raw_type d)))) (\<lambda>nominal.
       rbind (traverse (TypeDeclaration_of w) (filter (safe_issubclass v (raw_type d)) (known_interfaces v))) (\<lambda>structural.
         Inr \<lparr>this_type = d, nominal_supertypes = nominal, structural_supertypes = map Declared structural\<rparr>))"

definition all_types :: "TypeSpecification \<Rightarrow> supertype list" where
  "all_types s = unique_concat [[Declared (this_type s)], map Declared (nominal_supertypes s), structural_supertypes s]"

definition taken_apart :: "type_declaration \<Rightarrow> supertype list" where
  "taken_apart d = [ItsType (raw_type d), ItsFields (decl_fields d), ItsMethods (decl_methods d)]"

definition add_specifications :: "TypeSpecification \<Rightarrow> TypeSpecification \<Rightarrow> TypeSpecification" where
  "add_specifications a b =
     \<lparr>this_type = this_type a,
      nominal_supertypes = unique_concat [nominal_supertypes a, nominal_supertypes b],
      structural_supertypes =
        unique_concat [taken_apart (this_type b), structural_supertypes a, structural_supertypes b]\<rparr>"

section \<open>Definitions of types\<close>

record TypeDefinition =
  specified :: TypeSpecification
  described :: TypeDescriptor

definition empty_definition :: "interpreter \<Rightarrow> TypeDefinition" where
  "empty_definition w = \<lparr>specified = empty_specification w, described = empty_descriptor\<rparr>"

text \<open>Of the items of \<open>all\<close> only declarations have a descriptor.\<close>

fun descriptor_of_supertype :: "supertype \<Rightarrow> TypeDescriptor res" where
  "descriptor_of_supertype (Declared d) = Inr (descriptor_of d)"
| "descriptor_of_supertype _ = Inl AttributeError"

fun sum_descriptors :: "TypeDescriptor \<Rightarrow> supertype list \<Rightarrow> TypeDescriptor res" where
  "sum_descriptors desc [] = Inr desc"
| "sum_descriptors desc (x # xs) =
     rbind (descriptor_of_supertype x) (\<lambda>y. sum_descriptors (add_descriptors desc y) xs)"

definition definition_from :: "interpreter \<Rightarrow> world \<Rightarrow> type_declaration \<Rightarrow> TypeDefinition res" where
  "definition_from w v d =
     rbind (specification_from w v d) (\<lambda>spec.
       rbind (sum_descriptors empty_descriptor (all_types spec)) (\<lambda>desc.
         Inr \<lparr>specified = spec, described = desc\<rparr>))"

definition TypeDefinition_of :: "interpreter \<Rightarrow> world \<Rightarrow> ty \<Rightarrow> TypeDefinition res" where
  "TypeDefinition_of w v t = rbind (TypeDeclaration_of w t) (definition_from w v)"

datatype summand = ADescriptor TypeDescriptor | ADeclaration type_declaration | ADefinition TypeDefinition | ASomethingElse

fun add_to_definition :: "TypeDefinition \<Rightarrow> summand \<Rightarrow> TypeDefinition" where
  "add_to_definition a (ADescriptor x) = a\<lparr>described := add_descriptors (described a) x\<rparr>"
| "add_to_definition a (ADeclaration x) = a\<lparr>described := add_descriptors (described a) (descriptor_of x)\<rparr>"
| "add_to_definition a (ADefinition x) =
     \<lparr>specified = add_specifications (specified a) (specified x),
      described = add_descriptors (described a) (described x)\<rparr>"
| "add_to_definition a ASomethingElse = a"

definition plus_definition :: "TypeDefinition \<Rightarrow> summand \<Rightarrow> TypeDefinition res" where
  "plus_definition a x = (if x = ASomethingElse then Inl AssertionError else Inr (add_to_definition a x))"

section \<open>First occurrences\<close>

definition firsts :: "'a list \<Rightarrow> 'a list" where
  "firsts xs = rev (remdups (rev xs))"

lemma firsts_snoc [simp]: "firsts (xs @ [x]) = (if x \<in> set xs then firsts xs else firsts xs @ [x])"
  by (simp add: firsts_def)

lemma firsts_Nil [simp]: "firsts [] = []"
  by (simp add: firsts_def)

lemma set_firsts [simp]: "set (firsts xs) = set xs"
  by (simp add: firsts_def)

lemma distinct_firsts [simp]: "distinct (firsts xs)"
  by (simp add: firsts_def)

lemma firsts_append: "firsts (xs @ ys) = firsts xs @ filter (\<lambda>y. y \<notin> set xs) (firsts ys)"
  by (induction ys rule: rev_induct) (auto simp flip: append_assoc)

lemma firsts_distinct: "distinct xs \<Longrightarrow> firsts xs = xs"
  by (induction xs rule: rev_induct) auto

lemma yield_fresh_snoc:
  "yield_fresh ys (xs @ [x]) = yield_fresh ys xs @ (if x \<in> set ys \<union> set xs then [] else [x])"
  by (induction xs arbitrary: ys) auto

lemma unique_concat_firsts: "unique_concat ts = firsts (concat ts)"
proof -
  have "yield_fresh [] xs = firsts xs" for xs :: "'a list"
    by (induction xs rule: rev_induct) (simp_all add: yield_fresh_snoc)
  then show ?thesis by (simp add: unique_concat_def)
qed

lemma set_update_firsts: "distinct xs \<Longrightarrow> set_update ys xs = firsts (xs @ ys)"
  unfolding set_update_def
  by (induction ys rule: rev_induct) (auto simp: firsts_distinct set_add_def simp flip: append_assoc)

lemma firsts_idem: "firsts (firsts xs @ ys) = firsts (xs @ ys)" "firsts (xs @ firsts ys) = firsts (xs @ ys)"
  by (simp_all add: firsts_append firsts_distinct)

section \<open>What merging gives\<close>

definition value_at :: "('k, 'v list) dict \<Rightarrow> 'k \<Rightarrow> 'v list" where
  "value_at d k = (case map_of d k of None \<Rightarrow> [] | Some vs \<Rightarrow> vs)"

lemma names_update: "map fst (AList.update k x d) = set_add k (map fst d)"
  by (induction d) (auto simp: set_add_def)

lemma merge_entry_correct:
  "map fst (merge_entry (k, vs) out) = set_add k (map fst out)"
  "map_of (merge_entry (k, vs) out) = (map_of out)(k \<mapsto> firsts (value_at out k @ vs))"
  by (auto simp: merge_entry_def names_update unique_concat_firsts value_at_def update_conv' set_add_idem
      split: option.splits)

lemma unique_merge_names: "map fst (unique_merge d1 d2) = set_update (map fst d2) (map fst d1)"
  unfolding unique_merge_def
  by (induction d2 arbitrary: d1) (auto simp: set_update_def merge_entry_correct)

lemma unique_merge_value:
  "dict_ok d2 \<Longrightarrow> map_of (unique_merge d1 d2) k =
     (case map_of d2 k of None \<Rightarrow> map_of d1 k | Some vs \<Rightarrow> Some (firsts (value_at d1 k @ vs)))"
proof (induction d2 arbitrary: d1)
  case (Cons e d2)
  obtain k' vs where e: "e = (k', vs)" by (cases e)
  with Cons.prems have "map_of d2 k' = None" "dict_ok d2" by (auto simp: dict_ok_def map_of_eq_None_iff)
  moreover have "unique_merge d1 (e # d2) = unique_merge (merge_entry e d1) d2" by (simp add: unique_merge_def)
  ultimately show ?case
    using Cons.IH by (auto simp: e merge_entry_correct value_at_def split: option.splits)
qed (simp add: unique_merge_def)

lemma dict_eqI:
  assumes "dict_ok d" and "map fst d = map fst e" and "\<And>k. map_of d k = map_of e k"
  shows "d = e"
proof -
  have "d = map (\<lambda>k. (k, the (map_of d k))) (map fst d)" if "dict_ok d" for d :: "('a \<times> 'b) list"
    using that by (auto simp: dict_ok_def intro!: map_idI [symmetric])
  from this [of d] this [of e] assms show ?thesis by (simp add: dict_ok_def)
qed

text \<open>The reference: for every name, in the order of first mention, the different values that the sources have for it.\<close>

definition gathered :: "('a \<Rightarrow> ('k, 'v) dict) \<Rightarrow> 'a list \<Rightarrow> ('k, 'v list) dict" where
  "gathered f xs =
     map (\<lambda>k. (k, firsts (List.map_filter (\<lambda>x. map_of (f x) k) xs))) (firsts (concat (map (map fst \<circ> f) xs)))"

lemma map_of_map_Pair: "map_of (map (\<lambda>k. (k, g k)) ks) k = (if k \<in> set ks then Some (g k) else None)"
  by (induction ks) auto

lemma gathered_names: "map fst (gathered f xs) = firsts (concat (map (map fst \<circ> f) xs))"
  by (simp add: gathered_def comp_def)

lemma map_filter_empty: "(\<And>x. x \<in> set xs \<Longrightarrow> g x = None) \<Longrightarrow> List.map_filter g xs = []"
  by (induction xs) (auto simp: map_filter_simps)

lemma gathered_value:
  "map_of (gathered f xs) k =
     (if \<exists>x \<in> set xs. k \<in> keys (f x) then Some (firsts (List.map_filter (\<lambda>x. map_of (f x) k) xs)) else None)"
  by (simp add: gathered_def map_of_map_Pair keys_def)

lemma value_at_gathered: "value_at (gathered f xs) k = firsts (List.map_filter (\<lambda>x. map_of (f x) k) xs)"
  by (auto simp: value_at_def gathered_value map_filter_empty not_keys_iff_map_of)

lemma map_filter_append: "List.map_filter g (xs @ ys) = List.map_filter g xs @ List.map_filter g ys"
  by (simp add: map_filter_def)

text \<open>Merging what was gathered is gathering from both.\<close>

lemma unique_merge_gathered: "unique_merge (gathered f xs) (gathered f ys) = gathered f (xs @ ys)"
proof (rule dict_eqI)
  have ok: "dict_ok (gathered f zs)" for zs by (simp add: dict_ok_def gathered_names)
  show names: "map fst (unique_merge (gathered f xs) (gathered f ys)) = map fst (gathered f (xs @ ys))"
    by (simp add: unique_merge_names gathered_names set_update_firsts firsts_idem)
  with ok show "dict_ok (unique_merge (gathered f xs) (gathered f ys))" by (simp add: dict_ok_def)
  fix k
  have "List.map_filter (\<lambda>x. map_of (f x) k) ys = []" if "\<not> (\<exists>y \<in> set ys. k \<in> keys (f y))"
    using that by (intro map_filter_empty) (auto simp: not_keys_iff_map_of)
  then show "map_of (unique_merge (gathered f xs) (gathered f ys)) k = map_of (gathered f (xs @ ys)) k"
    by (simp add: unique_merge_value [OF ok] value_at_gathered map_filter_append firsts_idem)
      (auto simp: gathered_value value_at_gathered map_filter_append firsts_idem)
qed

lemma wrap_values_facts:
  "map fst (wrap_values d) = map fst d" "map_of (wrap_values d) k = map_option (\<lambda>x. [x]) (map_of d k)"
  by (induction d) (simp_all add: wrap_values_def case_prod_unfold)

lemma firsts_single [simp]: "firsts [x] = [x]"
  by (simp add: firsts_def)

lemma wrap_values_gathered:
  assumes "dict_ok (f x)"
  shows "wrap_values (f x) = gathered f [x]"
proof (rule dict_eqI)
  show "dict_ok (wrap_values (f x))" using assms by (simp add: dict_ok_def wrap_values_facts)
  show "map fst (wrap_values (f x)) = map fst (gathered f [x])"
    using assms by (simp add: dict_ok_def wrap_values_facts gathered_names firsts_distinct)
  fix k
  show "map_of (wrap_values (f x)) k = map_of (gathered f [x]) k"
    by (cases "map_of (f x) k") (auto simp: wrap_values_facts gathered_value keys_iff_map_of)
qed

definition gathered_descriptor :: "type_declaration list \<Rightarrow> TypeDescriptor" where
  "gathered_descriptor ds = \<lparr>td_fields = gathered decl_fields ds, td_methods = gathered decl_methods ds\<rparr>"

definition declaration_ok :: "type_declaration \<Rightarrow> bool" where
  "declaration_ok d \<longleftrightarrow> dict_ok (decl_fields d) \<and> dict_ok (decl_methods d)"

lemma add_gathered: "add_descriptors (gathered_descriptor xs) (gathered_descriptor ys) = gathered_descriptor (xs @ ys)"
  by (simp add: add_descriptors_def gathered_descriptor_def unique_merge_gathered)

lemma descriptor_of_gathered: "declaration_ok d \<Longrightarrow> descriptor_of d = gathered_descriptor [d]"
  by (simp add: descriptor_of_def gathered_descriptor_def wrap_values_gathered declaration_ok_def)

lemma empty_gathered: "empty_descriptor = gathered_descriptor []"
  by (simp add: empty_descriptor_def gathered_descriptor_def gathered_def)

lemma sum_descriptors_gathered:
  "\<forall>d \<in> set ds. declaration_ok d \<Longrightarrow>
   sum_descriptors (gathered_descriptor xs) (map Declared ds) = Inr (gathered_descriptor (xs @ ds))"
  by (induction ds arbitrary: xs) (simp_all add: descriptor_of_gathered add_gathered)

section \<open>Declarations of classes\<close>

lemma analyse_members_keeps:
  assumes "analyse_members w das a t sc names d0 = Inr d"
  shows "raw_type d = raw_type d0 \<and> (declaration_ok d0 \<longrightarrow> declaration_ok d)"
  using assms
proof (induction names arbitrary: d0)
  case (Cons n ns)
  then obtain r where "analyse_members w das a t sc ns
      (case r of AMethod m \<Rightarrow> d0\<lparr>decl_methods := AList.update n m (decl_methods d0)\<rparr>
       | AField f \<Rightarrow> d0\<lparr>decl_fields := AList.update n f (decl_fields d0)\<rparr> | Ignored \<Rightarrow> d0) = Inr d"
    by (auto simp: res_simps split: option.splits)
  from Cons.IH [OF this] show ?case
    by (auto simp: declaration_ok_def dict_simps split: analysed.splits)
qed simp

lemma TypeDeclaration_ok:
  assumes "TypeDeclaration_of w t = Inr d"
  shows "raw_type d = t" and "dict_ok (rc_annotations (reflected w t)) \<Longrightarrow> declaration_ok d"
proof -
  obtain a where a: "analyse w DESCRIPTOR_ANALYSERS a t = Inr d"
    by (rule TypeDeclaration_of_analyser [of w t]) (use assms in simp)
  have ok: "dict_ok (annotated_fields a as)" if "dict_ok as" for as
    using that by (induction as) (auto simp: annotated_fields_def dict_ok_def case_prod_unfold comp_def image_iff)
  show "raw_type d = t" and "dict_ok (rc_annotations (reflected w t)) \<Longrightarrow> declaration_ok d"
    using a ok by (auto simp: analyse_def Let_def declaration_ok_def split: option.splits dest!: analyse_members_keeps)
qed

lemma firsts_map: "inj_on f (set xs) \<Longrightarrow> firsts (map f xs) = map f (firsts xs)"
  by (induction xs rule: rev_induct) (auto simp: inj_on_def)

section \<open>What a definition holds\<close>

definition supertypes_of :: "interpreter \<Rightarrow> world \<Rightarrow> ty \<Rightarrow> ty list" where
  "supertypes_of w v t = firsts (t # rc_mro (reflected w t) @ filter (safe_issubclass v t) (known_interfaces v))"

lemma traverse_declarations:
  "traverse (TypeDeclaration_of w) ts = Inr ds \<longleftrightarrow> map raw_type ds = ts \<and> (\<forall>d \<in> set ds. TypeDeclaration_of w (raw_type d) = Inr d)"
  by (induction ts arbitrary: ds) (auto simp: res_simps Cons_eq_map_conv TypeDeclaration_ok(1))

lemma raw_type_inj: "\<forall>d \<in> set ds. TypeDeclaration_of w (raw_type d) = Inr d \<Longrightarrow> inj_on raw_type (set ds)"
  by (rule inj_onI) (metis sum.inject(2))

lemma definition_declarations:
  assumes "TypeDefinition_of w v t = Inr def" and ok: "\<And>c. dict_ok (rc_annotations (reflected w c))"
  obtains ds where "all_types (specified def) = map Declared ds" and "map raw_type ds = supertypes_of w v t"
    and "\<forall>d \<in> set ds. TypeDeclaration_of w (raw_type d) = Inr d" and "described def = gathered_descriptor ds"
    and "raw_type (this_type (specified def)) = t"
proof -
  from assms(1) obtain d spec desc where d: "TypeDeclaration_of w t = Inr d" and s: "specification_from w v d = Inr spec"
    and desc: "sum_descriptors empty_descriptor (all_types spec) = Inr desc" and e: "def = \<lparr>specified = spec, described = desc\<rparr>"
    by (auto simp: TypeDefinition_of_def definition_from_def res_simps)
  note raw = TypeDeclaration_ok(1) [OF d]
  from s raw obtain nominal structural where
    n: "map raw_type nominal = rc_mro (reflected w t)" "\<forall>d \<in> set nominal. TypeDeclaration_of w (raw_type d) = Inr d" and
    i: "map raw_type structural = filter (safe_issubclass v t) (known_interfaces v)"
      "\<forall>d \<in> set structural. TypeDeclaration_of w (raw_type d) = Inr d" and
    spec: "spec = \<lparr>this_type = d, nominal_supertypes = nominal, structural_supertypes = map Declared structural\<rparr>"
    unfolding specification_from_def rbind_Inr_iff traverse_declarations by auto
  let ?ds = "d # nominal @ structural"
  have declared: "\<forall>d \<in> set ?ds. TypeDeclaration_of w (raw_type d) = Inr d" using n(2) i(2) d raw by auto
  have types: "map raw_type (firsts ?ds) = supertypes_of w v t"
    using firsts_map [OF raw_type_inj [OF declared]] by (simp add: supertypes_of_def raw n(1) i(1))
  have all: "all_types spec = map Declared (firsts ?ds)"
    using firsts_map [of Declared ?ds] by (simp add: all_types_def unique_concat_firsts spec inj_on_def)
  have "\<forall>d \<in> set (firsts ?ds). declaration_ok d" using declared TypeDeclaration_ok(2) ok by (metis set_firsts)
  from sum_descriptors_gathered [OF this, of "[]"] have "desc = gathered_descriptor (firsts ?ds)"
    using desc by (simp add: all empty_gathered)
  with that [of "firsts ?ds"] all types declared raw show thesis by (simp add: e spec)
qed

section \<open>An example\<close>

definition ex_classes :: world where
  "ex_classes =
     \<lparr>classes =
        [(5, \<lparr>ci_name = ''C'', ci_shape = PlainClass, ci_supers = [6], ci_none = False, ci_inject = None\<rparr>),
         (6, \<lparr>ci_name = ''B'', ci_shape = PlainClass, ci_supers = [], ci_none = False, ci_inject = None\<rparr>)],
      guard_cls = 0, DISCOVERED_TYPES = [], INTERFACES = [6], PRIMARY_DATA = [], FALLBACK_DATA = []\<rparr>"

definition ex_base_declaration :: type_declaration where
  "ex_base_declaration =
     \<lparr>raw_type = 6, decl_fields = [],
      decl_methods = [(''inherited'',
        \<lparr>md_signature = fn_signature (ex_function 3 2 NoAnnotation), md_scope = fn_scope (ex_function 3 2 NoAnnotation)\<rparr>)]\<rparr>"

lemma ex_base_simps [simp]:
  "rc_bases ex_base = []" "rc_mro ex_base = [6]" "rc_annotations ex_base = []" "rc_dir ex_base = [''inherited'']"
  "rc_scope ex_base = Some \<lparr>filename = ''m.py'', first_line_no = 1, line_count = 6\<rparr>"
  "rc_dict ex_base = [(''inherited'', Function (ex_function 3 2 NoAnnotation))]"
  by (simp_all add: ex_base_def)

lemma ex_reflected [simp]: "t \<noteq> 5 \<Longrightarrow> reflected ex_interpreter t = ex_base"
  by (simp add: ex_interpreter_def)

lemma ex_other_declared:
  assumes "t \<noteq> 5"
  shows "TypeDeclaration_of ex_interpreter t = Inr (ex_base_declaration\<lparr>raw_type := t\<rparr>)"
proof -
  let ?f = "ex_function 3 2 NoAnnotation"
  have bound: "bound_in ex_interpreter [6] ''inherited'' = Some (Function ?f)" by (simp add: bound_in.simps)
  have "is_public ''inherited''" by (simp add: is_public_def starts_with_def)
  then have "analyse_member ex_interpreter DESCRIPTOR_ANALYSERS CommonAnalyser t
      \<lparr>filename = ''m.py'', first_line_no = 1, line_count = 6\<rparr> ''inherited'' (Function ?f) =
      Inr (AMethod (snd (hd (decl_methods ex_base_declaration))))"
    using bound assms
    by (simp add: regular_method_iff analyse_member_def function_of_def in_source_scope_def last_line_no_def
        CommonAnalyser_def postprocess_signature_def ex_base_declaration_def)
  with bound assms have "analyse ex_interpreter DESCRIPTOR_ANALYSERS CommonAnalyser t = Inr (ex_base_declaration\<lparr>raw_type := t\<rparr>)"
    by (simp add: analyse_def annotated_fields_def Let_def) (simp add: ex_base_declaration_def)
  with assms show ?thesis
    by (simp add: TypeDeclaration_of_def TYPE_ANALYSERS_def ProtocolAnalyser_def ABCAnalyser_def CommonAnalyser_def)
qed

lemma ex_base_declared: "TypeDeclaration_of ex_interpreter 6 = Inr ex_base_declaration"
  using ex_other_declared [of 6] by (simp add: ex_base_declaration_def)

lemma ex_supertypes: "supertypes_of ex_interpreter ex_classes 5 = [5, 6]"
  by (simp add: supertypes_of_def firsts_def known_interfaces_def ex_classes_def)

lemma ex_defined: "\<exists>def. TypeDefinition_of ex_interpreter ex_classes 5 = Inr def"
proof -
  have "ex_declaration \<noteq> ex_base_declaration" by (simp add: ex_declaration_def ex_base_declaration_def)
  moreover have "raw_type ex_declaration = 5" by (simp add: ex_declaration_def)
  moreover have "safe_issubclass ex_classes 5 6"
    by (simp add: safe_issubclass_def py_issubclass_def is_type_def info_def class_sub_def ex_classes_def)
  moreover have "known_interfaces ex_classes = [6]" by (simp add: known_interfaces_def ex_classes_def)
  ultimately show ?thesis
    by (simp add: TypeDefinition_of_def definition_from_def specification_from_def ex_declared ex_base_declared
        all_types_def unique_concat_firsts firsts_def)
qed

lemma ex_annotations: "dict_ok (rc_annotations (reflected ex_interpreter c))"
  by (simp add: ex_interpreter_def dict_ok_def)

text \<open>C36: The definition of a type. It describes the type itself, the classes of its method resolution order and
  the known interfaces it implements, each once and in this order. For every name, in the order in which these
  declare it, it holds their different descriptors, the nearest first: the incremental merging of the dictionaries
  computes what gathering name by name gives.\<close>

theorem type_definition_correct:
  assumes "TypeDefinition_of w v t = Inr def" and "\<And>c. dict_ok (rc_annotations (reflected w c))"
  shows "\<exists>ds. all_types (specified def) = map Declared ds \<and>
    map raw_type ds = firsts (t # rc_mro (reflected w t) @ filter (safe_issubclass v t) (known_interfaces v)) \<and>
    (\<forall>d \<in> set ds. TypeDeclaration_of w (raw_type d) = Inr d) \<and>
    described def = \<lparr>td_fields = gathered decl_fields ds, td_methods = gathered decl_methods ds\<rparr>"
  by (rule definition_declarations [OF assms]) (auto simp: supertypes_of_def gathered_descriptor_def)

theorem type_definition_correct_witness:
  "\<exists>def. TypeDefinition_of ex_interpreter ex_classes 5 = Inr def \<and>
     map fst (td_methods (described def)) = [''run'', ''inherited'']"
proof -
  obtain def where def: "TypeDefinition_of ex_interpreter ex_classes 5 = Inr def" using ex_defined by blast
  from type_definition_correct [OF this ex_annotations, folded supertypes_of_def] obtain ds where
    ds: "map raw_type ds = supertypes_of ex_interpreter ex_classes 5"
      "\<forall>d \<in> set ds. TypeDeclaration_of ex_interpreter (raw_type d) = Inr d"
    and desc: "described def = \<lparr>td_fields = gathered decl_fields ds, td_methods = gathered decl_methods ds\<rparr>"
    by blast
  then have methods: "td_methods (described def) = gathered decl_methods ds" by simp
  from ds [unfolded ex_supertypes] have "ds = [ex_declaration, ex_base_declaration]"
    by (auto simp: Cons_eq_map_conv map_eq_Cons_conv ex_declared ex_base_declared)
  with methods def show ?thesis
    by (simp add: gathered_names firsts_def) (simp add: ex_declaration_def ex_base_declaration_def)
qed

text \<open>Adding two definitions. The sum is of the first type and has, for every name, the different descriptors of
  the first and then of the second; adding a definition to itself changes no descriptor. But the parts of the second type's declaration
  are among the supertypes of the sum in place of the declaration, and these have no descriptors: collecting
  them again raises \<open>AttributeError\<close>. What is no descriptor, declaration or definition is refused.\<close>

theorem definitions_add_up:
  assumes "TypeDefinition_of w v t = Inr a" and "TypeDefinition_of w v t' = Inr b"
    and "\<And>c. dict_ok (rc_annotations (reflected w c))"
  shows "(\<exists>c. plus_definition a (ADefinition b) = Inr c \<and>
      this_type (specified c) = this_type (specified a) \<and>
      (\<forall>n. value_at (td_fields (described c)) n =
         firsts (value_at (td_fields (described a)) n @ value_at (td_fields (described b)) n) \<and>
        value_at (td_methods (described c)) n =
         firsts (value_at (td_methods (described a)) n @ value_at (td_methods (described b)) n)) \<and>
      ItsType t' \<in> set (all_types (specified c)) \<and>
      sum_descriptors empty_descriptor (all_types (specified c)) = Inl AttributeError) \<and>
    (\<exists>c. plus_definition a (ADefinition a) = Inr c \<and> described c = described a) \<and>
    plus_definition a ASomethingElse = Inl AssertionError"
proof -
  obtain xs ys where x: "described a = gathered_descriptor xs" and y: "described b = gathered_descriptor ys"
    and raw: "raw_type (this_type (specified b)) = t'"
    using definition_declarations [OF assms(1,3)] definition_declarations [OF assms(2,3)] by metis
  have twice: "gathered f (zs @ zs) = gathered f zs" for f :: "type_declaration \<Rightarrow> (string, 'b) dict" and zs
    by (rule dict_eqI)
      (auto simp: dict_ok_def gathered_names gathered_value map_filter_append firsts_append filter_empty_conv)
  have fails: "sum_descriptors desc xs = Inl AttributeError" if "ItsType t' \<in> set xs" for desc and xs :: "supertype list"
  proof -
    have "descriptor_of_supertype x = Inl AttributeError \<or> (\<exists>y. descriptor_of_supertype x = Inr y)" for x
      by (cases x) auto
    with that show ?thesis by (induction xs arbitrary: desc) (auto, metis rbind.simps)
  qed
  show ?thesis
    by (auto simp: plus_definition_def x y raw add_gathered fails all_types_def add_specifications_def
        unique_concat_firsts taken_apart_def)
      (simp_all add: gathered_descriptor_def value_at_gathered map_filter_append firsts_idem twice)
qed

theorem definitions_add_up_witness:
  "\<exists>a c. TypeDefinition_of ex_interpreter ex_classes 5 = Inr a \<and> plus_definition a (ADefinition a) = Inr c \<and>
     described c = described a \<and> ItsType 5 \<in> set (all_types (specified c))"
proof -
  obtain a where a: "TypeDefinition_of ex_interpreter ex_classes 5 = Inr a" using ex_defined by blast
  from definitions_add_up [OF this this ex_annotations] a show ?thesis by fastforce
qed

end
