(* ===== verification/Mocking.thy ===== *)
theory Mocking
  imports Definitions Configurable State_Result
begin

text \<open>
  Reflective mocks: \<open>thinking_programming/mocking.py\<close>.

  The class of a mock is what its creation computes from the definitions of the mocked types. Mocks live on
  a heap of objects with addresses; of the \<open>Mock\<close> objects of the standard library, the ones of properties
  and of methods keep their calls. In the tables of classes a mock class is a class below the mocked type.

  Two things are parameters: of which types the interpreter makes a subclass (of \<open>bool\<close>, for one, it does not),
  and the value that a fresh \<open>Mock\<close> object is.
\<close>

record 'v mock_library =
  subclassable :: "ty list \<Rightarrow> bool"
  fresh_Mock :: 'v

section \<open>Classes of mocks\<close>

datatype GetSet = GET | SET

record mock_class =
  mocked_types :: "ty list"
  mock_props :: "(string, accessor list) dict"
  mock_methods :: "string list"

text \<open>\<open>props[fn].add(fd.get_type)\<close> on a dictionary that makes missing sets.\<close>

definition add_prop :: "string \<Rightarrow> field_descriptor \<Rightarrow> (string, accessor list) dict \<Rightarrow> (string, accessor list) dict" where
  "add_prop fn fd props = AList.update fn (set_add (get_type fd) (value_at props fn)) props"

definition add_props :: "TypeDescriptor \<Rightarrow> (string, accessor list) dict \<Rightarrow> (string, accessor list) dict" where
  "add_props desc props = fold (\<lambda>(fn, fds). fold (add_prop fn) fds) (td_fields desc) props"

definition class_of_definitions :: "ty list \<Rightarrow> TypeDescriptor list \<Rightarrow> mock_class" where
  "class_of_definitions ts descs =
     \<lparr>mocked_types = set_update ts [],
      mock_props = map_values (\<lambda>n x. filter (\<lambda>t. t \<noteq> UNSUPPORTED) x) (fold add_props descs []),
      mock_methods = fold (\<lambda>desc. set_update (map fst (td_methods desc))) descs []\<rparr>"

definition reflective_mock :: "interpreter \<Rightarrow> world \<Rightarrow> 'v mock_library \<Rightarrow> ty list \<Rightarrow> mock_class res" where
  "reflective_mock i v lib ts =
     rbind (guard_that (subclassable lib ts) TypeError)
       (\<lambda>_. rbind (traverse (TypeDefinition_of i v) (set_update ts []))
          (\<lambda>defs. Inr (class_of_definitions ts (map described defs))))"

text \<open>The types of a property must have names: \<open>None\<close> has none.\<close>

fun type_of_accessor :: "accessor \<Rightarrow> ty res" where
  "type_of_accessor (Accessor t) = Inr t"
| "type_of_accessor _ = Inl AttributeError"

definition mock_of_accessors :: "interpreter \<Rightarrow> world \<Rightarrow> 'v mock_library \<Rightarrow> accessor list \<Rightarrow> mock_class res" where
  "mock_of_accessors i v lib xs = rbind (traverse type_of_accessor xs) (reflective_mock i v lib)"

section \<open>Mocks\<close>

record 'v mock_object =
  mock_type :: mock_class
  property_mocks :: "(string, (GetSet \<times> 'v option) list) dict"
  property_mock_values :: "(string, nat) dict"
  method_mocks :: "(string, 'v list list) dict"

record 'v mocks =
  mock_objects :: "(nat, 'v mock_object) dict"
  next_mock :: nat

text \<open>
  The mocks of the methods are set as attributes of the new mock one by one. For a name that is also the name of a
  property this goes to the property, which records it.
\<close>

definition mock_object_of :: "'v mock_library \<Rightarrow> mock_class \<Rightarrow> 'v mock_object" where
  "mock_object_of lib c =
     \<lparr>mock_type = c,
      property_mocks = map (\<lambda>(n, ts). (n, if n \<in> set (mock_methods c) then [(SET, Some (fresh_Mock lib))] else [])) (mock_props c),
      property_mock_values = [],
      method_mocks = map (\<lambda>n. (n, [])) (filter (\<lambda>n. n \<notin> keys (mock_props c)) (mock_methods c))\<rparr>"

definition new_mock :: "'v mock_library \<Rightarrow> mock_class \<Rightarrow> 'v mocks \<Rightarrow> 'v mocks \<times> nat" where
  "new_mock lib c h =
     (h\<lparr>mock_objects := AList.update (next_mock h) (mock_object_of lib c) (mock_objects h),
        next_mock := Suc (next_mock h)\<rparr>, next_mock h)"

definition mock_at :: "nat \<Rightarrow> ('v mocks, 'v mock_object) operation" where
  "mock_at a h = (h, case map_of (mock_objects h) a of None \<Rightarrow> Inl AttributeError | Some ob \<Rightarrow> Inr ob)"

definition put_mock :: "nat \<Rightarrow> 'v mock_object \<Rightarrow> ('v mocks, unit) operation" where
  "put_mock a ob h = (h\<lparr>mock_objects := AList.update a ob (mock_objects h)\<rparr>, Inr ())"

text \<open>Calling the mock of a property records the call before the side effect runs.\<close>

definition call_property :: "nat \<Rightarrow> string \<Rightarrow> GetSet \<times> 'v option \<Rightarrow> ('v mocks, unit) operation" where
  "call_property a n call =
     sbind (mock_at a) (\<lambda>ob. case map_of (property_mocks ob) n of
        None \<Rightarrow> slift (Inl KeyError)
      | Some calls \<Rightarrow> put_mock a (ob\<lparr>property_mocks := AList.update n (calls @ [call]) (property_mocks ob)\<rparr>))"

definition lazy_get :: "interpreter \<Rightarrow> world \<Rightarrow> 'v mock_library \<Rightarrow> nat \<Rightarrow> string \<Rightarrow> ('v mocks, nat) operation" where
  "lazy_get i v lib a n =
     sbind (mock_at a) (\<lambda>ob. case map_of (property_mock_values ob) n of
        Some b \<Rightarrow> sret b
      | None \<Rightarrow>
          sbind (slift (mock_of_accessors i v lib (value_at (mock_props (mock_type ob)) n))) (\<lambda>c h.
            case new_mock lib c h of (h1, b) \<Rightarrow>
              sseq (put_mock a (ob\<lparr>property_mock_values := AList.update n b (property_mock_values ob)\<rparr>)) (sret b) h1))"

definition mock_get :: "interpreter \<Rightarrow> world \<Rightarrow> 'v mock_library \<Rightarrow> nat \<Rightarrow> string \<Rightarrow> ('v mocks, nat) operation" where
  "mock_get i v lib a n = sseq (call_property a n (GET, None)) (lazy_get i v lib a n)"

definition mock_set :: "nat \<Rightarrow> string \<Rightarrow> 'v \<Rightarrow> ('v mocks, unit) operation" where
  "mock_set a n x = call_property a n (SET, Some x)"

text \<open>Calling a mocked method records the arguments. Methods that are not mocked are those of the mocked types.\<close>

definition call_method :: "nat \<Rightarrow> string \<Rightarrow> 'v list \<Rightarrow> ('v mocks, unit) operation" where
  "call_method a n arguments =
     sbind (mock_at a) (\<lambda>ob. case map_of (method_mocks ob) n of
        None \<Rightarrow> slift (Inl AttributeError)
      | Some calls \<Rightarrow> put_mock a (ob\<lparr>method_mocks := AList.update n (calls @ [arguments]) (method_mocks ob)\<rparr>))"

section \<open>Mocking the types of a context\<close>

text \<open>
  The class of a mock in the tables of classes: it inherits what its type injects, and it is not discovered,
  as its base does not pass the creation of subclasses on.
\<close>

definition make_mock_class :: "ty \<Rightarrow> world \<Rightarrow> ty \<Rightarrow> world \<times> ty" where
  "make_mock_class ReflectiveMock_cls w t =
     (let m = Suc (Max (insert 0 (keys (classes w))))
      in (w\<lparr>classes := AList.update m
            \<lparr>ci_name = ''ReflectiveMockOf_'' @ ci_name (info w t), ci_shape = PlainClass,
             ci_supers = ReflectiveMock_cls # t # ci_supers (info w t), ci_none = False,
             ci_inject = ci_inject (info w t)\<rparr> (classes w)\<rparr>, m))"

fun mock_each :: "interpreter \<Rightarrow> 'v mock_library \<Rightarrow> ty \<Rightarrow> ty list \<Rightarrow> world \<times> registry \<Rightarrow> (world \<times> registry) \<times> unit res" where
  "mock_each i lib rm [] s = (s, Inr ())"
| "mock_each i lib rm (t # ts) (w, data) =
     (case interface w t of
        (w1, Inl e) \<Rightarrow> ((w1, data), Inl e)
      | (w1, Inr _) \<Rightarrow>
          (case reflective_mock i w1 lib [t] of
             Inl e \<Rightarrow> ((w1, data), Inl e)
           | Inr _ \<Rightarrow>
               (case make_mock_class rm w1 t of (w2, mocked) \<Rightarrow>
                  (case customizer_all data t of
                     Inl e \<Rightarrow> ((w2, data), Inl e)
                   | Inr impls \<Rightarrow>
                       (case (if mocked \<in> set impls then (data, Inr []) else register w2 [One mocked] data) of
                          (data1, Inl e) \<Rightarrow> ((w2, data1), Inl e)
                        | (data1, Inr _) \<Rightarrow>
                            (case customizer_set_primary t (Some mocked) data1 of
                               Inl e \<Rightarrow> ((w2, data1), Inl e)
                             | Inr data2 \<Rightarrow> mock_each i lib rm ts (w2, data2)))))))"

definition MockTypes_configure_context ::
  "interpreter \<Rightarrow> 'v mock_library \<Rightarrow> ty \<Rightarrow> ty list \<Rightarrow> world \<times> registry \<Rightarrow> (world \<times> registry) \<times> unit res" where
  "MockTypes_configure_context i lib rm to_be_mocked s =
     (if to_be_mocked = [] then (s, Inl AssertionError) else mock_each i lib rm to_be_mocked s)"

section \<open>What a mock keeps\<close>

text \<open>Every mock was made before the next address, and no two properties share a value.\<close>

definition mocks_ok :: "'v mocks \<Rightarrow> bool" where
  "mocks_ok h \<longleftrightarrow>
     (\<forall>a ob. map_of (mock_objects h) a = Some ob \<longrightarrow> a < next_mock h \<and>
        (\<forall>n b. map_of (property_mock_values ob) n = Some b \<longrightarrow> b < next_mock h)) \<and>
     (\<forall>a ob n a' ob' n' b. map_of (mock_objects h) a = Some ob \<longrightarrow> map_of (mock_objects h) a' = Some ob' \<longrightarrow>
        map_of (property_mock_values ob) n = Some b \<longrightarrow> map_of (property_mock_values ob') n' = Some b \<longrightarrow> a = a' \<and> n = n')"

definition calls_of :: "'v mocks \<Rightarrow> nat \<Rightarrow> string \<Rightarrow> (GetSet \<times> 'v option) list option" where
  "calls_of h a n = Option.bind (map_of (mock_objects h) a) (\<lambda>ob. map_of (property_mocks ob) n)"

definition method_calls :: "'v mocks \<Rightarrow> nat \<Rightarrow> string \<Rightarrow> 'v list list option" where
  "method_calls h a n = Option.bind (map_of (mock_objects h) a) (\<lambda>ob. map_of (method_mocks ob) n)"

definition value_of :: "'v mocks \<Rightarrow> nat \<Rightarrow> string \<Rightarrow> nat option" where
  "value_of h a n = Option.bind (map_of (mock_objects h) a) (\<lambda>ob. map_of (property_mock_values ob) n)"

definition class_at :: "'v mocks \<Rightarrow> nat \<Rightarrow> mock_class option" where
  "class_at h a = map_option mock_type (map_of (mock_objects h) a)"

lemmas heap_simps = calls_of_def method_calls_def value_of_def class_at_def mock_at_def put_mock_def update_conv'

text \<open>
  What the operations do to the mocks that are there: \<open>touches a n call mcall h h'\<close> says that the calls of the
  property or method \<open>n\<close> of \<open>a\<close> are extended by \<open>call\<close> or \<open>mcall\<close>, and that nothing else of any mock that
  is there changes but for values of properties that had none.
\<close>

definition touches ::
  "(nat \<Rightarrow> string \<Rightarrow> (GetSet \<times> 'v option) list) \<Rightarrow> (nat \<Rightarrow> string \<Rightarrow> 'v list list) \<Rightarrow> 'v mocks \<Rightarrow> 'v mocks \<Rightarrow> bool" where
  "touches call mcall h h' \<longleftrightarrow>
     (mocks_ok h \<longrightarrow> mocks_ok h') \<and> next_mock h \<le> next_mock h' \<and>
     (\<forall>a. class_at h a \<noteq> None \<longrightarrow> class_at h' a = class_at h a \<and>
        (\<forall>n. calls_of h' a n = map_option (\<lambda>cs. cs @ call a n) (calls_of h a n) \<and>
           method_calls h' a n = map_option (\<lambda>cs. cs @ mcall a n) (method_calls h a n) \<and>
           (value_of h a n \<noteq> None \<longrightarrow> value_of h' a n = value_of h a n)))"

lemma touches_refl: "touches (\<lambda>a n. []) (\<lambda>a n. []) h h"
  by (simp add: touches_def option.map_ident)

lemma touches_trans:
  assumes "touches c1 m1 h h1" and "touches c2 m2 h1 h2"
  shows "touches (\<lambda>a n. c1 a n @ c2 a n) (\<lambda>a n. m1 a n @ m2 a n) h h2"
  using assms unfolding touches_def by (auto simp: option.map_comp comp_def)

definition at_only :: "nat \<Rightarrow> string \<Rightarrow> 'c \<Rightarrow> nat \<Rightarrow> string \<Rightarrow> 'c list" where
  "at_only a n c = (\<lambda>x k. if x = a \<and> k = n then [c] else [])"

lemma call_property_touches:
  "touches (at_only a n call) (\<lambda>x k. []) h (fst (call_property a n call h))"
proof (cases "calls_of h a n")
  case None
  then have "fst (call_property a n call h) = h"
    by (auto simp: call_property_def sbind_def mock_at_def slift_def calls_of_def split: option.splits)
  with None show ?thesis by (auto simp: touches_def at_only_def option.map_ident)
next
  case (Some cs)
  then obtain ob where ob: "map_of (mock_objects h) a = Some ob" "map_of (property_mocks ob) n = Some cs"
    by (auto simp: calls_of_def bind_eq_Some_conv)
  then have "fst (call_property a n call h) = h\<lparr>mock_objects := AList.update a
      (ob\<lparr>property_mocks := AList.update n (cs @ [call]) (property_mocks ob)\<rparr>) (mock_objects h)\<rparr>"
    by (simp add: call_property_def sbind_def mock_at_def put_mock_def)
  with ob show ?thesis
    by (auto simp: touches_def at_only_def heap_simps mocks_ok_def option.map_ident split: if_splits)
qed

lemma call_property_returns: "(\<exists>h'. call_property a n call h = (h', Inr ())) \<longleftrightarrow> calls_of h a n \<noteq> None"
  by (auto simp: call_property_def sbind_def mock_at_def put_mock_def slift_def calls_of_def bind_eq_Some_conv
      split: option.splits)

lemma call_method_touches:
  "touches (\<lambda>x k. []) (at_only a n arguments) h (fst (call_method a n arguments h))"
proof (cases "method_calls h a n")
  case None
  then have "fst (call_method a n arguments h) = h"
    by (auto simp: call_method_def sbind_def mock_at_def slift_def method_calls_def split: option.splits)
  with None show ?thesis by (auto simp: touches_def at_only_def option.map_ident)
next
  case (Some cs)
  then obtain ob where ob: "map_of (mock_objects h) a = Some ob" "map_of (method_mocks ob) n = Some cs"
    by (auto simp: method_calls_def bind_eq_Some_conv)
  then have "fst (call_method a n arguments h) = h\<lparr>mock_objects := AList.update a
      (ob\<lparr>method_mocks := AList.update n (cs @ [arguments]) (method_mocks ob)\<rparr>) (mock_objects h)\<rparr>"
    by (simp add: call_method_def sbind_def mock_at_def put_mock_def)
  with ob show ?thesis
    by (auto simp: touches_def at_only_def heap_simps mocks_ok_def option.map_ident split: if_splits)
qed

lemma new_mock_touches: "mocks_ok h \<Longrightarrow> touches (\<lambda>x k. []) (\<lambda>x k. []) h (fst (new_mock lib c h))"
  by (auto simp: touches_def new_mock_def mock_object_of_def heap_simps mocks_ok_def less_Suc_eq option.map_ident
      split: if_splits)

lemma lazy_get_cases:
  assumes "mocks_ok h"
  obtains (cached) b where "value_of h a n = Some b" and "lazy_get i v lib a n h = (h, Inr b)"
    | (raises) e where "value_of h a n = None" and "lazy_get i v lib a n h = (h, Inl e)"
    | (made) ob c where "value_of h a n = None" and "map_of (mock_objects h) a = Some ob"
        and "mock_of_accessors i v lib (value_at (mock_props (mock_type ob)) n) = Inr c"
        and "lazy_get i v lib a n h =
          (h\<lparr>mock_objects := AList.update a (ob\<lparr>property_mock_values := AList.update n (next_mock h) (property_mock_values ob)\<rparr>)
              (AList.update (next_mock h) (mock_object_of lib c) (mock_objects h)),
             next_mock := Suc (next_mock h)\<rparr>, Inr (next_mock h))"
proof (cases "map_of (mock_objects h) a")
  case None
  then show thesis by (intro raises) (auto simp: lazy_get_def sbind_def mock_at_def value_of_def)
next
  case ob: (Some ob)
  show thesis
  proof (cases "map_of (property_mock_values ob) n")
    case (Some b)
    with ob show thesis by (intro cached) (auto simp: lazy_get_def sbind_def mock_at_def value_of_def sret_def)
  next
    case None
    show thesis
    proof (cases "mock_of_accessors i v lib (value_at (mock_props (mock_type ob)) n)")
      case (Inl e)
      with ob None show thesis by (intro raises) (auto simp: lazy_get_def sbind_def mock_at_def value_of_def slift_def)
    next
      case (Inr c)
      with ob None show thesis
        by (intro made) (auto simp: lazy_get_def sbind_def sseq_def mock_at_def value_of_def slift_def sret_def
            new_mock_def put_mock_def)
    qed
  qed
qed

lemma lazy_get_touches:
  assumes ok: "mocks_ok h"
  shows "touches (\<lambda>x k. []) (\<lambda>x k. []) h (fst (lazy_get i v lib a n h))"
  using ok
proof (cases rule: lazy_get_cases [where i = i and v = v and lib = lib and a = a and n = n])
  case (made ob c)
  let ?h = "fst (lazy_get i v lib a n h)"
  have a: "a < next_mock h" "a \<noteq> next_mock h" using ok made(2) by (auto simp: mocks_ok_def)
  have none: "map_of (property_mock_values ob) n = None" using made(1,2) by (simp add: value_of_def)
  have "mocks_ok ?h"
    using ok made(2) none a unfolding made(4) mocks_ok_def mock_object_of_def
    by (auto simp: update_conv' less_Suc_eq split: if_splits)
  moreover have "map_of (mock_objects h) (next_mock h) = None"
    using ok unfolding mocks_ok_def by (metis less_irrefl option.exhaust)
  ultimately show ?thesis
    using made(2) none a unfolding made(4) by (auto simp: touches_def heap_simps option.map_ident)
qed (simp_all add: touches_refl)

lemma mock_get_touches:
  assumes "mocks_ok h"
  shows "touches (at_only a n (GET, None)) (\<lambda>x k. []) h (fst (mock_get i v lib a n h))"
proof (cases "calls_of h a n")
  case None
  then have "fst (mock_get i v lib a n h) = fst (call_property a n (GET, None) h)"
    by (auto simp: mock_get_def sseq_def sbind_def call_property_def mock_at_def slift_def calls_of_def split: option.splits)
  then show ?thesis using call_property_touches by metis
next
  case (Some cs)
  then obtain h0 where 0: "call_property a n (GET, None) h = (h0, Inr ())" using call_property_returns by blast
  then have t: "touches (at_only a n (GET, None)) (\<lambda>x k. []) h h0" by (metis call_property_touches fst_conv)
  then have "mocks_ok h0" using assms by (simp add: touches_def)
  from touches_trans [OF t lazy_get_touches [OF this]] 0 show ?thesis by (simp add: mock_get_def sseq_def sbind_def)
qed

text \<open>Anything that is done with mocks, whether it returns or raises.\<close>

datatype 'v mock_action =
    Create mock_class
  | ReadProperty nat string
  | WriteProperty nat string 'v
  | CallMethod nat string "'v list"

fun act :: "interpreter \<Rightarrow> world \<Rightarrow> 'v mock_library \<Rightarrow> 'v mock_action \<Rightarrow> 'v mocks \<Rightarrow> 'v mocks" where
  "act i v lib (Create c) h = fst (new_mock lib c h)"
| "act i v lib (ReadProperty a n) h = fst (mock_get i v lib a n h)"
| "act i v lib (WriteProperty a n x) h = fst (mock_set a n x h)"
| "act i v lib (CallMethod a n arguments) h = fst (call_method a n arguments h)"

fun recorded :: "nat \<Rightarrow> string \<Rightarrow> 'v mock_action \<Rightarrow> (GetSet \<times> 'v option) list" where
  "recorded a n (ReadProperty a' n') = at_only a' n' (GET, None) a n"
| "recorded a n (WriteProperty a' n' x) = at_only a' n' (SET, Some x) a n"
| "recorded a n _ = []"

fun called :: "nat \<Rightarrow> string \<Rightarrow> 'v mock_action \<Rightarrow> 'v list list" where
  "called a n (CallMethod a' n' arguments) = at_only a' n' arguments a n"
| "called a n _ = []"

lemma act_touches: "mocks_ok h \<Longrightarrow> touches (\<lambda>a n. recorded a n x) (\<lambda>a n. called a n x) h (act i v lib x h)"
  by (cases x) (simp_all add: new_mock_touches mock_get_touches mock_set_def call_property_touches call_method_touches)

lemma acts_touch:
  "mocks_ok h \<Longrightarrow> touches (\<lambda>a n. concat (map (recorded a n) acts)) (\<lambda>a n. concat (map (called a n) acts)) h
     (fold (act i v lib) acts h)"
proof (induction acts arbitrary: h)
  case (Cons x acts)
  note t = act_touches [OF Cons.prems, of x i v lib]
  then have "mocks_ok (act i v lib x h)" using Cons.prems by (simp add: touches_def)
  from touches_trans [OF t Cons.IH [OF this]] show ?case by simp
qed (simp add: touches_refl)

lemma touchesD:
  assumes "touches c m h h'" and "class_at h a \<noteq> None"
  shows "class_at h' a = class_at h a" and "calls_of h' a n = map_option (\<lambda>cs. cs @ c a n) (calls_of h a n)"
    and "method_calls h' a n = map_option (\<lambda>cs. cs @ m a n) (method_calls h a n)"
    and "value_of h a n = Some b \<Longrightarrow> value_of h' a n = Some b" and "mocks_ok h \<Longrightarrow> mocks_ok h'"
    and "next_mock h \<le> next_mock h'"
  using assms unfolding touches_def by auto

section \<open>Reading a property\<close>

lemma mock_get_effect:
  assumes get: "mock_get i v lib a n h = (h', Inr b)" and ok: "mocks_ok h"
  shows "value_of h' a n = Some b" and "calls_of h a n \<noteq> None" and "class_at h a \<noteq> None"
    and "value_of h a n = Some b \<or>
      value_of h a n = None \<and> b = next_mock h \<and>
      (\<exists>C c. class_at h a = Some C \<and> mock_of_accessors i v lib (value_at (mock_props C) n) = Inr c \<and> class_at h' b = Some c)"
proof -
  from get obtain h0 where 0: "call_property a n (GET, None) h = (h0, Inr ())" and lz: "lazy_get i v lib a n h0 = (h', Inr b)"
    by (auto simp: mock_get_def op_simps)
  then show calls: "calls_of h a n \<noteq> None" using call_property_returns by blast
  then show cls: "class_at h a \<noteq> None" by (auto simp: calls_of_def class_at_def bind_eq_Some_conv)
  have t: "touches (at_only a n (GET, None)) (\<lambda>x k. []) h h0" using 0 by (metis call_property_touches fst_conv)
  then have ok0: "mocks_ok h0" using ok by (simp add: touches_def)
  have same: "value_of h0 a n = value_of h a n" "class_at h0 a = class_at h a" "next_mock h0 = next_mock h"
    using 0 by (auto simp: call_property_def sbind_def mock_at_def put_mock_def slift_def value_of_def class_at_def
        update_conv' split: option.splits)
  have "value_of h' a n = Some b \<and> (value_of h a n = Some b \<or> value_of h a n = None \<and> b = next_mock h \<and>
      (\<exists>C c. class_at h a = Some C \<and> mock_of_accessors i v lib (value_at (mock_props C) n) = Inr c \<and> class_at h' b = Some c))"
    using ok0
  proof (cases rule: lazy_get_cases [where i = i and v = v and lib = lib and a = a and n = n])
    case (made ob c)
    then have a: "a \<noteq> next_mock h0" using ok0 by (auto simp: mocks_ok_def)
    have b: "b = next_mock h" and h': "h' = fst (lazy_get i v lib a n h0)" using made(4) lz same by auto
    have "class_at h a = Some (mock_type ob)" using made(2) same(2) by (simp add: class_at_def)
    moreover have "value_of h' a n = Some b" "class_at h' b = Some c"
      unfolding h' b made(4) using a same(3) by (simp_all add: value_of_def class_at_def update_conv' mock_object_of_def)
    moreover have "value_of h a n = None" using made(1) same(1) by simp
    ultimately show ?thesis using made(3) b by blast
  qed (use lz same in auto)
  then show "value_of h' a n = Some b" and "value_of h a n = Some b \<or>
      value_of h a n = None \<and> b = next_mock h \<and>
      (\<exists>C c. class_at h a = Some C \<and> mock_of_accessors i v lib (value_at (mock_props C) n) = Inr c \<and> class_at h' b = Some c)"
    by blast+
qed

lemma mock_get_again:
  assumes "value_of h a n = Some b" and "calls_of h a n \<noteq> None" and "mocks_ok h"
  shows "\<exists>h'. mock_get i v lib a n h = (h', Inr b)"
proof -
  obtain h0 where 0: "call_property a n (GET, None) h = (h0, Inr ())" using call_property_returns assms(2) by blast
  have "touches (at_only a n (GET, None)) (\<lambda>x k. []) h h0" using 0 by (metis call_property_touches fst_conv)
  moreover have "class_at h a \<noteq> None" using assms(2) by (auto simp: calls_of_def class_at_def bind_eq_Some_conv)
  ultimately have "value_of h0 a n = Some b" using assms(1) by (rule touchesD(4))
  then have "lazy_get i v lib a n h0 = (h0, Inr b)"
    by (auto simp: value_of_def bind_eq_Some_conv lazy_get_def sbind_def mock_at_def sret_def)
  with 0 show ?thesis by (auto simp: mock_get_def sseq_def sbind_def)
qed

lemma mocks_ok_values:
  "mocks_ok h \<Longrightarrow> value_of h a n = Some b \<Longrightarrow> value_of h a' n' = Some b \<Longrightarrow> a = a' \<and> n = n'"
  unfolding mocks_ok_def value_of_def bind_eq_Some_conv by blast

lemma value_below: "mocks_ok h \<Longrightarrow> value_of h a n = Some b \<Longrightarrow> b < next_mock h"
  unfolding mocks_ok_def value_of_def bind_eq_Some_conv by blast

section \<open>The types of a mocked property\<close>

lemma value_at_add_prop: "value_at (add_prop fn fd props) n = (if n = fn then set_add (get_type fd) (value_at props n) else value_at props n)"
  by (simp add: add_prop_def value_at_def update_conv')

text \<open>The types that the getters of a name have in a descriptor.\<close>

definition getters :: "TypeDescriptor \<Rightarrow> string \<Rightarrow> accessor set" where
  "getters desc n = {get_type fd | fd fds. (n, fds) \<in> set (td_fields desc) \<and> fd \<in> set fds}"

lemma set_add_props: "set (value_at (add_props desc props) n) = set (value_at props n) \<union> getters desc n"
proof -
  have one: "set (value_at (fold (add_prop fn) fds props) n) =
      set (value_at props n) \<union> (if fn = n then get_type ` set fds else {})" for fn fds props
    by (induction fds arbitrary: props) (auto simp: value_at_add_prop)
  have "set (value_at (fold (\<lambda>(fn, fds). fold (add_prop fn) fds) es props) n) =
      set (value_at props n) \<union> {get_type fd | fd fds. (n, fds) \<in> set es \<and> fd \<in> set fds}" for es
    by (induction es arbitrary: props) (auto simp: one split: prod.splits if_splits)
  then show ?thesis by (simp add: add_props_def getters_def)
qed

lemma mock_props_types:
  "set (value_at (mock_props (class_of_definitions ts descs)) n) = (\<Union>desc \<in> set descs. getters desc n) - {UNSUPPORTED}"
proof -
  have "set (value_at (fold add_props descs props) n) = set (value_at props n) \<union> (\<Union>desc \<in> set descs. getters desc n)" for props
    by (induction descs arbitrary: props) (simp_all add: set_add_props Un_assoc)
  moreover have "value_at (map_values (\<lambda>n x. filter (\<lambda>t. t \<noteq> UNSUPPORTED) x) d) n = filter (\<lambda>t. t \<noteq> UNSUPPORTED) (value_at d n)" for d
    by (simp add: value_at_def dict_simps split: option.splits)
  ultimately show ?thesis by (auto simp: class_of_definitions_def value_at_def)
qed

lemma mock_methods_types:
  "set (mock_methods (class_of_definitions ts descs)) = (\<Union>desc \<in> set descs. fst ` set (td_methods desc))"
proof -
  have "set (fold (\<lambda>desc. set_update (map fst (td_methods desc))) descs ms) = set ms \<union> (\<Union>desc \<in> set descs. fst ` set (td_methods desc))" for ms
    by (induction descs arbitrary: ms) auto
  then show ?thesis by (simp add: class_of_definitions_def)
qed

lemma map_of_by_name:
  "map_of (map (\<lambda>(n, ts). (n, g n)) d) k = (if k \<in> keys d then Some (g k) else None)"
  "map_of (map (\<lambda>n. (n, [])) ns) k = (if k \<in> set ns then Some [] else None)"
proof -
  show "map_of (map (\<lambda>(n, ts). (n, g n)) d) k = (if k \<in> keys d then Some (g k) else None)"
    by (induction d) (auto simp: keys_def)
  show "map_of (map (\<lambda>n. (n, [])) ns) k = (if k \<in> set ns then Some [] else None)"
    by (induction ns) auto
qed

lemma new_mock_parts:
  "new_mock lib C h = (h', x) \<Longrightarrow> class_at h' x = Some C \<and>
   calls_of h' x k = (if k \<in> keys (mock_props C)
     then Some (if k \<in> set (mock_methods C) then [(SET, Some (fresh_Mock lib))] else []) else None) \<and>
   method_calls h' x k = (if k \<in> set (mock_methods C) - keys (mock_props C) then Some [] else None)"
  unfolding new_mock_def mock_object_of_def by (auto simp: heap_simps map_of_by_name)

section \<open>Properties and methods of mocks\<close>

text \<open>C37: The properties and methods of a mock. Its class has the properties of the mocked types, each with the
  types that its getters have there, and their methods. A new mock has no recorded calls, but for a name that is
  both a property and a method: there the mock of the method is written to the property, which records it,
  and no method is mocked. Reading a property gives a mock, a new one the first time, whose class mocks the types
  of the property. Whatever is done from then on, reading and writing properties and calling methods of this mock
  and of any others in any order, returning or raising: reading the property again gives the same
  mock, which no other property of any mock ever gives, and the accesses of each property and the calls of each method
  of the mock are recorded, in order and with their arguments, and nothing else is.\<close>

theorem mock_properties:
  assumes "mocks_ok h" and "mock_get i v lib a n h = (h1, Inr b)"
    and "class_at h a = Some C" and "reflective_mock i v lib ts = Inr C"
  shows "(\<exists>defs. traverse (TypeDefinition_of i v) (set_update ts []) = Inr defs \<and>
      set (value_at (mock_props C) n) = (\<Union>d \<in> set defs. getters (described d) n) - {UNSUPPORTED} \<and>
      set (mock_methods C) = (\<Union>d \<in> set defs. fst ` set (td_methods (described d)))) \<and>
    (\<forall>h0 h0' x k. new_mock lib C h0 = (h0', x) \<longrightarrow>
      calls_of h0' x k = (if k \<in> keys (mock_props C)
        then Some (if k \<in> set (mock_methods C) then [(SET, Some (fresh_Mock lib))] else []) else None) \<and>
      method_calls h0' x k = (if k \<in> set (mock_methods C) - keys (mock_props C) then Some [] else None)) \<and>
    (value_of h a n = Some b \<or> b = next_mock h \<and>
      (\<exists>c. class_at h1 b = Some c \<and> mock_of_accessors i v lib (value_at (mock_props C) n) = Inr c)) \<and>
    (\<forall>acts h2. h2 = fold (act i v lib) acts h1 \<longrightarrow>
      (\<exists>h3. mock_get i v lib a n h2 = (h3, Inr b)) \<and>
      (\<forall>a' n' h3 b'. mock_get i v lib a' n' h2 = (h3, Inr b') \<longrightarrow> (b' = b \<longleftrightarrow> a' = a \<and> n' = n)) \<and>
      (\<forall>k. calls_of h2 a k = map_option (\<lambda>cs. cs @ concat (map (recorded a k) (ReadProperty a n # acts))) (calls_of h a k) \<and>
        method_calls h2 a k = map_option (\<lambda>cs. cs @ concat (map (called a k) acts)) (method_calls h a k)))"
proof (intro conjI)
  note get = mock_get_effect [OF assms(2,1)]
  from assms(4) obtain defs where "traverse (TypeDefinition_of i v) (set_update ts []) = Inr defs"
    "C = class_of_definitions ts (map described defs)" by (auto simp: reflective_mock_def rbind_Inr_iff)
  then show "\<exists>defs. traverse (TypeDefinition_of i v) (set_update ts []) = Inr defs \<and>
      set (value_at (mock_props C) n) = (\<Union>d \<in> set defs. getters (described d) n) - {UNSUPPORTED} \<and>
      set (mock_methods C) = (\<Union>d \<in> set defs. fst ` set (td_methods (described d)))"
    by (auto simp: mock_props_types mock_methods_types)
  show "\<forall>h0 h0' x k. new_mock lib C h0 = (h0', x) \<longrightarrow>
      calls_of h0' x k = (if k \<in> keys (mock_props C)
        then Some (if k \<in> set (mock_methods C) then [(SET, Some (fresh_Mock lib))] else []) else None) \<and>
      method_calls h0' x k = (if k \<in> set (mock_methods C) - keys (mock_props C) then Some [] else None)"
    using new_mock_parts by blast
  show "value_of h a n = Some b \<or> b = next_mock h \<and>
      (\<exists>c. class_at h1 b = Some c \<and> mock_of_accessors i v lib (value_at (mock_props C) n) = Inr c)"
    using get(4) assms(3) by auto
  show "\<forall>acts h2. h2 = fold (act i v lib) acts h1 \<longrightarrow>
      (\<exists>h3. mock_get i v lib a n h2 = (h3, Inr b)) \<and>
      (\<forall>a' n' h3 b'. mock_get i v lib a' n' h2 = (h3, Inr b') \<longrightarrow> (b' = b \<longleftrightarrow> a' = a \<and> n' = n)) \<and>
      (\<forall>k. calls_of h2 a k = map_option (\<lambda>cs. cs @ concat (map (recorded a k) (ReadProperty a n # acts))) (calls_of h a k) \<and>
        method_calls h2 a k = map_option (\<lambda>cs. cs @ concat (map (called a k) acts)) (method_calls h a k))"
  proof (intro allI impI)
    fix acts h2 assume h2: "h2 = fold (act i v lib) acts h1"
    have h1: "h1 = act i v lib (ReadProperty a n) h" using assms(2) by simp
    have all: "touches (\<lambda>x k. concat (map (recorded x k) (ReadProperty a n # acts)))
        (\<lambda>x k. concat (map (called x k) (ReadProperty a n # acts))) h h2"
      unfolding h2 h1 using acts_touch [OF assms(1), of "ReadProperty a n # acts" i v lib] by simp
    have "mocks_ok h1" using act_touches [OF assms(1), of "ReadProperty a n" i v lib] assms(1) h1 by (simp add: touches_def)
    have "class_at h1 a \<noteq> None" using act_touches [OF assms(1), of "ReadProperty a n" i v lib] get(3) h1
      by (simp add: touches_def)
    note from_h1 = touchesD [OF acts_touch [OF \<open>mocks_ok h1\<close>, of acts i v lib, folded h2] this]
    have val: "value_of h2 a n = Some b" using from_h1(4) get(1) by blast
    have ok2: "mocks_ok h2" using from_h1(5) \<open>mocks_ok h1\<close> by blast
    have "calls_of h2 a n \<noteq> None" using touchesD(2) [OF all get(3)] get(2) by simp
    note same = mock_get_again [OF val this ok2, of i v lib]
    have other: "b' = b \<longleftrightarrow> a' = a \<and> n' = n" if g: "mock_get i v lib a' n' h2 = (h3, Inr b')" for a' n' h3 b'
    proof
      assume b': "b' = b"
      have "value_of h2 a' n' = Some b" using mock_get_effect(4) [OF g ok2] value_below [OF ok2 val] b' by auto
      with mocks_ok_values [OF ok2 _ val] show "a' = a \<and> n' = n" by blast
    next
      assume "a' = a \<and> n' = n"
      with same g show "b' = b" by auto
    qed
    show "(\<exists>h3. mock_get i v lib a n h2 = (h3, Inr b)) \<and>
      (\<forall>a' n' h3 b'. mock_get i v lib a' n' h2 = (h3, Inr b') \<longrightarrow> (b' = b \<longleftrightarrow> a' = a \<and> n' = n)) \<and>
      (\<forall>k. calls_of h2 a k = map_option (\<lambda>cs. cs @ concat (map (recorded a k) (ReadProperty a n # acts))) (calls_of h a k) \<and>
        method_calls h2 a k = map_option (\<lambda>cs. cs @ concat (map (called a k) acts)) (method_calls h a k))"
      using same other touchesD(2,3) [OF all get(3)] by simp
  qed
qed

section \<open>Mocked types of a context\<close>

lemma make_mock_class_facts:
  assumes "make_mock_class rm w t = (w', m)"
  shows "m \<notin> keys (classes w)" and "INTERFACES w' = INTERFACES w"
    and "info w' m = \<lparr>ci_name = ''ReflectiveMockOf_'' @ ci_name (info w t), ci_shape = PlainClass,
      ci_supers = rm # t # ci_supers (info w t), ci_none = False, ci_inject = ci_inject (info w t)\<rparr>"
    and "x \<in> keys (classes w) \<Longrightarrow> info w' x = info w x \<and> x \<in> keys (classes w')" and "m \<in> keys (classes w')"
proof -
  have "Suc (Max (insert 0 (keys (classes w)))) \<notin> keys (classes w)"
  proof
    assume "Suc (Max (insert 0 (keys (classes w)))) \<in> keys (classes w)"
    then have "Suc (Max (insert 0 (keys (classes w)))) \<le> Max (insert 0 (keys (classes w)))" by (intro Max_ge) simp_all
    then show False by simp
  qed
  with assms show "m \<notin> keys (classes w)" and "INTERFACES w' = INTERFACES w"
    and "info w' m = \<lparr>ci_name = ''ReflectiveMockOf_'' @ ci_name (info w t), ci_shape = PlainClass,
      ci_supers = rm # t # ci_supers (info w t), ci_none = False, ci_inject = ci_inject (info w t)\<rparr>"
    and "x \<in> keys (classes w) \<Longrightarrow> info w' x = info w x \<and> x \<in> keys (classes w')" and "m \<in> keys (classes w')"
    by (auto simp: make_mock_class_def Let_def info_def dict_simps)
qed

definition mock_of :: "ty \<Rightarrow> world \<Rightarrow> ty \<Rightarrow> ty \<Rightarrow> bool" where
  "mock_of rm w m t \<longleftrightarrow> m \<in> keys (classes w) \<and> (\<exists>rest. ci_supers (info w m) = rm # t # rest)"

lemma interface_world:
  assumes "interface w t = (w', r)"
  shows "classes w' = classes w" and "set (INTERFACES w') = insert t (set (INTERFACES w))"
  using assms by (auto simp: interface_def discover_def split: if_splits)

lemma mock_each_effect:
  "mock_each i lib rm ts (w, data) = ((w', data'), Inr ()) \<Longrightarrow>
   set (INTERFACES w) \<union> set ts \<subseteq> set (INTERFACES w') \<and> keys data \<subseteq> keys data' \<and>
   (\<forall>m t. mock_of rm w m t \<longrightarrow> mock_of rm w' m t) \<and>
   (\<forall>t \<in> set ts. \<exists>m. mock_of rm w' m t \<and> primary_forced t m data') \<and>
   (\<forall>t p. t \<notin> set ts \<longrightarrow> primary_forced t p data \<longrightarrow> primary_forced t p data')"
proof (induction ts arbitrary: w data)
  case (Cons t ts)
  from Cons.prems obtain w1 u w2 m impls data1 out data2 where int: "interface w t = (w1, Inr u)"
    and make: "make_mock_class rm w1 t = (w2, m)" and impls: "customizer_all data t = Inr impls"
    and reg: "(if m \<in> set impls then (data, Inr []) else register w2 [One m] data) = (data1, Inr out)"
    and set: "customizer_set_primary t (Some m) data1 = Inr data2"
    and rest: "mock_each i lib rm ts (w2, data2) = ((w', data'), Inr ())"
    by (auto split: prod.splits sum.splits)
  note make = make_mock_class_facts [OF make] and int = interface_world [OF int]
  have "keys data \<subseteq> keys data1 \<and> (\<forall>x p. primary_forced x p data \<longrightarrow> primary_forced x p data1)"
  proof (cases "m \<in> set impls")
    case False
    with reg have r: "register w2 [One m] data = (data1, Inr out)" by simp
    from register_named(1) [OF r] register_forced(1) [OF r] show ?thesis by (fastforce simp: primary_forced_def)
  qed (use reg in simp)
  moreover have "keys data2 = keys data1" "primary_forced t m data2"
    "x \<noteq> t \<Longrightarrow> primary_forced x p data1 \<Longrightarrow> primary_forced x p data2" for x p
    using set by (auto simp: set_primary_Inr keys_map_entry primary_forced_def map_of_map_entry keys_iff_map_of)
  moreover have "mock_of rm w2 m t" using make(3,5) by (simp add: mock_of_def)
  moreover have "mock_of rm w2 x y" if "mock_of rm w x y" for x y
    using make(4) [of x] that int(1) by (auto simp: mock_of_def info_def)
  ultimately show ?case
    using Cons.IH [OF rest] make(2) int(2) by (auto 0 4)
qed simp

text \<open>After a configuration every mocked type is an interface whose primary implementation is a mock of it.\<close>

lemma mocks_are_primary:
  assumes "MockTypes_configure_context i lib rm ts (w, data) = ((w', data'), Inr ())"
  shows "ts \<noteq> []" and "t \<in> set ts \<Longrightarrow> is_interface w' t \<and> (\<exists>m. mock_of rm w' m t \<and> primary_forced t m data')"
    and "t \<notin> set ts \<Longrightarrow> primary_forced t p data \<Longrightarrow> primary_forced t p data'"
  using assms mock_each_effect [of i lib rm ts w data w' data']
  by (auto simp: MockTypes_configure_context_def is_interface_def split: if_splits)

section \<open>An example\<close>

definition ex_library :: "int mock_library" where
  "ex_library = \<lparr>subclassable = (\<lambda>ts. 3 \<notin> set ts), fresh_Mock = 0\<rparr>"

text \<open>A mock of the class \<open>5\<close> of \<open>Declarations\<close>, whose property \<open>p\<close> has a getter of type \<open>4\<close>.\<close>

lemma ex_mock: "\<exists>C. reflective_mock ex_interpreter ex_classes ex_library [5] = Inr C \<and> mock_props C = [(''a'', [Accessor 3]), (''p'', [Accessor 4])]"
proof -
  obtain def where def: "TypeDefinition_of ex_interpreter ex_classes 5 = Inr def" using ex_defined by blast
  obtain ds where "all_types (specified def) = map Declared ds" and
    ds: "map raw_type ds = supertypes_of ex_interpreter ex_classes 5" "\<forall>d \<in> set ds. TypeDeclaration_of ex_interpreter (raw_type d) = Inr d"
    and desc: "described def = gathered_descriptor ds" and "raw_type (this_type (specified def)) = 5"
    by (rule definition_declarations [OF def ex_annotations])
  from ds [unfolded ex_supertypes] have "ds = [ex_declaration, ex_base_declaration]"
    by (auto simp: Cons_eq_map_conv map_eq_Cons_conv ex_declared ex_base_declared)
  then have "td_fields (described def) =
      [(''a'', [\<lparr>get_type = Accessor 3, set_type = Accessor 3\<rparr>]), (''p'', [\<lparr>get_type = Accessor 4, set_type = UNSUPPORTED\<rparr>])]"
    by (simp add: desc gathered_descriptor_def gathered_def firsts_def ex_declaration_def ex_base_declaration_def)
  with def show ?thesis
    by (simp add: reflective_mock_def guard_that_def ex_library_def class_of_definitions_def set_update_def set_add_def add_props_def add_prop_def
        value_at_def map_values_def)
qed

lemma ex_type_mocked: "\<exists>c. mock_of_accessors ex_interpreter ex_classes ex_library [Accessor 4] = Inr c"
proof -
  have "\<not> safe_issubclass ex_classes 4 6"
    by (simp add: safe_issubclass_def py_issubclass_def is_type_def info_def opaque_info_def ex_classes_def)
  then have "\<exists>def. TypeDefinition_of ex_interpreter ex_classes 4 = Inr def"
    by (simp add: TypeDefinition_of_def definition_from_def specification_from_def ex_other_declared known_interfaces_def
        ex_classes_def all_types_def unique_concat_firsts firsts_def)
  then show ?thesis by (auto simp: mock_of_accessors_def reflective_mock_def guard_that_def ex_library_def set_update_def set_add_def)
qed

theorem mock_properties_witness:
  "\<exists>C h1 b. reflective_mock ex_interpreter ex_classes ex_library [5] = Inr C \<and>
     mock_get ex_interpreter ex_classes ex_library 0 ''p'' (fst (new_mock ex_library C \<lparr>mock_objects = [], next_mock = 0\<rparr>)) =
       (h1, Inr b) \<and>
     calls_of (act ex_interpreter ex_classes ex_library (WriteProperty 0 ''p'' 8) h1) 0 ''p'' =
       map_option (\<lambda>cs. cs @ [(GET, None), (SET, Some 8)])
         (calls_of (fst (new_mock ex_library C \<lparr>mock_objects = [], next_mock = 0\<rparr>)) 0 ''p'')"
proof -
  obtain C where C: "reflective_mock ex_interpreter ex_classes ex_library [5] = Inr C" "mock_props C = [(''a'', [Accessor 3]), (''p'', [Accessor 4])]"
    using ex_mock by blast
  define h :: "int mocks" where "h = fst (new_mock ex_library C \<lparr>mock_objects = [], next_mock = 0\<rparr>)"
  have "mocks_ok \<lparr>mock_objects = [], next_mock = 0\<rparr>" by (simp add: mocks_ok_def)
  then have ok: "mocks_ok h" unfolding h_def using new_mock_touches by (metis touches_def)
  have cls: "class_at h 0 = Some C" by (simp add: h_def new_mock_def class_at_def mock_object_of_def)
  obtain c where "mock_of_accessors ex_interpreter ex_classes ex_library [Accessor 4] = Inr c" using ex_type_mocked by blast
  then have "\<exists>h1 b. mock_get ex_interpreter ex_classes ex_library 0 ''p'' h = (h1, Inr b)"
    by (simp add: mock_get_def call_property_def lazy_get_def sseq_def sbind_def mock_at_def put_mock_def h_def new_mock_def
        mock_object_of_def C(2) slift_def sret_def value_at_def)
  then obtain h1 b where get: "mock_get ex_interpreter ex_classes ex_library 0 ''p'' h = (h1, Inr b)" by blast
  from mock_properties [OF ok get cls C(1)]
  have "\<forall>acts h2. h2 = fold (act ex_interpreter ex_classes ex_library) acts h1 \<longrightarrow>
      calls_of h2 0 ''p'' = map_option (\<lambda>cs. cs @ concat (map (recorded 0 ''p'') (ReadProperty 0 ''p'' # acts))) (calls_of h 0 ''p'')"
    by blast
  from this [rule_format, of _ "[WriteProperty 0 ''p'' 8]"]
  have "calls_of (act ex_interpreter ex_classes ex_library (WriteProperty 0 ''p'' 8) h1) 0 ''p'' =
      map_option (\<lambda>cs. cs @ [(GET, None), (SET, Some 8)]) (calls_of h 0 ''p'')"
    by (simp add: at_only_def)
  with C(1) get show ?thesis unfolding h_def by blast
qed

end
