(* ===== verification/Containers.thy ===== *)
theory Containers
  imports Services Dolt_Versioning
begin

text \<open>
  Containers: \<open>thinking_services/containers/protocol.py\<close> and \<open>docker_client.py\<close>.

  The client of the Docker library is a parameter: its calls are operations on a state of the Docker host.
  A container is known by a handle \<open>'c\<close>. A missing consumer argument is \<open>Guard\<close>, which stands for a logger
  that the client makes. Logs are read by a daemon thread after the call has returned, so a call returns the
  thread that it started, as the consumer with the source of its lines: what the library has returned for a
  build, the container whose stream was opened for a run. \<open>consume_log_stream\<close> is what the consumer is given for
  the lines that a stream has had so far.
\<close>

section \<open>Volumes and ports\<close>

datatype volume_definition = LocalVolume string | NamedVolume string | UnknownDefinition

record host_mount =
  mount_definition :: volume_definition
  mount_mode :: read_write

type_synonym volumes = "(string, host_mount) dict"

type_synonym ports = "(int, int) dict"

datatype container_status = RUNNING | FINISHED

datatype consumer_argument = GuardConsumer | NoConsumer | GivenConsumer nat

datatype consumer = MethodOfLogger string string | Given nat

datatype envvar = EnvText string | EnvInt int

record run_request =
  run_image :: string
  run_command :: "string option"
  run_name :: "string option"
  run_ports :: ports
  run_volumes :: "(string, string \<times> string) dict"
  run_detach :: bool
  run_environment :: "(string, string) dict"
  run_extra_hosts :: "(string, string) dict"

record ('s, 'c) docker =
  docker_ping :: "('s, unit) operation"
  image_get :: "string \<Rightarrow> ('s, unit) operation"
  image_pull :: "string \<Rightarrow> string \<Rightarrow> ('s, unit) operation"
  image_remove :: "string \<Rightarrow> ('s, unit) operation"
  image_build :: "string \<Rightarrow> string \<Rightarrow> string \<Rightarrow> ('s, string option list) operation"
  container_run :: "run_request \<Rightarrow> ('s, 'c) operation"
  container_name :: "'c \<Rightarrow> string"
  container_raw_status :: "'c \<Rightarrow> 's \<Rightarrow> string"
  container_logs :: "'c \<Rightarrow> ('s, unit) operation"
  container_stop :: "'c \<Rightarrow> ('s, unit) operation"
  container_wait :: "'c \<Rightarrow> ('s, unit) operation"
  container_remove :: "'c \<Rightarrow> ('s, unit) operation"
  volume_create :: "string \<Rightarrow> ('s, unit) operation"
  volume_get :: "string \<Rightarrow> ('s, unit) operation"
  volume_remove :: "string \<Rightarrow> ('s, unit) operation"

section \<open>Containers\<close>

record 'c docker_container =
  backend_container :: 'c
  container_volumes :: volumes
  container_ports :: ports

definition status_of :: "('s, 'c) docker \<Rightarrow> 'c docker_container \<Rightarrow> 's \<Rightarrow> container_status res" where
  "status_of d c s =
     (let raw = container_raw_status d (backend_container c) s
      in if raw = ''running'' then Inr RUNNING
         else if raw = ''exited'' then Inr FINISHED
         else UnreachableInstructionException_guard)"

definition stop_container :: "('s, 'c) docker \<Rightarrow> 'c docker_container \<Rightarrow> ('s, unit) operation" where
  "stop_container d c =
     sseq (container_stop d (backend_container c))
       (sseq (container_wait d (backend_container c)) (container_remove d (backend_container c)))"

section \<open>Named volumes\<close>

definition create_volume :: "('s, 'c) docker \<Rightarrow> string \<Rightarrow> ('s, volume_definition) operation" where
  "create_volume d name = sseq (volume_create d name) (sret (NamedVolume name))"

definition volume_exists :: "('s, 'c) docker \<Rightarrow> string \<Rightarrow> ('s, bool) operation" where
  "volume_exists d name =
     scatch (sseq (volume_get d name) (sret True))
       (\<lambda>e. if e = NotFound then sret False else slift (Inl e))"

definition delete_volume :: "('s, 'c) docker \<Rightarrow> string \<Rightarrow> ('s, unit) operation" where
  "delete_volume d name = sseq (volume_get d name) (volume_remove d name)"

text \<open>\<open>client[name]\<close>, \<open>item in client\<close> and \<open>del client[name]\<close>.\<close>

definition volume_item :: "('s, 'c) docker \<Rightarrow> string \<Rightarrow> ('s, volume_definition) operation" where
  "volume_item d item =
     sbind (volume_exists d item) (\<lambda>b. if \<not> b then create_volume d item else sret (NamedVolume item))"

definition volume_contains :: "('s, 'c) docker \<Rightarrow> string + volume_definition \<Rightarrow> ('s, bool) operation" where
  "volume_contains d item =
     (case item of
        Inl name \<Rightarrow> volume_exists d name
      | Inr (NamedVolume name) \<Rightarrow> volume_exists d name
      | Inr _ \<Rightarrow> slift (Inl TypeError))"

definition volume_delitem :: "('s, 'c) docker \<Rightarrow> string \<Rightarrow> ('s, unit) operation" where
  "volume_delitem d key = delete_volume d key"

section \<open>The client\<close>

definition docker_client :: "('s, 'c) docker \<Rightarrow> ('s, ('s, 'c) docker) operation" where
  "docker_client backend = sseq (docker_ping backend) (sret backend)"

definition log_consumer_of :: "consumer_argument \<Rightarrow> string \<Rightarrow> string \<Rightarrow> consumer option" where
  "log_consumer_of c logger_name method_name =
     (case c of
        GuardConsumer \<Rightarrow> Some (MethodOfLogger logger_name method_name)
      | NoConsumer \<Rightarrow> None
      | GivenConsumer i \<Rightarrow> Some (Given i))"

text \<open>
  The lines of a build that are read before one without a \<open>stream\<close>, for which \<open>line["stream"]\<close>
  raises: that exception ends the thread that reads the lines, and no caller sees it.
\<close>

fun stream_lines :: "string option list \<Rightarrow> string list \<times> exn option" where
  "stream_lines [] = ([], None)"
| "stream_lines (None # ls) = ([], Some KeyError)"
| "stream_lines (Some l # ls) = (case stream_lines ls of (xs, e) \<Rightarrow> (strip l # xs, e))"

definition build_log_thread :: "string option list \<Rightarrow> string list \<times> exn option" where
  "build_log_thread logs = (case stream_lines logs of (lines, e) \<Rightarrow> (consume_log_stream lines, e))"

lemma build_log_thread_lines:
  "build_log_thread logs =
     (map (rstrip \<circ> strip \<circ> the) (takeWhile (\<lambda>l. l \<noteq> None) logs), if None \<in> set logs then Some KeyError else None)"
proof -
  have "stream_lines logs =
    (map (strip \<circ> the) (takeWhile (\<lambda>l. l \<noteq> None) logs), if None \<in> set logs then Some KeyError else None)"
    by (induction logs rule: stream_lines.induct) auto
  then show ?thesis by (simp add: build_log_thread_def consume_log_stream_def)
qed

definition image_exists :: "('s, 'c) docker \<Rightarrow> string \<Rightarrow> ('s, bool) operation" where
  "image_exists d fullname =
     scatch (sseq (image_get d fullname) (sret True))
       (\<lambda>e. if e = ImageNotFound then sret False else slift (Inl e))"

definition docker_build ::
  "('s, 'c) docker \<Rightarrow> string \<Rightarrow> string \<Rightarrow> string \<Rightarrow> string \<Rightarrow> bool \<Rightarrow> consumer_argument \<Rightarrow>
   ('s, (consumer \<times> string option list) option) operation" where
  "docker_build d dir dockerfile name tag overwrite lc =
     (let fullname = name @ '':'' @ tag
      in sbind (image_exists d fullname) (\<lambda>exists.
           sbind (if exists
                  then if overwrite then sseq (image_remove d fullname) (sret True) else sret False
                  else sret True) (\<lambda>should_build.
             if should_build
             then sbind (image_build d dir dockerfile fullname) (\<lambda>logs.
               case log_consumer_of lc (''thinking_services.containers.docker_client.build.'' @ name) ''debug'' of
                 None \<Rightarrow> sret None
               | Some c \<Rightarrow> sret (Some (c, logs)))
             else sret None)))"

definition prepare_volume :: "volume_definition \<Rightarrow> string res" where
  "prepare_volume v =
     (case v of
        LocalVolume host_path \<Rightarrow> Inr host_path
      | NamedVolume volume_name \<Rightarrow> Inr volume_name
      | UnknownDefinition \<Rightarrow> UnreachableInstructionException_guard)"

definition mode_name :: "read_write \<Rightarrow> string" where
  "mode_name m = (case m of RO \<Rightarrow> ''ro'' | RW \<Rightarrow> ''rw'')"

fun prepare_volumes :: "volumes \<Rightarrow> (string, string \<times> string) dict \<Rightarrow> (string, string \<times> string) dict res" where
  "prepare_volumes [] out = Inr out"
| "prepare_volumes ((container_path, details) # vs) out =
     rbind (prepare_volume (mount_definition details)) (\<lambda>v.
       prepare_volumes vs (AList.update v (container_path, mode_name (mount_mode details)) out))"

text \<open>\<open>s.rpartition(c)\<close> splits at the last occurrence of \<open>c\<close>.\<close>

definition py_rpartition :: "char \<Rightarrow> string \<Rightarrow> string \<times> string \<times> string" where
  "py_rpartition c s =
     (case py_partition c (rev s) of
        (tag, colon, repo) \<Rightarrow> (if colon = [] then ([], [], s) else (rev repo, colon, rev tag)))"

text \<open>The image with its tag, the repository and the tag.\<close>

definition image_parts :: "string \<Rightarrow> string \<times> string \<times> string" where
  "image_parts img =
     (case py_rpartition (CHR '':'') img of
        (repo, colon, tag) \<Rightarrow>
          (if repo = [] then (img @ '':'' @ ''latest'', tag, ''latest'') else (img, repo, tag)))"

definition str_of_envvar :: "envvar \<Rightarrow> string" where
  "str_of_envvar v = (case v of EnvText s \<Rightarrow> s | EnvInt i \<Rightarrow> str_of_int i)"

definition or_empty :: "('k, 'v) dict option \<Rightarrow> ('k, 'v) dict" where
  "or_empty d = (case d of None \<Rightarrow> [] | Some x \<Rightarrow> x)"

definition ensure_image :: "('s, 'c) docker \<Rightarrow> string \<times> string \<times> string \<Rightarrow> ('s, unit) operation" where
  "ensure_image d img_parts =
     (case img_parts of (img, repo, tag) \<Rightarrow>
        scatch (image_get d img) (\<lambda>e. if e = ImageNotFound then image_pull d repo tag else slift (Inl e)))"

definition docker_run ::
  "('s, 'c) docker \<Rightarrow> string \<Rightarrow> string option \<Rightarrow> string option \<Rightarrow> volumes option \<Rightarrow> ports option \<Rightarrow>
   (string, envvar) dict option \<Rightarrow> consumer_argument \<Rightarrow>
   ('s, 'c docker_container \<times> (consumer \<times> 'c) option) operation" where
  "docker_run d img name cmd vols ports envvars lc =
     sbind (slift (prepare_volumes (or_empty vols) [])) (\<lambda>v.
       sseq (ensure_image d (image_parts img))
         (sbind (container_run d
            \<lparr>run_image = fst (image_parts img), run_command = cmd, run_name = name, run_ports = or_empty ports,
             run_volumes = v, run_detach = True,
             run_environment = map_values (\<lambda>k v. str_of_envvar v) (or_empty envvars),
             run_extra_hosts = [(''host.docker.internal'', ''host-gateway'')]\<rparr>) (\<lambda>backend.
           let container = \<lparr>backend_container = backend, container_volumes = or_empty vols, container_ports = or_empty ports\<rparr>
           in case log_consumer_of lc (''thinking_services.containers.docker_client.run'' @ container_name d backend) ''debug'' of
                None \<Rightarrow> sret (container, None)
              | Some c \<Rightarrow> sseq (container_logs d backend) (sret (container, Some (c, backend))))))"

text \<open>The proxy that a context injects: it passes on neither the environment nor the consumer.\<close>

definition proxy_build ::
  "('s, 'c) docker \<Rightarrow> string \<Rightarrow> string \<Rightarrow> string \<Rightarrow> string \<Rightarrow> bool \<Rightarrow> consumer_argument \<Rightarrow>
   ('s, (consumer \<times> string option list) option) operation" where
  "proxy_build delegate dir dockerfile name tag overwrite lc = docker_build delegate dir dockerfile name tag overwrite GuardConsumer"

definition proxy_run ::
  "('s, 'c) docker \<Rightarrow> string \<Rightarrow> string option \<Rightarrow> string option \<Rightarrow> volumes option \<Rightarrow> ports option \<Rightarrow>
   (string, envvar) dict option \<Rightarrow> ('s, 'c docker_container \<times> (consumer \<times> 'c) option) operation" where
  "proxy_run delegate img name cmd vols ports envvars = docker_run delegate img name cmd vols ports None GuardConsumer"

section \<open>What the Docker host promises\<close>

text \<open>
  What there is on a host: images by their full name, what was pulled, the containers with what they were
  run with, the named volumes. \<open>available\<close> are the images of the registry, by repository and tag.
\<close>

record 'c docker_host =
  images :: "string set"
  pulled :: "(string \<times> string) list"
  containers :: "('c \<times> run_request) list"
  named_volumes :: "string set"

definition acts :: "('s, 'a) operation \<Rightarrow> ('s \<Rightarrow> 'c docker_host) \<Rightarrow> 's \<Rightarrow> 'a res \<Rightarrow> 'c docker_host \<Rightarrow> bool" where
  "acts m view s r h \<longleftrightarrow> (\<exists>s'. m s = (s', r) \<and> view s' = h)"

definition images_ok :: "('s, 'c) docker \<Rightarrow> ('s \<Rightarrow> 'c docker_host) \<Rightarrow> (string \<times> string) set \<Rightarrow> bool" where
  "images_ok d view available \<longleftrightarrow>
     (\<forall>s img. acts (image_get d img) view s (if img \<in> images (view s) then Inr () else Inl ImageNotFound) (view s)) \<and>
     (\<forall>s repo tag. (repo, tag) \<in> available \<longrightarrow>
        acts (image_pull d repo tag) view s (Inr ())
          ((view s)\<lparr>images := insert (repo @ '':'' @ tag) (images (view s)), pulled := pulled (view s) @ [(repo, tag)]\<rparr>))"

definition name_in_use :: "'c docker_host \<Rightarrow> run_request \<Rightarrow> bool" where
  "name_in_use h rq \<longleftrightarrow> run_name rq \<noteq> None \<and> run_name rq \<in> (run_name \<circ> snd) ` set (containers h)"

text \<open>
  \<open>startable\<close> says which requests the host can serve in a state. Running any other one raises: a name that is in
  use is refused, and a container that was created but could not be started, since a port is in use for example,
  is left on the host. \<open>readable\<close> are the containers whose logs can be read; opening the logs of another raises.
\<close>

definition containers_ok ::
  "('s, 'c) docker \<Rightarrow> ('s \<Rightarrow> 'c docker_host) \<Rightarrow> ('c docker_host \<Rightarrow> run_request \<Rightarrow> bool) \<Rightarrow> ('c \<Rightarrow> bool) \<Rightarrow> bool" where
  "containers_ok d view startable readable \<longleftrightarrow>
     (\<forall>h rq. startable h rq \<longrightarrow> run_image rq \<in> images h \<and> \<not> name_in_use h rq) \<and>
     (\<forall>s rq. startable (view s) rq \<longrightarrow>
        (\<exists>c. c \<notin> fst ` set (containers (view s)) \<and>
           acts (container_run d rq) view s (Inr c) ((view s)\<lparr>containers := containers (view s) @ [(c, rq)]\<rparr>))) \<and>
     (\<forall>s rq. \<not> startable (view s) rq \<longrightarrow>
        (\<exists>e. acts (container_run d rq) view s (Inl e) (view s) \<or>
           \<not> name_in_use (view s) rq \<and>
           (\<exists>c. c \<notin> fst ` set (containers (view s)) \<and>
              acts (container_run d rq) view s (Inl e) ((view s)\<lparr>containers := containers (view s) @ [(c, rq)]\<rparr>)))) \<and>
     (\<forall>s c. c \<in> fst ` set (containers (view s)) \<longrightarrow>
        (if readable c then acts (container_logs d c) view s (Inr ()) (view s)
         else \<exists>e. acts (container_logs d c) view s (Inl e) (view s)) \<and>
        acts (container_stop d c) view s (Inr ()) (view s) \<and> acts (container_wait d c) view s (Inr ()) (view s) \<and>
        acts (container_remove d c) view s (Inr ())
          ((view s)\<lparr>containers := filter (\<lambda>x. fst x \<noteq> c) (containers (view s))\<rparr>)) \<and>
     (\<forall>s c. c \<notin> fst ` set (containers (view s)) \<longrightarrow> acts (container_stop d c) view s (Inl NotFound) (view s))"

definition volumes_ok :: "('s, 'c) docker \<Rightarrow> ('s \<Rightarrow> 'c docker_host) \<Rightarrow> bool" where
  "volumes_ok d view \<longleftrightarrow>
     (\<forall>s n. acts (volume_get d n) view s (if n \<in> named_volumes (view s) then Inr () else Inl NotFound) (view s)) \<and>
     (\<forall>s n. acts (volume_create d n) view s (Inr ()) ((view s)\<lparr>named_volumes := insert n (named_volumes (view s))\<rparr>)) \<and>
     (\<forall>s n. n \<in> named_volumes (view s) \<longrightarrow>
        acts (volume_remove d n) view s (Inr ()) ((view s)\<lparr>named_volumes := named_volumes (view s) - {n}\<rparr>))"

named_theorems acts_simps "composing calls of the Docker host"

lemma acts_sret [acts_simps]: "acts (sret x) view s r h \<longleftrightarrow> r = Inr x \<and> h = view s"
  by (auto simp: acts_def sret_def)

lemma acts_slift [acts_simps]: "acts (slift x) view s r h \<longleftrightarrow> r = x \<and> h = view s"
  by (auto simp: acts_def slift_def)

lemma acts_sbind: "acts m view s (Inr x) h1 \<Longrightarrow> (\<And>s1. view s1 = h1 \<Longrightarrow> acts (f x) view s1 r h) \<Longrightarrow> acts (sbind m f) view s r h"
  by (fastforce simp: acts_def sbind_def)

lemma acts_sseq: "acts m view s (Inr x) h1 \<Longrightarrow> (\<And>s1. view s1 = h1 \<Longrightarrow> acts n view s1 r h) \<Longrightarrow> acts (sseq m n) view s r h"
  by (simp add: sseq_def acts_sbind)

lemma acts_sbind_Inl: "acts m view s (Inl e) h \<Longrightarrow> acts (sbind m f) view s (Inl e) h"
  by (auto simp: acts_def sbind_def)

lemma acts_sseq_Inl: "acts m view s (Inl e) h \<Longrightarrow> acts (sseq m n) view s (Inl e) h"
  by (simp add: sseq_def acts_sbind_Inl)

lemma acts_scatch: "acts m view s (Inr x) h \<Longrightarrow> acts (scatch m k) view s (Inr x) h"
  by (auto simp: acts_def scatch_def)

lemma acts_scatch_Inl: "acts m view s (Inl e) h1 \<Longrightarrow> (\<And>s1. view s1 = h1 \<Longrightarrow> acts (k e) view s1 r h) \<Longrightarrow> acts (scatch m k) view s r h"
  by (fastforce simp: acts_def scatch_def)

section \<open>Names of images and volumes\<close>

lemma py_partition_none: "c \<notin> set s \<Longrightarrow> py_partition c s = (s, [], [])"
  by (induction s) auto

lemma py_partition_first: "c \<notin> set a \<Longrightarrow> py_partition c (a @ c # b) = (a, [c], b)"
  by (induction a) auto

lemma image_parts_untagged: "CHR '':'' \<notin> set img \<Longrightarrow> image_parts img = (img @ '':'' @ ''latest'', img, ''latest'')"
  by (simp add: image_parts_def py_rpartition_def py_partition_none)

lemma image_parts_tagged:
  assumes "repo \<noteq> []" and "CHR '':'' \<notin> set tag"
  shows "image_parts (repo @ '':'' @ tag) = (repo @ '':'' @ tag, repo, tag)"
proof -
  have "rev (repo @ '':'' @ tag) = rev tag @ CHR '':'' # rev repo" by simp
  with assms show ?thesis by (simp add: image_parts_def py_rpartition_def py_partition_first)
qed

lemma map_of_prepare_volumes:
  assumes "prepare_volumes vols out = Inr v" and "distinct (map (prepare_volume \<circ> mount_definition \<circ> snd) vols)"
    and "\<forall>m \<in> snd ` set vols. \<forall>h. prepare_volume (mount_definition m) = Inr h \<longrightarrow> map_of out h = None"
  shows "map_of v h = Some (p, m) \<longleftrightarrow> map_of out h = Some (p, m) \<or>
    (\<exists>x. (p, x) \<in> set vols \<and> prepare_volume (mount_definition x) = Inr h \<and> m = mode_name (mount_mode x))"
  using assms
proof (induction vols arbitrary: out)
  case (Cons e vols)
  obtain p' x where e: "e = (p', x)" by (cases e)
  with Cons.prems(1) obtain k where k: "prepare_volume (mount_definition x) = Inr k"
    and rest: "prepare_volumes vols (AList.update k (p', mode_name (mount_mode x)) out) = Inr v" by (auto simp: res_simps)
  have "\<forall>m \<in> snd ` set vols. prepare_volume (mount_definition m) \<noteq> Inr k"
    using Cons.prems(2) e k by (force simp: image_iff)
  with Cons.prems(3) have "\<forall>m \<in> snd ` set vols. \<forall>h. prepare_volume (mount_definition m) = Inr h \<longrightarrow>
      map_of (AList.update k (p', mode_name (mount_mode x)) out) h = None" by (auto simp: update_conv')
  moreover have "map_of out k = None" using Cons.prems(3) e k by auto
  ultimately show ?case
    using Cons.IH [OF rest] Cons.prems(2) e k by (auto simp: update_conv')
qed simp

section \<open>Running and stopping\<close>

lemma image_get_acts:
  "images_ok d view available \<Longrightarrow> acts (image_get d img) view s (if img \<in> images (view s) then Inr () else Inl ImageNotFound) (view s)"
  by (simp only: images_ok_def)

lemma image_pull_acts:
  "images_ok d view available \<Longrightarrow> (repo, tag) \<in> available \<Longrightarrow> acts (image_pull d repo tag) view s (Inr ())
     ((view s)\<lparr>images := insert (repo @ '':'' @ tag) (images (view s)), pulled := pulled (view s) @ [(repo, tag)]\<rparr>)"
  by (simp only: images_ok_def)

lemma startable_name: "containers_ok d view startable readable \<Longrightarrow> startable h rq \<Longrightarrow> \<not> name_in_use h rq"
  by (simp add: containers_ok_def)

lemma container_run_acts:
  "containers_ok d view startable readable \<Longrightarrow> startable (view s) rq \<Longrightarrow>
   \<exists>c. c \<notin> fst ` set (containers (view s)) \<and>
     acts (container_run d rq) view s (Inr c) ((view s)\<lparr>containers := containers (view s) @ [(c, rq)]\<rparr>)"
  by (simp only: containers_ok_def)

lemma container_run_raises:
  "containers_ok d view startable readable \<Longrightarrow> \<not> startable (view s) rq \<Longrightarrow>
   \<exists>e s1. container_run d rq s = (s1, Inl e) \<and> (view s1 = view s \<or> \<not> name_in_use (view s) rq \<and>
     (\<exists>c. c \<notin> fst ` set (containers (view s)) \<and> view s1 = (view s)\<lparr>containers := containers (view s) @ [(c, rq)]\<rparr>))"
  by (fastforce simp: containers_ok_def acts_def)

lemma container_logs_acts:
  assumes "containers_ok d view startable readable" and "c \<in> fst ` set (containers (view s))"
  shows "\<exists>s1 r. container_logs d c s = (s1, r) \<and> view s1 = view s \<and> (readable c \<longleftrightarrow> r = Inr ())"
proof -
  from assms have "if readable c then acts (container_logs d c) view s (Inr ()) (view s)
    else \<exists>e. acts (container_logs d c) view s (Inl e) (view s)" unfolding containers_ok_def by blast
  then show ?thesis by (auto simp: acts_def split: if_splits)
qed

lemma stop_container_acts:
  assumes "containers_ok d view startable readable" and "backend_container c \<in> fst ` set (containers (view s))"
  shows "acts (stop_container d c) view s (Inr ())
    ((view s)\<lparr>containers := filter (\<lambda>x. fst x \<noteq> backend_container c) (containers (view s))\<rparr>)"
proof -
  have "acts (container_stop d (backend_container c)) view s1 (Inr ()) (view s1)"
    "acts (container_wait d (backend_container c)) view s1 (Inr ()) (view s1)"
    "acts (container_remove d (backend_container c)) view s1 (Inr ())
      ((view s)\<lparr>containers := filter (\<lambda>x. fst x \<noteq> backend_container c) (containers (view s))\<rparr>)" if "view s1 = view s" for s1
    using assms(1) assms(2) [folded that] unfolding containers_ok_def that [symmetric] by blast+
  then show ?thesis
    unfolding stop_container_def by (intro acts_sseq [where ?h1.0 = "view s"]) auto
qed

lemma stop_container_missing:
  assumes "containers_ok d view startable readable" and "backend_container c \<notin> fst ` set (containers (view s))"
  shows "acts (stop_container d c) view s (Inl NotFound) (view s)"
  using assms unfolding stop_container_def containers_ok_def by (intro acts_sseq_Inl) blast

lemma ensure_image_acts:
  assumes "images_ok d view available" and "full \<in> images (view s) \<or> (repo, tag) \<in> available"
  shows "acts (ensure_image d (full, repo, tag)) view s (Inr ())
    (if full \<in> images (view s) then view s
     else (view s)\<lparr>images := insert (repo @ '':'' @ tag) (images (view s)), pulled := pulled (view s) @ [(repo, tag)]\<rparr>)"
proof (cases "full \<in> images (view s)")
  case True
  with image_get_acts [OF assms(1), of full s] have "acts (image_get d full) view s (Inr ()) (view s)" by simp
  with True show ?thesis by (simp add: ensure_image_def acts_scatch)
next
  case False
  with image_get_acts [OF assms(1), of full s] have "acts (image_get d full) view s (Inl ImageNotFound) (view s)" by simp
  then show ?thesis
    unfolding ensure_image_def prod.case
  proof (rule acts_scatch_Inl)
    fix s1 assume "view s1 = view s"
    with image_pull_acts [OF assms(1), of repo tag s1] assms(2) False
    show "acts (if ImageNotFound = ImageNotFound then image_pull d repo tag else slift (Inl ImageNotFound)) view s1 (Inr ())
      (if full \<in> images (view s) then view s
       else (view s)\<lparr>images := insert (repo @ '':'' @ tag) (images (view s)), pulled := pulled (view s) @ [(repo, tag)]\<rparr>)"
      by simp
  qed
qed

definition requested ::
  "string \<Rightarrow> string option \<Rightarrow> string option \<Rightarrow> (string, string \<times> string) dict \<Rightarrow> ports option \<Rightarrow> (string, envvar) dict option \<Rightarrow> run_request" where
  "requested full name cmd v ports envvars =
     \<lparr>run_image = full, run_command = cmd, run_name = name, run_ports = or_empty ports, run_volumes = v, run_detach = True,
      run_environment = map_values (\<lambda>k v. str_of_envvar v) (or_empty envvars),
      run_extra_hosts = [(''host.docker.internal'', ''host-gateway'')]\<rparr>"

text \<open>The host once the image is there.\<close>

definition with_image :: "string \<times> string \<Rightarrow> 'c docker_host \<Rightarrow> 'c docker_host" where
  "with_image it h =
     (case it of (repo, tag) \<Rightarrow>
        if repo @ '':'' @ tag \<in> images h then h
        else h\<lparr>images := insert (repo @ '':'' @ tag) (images h), pulled := pulled h @ [it]\<rparr>)"

lemma with_image_simps [simp]:
  "containers (with_image it h) = containers h"
  "images (with_image it h) = insert (fst it @ '':'' @ snd it) (images h)"
  "pulled (with_image it h) = pulled h @ (if fst it @ '':'' @ snd it \<in> images h then [] else [it])"
  "name_in_use (with_image it h) rq = name_in_use h rq"
  by (auto simp: with_image_def name_in_use_def split: prod.splits)

lemma docker_run_after_image:
  assumes I: "images_ok d view available"
    and v: "prepare_volumes (or_empty vols) [] = Inr v" and i: "image_parts img = (repo @ '':'' @ tag, repo, tag)"
    and a: "repo @ '':'' @ tag \<in> images (view s) \<or> (repo, tag) \<in> available"
  shows "\<exists>s1. view s1 = with_image (repo, tag) (view s) \<and>
    docker_run d img name cmd vols ports envvars lc s =
      (case container_run d (requested (repo @ '':'' @ tag) name cmd v ports envvars) s1 of
         (s2, Inl e) \<Rightarrow> (s2, Inl e)
       | (s2, Inr c) \<Rightarrow>
           (case log_consumer_of lc (''thinking_services.containers.docker_client.run'' @ container_name d c) ''debug'' of
              None \<Rightarrow> (s2, Inr (\<lparr>backend_container = c, container_volumes = or_empty vols, container_ports = or_empty ports\<rparr>, None))
            | Some k \<Rightarrow>
                (case container_logs d c s2 of (s3, Inl e) \<Rightarrow> (s3, Inl e) | (s3, Inr _) \<Rightarrow> (s3, Inr (\<lparr>backend_container = c, container_volumes = or_empty vols, container_ports = or_empty ports\<rparr>, Some (k, c))))))"
proof -
  from ensure_image_acts [OF I a] obtain s1
    where s1: "ensure_image d (repo @ '':'' @ tag, repo, tag) s = (s1, Inr ())" "view s1 = with_image (repo, tag) (view s)"
    by (auto simp: acts_def with_image_def)
  moreover have "docker_run d img name cmd vols ports envvars lc s =
      (case container_run d (requested (repo @ '':'' @ tag) name cmd v ports envvars) s1 of
         (s2, Inl e) \<Rightarrow> (s2, Inl e)
       | (s2, Inr c) \<Rightarrow>
           (case log_consumer_of lc (''thinking_services.containers.docker_client.run'' @ container_name d c) ''debug'' of
              None \<Rightarrow> (s2, Inr (\<lparr>backend_container = c, container_volumes = or_empty vols, container_ports = or_empty ports\<rparr>, None))
            | Some k \<Rightarrow>
                (case container_logs d c s2 of (s3, Inl e) \<Rightarrow> (s3, Inl e) | (s3, Inr _) \<Rightarrow> (s3, Inr (\<lparr>backend_container = c, container_volumes = or_empty vols, container_ports = or_empty ports\<rparr>, Some (k, c))))))"
    using v i s1(1)
    by (simp add: docker_run_def sseq_def sbind_def slift_def sret_def Let_def  requested_def
        split: prod.split sum.split option.split)
  ultimately show ?thesis by blast
qed

lemma stopping_twice:
  assumes C: "containers_ok d view startable readable"
    and new: "backend_container c \<notin> fst ` set cs" and there: "containers (view s) = cs @ [(backend_container c, rq)]"
  shows "\<exists>s2 s3. stop_container d c s = (s2, Inr ()) \<and> containers (view s2) = cs \<and> stop_container d c s2 = (s3, Inl NotFound)"
proof -
  have "backend_container c \<in> fst ` set (containers (view s))" by (simp add: there)
  from stop_container_acts [OF C this] obtain s2 where stop: "stop_container d c s = (s2, Inr ())"
    and gone: "containers (view s2) = filter (\<lambda>x. fst x \<noteq> backend_container c) (containers (view s))"
    by (auto simp: acts_def)
  have "filter (\<lambda>x. fst x \<noteq> backend_container c) cs = cs" using new by (intro filter_True) force
  then have same: "containers (view s2) = cs" by (simp add: gone there)
  with new have "backend_container c \<notin> fst ` set (containers (view s2))" by simp
  from stop_container_missing [OF C this] stop same show ?thesis by (auto simp: acts_def)
qed

lemma docker_run_started:
  assumes I: "images_ok d view available" and C: "containers_ok d view startable readable"
    and v: "prepare_volumes (or_empty vols) [] = Inr v" and i: "image_parts img = (repo @ '':'' @ tag, repo, tag)"
    and a: "repo @ '':'' @ tag \<in> images (view s) \<or> (repo, tag) \<in> available"
    and st: "startable (with_image (repo, tag) (view s)) (requested (repo @ '':'' @ tag) name cmd v ports envvars)"
  shows "\<exists>s1 r c. docker_run d img name cmd vols ports envvars lc s = (s1, r) \<and> c \<notin> fst ` set (containers (view s)) \<and>
    view s1 = (with_image (repo, tag) (view s))
      \<lparr>containers := containers (view s) @ [(c, requested (repo @ '':'' @ tag) name cmd v ports envvars)]\<rparr> \<and>
    (if lc = NoConsumer \<or> readable c
     then r = Inr (\<lparr>backend_container = c, container_volumes = or_empty vols, container_ports = or_empty ports\<rparr>,
       map_option (\<lambda>k. (k, c)) (log_consumer_of lc (''thinking_services.containers.docker_client.run'' @ container_name d c) ''debug''))
     else \<exists>e. r = Inl e)"
proof -
  let ?rq = "requested (repo @ '':'' @ tag) name cmd v ports envvars"
  from docker_run_after_image [OF I v i a, of name cmd ports envvars lc] obtain s1 where s1: "view s1 = with_image (repo, tag) (view s)"
    and run: "docker_run d img name cmd vols ports envvars lc s =
      (case container_run d ?rq s1 of
         (s2, Inl e) \<Rightarrow> (s2, Inl e)
       | (s2, Inr c) \<Rightarrow>
           (case log_consumer_of lc (''thinking_services.containers.docker_client.run'' @ container_name d c) ''debug'' of
              None \<Rightarrow> (s2, Inr (\<lparr>backend_container = c, container_volumes = or_empty vols, container_ports = or_empty ports\<rparr>, None))
            | Some k \<Rightarrow>
                (case container_logs d c s2 of (s3, Inl e) \<Rightarrow> (s3, Inl e)
                 | (s3, Inr _) \<Rightarrow> (s3, Inr (\<lparr>backend_container = c, container_volumes = or_empty vols,
                     container_ports = or_empty ports\<rparr>, Some (k, c))))))"
    by auto
  from container_run_acts [OF C, of s1 ?rq] st obtain c s2 where c: "c \<notin> fst ` set (containers (view s))"
    "container_run d ?rq s1 = (s2, Inr c)" "view s2 = (with_image (repo, tag) (view s))\<lparr>containers := containers (view s) @ [(c, ?rq)]\<rparr>"
    by (auto simp: acts_def s1)
  have "c \<in> fst ` set (containers (view s2))" by (simp add: c(3))
  from container_logs_acts [OF C this] obtain s3 x where l: "container_logs d c s2 = (s3, x)" "view s3 = view s2" "readable c \<longleftrightarrow> x = Inr ()"
    by blast
  define con where "con = \<lparr>backend_container = c, container_volumes = or_empty vols, container_ports = or_empty ports\<rparr>"
  define thread where "thread = log_consumer_of lc (''thinking_services.containers.docker_client.run'' @ container_name d c) ''debug''"
  have none: "thread = None \<longleftrightarrow> lc = NoConsumer" by (cases lc) (auto simp: thread_def log_consumer_of_def)
  have "docker_run d img name cmd vols ports envvars lc s =
      (case thread of None \<Rightarrow> (s2, Inr (con, None)) | Some k \<Rightarrow> (case x of Inl e \<Rightarrow> (s3, Inl e) | Inr _ \<Rightarrow> (s3, Inr (con, Some (k, c)))))"
    unfolding run c(2) prod.case sum.case l(1) con_def thread_def by (rule refl)
  with none l(3) have "docker_run d img name cmd vols ports envvars lc s =
      (if thread = None then s2 else s3,
       case x of Inl e \<Rightarrow> if thread = None then Inr (con, None) else Inl e | Inr _ \<Rightarrow> Inr (con, map_option (\<lambda>k. (k, c)) thread))"
    by (auto split: option.split sum.split)
  moreover have "view (if thread = None then s2 else s3) =
      (with_image (repo, tag) (view s))\<lparr>containers := containers (view s) @ [(c, ?rq)]\<rparr>"
    by (simp add: l(2) c(3))
  moreover have "if lc = NoConsumer \<or> readable c
     then (case x of Inl e \<Rightarrow> if thread = None then Inr (con, None) else Inl e | Inr _ \<Rightarrow> Inr (con, map_option (\<lambda>k. (k, c)) thread)) =
       Inr (con, map_option (\<lambda>k. (k, c)) thread)
     else \<exists>e. (case x of Inl e \<Rightarrow> if thread = None then Inr (con, None) else Inl e | Inr _ \<Rightarrow> Inr (con, map_option (\<lambda>k. (k, c)) thread)) = Inl e"
    using l(3) none by (auto split: sum.splits)
  ultimately show ?thesis using c(1) unfolding con_def thread_def by blast
qed

lemma docker_run_refused:
  assumes I: "images_ok d view available" and C: "containers_ok d view startable readable"
    and v: "prepare_volumes (or_empty vols) [] = Inr v" and i: "image_parts img = (repo @ '':'' @ tag, repo, tag)"
    and a: "repo @ '':'' @ tag \<in> images (view s) \<or> (repo, tag) \<in> available"
    and st: "\<not> startable (with_image (repo, tag) (view s)) (requested (repo @ '':'' @ tag) name cmd v ports envvars)"
  shows "\<exists>s1 e. docker_run d img name cmd vols ports envvars lc s = (s1, Inl e) \<and>
    (view s1 = with_image (repo, tag) (view s) \<or>
     \<not> name_in_use (view s) (requested (repo @ '':'' @ tag) name cmd v ports envvars) \<and>
     (\<exists>c. c \<notin> fst ` set (containers (view s)) \<and> view s1 = (with_image (repo, tag) (view s))
       \<lparr>containers := containers (view s) @ [(c, requested (repo @ '':'' @ tag) name cmd v ports envvars)]\<rparr>))"
proof -
  let ?rq = "requested (repo @ '':'' @ tag) name cmd v ports envvars"
  from docker_run_after_image [OF I v i a, of name cmd ports envvars lc] obtain s1 where s1: "view s1 = with_image (repo, tag) (view s)"
    and run: "\<And>s2 e. container_run d ?rq s1 = (s2, Inl e) \<Longrightarrow> docker_run d img name cmd vols ports envvars lc s = (s2, Inl e)"
    by auto
  from container_run_raises [OF C, of s1 ?rq] st run show ?thesis unfolding s1 by fastforce
qed


section \<open>An example host\<close>

definition ex_startable :: "nat docker_host \<Rightarrow> run_request \<Rightarrow> bool" where
  "ex_startable h rq \<longleftrightarrow> run_image rq \<in> images h \<and> \<not> name_in_use h rq"

definition ex_docker :: "(nat docker_host, nat) docker" where
  "ex_docker =
     \<lparr>docker_ping = sret (),
      image_get = (\<lambda>i h. (h, if i \<in> images h then Inr () else Inl ImageNotFound)),
      image_pull = (\<lambda>repo tag h. (h\<lparr>images := insert (repo @ '':'' @ tag) (images h), pulled := pulled h @ [(repo, tag)]\<rparr>, Inr ())),
      image_remove = (\<lambda>i h. (h\<lparr>images := images h - {i}\<rparr>, Inr ())),
      image_build = (\<lambda>dir dockerfile i h. (h\<lparr>images := insert i (images h)\<rparr>, Inr [])),
      container_run = (\<lambda>rq h. if ex_startable h rq
        then let c = Suc (sum_list (map fst (containers h))) in (h\<lparr>containers := containers h @ [(c, rq)]\<rparr>, Inr c)
        else (h, Inl (AppError 409))),
      container_name = (\<lambda>c. ''container''),
      container_raw_status = (\<lambda>c h. if c \<in> fst ` set (containers h) then ''running'' else ''exited''),
      container_logs = (\<lambda>c. sret ()),
      container_stop = (\<lambda>c h. (h, if c \<in> fst ` set (containers h) then Inr () else Inl NotFound)),
      container_wait = (\<lambda>c. sret ()),
      container_remove = (\<lambda>c h. (h\<lparr>containers := filter (\<lambda>x. fst x \<noteq> c) (containers h)\<rparr>, Inr ())),
      volume_create = (\<lambda>n h. (h\<lparr>named_volumes := insert n (named_volumes h)\<rparr>, Inr ())),
      volume_get = (\<lambda>n h. (h, if n \<in> named_volumes h then Inr () else Inl NotFound)),
      volume_remove = (\<lambda>n h. (h\<lparr>named_volumes := named_volumes h - {n}\<rparr>, Inr ()))\<rparr>"

lemma ex_images_ok: "images_ok ex_docker (\<lambda>h. h) UNIV"
  by (simp add: images_ok_def acts_def ex_docker_def)

lemma ex_containers_ok: "containers_ok ex_docker (\<lambda>h. h) ex_startable (\<lambda>c. True)"
proof -
  have "Suc (sum_list (map fst xs)) \<notin> fst ` set xs" for xs :: "(nat \<times> run_request) list"
  proof
    assume "Suc (sum_list (map fst xs)) \<in> fst ` set xs"
    then have "Suc (sum_list (map fst xs)) \<le> sum_list (map fst xs)" by (intro member_le_sum_list) simp_all
    then show False by simp
  qed
  then show ?thesis by (simp add: containers_ok_def acts_def ex_docker_def sret_def Let_def ex_startable_def) blast
qed

definition ex_docker_host :: "nat docker_host" where
  "ex_docker_host = \<lparr>images = {}, pulled = [], containers = [], named_volumes = {}\<rparr>"

definition ex_mounts :: volumes where
  "ex_mounts =
     [(''/data'', \<lparr>mount_definition = NamedVolume ''data'', mount_mode = RW\<rparr>),
      (''/etc/app'', \<lparr>mount_definition = LocalVolume ''/conf'', mount_mode = RO\<rparr>)]"

text \<open>A container that is run, and the same request again, whose name is in use by then.\<close>

definition ex_run :: "nat docker_host \<Rightarrow> nat docker_host \<times> (nat docker_container \<times> (consumer \<times> nat) option) res" where
  "ex_run = docker_run ex_docker ''app'' (Some ''web'') None (Some ex_mounts) None (Some [(''PORT'', EnvInt 80)]) NoConsumer"

lemma ex_mounts_ok:
  "prepare_volumes (or_empty (Some ex_mounts)) [] = Inr [(''data'', (''/data'', ''rw'')), (''/conf'', (''/etc/app'', ''ro''))]"
  "distinct (map (prepare_volume \<circ> mount_definition \<circ> snd) (or_empty (Some ex_mounts)))"
  by (simp_all add: ex_mounts_def or_empty_def prepare_volume_def mode_name_def)


section \<open>Named volumes by item\<close>

text \<open>\<open>client[name]\<close> makes sure that the volume exists, \<open>del client[name]\<close> that it does not.\<close>

lemma volume_item_exists:
  assumes "volumes_ok d view"
  shows "acts (volume_exists d n) view s (Inr (n \<in> named_volumes (view s))) (view s)"
    and "acts (volume_item d n) view s (Inr (NamedVolume n)) ((view s)\<lparr>named_volumes := insert n (named_volumes (view s))\<rparr>)"
    and "acts (volume_delitem d n) view s (if n \<in> named_volumes (view s) then Inr () else Inl NotFound)
      ((view s)\<lparr>named_volumes := named_volumes (view s) - {n}\<rparr>)"
proof -
  have get: "acts (volume_get d n) view s (if n \<in> named_volumes (view s) then Inr () else Inl NotFound) (view s)"
    and make: "acts (volume_create d n) view s (Inr ()) ((view s)\<lparr>named_volumes := insert n (named_volumes (view s))\<rparr>)"
    and del: "n \<in> named_volumes (view s) \<Longrightarrow>
      acts (volume_remove d n) view s (Inr ()) ((view s)\<lparr>named_volumes := named_volumes (view s) - {n}\<rparr>)" for s
    using assms unfolding volumes_ok_def by blast+
  show ex: "acts (volume_exists d n) view s (Inr (n \<in> named_volumes (view s))) (view s)" for s
    using get [of s] by (auto simp: volume_exists_def acts_def scatch_def sseq_def sbind_def sret_def split: if_splits)
  show "acts (volume_item d n) view s (Inr (NamedVolume n)) ((view s)\<lparr>named_volumes := insert n (named_volumes (view s))\<rparr>)"
    unfolding volume_item_def
  proof (rule acts_sbind [OF ex])
    fix s1 assume s1: "view s1 = view s"
    have "acts (create_volume d n) view s1 (Inr (NamedVolume n)) ((view s)\<lparr>named_volumes := insert n (named_volumes (view s))\<rparr>)"
      unfolding create_volume_def by (rule acts_sseq [OF make]) (simp add: acts_simps s1)
    with s1 show "acts (if n \<notin> named_volumes (view s) then create_volume d n else sret (NamedVolume n)) view s1
        (Inr (NamedVolume n)) ((view s)\<lparr>named_volumes := insert n (named_volumes (view s))\<rparr>)"
      by (simp add: acts_simps insert_absorb)
  qed
  show "acts (volume_delitem d n) view s (if n \<in> named_volumes (view s) then Inr () else Inl NotFound)
      ((view s)\<lparr>named_volumes := named_volumes (view s) - {n}\<rparr>)"
  proof (cases "n \<in> named_volumes (view s)")
    case True
    have "acts (volume_remove d n) view s1 (Inr ()) ((view s)\<lparr>named_volumes := named_volumes (view s) - {n}\<rparr>)"
      if "view s1 = view s" for s1
      using del [of s1] True by (simp add: that)
    with True get [of s] show ?thesis
      unfolding volume_delitem_def delete_volume_def by (simp add: acts_sseq)
  next
    case False
    with get [of s] acts_sseq_Inl show ?thesis
      unfolding volume_delitem_def delete_volume_def by fastforce
  qed
qed

end
