(* ===== verification/Connections.thy ===== *)
theory Connections
  imports State_Result Tiny_Schema Containers
begin

text \<open>
  Objects of a context that hold a connection: the engine and the session of \<open>dolt/sqlalchemy/engine.py\<close>,
  the database of \<open>thinking_executor/data/tinydb.py\<close>, the container with the workbench of
  \<open>dolt/ui.py\<close>, and the directory of a test of \<open>thinking_executor/data/persistence.py\<close>.

  SQLAlchemy, TinyDB and the file system are parameters, operations on a state \<open>'s\<close>. An operation on such an
  object works on the state and the object.
\<close>

section \<open>The engine\<close>

record ('s, 'e, 'c) sqlalchemy =
  create_engine :: "string \<Rightarrow> ('s, 'e) operation"
  make_session :: "'e \<Rightarrow> ('s, 'c) operation"
  close_session :: "'c \<Rightarrow> ('s, unit) operation"
  dispose_engine :: "'e \<Rightarrow> bool \<Rightarrow> ('s, unit) operation"

record ('e, 'c) engine_lifecycle =
  lifecycle_engine :: "'e option"
  lifecycle_session :: "'c option"
  connection_str :: "string option"

text \<open>An operation of the outside world, on the state beside the object.\<close>

definition outside :: "('s, 'a) operation \<Rightarrow> ('s \<times> 'o, 'a) operation" where
  "outside m = (\<lambda>(s, ob). case m s of (s1, r) \<Rightarrow> ((s1, ob), r))"

definition set_object :: "('o \<Rightarrow> 'o) \<Rightarrow> ('s \<times> 'o, unit) operation" where
  "set_object f = (\<lambda>(s, ob). ((s, f ob), Inr ()))"

text \<open>\<open>with_part get m\<close>: an attribute of a part that is \<open>None\<close> is an \<open>AttributeError\<close>.\<close>

definition with_part :: "('o \<Rightarrow> 'p option) \<Rightarrow> ('p \<Rightarrow> ('s \<times> 'o, 'a) operation) \<Rightarrow> ('s \<times> 'o, 'a) operation" where
  "with_part get m = (\<lambda>(s, ob). case get ob of None \<Rightarrow> ((s, ob), Inl AttributeError) | Some p \<Rightarrow> m p (s, ob))"

definition empty_engine :: "('e, 'c) engine_lifecycle" where
  "empty_engine = \<lparr>lifecycle_engine = None, lifecycle_session = None, connection_str = None\<rparr>"

definition engine_inject_requirements :: "string \<Rightarrow> ('s \<times> ('e, 'c) engine_lifecycle, unit) operation" where
  "engine_inject_requirements config = set_object (\<lambda>l. l\<lparr>connection_str := Some config\<rparr>)"

definition engine_initialize :: "('s, 'e, 'c) sqlalchemy \<Rightarrow> ('s \<times> ('e, 'c) engine_lifecycle, unit) operation" where
  "engine_initialize q =
     with_part connection_str (\<lambda>db_connection.
       sbind (outside (create_engine q db_connection)) (\<lambda>e.
         sseq (set_object (\<lambda>l. l\<lparr>lifecycle_engine := Some e\<rparr>))
           (sbind (outside (make_session q e)) (\<lambda>c. set_object (\<lambda>l. l\<lparr>lifecycle_session := Some c\<rparr>)))))"

text \<open>Error 2013 of MySQL is a lost connection.\<close>

definition ignore_lost_connection :: "('s, unit) operation \<Rightarrow> ('s, unit) operation" where
  "ignore_lost_connection foo = scatch foo (\<lambda>e. if e = OperationalError (Some 2013) then sret () else slift (Inl e))"

definition engine_deinitialize :: "('s, 'e, 'c) sqlalchemy \<Rightarrow> ('s \<times> ('e, 'c) engine_lifecycle, unit) operation" where
  "engine_deinitialize q =
     sfinally (with_part lifecycle_session (\<lambda>c. ignore_lost_connection (outside (close_session q c))))
       (sfinally (with_part lifecycle_engine (\<lambda>e. ignore_lost_connection (outside (dispose_engine q e True))))
          (set_object (\<lambda>l. l\<lparr>lifecycle_session := None, lifecycle_engine := None\<rparr>)))"

definition get_engine :: "('e, 'c) engine_lifecycle \<Rightarrow> 'e res" where
  "get_engine l = NoneValueException_guard (lifecycle_engine l)"

definition get_session :: "('e, 'c) engine_lifecycle \<Rightarrow> 'c res" where
  "get_session l = NoneValueException_guard (lifecycle_session l)"

text \<open>Whatever closing the session and disposing of the engine raise, neither can be used afterwards.\<close>

lemma sfinally_state: "fst (sfinally m f s) = fst (f (fst (m s)))"
  by (simp add: sfinally_def split: prod.splits sum.splits)

lemma engine_deinitialized:
  "get_engine (snd (fst (engine_deinitialize q s))) = Inl NoneValueException"
  "get_session (snd (fst (engine_deinitialize q s))) = Inl NoneValueException"
  by (simp_all add: engine_deinitialize_def sfinally_state set_object_def get_engine_def get_session_def
      NoneValueException_guard_def split: prod.splits)

text \<open>A lost connection is no error; the engine is disposed of also when closing the session raises.\<close>

lemma engine_deinitialize_lost:
  assumes "close_session q c s = (s1, r)" and "dispose_engine q e True s1 = (s2, r')"
    and "r \<in> {Inr (), Inl (OperationalError (Some 2013))}" and "r' \<in> {Inr (), Inl (OperationalError (Some 2013))}"
  shows "engine_deinitialize q (s, \<lparr>lifecycle_engine = Some e, lifecycle_session = Some c, connection_str = cs\<rparr>) =
    ((s2, \<lparr>lifecycle_engine = None, lifecycle_session = None, connection_str = cs\<rparr>), Inr ())"
  using assms
  by (auto simp: engine_deinitialize_def sfinally_def with_part_def ignore_lost_connection_def scatch_def outside_def sret_def
      set_object_def)

section \<open>The database of the executor\<close>

record ('s, 'd) tinydb_files =
  directory_of :: "string \<Rightarrow> string"
  file_exists :: "string \<Rightarrow> 's \<Rightarrow> bool"
  make_directories :: "string \<Rightarrow> ('s, unit) operation"
  open_tinydb :: "string \<Rightarrow> ('s, 'd) operation"
  close_tinydb :: "'d \<Rightarrow> ('s, unit) operation"

record 'd tinydb_lifecycle =
  tinydb_path :: "string option"
  tinydb_open :: "'d option"

definition tinydb_parameters :: "string \<Rightarrow> string" where
  "tinydb_parameters project_data_dir = project_data_dir @ ''/tinydb.json''"

definition tinydb_inject_requirements :: "string \<Rightarrow> ('s \<times> 'd tinydb_lifecycle, unit) operation" where
  "tinydb_inject_requirements parameters = set_object (\<lambda>l. l\<lparr>tinydb_path := Some parameters\<rparr>)"

text \<open>The database with its schema is opened and closed with the database.\<close>

definition tinydb_initialize :: "('s, 'd) tinydb_files \<Rightarrow> ('s \<times> 'd tinydb_lifecycle, unit) operation" where
  "tinydb_initialize f =
     with_part tinydb_path (\<lambda>p.
       sseq (outside (\<lambda>s. if \<not> file_exists f (directory_of f p) s then make_directories f (directory_of f p) s else (s, Inr ())))
         (sbind (outside (open_tinydb f p)) (\<lambda>d. set_object (\<lambda>l. l\<lparr>tinydb_open := Some d\<rparr>))))"

definition tinydb_deinitialize :: "('s, 'd) tinydb_files \<Rightarrow> ('s \<times> 'd tinydb_lifecycle, unit) operation" where
  "tinydb_deinitialize f =
     sfinally (with_part tinydb_open (\<lambda>d. outside (close_tinydb f d))) (set_object (\<lambda>l. l\<lparr>tinydb_open := None\<rparr>))"

definition get_raw_table :: "('d \<Rightarrow> string \<Rightarrow> 't) \<Rightarrow> 'd tinydb_lifecycle \<Rightarrow> string \<Rightarrow> 't res" where
  "get_raw_table table l name = (case tinydb_open l of None \<Rightarrow> Inl AttributeError | Some d \<Rightarrow> Inr (table d name))"

definition get_table_of :: "('d \<Rightarrow> 'y \<Rightarrow> 't res) \<Rightarrow> 'd tinydb_lifecycle \<Rightarrow> 'y \<Rightarrow> 't res" where
  "get_table_of typed_table l t = (case tinydb_open l of None \<Rightarrow> Inl AttributeError | Some d \<Rightarrow> typed_table d t)"

text \<open>After closing no table can be had, whatever closing raised; it cannot be closed twice.\<close>

lemma tinydb_deinitialized:
  "get_raw_table table (snd (fst (tinydb_deinitialize f s))) name = Inl AttributeError"
  "get_table_of typed_table (snd (fst (tinydb_deinitialize f s))) t = Inl AttributeError"
  "snd (tinydb_deinitialize f (fst (tinydb_deinitialize f s))) = Inl AttributeError"
  by (simp_all add: tinydb_deinitialize_def sfinally_state get_raw_table_def get_table_of_def set_object_def split: prod.splits)
    (simp add: sfinally_def with_part_def set_object_def split: prod.splits sum.splits)

section \<open>The workbench\<close>

datatype store_value = StoreText string | StoreInt int | StoreBool bool

record ('s, 'c) workbench_world =
  workbench_docker :: "('s, 'c) docker"
  workbench_exists :: "string \<Rightarrow> 's \<Rightarrow> bool"
  workbench_makedirs :: "string \<Rightarrow> ('s, unit) operation"
  write_json :: "string \<Rightarrow> (string \<times> store_value) list list \<Rightarrow> ('s, unit) operation"

text \<open>\<open>s.replace(old, new)\<close> for a text \<open>old\<close> that is not empty.\<close>

function py_replace :: "string \<Rightarrow> string \<Rightarrow> string \<Rightarrow> string" where
  "py_replace old new [] = []"
| "py_replace old new (c # cs) =
     (if old \<noteq> [] \<and> starts_with old (c # cs) then new @ py_replace old new (drop (length old) (c # cs))
      else c # py_replace old new cs)"
  by pat_completeness auto

termination
  by (relation "measure (\<lambda>(old, new, s). length s)") (auto simp: neq_Nil_conv)

record 'c dolt_ui =
  ui_container :: "'c docker_container option"
  connection_store :: string

definition fill_connection_store ::
  "('s, 'c) workbench_world \<Rightarrow> string \<Rightarrow> string \<Rightarrow> int \<Rightarrow> string \<Rightarrow> ('s, unit) operation" where
  "fill_connection_store w db_name mysql_connection_str port store =
     write_json w (store @ ''/store.json'')
       [[(''name'', StoreText db_name),
         (''connectionUrl'',
          StoreText (py_replace ''localhost'' ''host.docker.internal''
            (py_replace ''mysql+pymysql://'' ''mysql://'' mysql_connection_str))),
         (''port'', StoreInt port),
         (''hideDoltFeatures'', StoreBool False),
         (''useSSL'', StoreBool False),
         (''type'', StoreText ''mysql''),
         (''isLocalDolt'', StoreBool False),
         (''isDolt'', StoreBool True)]]"

lemma workbench_url:
  "py_replace ''localhost'' ''host.docker.internal'' (py_replace ''mysql+pymysql://'' ''mysql://'' ''mysql+pymysql://root@localhost:3306/db'') =
   ''mysql://root@host.docker.internal:3306/db''"
  by (simp add: starts_with_def)

definition ui_initialize ::
  "('s, 'c) workbench_world \<Rightarrow> string \<Rightarrow> string \<Rightarrow> int \<Rightarrow> ('s \<times> 'c dolt_ui, unit) operation" where
  "ui_initialize w db_name mysql_connection_str port = (\<lambda>(s, ui).
     sseq (outside (\<lambda>s. if \<not> workbench_exists w (connection_store ui) s then workbench_makedirs w (connection_store ui) s else (s, Inr ())))
       (sseq (outside (fill_connection_store w db_name mysql_connection_str port (connection_store ui)))
          (sbind (outside (proxy_run (workbench_docker w) ''dolthub/dolt-workbench:latest'' None None
             (Some [(''/app/graphql-server/store'',
               \<lparr>mount_definition = LocalVolume (connection_store ui), mount_mode = RW\<rparr>)])
             (Some [(9002, 9002), (3000, 3000)]) None))
             (\<lambda>(c, out). set_object (\<lambda>ui. ui\<lparr>ui_container := Some c\<rparr>)))) (s, ui))"

definition ui_deinitialize :: "('s, 'c) workbench_world \<Rightarrow> ('s \<times> 'c dolt_ui, unit) operation" where
  "ui_deinitialize w = with_part ui_container (\<lambda>c. outside (stop_container (workbench_docker w) c))"

section \<open>The directory of a test\<close>

text \<open>
  \<open>TestDataConfiguration\<close> of \<open>thinking_executor/data/persistence.py\<close>: the directory of a test case is cleaned the first
  time it is asked for. \<open>cleaned\<close> is the dictionary of the class, the directories marked with \<open>True\<close>; the other
  attribute is that of the object.
\<close>

record 's directories =
  absolute :: "string \<Rightarrow> string"
  path_exists :: "string \<Rightarrow> 's \<Rightarrow> bool"
  is_directory :: "string \<Rightarrow> 's \<Rightarrow> bool"
  remove_tree :: "string \<Rightarrow> ('s, unit) operation"
  create_directories :: "string \<Rightarrow> ('s, unit) operation"

record test_data_configuration =
  cleaned :: "string list"
  dir_path :: "string option"

definition case_directory :: "'s directories \<Rightarrow> string \<Rightarrow> string" where
  "case_directory f case_id =
     absolute f (''./test-data/'' @ py_replace '' '' ''_'' (py_replace '':'' ''-'' case_id))"

definition clean_directory :: "'s directories \<Rightarrow> string \<Rightarrow> ('s, unit) operation" where
  "clean_directory f out =
     sseq (\<lambda>s. if path_exists f out s
               then (if is_directory f out s then remove_tree f out s else (s, Inl AssertionError))
               else (s, Inr ()))
       (create_directories f out)"

definition test_data_initialize :: "'s directories \<Rightarrow> string \<Rightarrow> ('s \<times> test_data_configuration, unit) operation" where
  "test_data_initialize f case_id =
     (let out = case_directory f case_id
      in sseq (\<lambda>(s, c). if out \<notin> set (cleaned c)
                  then sseq (outside (clean_directory f out)) (set_object (\<lambda>c. c\<lparr>cleaned := out # cleaned c\<rparr>)) (s, c)
                  else ((s, c), Inr ()))
           (set_object (\<lambda>c. c\<lparr>dir_path := Some out\<rparr>)))"

definition project_data_dir :: "test_data_configuration \<Rightarrow> string res" where
  "project_data_dir c = (case dir_path c of None \<Rightarrow> Inl AttributeError | Some p \<Rightarrow> Inr p)"

text \<open>A second configuration for the same test keeps the files that the first one left to the test.\<close>

lemma test_data_cleaned_once:
  assumes "test_data_initialize f case_id (s, c) = ((s1, c1), Inr ())"
    and "cleaned c2 = cleaned c1"
  shows "\<exists>c3. test_data_initialize f case_id (s2, c2) = ((s2, c3), Inr ()) \<and>
    project_data_dir c3 = Inr (case_directory f case_id) \<and> cleaned c3 = cleaned c1"
proof -
  have "case_directory f case_id \<in> set (cleaned c1)"
    using assms(1) by (auto simp: test_data_initialize_def Let_def sseq_def sbind_def set_object_def split: if_splits prod.splits sum.splits)
  with assms(2) show ?thesis
    by (simp add: test_data_initialize_def Let_def sseq_def sbind_def set_object_def project_data_dir_def)
qed

text \<open>The first one finds the directory as \<open>create_directories\<close> makes it, after what was there is removed.\<close>

lemma test_data_first:
  assumes "case_directory f case_id \<notin> set (cleaned c)" and "path_exists f (case_directory f case_id) s"
  shows "fst (fst (test_data_initialize f case_id (s, c))) =
    (if is_directory f (case_directory f case_id) s
     then (case remove_tree f (case_directory f case_id) s of
        (s1, Inl e) \<Rightarrow> s1 | (s1, Inr _) \<Rightarrow> fst (create_directories f (case_directory f case_id) s1))
     else s)"
  using assms
  by (simp add: test_data_initialize_def Let_def sseq_def sbind_def set_object_def outside_def clean_directory_def
      split: prod.splits sum.splits)

end
