(* ===== verification/Type_Sets.thy ===== *)
theory Type_Sets
  imports Py_Types Py_Strings "HOL-Library.List_Lexorder"
begin

text \<open>
  Comparing types and collecting them from modules: \<open>thinking_injection/ordering.py\<close> and
  \<open>thinking_injection/typeset.py\<close>.

  The modules of a package, the types that importing one discovers, the module of a type and whether it is
  defined in a package are what \<open>thinking_modules\<close> reports, a parameter.
\<close>

section \<open>Comparators\<close>

record type_order =
  sooner :: ty
  later :: ty

definition left_before_right :: "ty \<Rightarrow> ty \<Rightarrow> type_order list \<Rightarrow> type_order list" where
  "left_before_right t1 t2 rules = set_add \<lparr>sooner = t1, later = t2\<rparr> rules"

definition right_before_left :: "ty \<Rightarrow> ty \<Rightarrow> type_order list \<Rightarrow> type_order list" where
  "right_before_left t1 t2 rules = left_before_right t2 t1 rules"

definition CyclicResolver_call :: "type_order list \<Rightarrow> ty \<Rightarrow> ty \<Rightarrow> int res" where
  "CyclicResolver_call rules t1 t2 =
     (if \<lparr>sooner = t1, later = t2\<rparr> \<in> set rules then Inr (-1)
      else if \<lparr>sooner = t2, later = t1\<rparr> \<in> set rules then Inr 1
      else Inl (TypeOrderingException t1 t2))"

definition requirement_comparator ::
  "(ty \<Rightarrow> ty \<Rightarrow> bool) \<Rightarrow> (ty \<Rightarrow> ty \<Rightarrow> int res) \<Rightarrow> (ty \<Rightarrow> nat list) \<Rightarrow> ty \<Rightarrow> ty \<Rightarrow> int res" where
  "requirement_comparator requires cyclic_resolver qualname t1 t2 =
     (if requires t1 t2
      then if \<not> requires t2 t1 then Inr 1 else cyclic_resolver t1 t2
      else if requires t2 t1 then Inr (-1)
      else Inr (if qualname t1 < qualname t2 then -1 else 1))"

text \<open>
  Types of different names compare the other way round when they are swapped, if no two rules contradict
  each other; with contradicting rules each comes before the other. A cycle without a rule is an error.
\<close>

lemma CyclicResolver_rules:
  "CyclicResolver_call (left_before_right a b rules) a b = Inr (-1)"
  "\<lparr>sooner = a, later = b\<rparr> \<notin> set rules \<Longrightarrow> a \<noteq> b \<Longrightarrow> CyclicResolver_call (right_before_left a b rules) a b = Inr 1"
  by (simp_all add: CyclicResolver_call_def left_before_right_def right_before_left_def)

lemma comparator_antisymmetric:
  assumes "\<And>a b. \<lparr>sooner = a, later = b\<rparr> \<in> set rules \<Longrightarrow> \<lparr>sooner = b, later = a\<rparr> \<notin> set rules"
    and "qualname t1 \<noteq> qualname t2"
    and "requirement_comparator requires (CyclicResolver_call rules) qualname t1 t2 = Inr c"
  shows "c \<in> {-1, 1} \<and> requirement_comparator requires (CyclicResolver_call rules) qualname t2 t1 = Inr (- c)"
  using assms(1) [of t1 t2] assms(1) [of t2 t1] assms(2,3)
  by (auto simp: requirement_comparator_def CyclicResolver_call_def split: if_splits)

lemma comparator_error:
  "requirement_comparator requires (CyclicResolver_call rules) qualname t1 t2 = Inl e \<longleftrightarrow>
     requires t1 t2 \<and> requires t2 t1 \<and> e = TypeOrderingException t1 t2 \<and>
     \<lparr>sooner = t1, later = t2\<rparr> \<notin> set rules \<and> \<lparr>sooner = t2, later = t1\<rparr> \<notin> set rules"
  by (auto simp: requirement_comparator_def CyclicResolver_call_def)

section \<open>Sets of types\<close>

text \<open>\<open>types(*t)\<close>: \<open>set\<close> takes one argument, which it iterates. Without types the result is a dictionary.\<close>

definition typeset_types :: "(ty \<Rightarrow> ty list option) \<Rightarrow> ty list \<Rightarrow> ty list res" where
  "typeset_types iterate t =
     (case t of
        [] \<Rightarrow> Inr []
      | [x] \<Rightarrow> (case iterate x of None \<Rightarrow> Inl TypeError | Some xs \<Rightarrow> Inr (set_update xs []))
      | _ \<Rightarrow> Inl TypeError)"

record modules =
  is_package :: "string \<Rightarrow> bool"
  scan_package :: "string \<Rightarrow> string list"
  import_types :: "string \<Rightarrow> ty list"
  module_of_type :: "ty \<Rightarrow> string"
  defined_in :: "string \<Rightarrow> ty \<Rightarrow> bool"

text \<open>Importing a module discovers types.\<close>

definition import_module :: "modules \<Rightarrow> string \<Rightarrow> world \<Rightarrow> world" where
  "import_module m name w = w\<lparr>DISCOVERED_TYPES := set_update (import_types m name) (DISCOVERED_TYPES w)\<rparr>"

definition from_package :: "modules \<Rightarrow> string \<Rightarrow> world \<Rightarrow> world \<times> ty list res" where
  "from_package m pkg w =
     (if \<not> is_package m pkg then (w, Inl (InvalidModuleStyleException pkg True False))
      else let w1 = fold (import_module m) (scan_package m pkg) w
           in (w1, Inr (filter (defined_in m pkg) (DISCOVERED_TYPES w1))))"

fun from_packages :: "modules \<Rightarrow> string list \<Rightarrow> ty list \<Rightarrow> world \<Rightarrow> world \<times> ty list res" where
  "from_packages m [] out w = (w, Inr out)"
| "from_packages m (p # ps) out w =
     (case from_package m p w of
        (w1, Inl e) \<Rightarrow> (w1, Inl e)
      | (w1, Inr ts) \<Rightarrow> from_packages m ps (set_update ts out) w1)"

definition from_module :: "modules \<Rightarrow> string \<Rightarrow> world \<Rightarrow> world \<times> ty list res" where
  "from_module m mod_name w =
     (if is_package m mod_name then (w, Inl (InvalidModuleStyleException mod_name False True))
      else let w1 = import_module m mod_name w
           in (w1, Inr (filter (\<lambda>t. module_of_type m t = mod_name) (DISCOVERED_TYPES w1))))"

definition freeze_types :: "ty list \<Rightarrow> ty list" where
  "freeze_types ts = ts"

lemma discovered_by_imports:
  "set (DISCOVERED_TYPES (fold (import_module m) ms w)) = set (DISCOVERED_TYPES w) \<union> (\<Union>x \<in> set ms. set (import_types m x))"
  by (induction ms arbitrary: w) (auto simp: import_module_def)

text \<open>The types of several packages: the discovered ones of each, whether they were discovered before or by the imports.\<close>

lemma from_package_types:
  assumes "from_package m pkg w = (w', Inr ts)"
  shows "set ts = {t \<in> set (DISCOVERED_TYPES w) \<union> (\<Union>x \<in> set (scan_package m pkg). set (import_types m x)). defined_in m pkg t}"
  using assms by (auto simp: from_package_def Let_def discovered_by_imports split: if_splits)

lemma from_packages_types:
  "from_packages m ps out w = (w', Inr ts) \<Longrightarrow>
   set out \<subseteq> set ts \<and> (\<forall>p \<in> set ps. is_package m p) \<and>
   (\<forall>t \<in> set ts - set out. \<exists>p \<in> set ps. defined_in m p t) \<and>
   (\<forall>p \<in> set ps. \<forall>t \<in> set (DISCOVERED_TYPES w) \<union> (\<Union>x \<in> set (scan_package m p). set (import_types m x)).
      defined_in m p t \<longrightarrow> t \<in> set ts)"
proof (induction ps arbitrary: out w)
  case (Cons p ps)
  then obtain w1 us where p: "from_package m p w = (w1, Inr us)" and rest: "from_packages m ps (set_update us out) w1 = (w', Inr ts)"
    by (auto split: prod.splits sum.splits)
  from p have w1: "set (DISCOVERED_TYPES w) \<subseteq> set (DISCOVERED_TYPES w1)" and "is_package m p"
    by (auto simp: from_package_def Let_def discovered_by_imports split: if_splits)
  with from_package_types [OF p] Cons.IH [OF rest] show ?case by (auto 0 3)
qed simp

end
