(* ===== verification/Type_Graph.thy ===== *)
theory Type_Graph
  imports Contexts Py_Strings
begin

text \<open>
  The pictures of an index: \<open>graph\<close> of \<open>SimpleTypeIndex\<close> (\<open>thinking_injection/registry/simple.py\<close>) and of
  \<open>TypeIndexUnion\<close> (\<open>registry/delegating.py\<close>). They are attached to the exception for cyclic dependencies and
  logged when a configurable context fails, so that drawing them must not fail itself.

  A drawing of pydot is the list of the nodes, edges and clusters that were added to it. Types are drawn by
  their names.
\<close>

section \<open>Drawing an index\<close>

datatype graph_edge = IMPLEMENTS | DEPENDS_ON | REQUIRES

fun edge_value :: "graph_edge \<Rightarrow> string" where
  "edge_value IMPLEMENTS = ''implements''"
| "edge_value DEPENDS_ON = ''depends on''"
| "edge_value REQUIRES = ''requires''"

record dot_node =
  node_name :: string
  node_shape :: string
  node_color :: "string option"

record dot_edge =
  edge_source :: string
  edge_target :: string
  edge_label :: string
  edge_style :: "string option"
  edge_arrowhead :: string
  edge_headlabel :: "string option"
  edge_color :: "string option"

record dot =
  dot_name :: string
  dot_nodes :: "dot_node list"
  dot_edges :: "dot_edge list"

type_synonym colors = "(ty, string) dict"

text \<open>
  \<open>edges or set(GraphEdge)\<close>: no edges to draw means all of them. \<open>_coloring(k, d)\<close> is asked for a dependency, not for
  its type, and a dependency has no color.
\<close>

definition edges_or_all :: "graph_edge list option \<Rightarrow> graph_edge list" where
  "edges_or_all edges =
     (case edges of None \<Rightarrow> [IMPLEMENTS, DEPENDS_ON, REQUIRES]
      | Some es \<Rightarrow> if es = [] then [IMPLEMENTS, DEPENDS_ON, REQUIRES] else es)"

definition coloring :: "colors \<Rightarrow> ty \<Rightarrow> ty \<Rightarrow> string option" where
  "coloring colors x y =
     (case (map_of colors x, map_of colors y) of (Some c, Some d) \<Rightarrow> Some (c @ '':'' @ d) | _ \<Rightarrow> None)"

definition type_node :: "world \<Rightarrow> colors \<Rightarrow> ty \<Rightarrow> dot_node" where
  "type_node w colors k =
     \<lparr>node_name = ci_name (info w k), node_shape = (if is_concrete w k then ''box'' else ''diamond''),
      node_color = map_of colors k\<rparr>"

definition implements_edge :: "world \<Rightarrow> colors \<Rightarrow> ty option \<Rightarrow> ty \<Rightarrow> ty \<Rightarrow> dot_edge" where
  "implements_edge w colors primary k i =
     \<lparr>edge_source = ci_name (info w i), edge_target = ci_name (info w k), edge_label = edge_value IMPLEMENTS,
      edge_style = Some (if Some i = primary then ''bold'' else ''solid''), edge_arrowhead = ''empty'',
      edge_headlabel = None, edge_color = coloring colors i k\<rparr>"

definition depends_on_edge :: "world \<Rightarrow> ty \<Rightarrow> dependency \<Rightarrow> dot_edge" where
  "depends_on_edge w k d =
     \<lparr>edge_source = ci_name (info w k), edge_target = ci_name (info w (dep_type d)), edge_label = edge_value DEPENDS_ON,
      edge_style = None, edge_arrowhead = ''open'',
      edge_headlabel = Some (case dep_kind d of OPTIONAL \<Rightarrow> ''?'' | COLLECTIVE \<Rightarrow> ''*'' | SIMPLE \<Rightarrow> []), edge_color = None\<rparr>"

definition requires_edge :: "world \<Rightarrow> colors \<Rightarrow> ty \<Rightarrow> ty \<Rightarrow> dot_edge" where
  "requires_edge w colors k r =
     \<lparr>edge_source = ci_name (info w k), edge_target = ci_name (info w r), edge_label = edge_value REQUIRES,
      edge_style = Some ''dashed'', edge_arrowhead = ''open'', edge_headlabel = None, edge_color = coloring colors k r\<rparr>"

definition type_edges :: "world \<Rightarrow> type_index \<Rightarrow> graph_edge list \<Rightarrow> colors \<Rightarrow> ty \<Rightarrow> dot_edge list res" where
  "type_edges w data edges colors k =
     (let implementing =
            (if IMPLEMENTS \<in> set edges
             then map (implements_edge w colors (primary_implementation data k) k) (idx_implementations data k) else []);
          depending = (if DEPENDS_ON \<in> set edges then map (depends_on_edge w k) (idx_dependencies data k) else [])
      in if REQUIRES \<in> set edges
         then rbind (prerequisites w data k) (\<lambda>rs. Inr (implementing @ depending @ map (requires_edge w colors k) rs))
         else Inr (implementing @ depending))"

definition index_graph :: "world \<Rightarrow> type_index \<Rightarrow> string \<Rightarrow> graph_edge list option \<Rightarrow> colors option \<Rightarrow> dot res" where
  "index_graph w data name edges colors =
     (let cs = (case colors of None \<Rightarrow> [] | Some cs \<Rightarrow> cs)
      in rbind (traverse (type_edges w data (edges_or_all edges) cs) (idx_known_types data)) (\<lambda>ess.
           Inr \<lparr>dot_name = name, dot_nodes = map (type_node w cs) (idx_known_types data), dot_edges = concat ess\<rparr>))"

text \<open>The picture that \<open>order\<close> attaches to the exception for cyclic dependencies.\<close>

definition cycles_picture :: "world \<Rightarrow> type_index \<Rightarrow> ty list list \<Rightarrow> dot res" where
  "cycles_picture w data cycles =
     index_graph w data ''index'' (Some [REQUIRES]) (Some (map (\<lambda>k. (k, ''red'')) (set_update (concat cycles) [])))"

text \<open>In the picture of a union every index is a cluster, named by its position when it has no name.\<close>

fun clusters :: "world \<Rightarrow> string list \<Rightarrow> nat \<Rightarrow> type_index list \<Rightarrow> graph_edge list option \<Rightarrow> colors option \<Rightarrow> dot list res" where
  "clusters w names i [] edges colors = Inr []"
| "clusters w names i (sub # subs) edges colors =
     rbind (index_graph w sub (if i < length names then names ! i else ''subindex'' @ str_of_int (int i)) edges colors)
       (\<lambda>g. rbind (clusters w names (Suc i) subs edges colors) (\<lambda>gs. Inr (g # gs)))"

definition union_graph ::
  "world \<Rightarrow> string list \<Rightarrow> type_index list \<Rightarrow> string \<Rightarrow> graph_edge list option \<Rightarrow> colors option \<Rightarrow> (string \<times> dot list) res" where
  "union_graph w names indexes name edges colors =
     rbind (clusters w names 0 indexes edges colors) (\<lambda>gs. Inr (name, gs))"


section \<open>Pictures can always be drawn\<close>

text \<open>Only the prerequisites of a type can raise, and they are asked for only to draw \<open>REQUIRES\<close>.\<close>

lemma type_edges_Inr:
  "type_edges w data edges colors k = Inr es \<longleftrightarrow>
   (\<exists>rs. (if REQUIRES \<in> set edges then prerequisites w data k = Inr rs else rs = []) \<and>
     es = (if IMPLEMENTS \<in> set edges
           then map (implements_edge w colors (primary_implementation data k) k) (idx_implementations data k) else []) @
       (if DEPENDS_ON \<in> set edges then map (depends_on_edge w k) (idx_dependencies data k) else []) @
       map (requires_edge w colors k) rs)"
  by (auto simp: type_edges_def Let_def res_simps)

lemma index_graph_total:
  assumes "REQUIRES \<in> set (edges_or_all edges) \<Longrightarrow> \<forall>k \<in> keys data. \<exists>rs. prerequisites w data k = Inr rs"
  shows "\<exists>g. index_graph w data name edges colors = Inr g"
proof -
  let ?cs = "case colors of None \<Rightarrow> [] | Some cs \<Rightarrow> cs"
  have "\<exists>es. type_edges w data (edges_or_all edges) ?cs k = Inr es" if "k \<in> keys data" for k
    using assms that by (cases "REQUIRES \<in> set (edges_or_all edges)") (blast | simp add: type_edges_Inr)+
  then have "\<exists>es. type_edges w data (edges_or_all edges) ?cs k = Inr es" if "k \<in> set (idx_known_types data)" for k
    using that by (simp add: idx_known_types_def keys_def)
  then have "\<exists>ess. traverse (type_edges w data (edges_or_all edges) ?cs) (idx_known_types data) = Inr ess"
    by (rule traverse_total)
  then show ?thesis by (auto simp: index_graph_def Let_def)
qed

text \<open>
  When the order fails on a cycle, the prerequisites have been found for every type, so that the picture of
  the exception can be drawn. The pictures that a configurable context logs, of implementations and
  dependencies, can be drawn of every index.
\<close>

lemma validation_not_cyclic: "validate_injected_types k t ts \<noteq> Inl (CyclicDependencyGraphException cs)"
  by (cases k) (auto simp: Group_run.simps Group_exit_def discard_def DependencyArityMismatch_guard_def
      NonePrimaryImplementation_guard_def split: list.splits if_splits sum.splits)

lemma gather_requirements_not_cyclic: "gather_requirements data ds req \<noteq> Inl (CyclicDependencyGraphException cs)"
  by (induction data ds req rule: gather_requirements.induct) (auto simp: Let_def res_simps validation_not_cyclic)

lemma requirement_graph_not_cyclic: "requirement_graph w data \<noteq> Inl (CyclicDependencyGraphException cs)"
proof -
  have guard: "ConcreteTypeExpected_guard w r \<noteq> Inl (CyclicDependencyGraphException cs)" for r
    by (simp add: ConcreteTypeExpected_guard_def split: option.splits)
  have prereq: "prerequisites w data t \<noteq> Inl (CyclicDependencyGraphException cs)" for t
    by (auto simp: prerequisites_def res_simps gather_requirements_not_cyclic guard elim!: traverse_InlE)
  have idx: "type_to_idx types t \<noteq> Inl (CyclicDependencyGraphException cs)" for types t
    by (simp add: type_to_idx_def split: option.splits)
  have "edges_to w data t \<noteq> Inl (CyclicDependencyGraphException cs)" for t
    using prereq idx by (auto simp: edges_to_def res_simps elim!: traverse_InlE)
  then show ?thesis by (auto simp: requirement_graph_def res_simps elim!: traverse_InlE)
qed

lemma cycles_picture_drawn:
  assumes "dict_ok data" and "order nx w data = (ts, Some (CyclicDependencyGraphException cycles))"
  shows "\<exists>g. cycles_picture w data cycles = Inr g"
proof -
  have "\<exists>edges. requirement_graph w data = Inr edges"
  proof (rule ccontr)
    assume "\<nexists>edges. requirement_graph w data = Inr edges"
    then obtain e where e: "requirement_graph w data = Inl e" by (cases "requirement_graph w data") auto
    with assms(2) have "e = CyclicDependencyGraphException cycles" by (simp add: order_def)
    with e show False by (simp add: requirement_graph_not_cyclic)
  qed
  then have known: "\<exists>rs. prerequisites w data k = Inr rs" if "k \<in> keys data" "is_concrete w k" for k
    using that assms(1) by (blast elim: prerequisites_known_edges)
  have "\<exists>rs. prerequisites w data k = Inr rs" if "k \<in> keys data" for k
    using known that by (cases "is_concrete w k") (auto simp: prerequisites_def)
  then show ?thesis by (simp add: cycles_picture_def index_graph_total)
qed

lemma logged_picture_drawn: "\<exists>g. index_graph w data name (Some [DEPENDS_ON, IMPLEMENTS]) colors = Inr g"
  by (rule index_graph_total) (simp add: edges_or_all_def)

text \<open>What a picture shows: a node for every known type, and the edges of the asked kinds.\<close>

definition shown_edge :: "world \<Rightarrow> type_index \<Rightarrow> graph_edge list \<Rightarrow> colors \<Rightarrow> ty \<Rightarrow> dot_edge \<Rightarrow> bool" where
  "shown_edge w data edges colors k e \<longleftrightarrow>
     IMPLEMENTS \<in> set edges \<and> (\<exists>i \<in> set (idx_implementations data k).
       e = implements_edge w colors (primary_implementation data k) k i) \<or>
     DEPENDS_ON \<in> set edges \<and> (\<exists>d \<in> set (idx_dependencies data k). e = depends_on_edge w k d) \<or>
     REQUIRES \<in> set edges \<and> (\<exists>rs. prerequisites w data k = Inr rs \<and> (\<exists>r \<in> set rs. e = requires_edge w colors k r))"

lemma type_edges_shown:
  "type_edges w data edges colors k = Inr es \<Longrightarrow> e \<in> set es \<longleftrightarrow> shown_edge w data edges colors k e"
  by (auto simp: type_edges_Inr shown_edge_def split: if_splits)

lemma index_graph_shows:
  assumes "index_graph w data name (Some edges) (Some colors) = Inr g" and "edges \<noteq> []"
  shows "map node_name (dot_nodes g) = map (\<lambda>k. ci_name (info w k)) (idx_known_types data)"
    and "e \<in> set (dot_edges g) \<longleftrightarrow> (\<exists>k \<in> keys data. shown_edge w data edges colors k e)"
proof -
  from assms obtain ess where ess: "traverse (type_edges w data edges colors) (idx_known_types data) = Inr ess"
    and g: "g = \<lparr>dot_name = name, dot_nodes = map (type_node w colors) (idx_known_types data), dot_edges = concat ess\<rparr>"
    by (auto simp: index_graph_def edges_or_all_def rbind_Inr_iff)
  show "map node_name (dot_nodes g) = map (\<lambda>k. ci_name (info w k)) (idx_known_types data)"
    by (simp add: g type_node_def)
  from ess have "list_all2 (\<lambda>k es. type_edges w data edges colors k = Inr es) (idx_known_types data) ess"
    by (simp add: traverse_Inr_iff)
  then have "e \<in> set (concat ess) \<longleftrightarrow> (\<exists>k \<in> set (idx_known_types data). shown_edge w data edges colors k e)"
    by (induction rule: list_all2_induct) (auto simp: type_edges_shown)
  then show "e \<in> set (dot_edges g) \<longleftrightarrow> (\<exists>k \<in> keys data. shown_edge w data edges colors k e)"
    by (simp add: g idx_known_types_def keys_def)
qed

end
