(* ===== verification/Calculator.thy ===== *)
theory Calculator
  imports Py_Strings
begin

text \<open>
  The calculator, an application of the framework: \<open>calculator/calc\<close>.

  Numbers are a parameter: \<open>'n\<close> with the arithmetic of the four operators, and \<open>float(s)\<close>. The operators
  are the list that the context injects; each has its text.
\<close>

section \<open>Operators\<close>

record 'n arithmetic =
  plus_of :: "'n \<Rightarrow> 'n \<Rightarrow> 'n"
  times_of :: "'n \<Rightarrow> 'n \<Rightarrow> 'n"
  divided_by :: "'n \<Rightarrow> 'n \<Rightarrow> 'n"
  is_zero :: "'n \<Rightarrow> bool"
  minus_one :: 'n
  float_of :: "string \<Rightarrow> 'n option"

record 'n binary_operator =
  operator_text :: string
  operator_on :: "'n \<Rightarrow> 'n \<Rightarrow> 'n res"

definition Adding :: "'n arithmetic \<Rightarrow> 'n binary_operator" where
  "Adding a = \<lparr>operator_text = ''+'', operator_on = (\<lambda>x y. Inr (plus_of a x y))\<rparr>"

definition Multiplying :: "'n arithmetic \<Rightarrow> 'n binary_operator" where
  "Multiplying a = \<lparr>operator_text = ''x'', operator_on = (\<lambda>x y. Inr (times_of a x y))\<rparr>"

text \<open>The adding and the multiplying operator are injected.\<close>

definition Subtracting :: "'n arithmetic \<Rightarrow> 'n binary_operator \<Rightarrow> 'n binary_operator \<Rightarrow> 'n binary_operator" where
  "Subtracting a adding multiplying =
     \<lparr>operator_text = ''-'',
      operator_on = (\<lambda>x y. rbind (operator_on multiplying y (minus_one a)) (operator_on adding x))\<rparr>"

definition Dividing :: "'n arithmetic \<Rightarrow> 'n binary_operator" where
  "Dividing a =
     \<lparr>operator_text = ''/'', operator_on = (\<lambda>x y. if is_zero a y then Inl ZeroDivisionError else Inr (divided_by a x y))\<rparr>"

definition calculator_operators :: "'n arithmetic \<Rightarrow> 'n binary_operator list" where
  "calculator_operators a = [Adding a, Multiplying a, Subtracting a (Adding a) (Multiplying a), Dividing a]"

section \<open>Expressions\<close>

datatype 'n expression =
    ValueNode 'n
  | OperatorNode "'n binary_operator" "'n expression" "'n expression"

fun evaluate :: "'n expression \<Rightarrow> 'n res" where
  "evaluate (ValueNode v) = Inr v"
| "evaluate (OperatorNode executor l r) =
     rbind (evaluate l) (\<lambda>x. rbind (evaluate r) (\<lambda>y. operator_on executor x y))"

fun str_of_expression :: "('n \<Rightarrow> string) \<Rightarrow> 'n expression \<Rightarrow> string" where
  "str_of_expression show_number (ValueNode v) = ''Value('' @ show_number v @ '')''"
| "str_of_expression show_number (OperatorNode executor l r) =
     ''('' @ str_of_expression show_number l @ '' '' @ operator_text executor @ '' '' @ str_of_expression show_number r @ '')''"

section \<open>Parsing\<close>

text \<open>The stack is kept with its top at the head. The operands of an operator are its two last elements.\<close>

definition parse_symbol ::
  "'n arithmetic \<Rightarrow> 'n binary_operator list \<Rightarrow> string \<Rightarrow> 'n expression list \<Rightarrow> 'n expression list res" where
  "parse_symbol a operators s stack =
     (case List.find (\<lambda>ob. operator_text ob = s) operators of
        Some ob \<Rightarrow> (case stack of r # l # rest \<Rightarrow> Inr (OperatorNode ob l r # rest) | _ \<Rightarrow> Inl IndexError)
      | None \<Rightarrow> (case float_of a s of Some v \<Rightarrow> Inr (ValueNode v # stack) | None \<Rightarrow> Inl ValueError))"

fun parse_symbols ::
  "'n arithmetic \<Rightarrow> 'n binary_operator list \<Rightarrow> string list \<Rightarrow> 'n expression list \<Rightarrow> 'n expression list res" where
  "parse_symbols a operators [] stack = Inr stack"
| "parse_symbols a operators (s # ss) stack = rbind (parse_symbol a operators s stack) (parse_symbols a operators ss)"

definition parse_expression :: "'n arithmetic \<Rightarrow> 'n binary_operator list \<Rightarrow> string list \<Rightarrow> 'n expression res" where
  "parse_expression a operators symbols =
     rbind (parse_symbols a operators symbols []) (\<lambda>stack. case stack of [e] \<Rightarrow> Inr e | _ \<Rightarrow> Inl AssertionError)"

section \<open>A reference evaluator\<close>

text \<open>A stack machine that computes with the numbers at once and builds no expression.\<close>

fun machine :: "'n arithmetic \<Rightarrow> 'n binary_operator list \<Rightarrow> string list \<Rightarrow> 'n list \<Rightarrow> 'n list res" where
  "machine a operators [] stack = Inr stack"
| "machine a operators (s # ss) stack =
     (case List.find (\<lambda>ob. operator_text ob = s) operators of
        Some ob \<Rightarrow>
          (case stack of
             y # x # rest \<Rightarrow> rbind (operator_on ob x y) (\<lambda>z. machine a operators ss (z # rest))
           | _ \<Rightarrow> Inl IndexError)
      | None \<Rightarrow> (case float_of a s of Some v \<Rightarrow> machine a operators ss (v # stack) | None \<Rightarrow> Inl ValueError))"

text \<open>Evaluation of a stack of expressions, the oldest first.\<close>

fun evaluate_stack :: "'n expression list \<Rightarrow> 'n list res" where
  "evaluate_stack [] = Inr []"
| "evaluate_stack (e # es) = rbind (evaluate_stack es) (\<lambda>vs. rbind (evaluate e) (\<lambda>v. Inr (v # vs)))"

lemma machine_parse:
  assumes "parse_symbols a operators ss stack = Inr final"
  shows "evaluate_stack final = rbind (evaluate_stack stack) (machine a operators ss)"
  using assms
proof (induction ss arbitrary: stack)
  case Nil
  then show ?case by (cases "evaluate_stack stack") auto
next
  case (Cons s ss)
  then obtain stack' where p: "parse_symbol a operators s stack = Inr stack'"
    and rest: "parse_symbols a operators ss stack' = Inr final" by (auto simp: res_simps)
  have "rbind (evaluate_stack stack') (machine a operators ss) = rbind (evaluate_stack stack) (machine a operators (s # ss))"
  proof (cases "List.find (\<lambda>ob. operator_text ob = s) operators")
    case None
    with p show ?thesis
      by (cases "evaluate_stack stack") (auto simp: parse_symbol_def split: option.splits)
  next
    case (Some ob)
    with p obtain r l rest' where "stack = r # l # rest'" "stack' = OperatorNode ob l r # rest'"
      by (auto simp: parse_symbol_def split: list.splits)
    with Some show ?thesis
      by (cases "evaluate_stack rest'"; cases "evaluate l"; cases "evaluate r") (auto simp: rbind_assoc)
  qed
  with Cons.IH [OF rest] show ?case by (simp only:)
qed

text \<open>The symbols of an expression, given how numbers are written.\<close>

fun rpn :: "('n \<Rightarrow> string) \<Rightarrow> 'n expression \<Rightarrow> string list" where
  "rpn show_number (ValueNode v) = [show_number v]"
| "rpn show_number (OperatorNode ob l r) = rpn show_number l @ rpn show_number r @ [operator_text ob]"

fun operators_of :: "'n expression \<Rightarrow> 'n binary_operator set" where
  "operators_of (ValueNode v) = {}"
| "operators_of (OperatorNode ob l r) = insert ob (operators_of l \<union> operators_of r)"

lemma parse_symbols_append:
  "parse_symbols a operators (xs @ ys) stack = rbind (parse_symbols a operators xs stack) (parse_symbols a operators ys)"
proof (induction xs arbitrary: stack)
  case (Cons x xs)
  then show ?case by (cases "parse_symbol a operators x stack") simp_all
qed simp

lemma find_operator:
  "distinct (map operator_text operators) \<Longrightarrow> ob \<in> set operators \<Longrightarrow>
   List.find (\<lambda>x. operator_text x = operator_text ob) operators = Some ob"
  by (induction operators) (auto simp: image_iff)

lemma parse_rpn:
  assumes "distinct (map operator_text operators)" and "operators_of e \<subseteq> set operators"
    and "\<forall>v. float_of a (show_number v) = Some v \<and> show_number v \<notin> operator_text ` set operators"
  shows "parse_symbols a operators (rpn show_number e) stack = Inr (e # stack)"
  using assms(2)
proof (induction e arbitrary: stack)
  case (ValueNode v)
  have "List.find (\<lambda>ob. operator_text ob = show_number v) operators = None"
    unfolding find_None_iff using assms(3) by (metis image_eqI)
  then show ?case using assms(3) by (simp add: parse_symbol_def)
next
  case (OperatorNode ob l r)
  then show ?case
    using find_operator [OF assms(1), of ob] by (simp add: parse_symbols_append parse_symbol_def)
qed

text \<open>C40: The calculator computes what a stack machine computes. When the symbols are a well-formed expression, evaluating
  the expression that they are parsed to gives the number, or raises the exception, that the machine gives or raises
  which computes at once; and the parser reads back every expression over operators of different texts from its
  symbols in reverse Polish notation.\<close>

theorem calculator_correct:
  assumes "distinct (map operator_text operators)"
    and "\<forall>v. float_of a (show_number v) = Some v \<and> show_number v \<notin> operator_text ` set operators"
  shows "(\<forall>symbols e. parse_expression a operators symbols = Inr e \<longrightarrow>
      machine a operators symbols [] = rbind (evaluate e) (\<lambda>v. Inr [v])) \<and>
    (\<forall>e. operators_of e \<subseteq> set operators \<longrightarrow> parse_expression a operators (rpn show_number e) = Inr e)"
proof (intro conjI allI impI)
  fix symbols e assume "parse_expression a operators symbols = Inr e"
  then obtain stack where "parse_symbols a operators symbols [] = Inr stack" "(case stack of [e] \<Rightarrow> Inr e | _ \<Rightarrow> Inl AssertionError) = Inr e"
    by (auto simp: parse_expression_def res_simps)
  then have "parse_symbols a operators symbols [] = Inr [e]" by (auto split: list.splits)
  from machine_parse [OF this] show "machine a operators symbols [] = rbind (evaluate e) (\<lambda>v. Inr [v])" by simp
next
  fix e assume "operators_of e \<subseteq> set operators"
  from parse_rpn [OF assms(1) this assms(2), of "[]"]
  show "parse_expression a operators (rpn show_number e) = Inr e" by (simp add: parse_expression_def)
qed

text \<open>The four operators over unary numbers: the number \<open>n\<close> is written with \<open>n + 1\<close> dots.\<close>

definition ex_arithmetic :: "nat arithmetic" where
  "ex_arithmetic =
     \<lparr>plus_of = (+), times_of = (*), divided_by = (div), is_zero = (\<lambda>n. n = 0), minus_one = 0,
      float_of = (\<lambda>s. if s \<noteq> [] \<and> list_all (\<lambda>c. c = CHR ''.'') s then Some (length s - 1) else None)\<rparr>"

theorem calculator_correct_witness:
  "parse_expression ex_arithmetic (calculator_operators ex_arithmetic) [''..'', ''...'', ''+'', ''..'', ''x''] =
     Inr (OperatorNode (Multiplying ex_arithmetic)
       (OperatorNode (Adding ex_arithmetic) (ValueNode 1) (ValueNode 2)) (ValueNode 1))"
proof -
  let ?show = "\<lambda>n. replicate (Suc n) (CHR ''.'')"
  let ?e = "OperatorNode (Multiplying ex_arithmetic)
    (OperatorNode (Adding ex_arithmetic) (ValueNode 1) (ValueNode 2)) (ValueNode 1)"
  have "distinct (map operator_text (calculator_operators ex_arithmetic))"
    by (simp add: calculator_operators_def Adding_def Multiplying_def Subtracting_def Dividing_def)
  moreover have "\<forall>v. float_of ex_arithmetic (?show v) = Some v \<and>
      ?show v \<notin> operator_text ` set (calculator_operators ex_arithmetic)"
    by (auto simp: ex_arithmetic_def list_all_iff calculator_operators_def Adding_def Multiplying_def Subtracting_def Dividing_def)
  moreover have "operators_of ?e \<subseteq> set (calculator_operators ex_arithmetic)" by (auto simp: calculator_operators_def)
  moreover have "rpn ?show ?e = [''..'', ''...'', ''+'', ''..'', ''x'']"
    by (simp add: Adding_def Multiplying_def numeral_eq_Suc)
  ultimately show ?thesis
    using calculator_correct [of "calculator_operators ex_arithmetic" ex_arithmetic ?show] by metis
qed

section \<open>The application\<close>

text \<open>\<open>calculator/app.py\<close> prints the expression of its arguments, or of an example, with its value.\<close>

definition example_symbols :: "string list" where
  "example_symbols = [''1'', ''2'', ''+'', ''4'', ''x'', ''5'', ''-'']"

definition calculator_app ::
  "'n arithmetic \<Rightarrow> ('n \<Rightarrow> string) \<Rightarrow> 'n binary_operator list \<Rightarrow> string list \<Rightarrow> string res" where
  "calculator_app a show_number operators argv =
     rbind (parse_expression a operators (if argv \<noteq> [] then argv else example_symbols))
       (\<lambda>expr. rbind (evaluate expr) (\<lambda>v. Inr (py_join '' '' [str_of_expression show_number expr, ''='', show_number v])))"

text \<open>What it prints without arguments, with whole numbers.\<close>

definition ex_whole_numbers :: "int arithmetic" where
  "ex_whole_numbers =
     \<lparr>plus_of = (+), times_of = (*), divided_by = (div), is_zero = (\<lambda>n. n = 0), minus_one = - 1,
      float_of = (\<lambda>s. case py_int s of Inr i \<Rightarrow> Some i | Inl _ \<Rightarrow> None)\<rparr>"

lemma calculator_example:
  "calculator_app ex_whole_numbers str_of_int (calculator_operators ex_whole_numbers) [] =
     Inr ''(((Value(1) + Value(2)) x Value(4)) - Value(5)) = 7''"
  by code_simp

end
