(* ===== verification/Task_Programs.thy ===== *)
theory Task_Programs
  imports Resumption State_Result
begin

text \<open>
  Programs of tasks that work on data: the bodies of their steps change tables that lie in the same database as
  the log of \<open>thinking_executor/executor.py\<close>. The theory gives rules to reason about such programs, one for a step,
  a stage, a sequence and a loop, whatever faults their steps have and whatever is already on record.

  \<open>data_of\<close> reads the tables of the application from the database, and \<open>put_data\<close> writes them; that the tables
  of one database do not disturb each other is \<open>separate_tables\<close>.
\<close>

section \<open>Steps with data and faults\<close>

record ('db, 'd) data_tables =
  data_of :: "'db \<Rightarrow> 'd"
  put_data :: "'d \<Rightarrow> 'db \<Rightarrow> 'db"

definition separate_tables :: "'db environment \<Rightarrow> ('db, 'd) data_tables \<Rightarrow> bool" where
  "separate_tables env tab \<longleftrightarrow>
     (\<forall>d t. data_of tab (put_data tab d t) = d) \<and>
     (\<forall>d t. tdb_all (database env) (put_data tab d t) = tdb_all (database env) t) \<and>
     (\<forall>r t. data_of tab (tdb_insert (database env) r t) = data_of tab t)"

text \<open>The step that runs may raise before it has done its work, or after.\<close>

datatype fault = Before exn | After exn

fun fault_exn :: "fault \<Rightarrow> exn" where
  "fault_exn (Before e) = e"
| "fault_exn (After e) = e"

definition running_task :: "'db executor \<Rightarrow> coordinates" where
  "running_task s =
     \<lparr>path = current_path (stack s ! 0), order_of = next_subtask_order (stack s ! 1), type_of = the (frame_type (stack s ! 0))\<rparr>"

definition do_work :: "('db, 'd) data_tables \<Rightarrow> ('d, unit) operation \<Rightarrow> 'db doing" where
  "do_work tab m s =
     (case m (data_of tab (table s)) of (d, r) \<Rightarrow>
        (s\<lparr>table := put_data tab d (table s)\<rparr>, case r of Inl e \<Rightarrow> Some e | Inr _ \<Rightarrow> None))"

definition work :: "('db, 'd) data_tables \<Rightarrow> (coordinates \<Rightarrow> fault option) \<Rightarrow> ('d, unit) operation \<Rightarrow> 'db doing" where
  "work tab F m s =
     (case F (running_task s) of
        Some (Before e) \<Rightarrow> (s, Some e)
      | None \<Rightarrow> do_work tab m s
      | Some (After e) \<Rightarrow> (case do_work tab m s of (s', r) \<Rightarrow> (s', case r of None \<Rightarrow> Some e | Some x \<Rightarrow> Some x)))"

definition run_step :: "'db environment \<Rightarrow> string \<Rightarrow> 'db doing \<Rightarrow> 'db doing" where
  "run_step env name body = execute env (StrKey name) STEP body None"

definition run_stage :: "'db environment \<Rightarrow> task_key \<Rightarrow> 'db doing \<Rightarrow> 'db doing" where
  "run_stage env key body = execute env key STAGE body None"

definition and_then :: "'db doing \<Rightarrow> 'db doing \<Rightarrow> 'db doing" where
  "and_then m1 m2 s = (case m1 s of (s1, Some e) \<Rightarrow> (s1, Some e) | (s1, None) \<Rightarrow> m2 s1)"

fun for_each :: "('a \<Rightarrow> 'db doing) \<Rightarrow> 'a list \<Rightarrow> 'db doing" where
  "for_each f [] s = (s, None)"
| "for_each f (x # xs) s = and_then (f x) (for_each f xs) s"

section \<open>What a program performs\<close>

text \<open>
  An application has an invariant of its data, and says for every step what the data is like once the step
  is on record. Both are kept at all times.
\<close>

record ('db, 'd) application_data =
  app_env :: "'db environment"
  app_tables :: "('db, 'd) data_tables"
  app_faults :: "coordinates \<Rightarrow> fault option"
  app_invariant :: "'d \<Rightarrow> bool"
  app_left_by :: "coordinates \<Rightarrow> 'd \<Rightarrow> bool"

definition raised_by :: "('db, 'd) application_data \<Rightarrow> coordinates \<Rightarrow> exn option" where
  "raised_by A c = map_option fault_exn (app_faults A c)"

definition application_ok :: "('db, 'd) application_data \<Rightarrow> bool" where
  "application_ok A \<longleftrightarrow> dependable (app_env A) \<and> separate_tables (app_env A) (app_tables A) \<and>
     (\<forall>c e. raised_by A c = Some e \<longrightarrow> passes e)"

definition kept :: "('db, 'd) application_data \<Rightarrow> 'db \<Rightarrow> bool" where
  "kept A t \<longleftrightarrow> app_invariant A (data_of (app_tables A) t) \<and>
     (\<forall>c. plain_coordinates c \<longrightarrow> type_of c = STEP \<longrightarrow> recorded c (tdb_all (database (app_env A)) t) \<longrightarrow>
        app_left_by A c (data_of (app_tables A) t))"

text \<open>
  \<open>performs A root p os i P m j Q steps\<close>: in a frame with the path \<open>p\<close> whose next subtask is \<open>os @ [i]\<close>, when the data satisfies
  \<open>P\<close>, the program \<open>m\<close> performs the steps: it returns with all of them on record, \<open>j\<close> as the next subtask and \<open>Q\<close> of
  the data, or it stops at one of them that has a fault.
\<close>

definition performs ::
  "('db, 'd) application_data \<Rightarrow> bool \<Rightarrow> task_key list \<Rightarrow> int list \<Rightarrow> int \<Rightarrow> ('d \<Rightarrow> bool) \<Rightarrow> 'db doing \<Rightarrow> int \<Rightarrow> ('d \<Rightarrow> bool) \<Rightarrow>
   coordinates list \<Rightarrow> bool" where
  "performs A root p os i P m j Q steps \<longleftrightarrow>
     (\<forall>s f fs. ready (app_env A) s f fs \<longrightarrow> \<not> skip_executed_stages s \<longrightarrow> root = (fs = []) \<longrightarrow>
        current_path f = p \<longrightarrow> next_subtask_order f = os @ [i] \<longrightarrow> kept A (table s) \<longrightarrow> P (data_of (app_tables A) (table s)) \<longrightarrow>
        (\<exists>s' r j'. m s = (s', r) \<and> stack s' = f\<lparr>next_subtask_order := os @ [j']\<rparr> # fs \<and>
           stopped (app_env A) (raised_by A) s s' r steps \<and> kept A (table s') \<and>
           (r = None \<longrightarrow> j' = j \<and> Q (data_of (app_tables A) (table s')))))"

lemma performsE:
  assumes "performs A root p os i P m j Q steps" and "ready (app_env A) s f fs" and "\<not> skip_executed_stages s"
    and "root = (fs = [])" and "current_path f = p" and "next_subtask_order f = os @ [i]" and "kept A (table s)"
    and "P (data_of (app_tables A) (table s))"
  obtains s' r j' where "m s = (s', r)" and "stack s' = f\<lparr>next_subtask_order := os @ [j']\<rparr> # fs"
    and "stopped (app_env A) (raised_by A) s s' r steps" and "kept A (table s')"
    and "r = None \<Longrightarrow> j' = j \<and> Q (data_of (app_tables A) (table s'))"
  using assms unfolding performs_def by blast

lemma performs_ready:
  assumes "ready env s f fs" and "resumed env s s' steps" and "stack s' = f\<lparr>next_subtask_order := os @ [j]\<rparr> # fs"
  shows "ready env s' (f\<lparr>next_subtask_order := os @ [j]\<rparr>) fs"
  using assms by (auto simp: ready_def resumed_def)

lemma performs_nothing:
  assumes "\<And>d. P d \<Longrightarrow> Q d"
  shows "performs A root p os i P (\<lambda>s. (s, None)) i Q []"
proof -
  have "stack s = f\<lparr>next_subtask_order := os @ [i]\<rparr> # fs" if "ready (app_env A) s f fs" "next_subtask_order f = os @ [i]" for s f fs
    using that by (cases f) (simp add: ready_def)
  then show ?thesis using assms resumed_refl by (fastforce simp: performs_def)
qed

lemma performs_then:
  assumes 1: "performs A root p os i P m1 j Q a" and 2: "performs A root p os j Q m2 k R b"
  shows "performs A root p os i P (and_then m1 m2) k R (a @ b)"
  unfolding performs_def
proof (intro allI impI)
  fix s f fs
  assume s: "ready (app_env A) s f fs" "\<not> skip_executed_stages s" "root = (fs = [])" "current_path f = p"
    "next_subtask_order f = os @ [i]" "kept A (table s)" "P (data_of (app_tables A) (table s))"
  from performsE [OF 1 s] obtain s1 r1 j1 where m1: "m1 s = (s1, r1)"
    "stack s1 = f\<lparr>next_subtask_order := os @ [j1]\<rparr> # fs" "stopped (app_env A) (raised_by A) s s1 r1 a" "kept A (table s1)"
    "r1 = None \<Longrightarrow> j1 = j \<and> Q (data_of (app_tables A) (table s1))" by blast
  show "\<exists>s' r j'. and_then m1 m2 s = (s', r) \<and> stack s' = f\<lparr>next_subtask_order := os @ [j']\<rparr> # fs \<and>
      stopped (app_env A) (raised_by A) s s' r (a @ b) \<and> kept A (table s') \<and>
      (r = None \<longrightarrow> j' = k \<and> R (data_of (app_tables A) (table s')))"
  proof (cases r1)
    case (Some e)
    with m1 show ?thesis by (auto simp: and_then_def stopped_append)
  next
    case None
    with m1 have quiet: "resumed (app_env A) s s1 a" and Q: "j1 = j" "Q (data_of (app_tables A) (table s1))" by simp_all
    have "ready (app_env A) s1 (f\<lparr>next_subtask_order := os @ [j]\<rparr>) fs"
      using performs_ready [OF s(1) quiet] m1(2) Q(1) by simp
    moreover have "\<not> skip_executed_stages s1" using s(2) quiet by (simp add: resumed_def)
    ultimately obtain s' r j' where m2: "m2 s1 = (s', r)" "stack s' = f\<lparr>next_subtask_order := os @ [j']\<rparr> # fs"
      "stopped (app_env A) (raised_by A) s1 s' r b" "kept A (table s')"
      "r = None \<Longrightarrow> j' = k \<and> R (data_of (app_tables A) (table s'))"
      using performsE [OF 2, of s1 "f\<lparr>next_subtask_order := os @ [j]\<rparr>" fs] s(3,4) m1(4) Q(2) by auto
    with stopped_trans [OF quiet m2(3) s(2)] m1(1) None show ?thesis by (auto simp: and_then_def)
  qed
qed

lemma performs_each:
  assumes "\<And>x. x < n \<Longrightarrow> performs A root p os (i + int x) (P x) (f x) (i + int (Suc x)) (P (Suc x)) (steps x)"
  shows "performs A root p os i (P 0) (for_each f [0..<n]) (i + int n) (P n) (concat (map steps [0..<n]))"
proof -
  have "performs A root p os (i + int k) (P k) (for_each f [k..<n]) (i + int n) (P n) (concat (map steps [k..<n]))"
    if "k \<le> n" for k
    using that
  proof (induction "n - k" arbitrary: k)
    case 0
    then have "for_each f [k..<n] = (\<lambda>s. (s, None))" by (auto simp: fun_eq_iff)
    with 0 performs_nothing [of "P n" "P n"] show ?case by simp
  next
    case (Suc d)
    then have k: "k < n" by simp
    then have "performs A root p os (i + int (Suc k)) (P (Suc k)) (for_each f [Suc k..<n]) (i + int n) (P n)
        (concat (map steps [Suc k..<n]))" using Suc by (intro Suc.hyps(1)) auto
    from performs_then [OF assms [OF k] this]
    have "performs A root p os (i + int k) (P k) (and_then (f k) (for_each f [Suc k..<n])) (i + int n) (P n)
        (steps k @ concat (map steps [Suc k..<n]))" .
    moreover have "for_each f [k..<n] = and_then (f k) (for_each f [Suc k..<n])"
      using k by (auto simp: fun_eq_iff upt_conv_Cons)
    ultimately show ?case using k by (simp add: upt_conv_Cons)
  qed
  from this [of 0] show ?thesis by simp
qed

section \<open>Stages and steps\<close>

lemma kept_insert:
  assumes "application_ok A" and "kept A t"
    and "\<And>d. plain_coordinates d \<Longrightarrow> type_of d = STEP \<Longrightarrow> str_of_coordinates d = rec_coordinates x \<Longrightarrow>
      app_left_by A d (data_of (app_tables A) t)"
  shows "kept A (tdb_insert (database (app_env A)) x t)"
  using assms
  by (auto simp: kept_def application_ok_def dependable_def tinydb_contract_def separate_tables_def recorded_append recorded_def)

lemma performs_stage:
  assumes A: "application_ok A" and k: "plain_key k" and key: "root \<longrightarrow> (case k of StrKey _ \<Rightarrow> True | IntKey _ \<Rightarrow> False)"
    and body: "performs A False (p @ [k]) (os @ [i]) 0 P body j Q steps"
  shows "performs A root p os i P (run_stage (app_env A) k body) (i + 1) Q steps"
  unfolding performs_def
proof (intro allI impI)
  fix s f fs
  assume s: "ready (app_env A) s f fs" "\<not> skip_executed_stages s" "root = (fs = [])" "current_path f = p"
    "next_subtask_order f = os @ [i]" "kept A (table s)" "P (data_of (app_tables A) (table s))"
  define c where "c = \<lparr>path = current_path f @ [k], order_of = os @ [i], type_of = STAGE\<rparr>"
  define e where "e = entered_task (app_env A) c (s\<lparr>events := events s @ [TaskSubmitted c]\<rparr>)"
  let ?g = "\<lparr>current_path = current_path f @ [k], next_subtask_order = (os @ [i]) @ [0], frame_type = Some STAGE\<rparr>"
  have q: "dependable (app_env A)" and F: "\<And>c x. raised_by A c = Some x \<Longrightarrow> passes x" using A by (auto simp: application_ok_def)
  have key': "fs = [] \<longrightarrow> (case k of StrKey _ \<Rightarrow> True | IntKey _ \<Rightarrow> False)" using key s(3) by simp
  note entered = entered_facts [OF s(1) k c_def, folded e_def]
  have te: "table e = table s" by (simp add: e_def entered_task_def enter_frame_def)
  have ready: "ready (app_env A) e ?g (f # fs)" using entered(2) by simp
  have "False = (f # fs = [])" "current_path ?g = p @ [k]" "next_subtask_order ?g = (os @ [i]) @ [0]" using s(4) by simp_all
  from performsE [OF body ready _ this] entered(3) te s obtain s1 r j' where b: "body e = (s1, r)"
    "stack s1 = ?g\<lparr>next_subtask_order := (os @ [i]) @ [j']\<rparr> # f # fs"
    "stopped (app_env A) (raised_by A) e s1 r steps" "kept A (table s1)"
    "r = None \<Longrightarrow> j' = j \<and> Q (data_of (app_tables A) (table s1))" by auto
  show "\<exists>s' r j'. run_stage (app_env A) k body s = (s', r) \<and> stack s' = f\<lparr>next_subtask_order := os @ [j']\<rparr> # fs \<and>
      stopped (app_env A) (raised_by A) s s' r steps \<and> kept A (table s') \<and>
      (r = None \<longrightarrow> j' = i + 1 \<and> Q (data_of (app_tables A) (table s')))"
  proof (cases r)
    case None
    with b have "body e = (s1, None)" "resumed (app_env A) e s1 steps" by simp_all
    with execute_resumed [where body = body and steps = steps and t = STAGE, OF q s(1) key' k s(5) c_def e_def] b(2) s(2)
    obtain s' x where s': "execute (app_env A) k STAGE body None s = (s', None)"
      "stack s' = f\<lparr>next_subtask_order := os @ [i + 1]\<rparr> # fs" "resumed (app_env A) s s' steps"
      "rec_coordinates x = str_of_coordinates c" "table s' = tdb_insert (database (app_env A)) x (table s1)" by auto
    have pc: "plain_coordinates c" using s(1) k by (auto simp: c_def ready_def intro: plain_coordinatesI)
    have "type_of d = STAGE" if "plain_coordinates d" "str_of_coordinates d = rec_coordinates x" for d
      using that pc s'(4) by (simp add: str_of_coordinates_inj c_def)
    then have "kept A (table s')" unfolding s'(5) by (intro kept_insert [OF A b(4)]) fastforce
    moreover have "data_of (app_tables A) (table s') = data_of (app_tables A) (table s1)"
      using A by (simp add: s'(5) application_ok_def separate_tables_def)
    ultimately show ?thesis using s' b(5) None by (auto simp: run_stage_def)
  next
    case (Some x)
    then have "passes x" using b(3) F by (auto simp: stopped_def stops_at_def)
    with raised_stops [where body = body and final = None and b = r and F = "raised_by A", OF q s(1) key' k s(5) c_def] b(1-3) Some s(2)
    obtain s' where "execute (app_env A) k STAGE body None s = (s', Some x)"
      "stack s' = f\<lparr>next_subtask_order := os @ [i + 1]\<rparr> # fs" "stopped (app_env A) (raised_by A) s s' (Some x) steps"
      "table s' = table s1"
      unfolding e_def by fastforce
    with b(4) show ?thesis by (auto simp: run_stage_def)
  qed
qed

lemma performs_step:
  assumes A: "application_ok A" and k: "plain_key (StrKey name)"
    and c: "c = \<lparr>path = p @ [StrKey name], order_of = os @ [i], type_of = STEP\<rparr>"
    and skipped: "\<And>d. app_invariant A d \<Longrightarrow> P d \<Longrightarrow> app_left_by A c d \<Longrightarrow> Q d"
    and worked: "\<And>d. app_invariant A d \<Longrightarrow> P d \<Longrightarrow> \<exists>d'. m d = (d', Inr ()) \<and> app_invariant A d' \<and> app_left_by A c d' \<and> Q d' \<and>
      (\<forall>x. app_left_by A x d \<longrightarrow> app_left_by A x d')"
  shows "performs A root p os i P (run_step (app_env A) name (work (app_tables A) (app_faults A) m)) (i + 1) Q [c]"
  unfolding performs_def
proof (intro allI impI)
  fix s f fs
  assume s: "ready (app_env A) s f fs" "\<not> skip_executed_stages s" "root = (fs = [])" "current_path f = p"
    "next_subtask_order f = os @ [i]" "kept A (table s)" "P (data_of (app_tables A) (table s))"
  let ?k = "StrKey name" and ?body = "work (app_tables A) (app_faults A) m" and ?D = "data_of (app_tables A)"
  have c': "c = \<lparr>path = current_path f @ [?k], order_of = os @ [i], type_of = STEP\<rparr>" using c s(4) by simp
  define e where "e = entered_task (app_env A) c (s\<lparr>events := events s @ [TaskSubmitted c]\<rparr>)"
  have q: "dependable (app_env A)" and F: "\<And>c x. raised_by A c = Some x \<Longrightarrow> passes x" using A by (auto simp: application_ok_def)
  have key: "fs = [] \<longrightarrow> (case ?k of StrKey _ \<Rightarrow> True | IntKey _ \<Rightarrow> False)" by simp
  note entered = entered_facts [OF s(1) k c', folded e_def]
  have pc: "plain_coordinates c" using s(1) k by (auto simp: c' ready_def intro: plain_coordinatesI)
  have te: "table e = table s" by (simp add: e_def entered_task_def enter_frame_def)
  have run: "running_task e = c" using entered(1) s(5) by (simp add: running_task_def c')
  have inv: "app_invariant A (?D (table s))" using s(6) by (simp add: kept_def)
  from worked [OF inv s(7)] obtain d where d: "m (?D (table s)) = (d, Inr ())" "app_invariant A d" "app_left_by A c d" "Q d"
    "\<forall>x. app_left_by A x (?D (table s)) \<longrightarrow> app_left_by A x d" by blast
  define s2 where "s2 = e\<lparr>table := put_data (app_tables A) d (table s)\<rparr>"
  have did: "do_work (app_tables A) m e = (s2, None)" using d(1) te by (simp add: do_work_def s2_def)
  have D2: "?D (table s2) = d" "entries (app_env A) s2 = entries (app_env A) e" "stack s2 = stack e"
    using A te by (simp_all add: s2_def application_ok_def separate_tables_def entries_def)
  have kept2: "kept A (table s2)"
    using s(6) d D2 te by (auto simp: kept_def entries_def)
  have resumed2: "resumed (app_env A) e s2 []"
    using resumed_entered [OF s(1), of c "events s @ [TaskSubmitted c]", folded e_def] D2(2)
    by (simp add: resumed_def s2_def)
  note general = execute_resumed [where body = ?body and steps = "[]" and t = STEP, OF q s(1) key k s(5) c' e_def]
  have same: "?D (tdb_insert (database (app_env A)) x t) = ?D t" for x t
    using A by (simp add: application_ok_def separate_tables_def)
  show "\<exists>s' r j'. run_step (app_env A) name ?body s = (s', r) \<and> stack s' = f\<lparr>next_subtask_order := os @ [j']\<rparr> # fs \<and>
      stopped (app_env A) (raised_by A) s s' r [c] \<and> kept A (table s') \<and> (r = None \<longrightarrow> j' = i + 1 \<and> Q (?D (table s')))"
  proof (cases "recorded c (entries (app_env A) s)")
    case True
    with general s(2) obtain s' where "execute (app_env A) ?k STEP ?body None s = (s', None)"
      "stack s' = f\<lparr>next_subtask_order := os @ [i + 1]\<rparr> # fs" "resumed (app_env A) s s' [c]" "table s' = table s" by auto
    moreover have "app_left_by A c (?D (table s))" using s(6) pc True by (auto simp: kept_def entries_def c)
    ultimately show ?thesis using skipped [OF inv s(7)] s(6) by (auto simp: run_step_def)
  next
    case new: False
    have raised: ?thesis if "raised_by A c = Some x" "?body e = (s1, Some x)" "table s1 = table e \<or> s1 = s2" "stack s1 = stack e"
      "stopped (app_env A) (raised_by A) e s1 (Some x) [c]" for x s1
    proof -
      from raised_stops [where body = ?body and final = None and b = "Some x" and F = "raised_by A" and t = STEP, OF q s(1) key k s(5) c'] that
        entered(1) new F [OF that(1)] obtain s' where "execute (app_env A) ?k STEP ?body None s = (s', Some x)"
        "stack s' = f\<lparr>next_subtask_order := os @ [i + 1]\<rparr> # fs" "stopped (app_env A) (raised_by A) s s' (Some x) [c]"
        "table s' = table s1"
        unfolding e_def by fastforce
      moreover have "kept A (table s1)" using that(3) kept2 te s(6) by auto
      ultimately show ?thesis by (auto simp: run_step_def)
    qed
    show ?thesis
    proof (cases "app_faults A c")
      case None
      then have "?body e = (s2, None)" using did run by (simp add: work_def)
      with general D2 resumed2 new s(2) obtain s' x where s': "execute (app_env A) ?k STEP ?body None s = (s', None)"
        "stack s' = f\<lparr>next_subtask_order := os @ [i + 1]\<rparr> # fs" "resumed (app_env A) s s' [c]"
        "rec_coordinates x = str_of_coordinates c" "table s' = tdb_insert (database (app_env A)) x (table s2)" by auto
      have "y = c" if "plain_coordinates y" "str_of_coordinates y = rec_coordinates x" for y
        using that pc s'(4) by (simp add: str_of_coordinates_inj)
      then have "kept A (table s')" unfolding s'(5) using d(3) D2(1) by (intro kept_insert [OF A kept2]) auto
      with s' d(4) D2(1) A show ?thesis by (auto simp: run_step_def application_ok_def separate_tables_def)
    next
      case (Some x)
      show ?thesis
      proof (cases x)
        case (Before y)
        then have y: "raised_by A c = Some y" and body: "?body e = (e, Some y)"
          using Some run by (simp_all add: raised_by_def work_def)
        have "stopped (app_env A) (raised_by A) e e (Some y) [c]"
          using resumed_entered [OF s(1), of c "events s @ [TaskSubmitted c]", folded e_def] new entered(4) y
          by (auto simp: stopped_def resumed_def stops_at_single)
        with raised [OF y body] show ?thesis by simp
      next
        case (After y)
        then have y: "raised_by A c = Some y" and body: "?body e = (s2, Some y)"
          using Some run did by (simp_all add: raised_by_def work_def)
        have "stopped (app_env A) (raised_by A) e s2 (Some y) [c]"
          using resumed2 new entered(4) y D2(2) by (auto simp: stopped_def resumed_def stops_at_single)
        with raised [OF y body] D2(3) show ?thesis by simp
      qed
    qed
  qed
qed

text \<open>A value that the body of a stage reads from the data and uses in its steps.\<close>

lemma performs_reads:
  assumes "\<And>v. performs A root p os i (\<lambda>d. P d \<and> get d = v) (m v) j Q steps"
  shows "performs A root p os i P (\<lambda>s. m (get (data_of (app_tables A) (table s))) s) j Q steps"
  using assms unfolding performs_def by blast

section \<open>Sessions\<close>

lemma program_session:
  assumes A: "application_ok A" and m: "performs A True [] [] 0 P m j Q steps"
    and t: "table_ok (tdb_all (database (app_env A)) t)" "kept A t" "P (data_of (app_tables A) t)"
  shows "\<exists>t' r. run_session (app_env A) pointer m t = (t', r) \<and> table_ok (tdb_all (database (app_env A)) t') \<and> kept A t' \<and>
    (\<exists>rs. tdb_all (database (app_env A)) t' = tdb_all (database (app_env A)) t @ rs) \<and>
    (case r of
       None \<Rightarrow> (\<forall>c \<in> set steps. recorded c (tdb_all (database (app_env A)) t')) \<and> Q (data_of (app_tables A) t')
     | Some e \<Rightarrow> stops_at (raised_by A) (tdb_all (database (app_env A)) t') e steps)"
proof -
  have q: "dependable (app_env A)" and F: "\<forall>c e. raised_by A c = Some e \<longrightarrow> passes e" using A by (auto simp: application_ok_def)
  from session_opens [OF q t(1)] obtain s where i: "initialize (app_env A) pointer (fresh_executor t) = (s, None)"
    and s: "ready (app_env A) s first_frame []" "table s = t" "\<not> skip_executed_stages s" by blast
  have "True = ([] = ([] :: execution_frame list))" "current_path first_frame = []" "next_subtask_order first_frame = [] @ [0]"
    by (simp_all add: first_frame_def)
  from performsE [OF m s(1,3) this, unfolded s(2), OF t(2,3)] obtain s1 r j' where a: "m s = (s1, r)"
    "stopped (app_env A) (raised_by A) s s1 r steps" "kept A (table s1)" "r = None \<Longrightarrow> j' = j \<and> Q (data_of (app_tables A) (table s1))" by blast
  have "session s \<noteq> None" using s(1) by (simp add: ready_def)
  from session_closes [where program = m, OF q F i this a(1,2)] have "run_session (app_env A) pointer m t = (table s1, r)" .
  with a s(2,3) show ?thesis by (cases r) (auto simp: stopped_def resumed_def entries_def)
qed

text \<open>One session after the other; what the program does may differ from session to session.\<close>

fun database_before :: "'db environment \<Rightarrow> (nat \<Rightarrow> nat \<times> nat) \<Rightarrow> (nat \<Rightarrow> 'db doing) \<Rightarrow> 'db \<Rightarrow> nat \<Rightarrow> 'db" where
  "database_before env pointer program t 0 = t"
| "database_before env pointer program t (Suc n) =
     fst (run_session env (pointer n) (program n) (database_before env pointer program t n))"

definition program_result :: "'db environment \<Rightarrow> (nat \<Rightarrow> nat \<times> nat) \<Rightarrow> (nat \<Rightarrow> 'db doing) \<Rightarrow> 'db \<Rightarrow> nat \<Rightarrow> exn option" where
  "program_result env pointer program t n =
     snd (run_session env (pointer n) (program n) (database_before env pointer program t n))"

text \<open>
  When no step has a fault in two consecutive sessions, as many sessions as there are steps are enough for the
  next one to return, and what the program promises then holds.
\<close>

lemma programs_finish:
  assumes A: "\<And>n. application_ok (A n)" and env: "\<And>n. app_env (A n) = env" and tab: "\<And>n. app_tables (A n) = tab"
    and m: "\<And>n. performs (A n) True [] [] 0 P (program n) j Q steps"
    and P: "\<And>d. P d"
    and carried: "\<forall>n t. kept (A n) t \<longrightarrow> kept (A (Suc n)) t"
    and transient: "\<forall>n c x. app_faults (A n) c = Some x \<longrightarrow> app_faults (A (Suc n)) c = None"
    and t: "table_ok (tdb_all (database env) t)" "kept (A 0) t" and n: "length steps \<le> n"
  shows "program_result env pointer program t n = None" and "Q (data_of tab (database_before env pointer program t (Suc n)))"
    and "kept (A n) (database_before env pointer program t (Suc n))"
proof -
  let ?db = "database_before env pointer program t" and ?log = "\<lambda>n. tdb_all (database env) (database_before env pointer program t n)"
  have run: "run_session env (pointer n) (program n) (?db n) = (?db (Suc n), program_result env pointer program t n)" for n
    by (simp add: program_result_def)
  have session: "table_ok (?log (Suc n)) \<and> kept (A n) (?db (Suc n)) \<and> (\<exists>rs. ?log (Suc n) = ?log n @ rs) \<and>
      (case program_result env pointer program t n of
         None \<Rightarrow> (\<forall>c \<in> set steps. recorded c (?log (Suc n))) \<and> Q (data_of tab (?db (Suc n)))
       | Some e \<Rightarrow> stops_at (raised_by (A n)) (?log (Suc n)) e steps)" if "table_ok (?log n)" "kept (A n) (?db n)" for n
    using program_session [where t = "?db n" and pointer = "pointer n", OF A [of n] m [of n]] that P run [of n]
    by (simp add: env tab del: database_before.simps cong del: option.case_cong_weak)
  have both: "table_ok (?log n) \<and> kept (A n) (?db n)" for n
  proof (induction n)
    case (Suc n)
    with session [of n] carried show ?case by blast
  qed (use t in simp)
  note each = session [OF conjunct1 [OF both] conjunct2 [OF both]]
  have grows: "\<exists>rs. ?log (Suc n) = ?log n @ rs" for n using each by blast
  have step: "case program_result env pointer program t n of None \<Rightarrow> missing steps (?log (Suc n)) = []
     | Some e \<Rightarrow> stops_at (raised_by (A n)) (?log (Suc n)) e steps" for n
    using each [of n] by (cases "program_result env pointer program t n") (simp_all add: not_missing del: database_before.simps)
  have "\<forall>n c e. raised_by (A n) c = Some e \<longrightarrow> raised_by (A (Suc n)) c = None"
    using transient by (auto simp: raised_by_def)
  from sessions_progress [where log_of = ?log and F = "\<lambda>n. raised_by (A n)" and n = n, OF grows step this] n
  have gone: "missing steps (?log (Suc n)) = []" by (auto simp del: database_before.simps)
  then show r: "program_result env pointer program t n = None"
    using step [of n] by (cases "program_result env pointer program t n") (auto simp del: database_before.simps dest!: stops_at_missing)
  from each [of n] r show "Q (data_of tab (?db (Suc n)))" "kept (A n) (?db (Suc n))" by simp_all
qed

end
