(* ===== verification/Clustering.thy ===== *)
theory Clustering
  imports State_Result Py_Strings Complex_Main
begin

text \<open>
  The clustering of a dataset with k-means, an application of the executor: \<open>clustering/kmeans\<close>.

  Numbers are those of a linearly ordered field; the rounding of floating point is not modelled, and the square
  root is a parameter. The two tables are lists of records with the number of the iteration; random
  coordinates are a parameter.
\<close>

section \<open>Vectors\<close>

definition VECTOR_LENGTH :: nat where
  "VECTOR_LENGTH = 16"

definition CENTROIDS_COUNT :: nat where
  "CENTROIDS_COUNT = 26"

definition ITERATIONS :: "bool \<Rightarrow> nat" where
  "ITERATIONS short = (if short then 10 else 100)"

text \<open>The dataset: 16 integers of every line that is neither a comment nor a declaration.\<close>

definition parse_line :: "string \<Rightarrow> int list res" where
  "parse_line line = traverse py_int (take 16 (py_split (CHR '','') line))"

definition dataset :: "string list \<Rightarrow> int list list res" where
  "dataset lines = traverse parse_line (filter (\<lambda>l. \<not> starts_with ''%'' l \<and> \<not> starts_with ''@'' l) lines)"

definition between :: "('n::linordered_field \<Rightarrow> 'n) \<Rightarrow> 'n list \<Rightarrow> 'n list \<Rightarrow> 'n" where
  "between sqrt_of v1 v2 = sqrt_of (sum_list (map (\<lambda>x. x * x) (map (\<lambda>p. fst p - snd p) (zip v1 v2))))"

text \<open>The coordinates of a vector are added up one by one; a vector that is too short raises.\<close>

fun add_vector :: "'n::linordered_field list \<Rightarrow> 'n list \<Rightarrow> nat list \<Rightarrow> 'n list res" where
  "add_vector result v [] = Inr result"
| "add_vector result v (i # is') =
     (if i < length v then add_vector (result[i := result ! i + v ! i]) v is' else Inl IndexError)"

fun add_vectors :: "'n::linordered_field list \<Rightarrow> 'n list list \<Rightarrow> 'n list res" where
  "add_vectors result [] = Inr result"
| "add_vectors result (v # vs) = rbind (add_vector result v [0..<VECTOR_LENGTH]) (\<lambda>r. add_vectors r vs)"

definition avg :: "'n::linordered_field list list \<Rightarrow> 'n list res" where
  "avg vs =
     (let result = replicate VECTOR_LENGTH 0
      in if vs \<noteq> [] then rbind (add_vectors result vs) (\<lambda>r. Inr (map (\<lambda>x. x / of_nat (length vs)) r))
         else Inr result)"

section \<open>The tables and the steps\<close>

record 'n kmeans =
  centroids_table :: "(int \<times> 'n list list) list"
  assignments_table :: "(int \<times> nat list) list"

definition get_by_iteration :: "int \<Rightarrow> (int \<times> 'r) list \<Rightarrow> 'r option" where
  "get_by_iteration i t = map_option snd (List.find (\<lambda>r. fst r = i) t)"

definition points_of :: "'n list list option \<Rightarrow> 'n list list res" where
  "points_of previous = (case previous of None \<Rightarrow> Inl AttributeError | Some ps \<Rightarrow> Inr ps)"

definition intialize_centroids :: "(nat \<Rightarrow> nat \<Rightarrow> 'n) \<Rightarrow> ('n kmeans, unit) operation" where
  "intialize_centroids random s =
     (s\<lparr>centroids_table := centroids_table s @
        [(-1, map (\<lambda>i. map (random i) [0..<VECTOR_LENGTH]) [0..<CENTROIDS_COUNT])]\<rparr>, Inr ())"

text \<open>The search for the closest centroid, from index \<open>i\<close> on.\<close>

fun closest :: "('n::linordered_field list \<Rightarrow> 'n list \<Rightarrow> 'n) \<Rightarrow> 'n list \<Rightarrow> nat \<Rightarrow> 'n list list \<Rightarrow> nat \<times> 'n \<Rightarrow> nat \<times> 'n" where
  "closest distance point i [] best = best"
| "closest distance point i (c # cs) best =
     closest distance point (Suc i) cs (if distance point c < snd best then (i, distance point c) else best)"

definition assign_point :: "('n::linordered_field list \<Rightarrow> 'n list \<Rightarrow> 'n) \<Rightarrow> 'n list list option \<Rightarrow> 'n list \<Rightarrow> nat res" where
  "assign_point distance previous point =
     rbind (points_of previous) (\<lambda>ps. case ps of
        [] \<Rightarrow> Inl IndexError
      | c # cs \<Rightarrow> Inr (fst (closest distance point 1 cs (0, distance point c))))"

definition assign ::
  "('n::linordered_field list \<Rightarrow> 'n list \<Rightarrow> 'n) \<Rightarrow> 'n list list \<Rightarrow> int \<Rightarrow> 'n list list option \<Rightarrow> ('n kmeans, unit) operation" where
  "assign distance points i previous s =
     (case traverse (assign_point distance previous) points of
        Inl e \<Rightarrow> (s, Inl e)
      | Inr a \<Rightarrow> (s\<lparr>assignments_table := assignments_table s @ [(i, a)]\<rparr>, Inr ()))"

fun group_points :: "'p list \<Rightarrow> nat \<Rightarrow> nat list \<Rightarrow> 'p list list \<Rightarrow> 'p list list res" where
  "group_points points i [] grouped = Inr grouped"
| "group_points points i (c # cs) grouped =
     (if c < length grouped \<and> i < length points
      then group_points points (Suc i) cs (grouped[c := grouped ! c @ [points ! i]])
      else Inl IndexError)"

definition recalculate :: "'n::linordered_field list list \<Rightarrow> int \<Rightarrow> ('n kmeans, unit) operation" where
  "recalculate points iter s =
     (case get_by_iteration iter (assignments_table s) of
        None \<Rightarrow> (s, Inl AttributeError)
      | Some centroid_idx \<Rightarrow>
          (case rbind (group_points points 0 centroid_idx (replicate CENTROIDS_COUNT [])) (traverse avg) of
             Inl e \<Rightarrow> (s, Inl e)
           | Inr recalculated \<Rightarrow> (s\<lparr>centroids_table := centroids_table s @ [(iter, recalculated)]\<rparr>, Inr ())))"

definition iteration :: "('n::linordered_field list \<Rightarrow> 'n list \<Rightarrow> 'n) \<Rightarrow> 'n list list \<Rightarrow> int \<Rightarrow> ('n kmeans, unit) operation" where
  "iteration distance points iter s =
     sseq (assign distance points iter (get_by_iteration (iter - 1) (centroids_table s))) (recalculate points iter) s"

definition cluster ::
  "('n::linordered_field list \<Rightarrow> 'n list \<Rightarrow> 'n) \<Rightarrow> (nat \<Rightarrow> nat \<Rightarrow> 'n) \<Rightarrow> nat \<Rightarrow> 'n list list \<Rightarrow> ('n kmeans, 'n list list) operation" where
  "cluster distance random iterations points =
     sseq (sseq (intialize_centroids random) (seach (iteration distance points) (map int [0..<iterations])))
       (\<lambda>s. (s, points_of (get_by_iteration (int iterations - 1) (centroids_table s))))"

section \<open>Averages\<close>

lemma add_vector_result:
  assumes "length result = n" and "n \<le> length v" and "k \<le> n"
  shows "add_vector result v [k..<n] = Inr (take k result @ map (\<lambda>i. result ! i + v ! i) [k..<n])"
  using assms
proof (induction "n - k" arbitrary: k result)
  case 0
  then show ?case by simp
next
  case (Suc m)
  then have k: "k < n" by simp
  let ?r = "result[k := result ! k + v ! k]"
  have "add_vector result v [k..<n] = add_vector ?r v [Suc k..<n]"
    using k Suc.prems by (simp add: upt_conv_Cons)
  also have "\<dots> = Inr (take (Suc k) ?r @ map (\<lambda>i. ?r ! i + v ! i) [Suc k..<n])"
    using Suc k by (intro Suc.hyps(1)) auto
  also have "\<dots> = Inr (take k result @ map (\<lambda>i. result ! i + v ! i) [k..<n])"
    using k Suc.prems by (simp add: take_Suc_conv_app_nth upt_conv_Cons)
  finally show ?case .
qed

lemma add_vectors_result:
  assumes "length result = VECTOR_LENGTH" and "\<forall>v \<in> set vs. VECTOR_LENGTH \<le> length v"
  shows "\<exists>r. add_vectors result vs = Inr r \<and> length r = VECTOR_LENGTH \<and>
    (\<forall>i < VECTOR_LENGTH. r ! i = result ! i + sum_list (map (\<lambda>v. v ! i) vs))"
  using assms
proof (induction vs arbitrary: result)
  case (Cons v vs)
  let ?r = "map (\<lambda>i. result ! i + v ! i) [0..<VECTOR_LENGTH]"
  have "add_vector result v [0..<VECTOR_LENGTH] = Inr ?r"
    using add_vector_result [of result VECTOR_LENGTH v 0] Cons.prems by simp
  moreover from Cons.IH [of ?r] Cons.prems obtain r where "add_vectors ?r vs = Inr r" "length r = VECTOR_LENGTH"
    "\<forall>i < VECTOR_LENGTH. r ! i = ?r ! i + sum_list (map (\<lambda>v. v ! i) vs)" by auto
  ultimately show ?case by (auto simp: add.assoc)
qed simp

definition mean_of :: "'n::linordered_field list list \<Rightarrow> nat \<Rightarrow> 'n" where
  "mean_of vs i = (if vs = [] then 0 else sum_list (map (\<lambda>v. v ! i) vs) / of_nat (length vs))"

lemma avg_mean:
  assumes "\<forall>v \<in> set vs. VECTOR_LENGTH \<le> length v"
  shows "avg vs = Inr (map (mean_of vs) [0..<VECTOR_LENGTH])"
proof (cases "vs = []")
  case True
  then show ?thesis by (auto simp: avg_def mean_of_def intro: nth_equalityI)
next
  case False
  with add_vectors_result [of "replicate VECTOR_LENGTH 0" vs] assms obtain r where
    "add_vectors (replicate VECTOR_LENGTH 0) vs = Inr r" "length r = VECTOR_LENGTH"
    "\<forall>i < VECTOR_LENGTH. r ! i = sum_list (map (\<lambda>v. v ! i) vs)" by auto
  moreover from this False have "map (\<lambda>x. x / of_nat (length vs)) r = map (mean_of vs) [0..<VECTOR_LENGTH]"
    by (intro nth_equalityI) (simp_all add: mean_of_def)
  ultimately show ?thesis using False by (simp add: avg_def)
qed

lemma mean_bounds:
  assumes "\<forall>v \<in> set vs. lo \<le> v ! i \<and> v ! i \<le> hi" and "lo \<le> 0" and "0 \<le> (hi :: 'n::linordered_field)"
  shows "lo \<le> mean_of vs i \<and> mean_of vs i \<le> hi"
proof (cases "vs = []")
  case False
  have "of_nat (length xs) * lo \<le> sum_list (map (\<lambda>v. v ! i) xs) \<and> sum_list (map (\<lambda>v. v ! i) xs) \<le> of_nat (length xs) * hi"
    if "\<forall>v \<in> set xs. lo \<le> v ! i \<and> v ! i \<le> hi" for xs
    using that by (induction xs) (auto simp: algebra_simps intro: add_mono)
  from this [OF assms(1)] False show ?thesis
    by (simp add: mean_of_def field_simps)
qed (use assms in \<open>simp add: mean_of_def\<close>)

section \<open>The steps\<close>

definition nearest :: "('n::linordered_field list \<Rightarrow> 'n list \<Rightarrow> 'n) \<Rightarrow> 'n list \<Rightarrow> 'n list list \<Rightarrow> nat \<Rightarrow> bool" where
  "nearest distance point cs a \<longleftrightarrow> a < length cs \<and>
     (\<forall>j < length cs. distance point (cs ! a) \<le> distance point (cs ! j) \<and> (j < a \<longrightarrow> distance point (cs ! a) < distance point (cs ! j)))"

lemma closest_nearest:
  assumes "nearest distance point cs a" and "cs \<noteq> []"
  shows "nearest distance point (cs @ ds) (fst (closest distance point (length cs) ds (a, distance point (cs ! a))))"
  using assms
proof (induction ds arbitrary: cs a)
  case (Cons d ds)
  define b where "b = (if distance point d < distance point (cs ! a) then length cs else a)"
  have "nearest distance point (cs @ [d]) b"
    using Cons.prems by (fastforce simp: nearest_def b_def nth_append less_Suc_eq)
  from Cons.IH [OF this] have "nearest distance point (cs @ d # ds)
      (fst (closest distance point (Suc (length cs)) ds (b, distance point ((cs @ [d]) ! b))))" by simp
  moreover have "(if distance point d < distance point (cs ! a) then (length cs, distance point d) else (a, distance point (cs ! a))) =
      (b, distance point ((cs @ [d]) ! b))"
    using Cons.prems by (auto simp: b_def nth_append nearest_def)
  ultimately show ?case by simp
qed simp

lemma assign_point_nearest:
  assumes "cs \<noteq> []"
  shows "\<exists>a. assign_point distance (Some cs) point = Inr a \<and> nearest distance point cs a"
proof -
  obtain c ds where cs: "cs = c # ds" using assms by (cases cs) auto
  have "nearest distance point [c] 0" by (simp add: nearest_def)
  from closest_nearest [OF this, of ds] show ?thesis by (simp add: assign_point_def points_of_def cs)
qed

lemma traverse_assign_point:
  assumes "cs \<noteq> []"
  shows "\<exists>a. traverse (assign_point distance (Some cs)) points = Inr a \<and> length a = length points \<and>
    (\<forall>k < length points. nearest distance (points ! k) cs (a ! k))"
proof -
  obtain a where a: "traverse (assign_point distance (Some cs)) points = Inr a"
    using traverse_total [of points "assign_point distance (Some cs)"] assign_point_nearest [OF assms] by blast
  then have "list_all2 (\<lambda>x y. assign_point distance (Some cs) x = Inr y) points a" by (simp add: traverse_Inr_iff)
  moreover have "nearest distance x cs y" if "assign_point distance (Some cs) x = Inr y" for x y
    using assign_point_nearest [OF assms, of distance x] that by auto
  ultimately show ?thesis using a by (auto simp: list_all2_conv_all_nth)
qed

definition members :: "'p list \<Rightarrow> nat list \<Rightarrow> nat \<Rightarrow> 'p list" where
  "members points a j = map (\<lambda>k. points ! k) (filter (\<lambda>k. a ! k = j) [0..<length a])"

lemma group_points_members:
  assumes "length a \<le> length points" and "\<forall>c \<in> set a. c < n"
  shows "group_points points 0 a (replicate n []) = Inr (map (members points a) [0..<n])"
proof -
  have "group_points points (length xs) ys (map (members points xs) [0..<n]) = Inr (map (members points (xs @ ys)) [0..<n])"
    if "length (xs @ ys) \<le> length points" "\<forall>c \<in> set ys. c < n" for xs ys
    using that
  proof (induction ys arbitrary: xs)
    case (Cons y ys)
    have "members points (xs @ [y]) j = members points xs j @ (if j = y then [points ! length xs] else [])" for j
      by (auto simp: members_def nth_append intro!: arg_cong [where f = "map _"] filter_cong)
    then have "(map (members points xs) [0..<n])[y := members points xs y @ [points ! length xs]] =
        map (members points (xs @ [y])) [0..<n]"
      using Cons.prems(2) by (auto intro!: nth_equalityI simp: nth_list_update)
    with Cons.IH [of "xs @ [y]"] Cons.prems show ?case by simp
  qed simp
  from this [of "[]" a] assms have "group_points points 0 a (map (members points []) [0..<n]) = Inr (map (members points a) [0..<n])"
    by simp
  moreover have "map (members points []) [0..<n] = replicate n []"
    by (auto simp: members_def intro: nth_equalityI)
  ultimately show ?thesis by simp
qed

definition in_box :: "'n::linordered_field \<Rightarrow> 'n \<Rightarrow> 'n list \<Rightarrow> bool" where
  "in_box lo hi v \<longleftrightarrow> VECTOR_LENGTH \<le> length v \<and> (\<forall>i < VECTOR_LENGTH. lo \<le> v ! i \<and> v ! i \<le> hi)"

definition centroids_ok :: "'n::linordered_field \<Rightarrow> 'n \<Rightarrow> 'n list list \<Rightarrow> bool" where
  "centroids_ok lo hi cs \<longleftrightarrow> length cs = CENTROIDS_COUNT \<and> (\<forall>c \<in> set cs. length c = VECTOR_LENGTH \<and> in_box lo hi c)"

text \<open>What the tables hold before the iteration \<open>n\<close>: \<open>C i\<close> are the centroids before iteration \<open>i\<close>, \<open>A i\<close> its assignments.\<close>

definition tables_of :: "(nat \<Rightarrow> 'n list list) \<Rightarrow> (nat \<Rightarrow> nat list) \<Rightarrow> nat \<Rightarrow> 'n kmeans" where
  "tables_of C A n =
     \<lparr>centroids_table = map (\<lambda>i. (int i - 1, C i)) [0..<Suc n], assignments_table = map (\<lambda>i. (int i, A i)) [0..<n]\<rparr>"

definition assigned :: "('n::linordered_field list \<Rightarrow> 'n list \<Rightarrow> 'n) \<Rightarrow> 'n list list \<Rightarrow> 'n list list \<Rightarrow> nat list \<Rightarrow> bool" where
  "assigned distance points cs a \<longleftrightarrow> length a = length points \<and> (\<forall>k < length points. nearest distance (points ! k) cs (a ! k))"

definition means :: "'n::linordered_field list list \<Rightarrow> nat list \<Rightarrow> 'n list list" where
  "means points a = map (\<lambda>j. map (mean_of (members points a j)) [0..<VECTOR_LENGTH]) [0..<CENTROIDS_COUNT]"

definition iterated :: "('n::linordered_field list \<Rightarrow> 'n list \<Rightarrow> 'n) \<Rightarrow> 'n list list \<Rightarrow> (nat \<Rightarrow> 'n list list) \<Rightarrow> (nat \<Rightarrow> nat list) \<Rightarrow> nat \<Rightarrow> bool" where
  "iterated distance points C A i \<longleftrightarrow> assigned distance points (C i) (A i) \<and> C (Suc i) = means points (A i)"

text \<open>The centroids of one iteration determine those of the next.\<close>

lemma nearest_unique: "nearest distance point cs a \<Longrightarrow> nearest distance point cs b \<Longrightarrow> a = b"
proof -
  have "\<not> a < b" if "nearest distance point cs a" "nearest distance point cs b" for a b
  proof
    assume "a < b"
    with that have "distance point (cs ! b) < distance point (cs ! a)" "distance point (cs ! a) \<le> distance point (cs ! b)"
      by (simp_all add: nearest_def)
    then show False by simp
  qed
  then show "nearest distance point cs a \<Longrightarrow> nearest distance point cs b \<Longrightarrow> a = b" by (meson linorder_neqE_nat)
qed

lemma assigned_unique: "assigned distance points cs a \<Longrightarrow> assigned distance points cs b \<Longrightarrow> a = b"
proof (rule nth_equalityI)
  assume ab: "assigned distance points cs a" "assigned distance points cs b"
  then show "length a = length b" by (simp add: assigned_def)
  fix k assume "k < length a"
  with ab have "nearest distance (points ! k) cs (a ! k)" "nearest distance (points ! k) cs (b ! k)" by (auto simp: assigned_def)
  then show "a ! k = b ! k" by (rule nearest_unique)
qed

lemma iterated_unique:
  assumes "\<forall>i < n. iterated distance points C A i" and "\<forall>i < n. iterated distance points D B i" and "C 0 = D 0" and "i \<le> n"
  shows "C i = D i"
  using assms(4)
proof (induction i)
  case (Suc i)
  with assms(1,2) have "iterated distance points C A i" "iterated distance points D B i" "C i = D i" by simp_all
  then show ?case by (auto simp: iterated_def dest: assigned_unique)
qed (use assms(3) in simp)

lemma tables_step:
  "(tables_of C A n)\<lparr>assignments_table := assignments_table (tables_of C A n) @ [(int n, a)],
     centroids_table := centroids_table (tables_of C A n) @ [(int n, cs)]\<rparr> = tables_of (C(Suc n := cs)) (A(n := a)) (Suc n)"
  "assignments_table (tables_of C A n) @ [(int n, a)] = map (\<lambda>i. (int i, (A(n := a)) i)) [0..<Suc n]"
  by (simp_all add: tables_of_def)

lemma find_iteration: "inj f \<Longrightarrow> i < n \<Longrightarrow> get_by_iteration (f i) (map (\<lambda>i. (f i, g i)) [0..<n]) = Some (g i)"
proof -
  assume f: "inj f" and i: "i < n"
  have "List.find (\<lambda>r. fst r = f i) (map (\<lambda>i. (f i, g i)) xs) = Some (f i, g i)" if "i \<in> set xs" for xs
    using that f by (induction xs) (auto dest: injD)
  with i show ?thesis by (simp add: get_by_iteration_def)
qed

lemma assignment_exists:
  assumes "centroids_ok lo hi cs"
  shows "\<exists>a. traverse (assign_point distance (Some cs)) points = Inr a \<and> assigned distance points cs a"
proof -
  have "cs \<noteq> []" using assms by (auto simp: centroids_ok_def CENTROIDS_COUNT_def)
  from traverse_assign_point [OF this] show ?thesis by (auto simp: assigned_def)
qed

lemma recalculated_means:
  assumes a: "assigned distance points cs a" and C: "centroids_ok lo hi cs"
    and P: "\<forall>p \<in> set points. in_box lo hi p" and box: "lo \<le> 0" "0 \<le> hi"
  shows "rbind (group_points points 0 a (replicate CENTROIDS_COUNT [])) (traverse avg) = Inr (means points a)"
    and "centroids_ok lo hi (means points a)"
proof -
  have len: "length a = length points" using a by (simp add: assigned_def)
  have small: "\<forall>c \<in> set a. c < CENTROIDS_COUNT"
    using a C by (auto simp: in_set_conv_nth nearest_def centroids_ok_def assigned_def)
  have sub: "set (members points a j) \<subseteq> set points" for j using len by (auto simp: members_def)
  have "group_points points 0 a (replicate CENTROIDS_COUNT []) = Inr (map (members points a) [0..<CENTROIDS_COUNT])"
    using len small by (intro group_points_members) simp_all
  moreover have "avg (members points a j) = Inr (map (mean_of (members points a j)) [0..<VECTOR_LENGTH])" for j
    using sub [of j] P by (intro avg_mean) (auto simp: in_box_def)
  ultimately show "rbind (group_points points 0 a (replicate CENTROIDS_COUNT [])) (traverse avg) = Inr (means points a)"
    by (simp add: traverse_Inr_iff list_all2_conv_all_nth means_def)
  have "lo \<le> mean_of (members points a j) i \<and> mean_of (members points a j) i \<le> hi" if "i < VECTOR_LENGTH" for i j
    using sub [of j] P that by (intro mean_bounds [OF _ box]) (auto simp: in_box_def)
  then show "centroids_ok lo hi (means points a)" by (auto simp: centroids_ok_def means_def in_box_def)
qed

lemma iteration_step:
  assumes C: "centroids_ok lo hi (C n)" and P: "\<forall>p \<in> set points. in_box lo hi p" and box: "lo \<le> 0" "0 \<le> hi"
  shows "\<exists>a cs. iteration distance points (int n) (tables_of C A n) = (tables_of (C(Suc n := cs)) (A(n := a)) (Suc n), Inr ()) \<and>
    iterated distance points (C(Suc n := cs)) (A(n := a)) n \<and> centroids_ok lo hi cs"
proof -
  from assignment_exists [OF C] obtain a where a: "traverse (assign_point distance (Some (C n))) points = Inr a"
    "assigned distance points (C n) a" by blast
  note cs = recalculated_means [OF a(2) C P box]
  have "get_by_iteration (int n - 1) (centroids_table (tables_of C A n)) = Some (C n)"
    using find_iteration [of "\<lambda>i. int i - 1" n "Suc n" C] by (simp add: tables_of_def inj_def del: upt_Suc)
  moreover have "get_by_iteration (int n) (assignments_table (tables_of C A n) @ [(int n, a)]) = Some a"
    unfolding tables_step by (subst find_iteration) (simp_all add: inj_def)
  ultimately have "iteration distance points (int n) (tables_of C A n) =
      ((tables_of C A n)\<lparr>assignments_table := assignments_table (tables_of C A n) @ [(int n, a)],
        centroids_table := centroids_table (tables_of C A n) @ [(int n, means points a)]\<rparr>, Inr ())"
    using a(1) cs(1) by (simp add: iteration_def sseq_def sbind_def assign_def recalculate_def)
  also have "\<dots> = (tables_of (C(Suc n := means points a)) (A(n := a)) (Suc n), Inr ())" by (simp only: tables_step(1))
  finally show ?thesis using a(2) cs(2) by (fastforce simp: iterated_def)
qed

lemma iterations_run:
  assumes C: "centroids_ok lo hi (C 0)" and P: "\<forall>p \<in> set points. in_box lo hi p" and box: "lo \<le> 0" "0 \<le> hi"
  shows "\<exists>D A. D 0 = C 0 \<and> seach (iteration distance points) (map int [0..<n]) (tables_of C A0 0) = (tables_of D A n, Inr ()) \<and>
    (\<forall>i < n. iterated distance points D A i) \<and> (\<forall>i \<le> n. centroids_ok lo hi (D i))"
proof (induction n)
  case 0
  show ?case by (rule exI [of _ C], rule exI [of _ A0]) (use C in simp)
next
  case (Suc n)
  then obtain D A where D: "D 0 = C 0" "seach (iteration distance points) (map int [0..<n]) (tables_of C A0 0) = (tables_of D A n, Inr ())"
    "\<forall>i < n. iterated distance points D A i" "\<forall>i \<le> n. centroids_ok lo hi (D i)" by blast
  have snoc: "seach f (xs @ [x]) s = (case seach f xs s of (s1, Inl e) \<Rightarrow> (s1, Inl e) | (s1, Inr _) \<Rightarrow> seach f [x] s1)"
    for f :: "int \<Rightarrow> ('a kmeans, unit) operation" and xs x s
    by (induction xs arbitrary: s) (auto split: prod.splits sum.splits)
  from D(4) iteration_step [OF _ P box, of D n distance A] obtain a cs where
    s: "iteration distance points (int n) (tables_of D A n) = (tables_of (D(Suc n := cs)) (A(n := a)) (Suc n), Inr ())"
    "iterated distance points (D(Suc n := cs)) (A(n := a)) n" "centroids_ok lo hi cs" by blast
  have "iterated distance points (D(Suc n := cs)) (A(n := a)) i" if "i < n" for i
    using D(3) that by (simp add: iterated_def)
  with D s show ?case
    by (intro exI [of _ "D(Suc n := cs)"] exI [of _ "A(n := a)"]) (auto simp: snoc less_Suc_eq le_Suc_eq simp del: fun_upd_apply simp: fun_upd_same fun_upd_other)
qed

lemma cluster_runs:
  assumes "\<forall>p \<in> set points. in_box lo hi p" and "\<forall>i j. lo \<le> random i j \<and> random i j \<le> hi" and "lo \<le> 0" and "0 \<le> hi"
  shows "\<exists>C A. cluster distance random n points \<lparr>centroids_table = [], assignments_table = []\<rparr> = (tables_of C A n, Inr (C n)) \<and>
    C 0 = map (\<lambda>i. map (random i) [0..<VECTOR_LENGTH]) [0..<CENTROIDS_COUNT] \<and>
    (\<forall>i < n. iterated distance points C A i) \<and> (\<forall>i \<le> n. centroids_ok lo hi (C i))"
proof -
  define C0 where "C0 = (\<lambda>i :: nat. map (\<lambda>i. map (random i) [0..<VECTOR_LENGTH]) [0..<CENTROIDS_COUNT])"
  have "centroids_ok lo hi (C0 0)" using assms(2) by (auto simp: centroids_ok_def C0_def in_box_def)
  from iterations_run [where C = C0 and distance = distance and n = n and ?A0.0 = "\<lambda>_. []", OF this assms(1,3,4)] obtain C A where C: "C 0 = C0 0"
    "seach (iteration distance points) (map int [0..<n]) (tables_of C0 (\<lambda>_. []) 0) = (tables_of C A n, Inr ())"
    "\<forall>i < n. iterated distance points C A i" "\<forall>i \<le> n. centroids_ok lo hi (C i)" by blast
  moreover have "intialize_centroids random \<lparr>centroids_table = [], assignments_table = []\<rparr> = (tables_of C0 (\<lambda>_. []) 0, Inr ())"
    by (simp add: intialize_centroids_def tables_of_def C0_def)
  moreover have "get_by_iteration (int n - 1) (centroids_table (tables_of C A n)) = Some (C n)"
    using find_iteration [of "\<lambda>i. int i - 1" n "Suc n" C] by (simp add: tables_of_def inj_def del: upt_Suc)
  ultimately show ?thesis
    by (intro exI [of _ C] exI [of _ A]) (simp add: cluster_def sseq_def sbind_def points_of_def C0_def)
qed

text \<open>C39: K-means keeps to its bounds. If the coordinates of the points and the random ones lie in an interval
  around 0, the clustering returns, without an error, 26 centroids of 16 coordinates in this interval; and for every
  iteration its tables hold, for every point, the first of the nearest centroids, and then as centroids the means
  of the points assigned to them, or the zero vector where there is none.\<close>

theorem clustering_bounds:
  assumes "\<forall>p \<in> set points. in_box lo hi p" and "\<forall>i j. lo \<le> random i j \<and> random i j \<le> hi" and "lo \<le> 0" and "0 \<le> hi"
  shows "\<exists>C A. cluster distance random n points \<lparr>centroids_table = [], assignments_table = []\<rparr> = (tables_of C A n, Inr (C n)) \<and>
    C 0 = map (\<lambda>i. map (random i) [0..<VECTOR_LENGTH]) [0..<CENTROIDS_COUNT] \<and>
    (\<forall>i < n. iterated distance points C A i) \<and> (\<forall>i \<le> n. centroids_ok lo hi (C i))"
  by (rule cluster_runs [OF assms])

theorem clustering_bounds_witness:
  "\<exists>C A. cluster (between (\<lambda>x. x)) (\<lambda>i j. of_nat (i mod 15)) (ITERATIONS True) [replicate 16 (3 :: rat), replicate 16 7]
       \<lparr>centroids_table = [], assignments_table = []\<rparr> = (tables_of C A 10, Inr (C 10)) \<and> centroids_ok 0 15 (C 10)"
proof -
  have "\<forall>p \<in> set [replicate 16 (3 :: rat), replicate 16 7]. in_box 0 15 p" by (auto simp: in_box_def VECTOR_LENGTH_def)
  moreover have "\<forall>i (j :: nat). 0 \<le> (of_nat (i mod 15) :: rat) \<and> of_nat (i mod 15) \<le> (15 :: rat)"
  proof (intro allI conjI)
    fix i j :: nat
    have "(of_nat (i mod 15) :: rat) \<le> of_nat 15" by (subst of_nat_le_iff) simp
    then show "(of_nat (i mod 15) :: rat) \<le> 15" by simp
  qed simp
  ultimately show ?thesis
    using clustering_bounds [where lo = 0 and hi = "15 :: rat" and n = "ITERATIONS True" and distance = "between (\<lambda>x. x)"
        and random = "\<lambda>i j. of_nat (i mod 15)"]
    by (fastforce simp: ITERATIONS_def)
qed

end
