(* ===== verification/Resumed_Clustering.thy ===== *)
theory Resumed_Clustering
  imports Task_Programs Clustering
begin

text \<open>
  The clustering of \<open>clustering/kmeans/clusterizer.py\<close> as the program of tasks that it is: what \<open>Clustering\<close> computes in
  one go is here executed by the executor, whose log lies in the same database as the tables of the
  clustering, and resumed from session to session. Every session draws its own random numbers.
\<close>

section \<open>The program\<close>

definition Clusterizer_iteration ::
  "'db environment \<Rightarrow> ('db, 'n kmeans) data_tables \<Rightarrow> (coordinates \<Rightarrow> fault option) \<Rightarrow>
   ('n::linordered_field list \<Rightarrow> 'n list \<Rightarrow> 'n) \<Rightarrow> 'n list list \<Rightarrow> int \<Rightarrow> 'db doing" where
  "Clusterizer_iteration env tab F distance points iter s =
     (let previous = get_by_iteration (iter - 1) (centroids_table (data_of tab (table s)))
      in and_then (run_step env ''assign'' (work tab F (assign distance points iter previous)))
           (run_step env ''recalculate'' (work tab F (recalculate points iter))) s)"

definition Clusterizer_run ::
  "'db environment \<Rightarrow> ('db, 'n kmeans) data_tables \<Rightarrow> (coordinates \<Rightarrow> fault option) \<Rightarrow>
   ('n::linordered_field list \<Rightarrow> 'n list \<Rightarrow> 'n) \<Rightarrow> (nat \<Rightarrow> nat \<Rightarrow> 'n) \<Rightarrow> nat \<Rightarrow> 'n list list \<Rightarrow> 'db doing" where
  "Clusterizer_run env tab F distance random iterations points =
     run_stage env (StrKey ''kmeans'')
       (and_then (run_step env ''intialize_centroids'' (work tab F (intialize_centroids random)))
          (run_stage env (StrKey ''iterations'')
             (for_each (\<lambda>i. run_stage env (IntKey (int i)) (Clusterizer_iteration env tab F distance points (int i))) [0..<iterations])))"

text \<open>What \<open>run\<close> returns when its stages have returned.\<close>

definition Clusterizer_result :: "('db, 'n kmeans) data_tables \<Rightarrow> nat \<Rightarrow> 'db \<Rightarrow> 'n list list res" where
  "Clusterizer_result tab iterations t =
     points_of (get_by_iteration (int iterations - 1) (centroids_table (data_of tab t)))"

section \<open>The tables at any time\<close>

text \<open>
  A step that was interrupted after its work is done once more, so that an iteration may have several rows. The
  first one counts, and every row holds what is computed from first rows.
\<close>

lemma get_append:
  "get_by_iteration i (t @ [(j, x)]) =
   (case get_by_iteration i t of Some y \<Rightarrow> Some y | None \<Rightarrow> if j = i then Some x else None)"
  by (induction t) (auto simp: get_by_iteration_def)

abbreviation centroids_at :: "int \<Rightarrow> 'n kmeans \<Rightarrow> 'n list list option" where
  "centroids_at i d \<equiv> get_by_iteration i (centroids_table d)"

abbreviation assignments_at :: "int \<Rightarrow> 'n kmeans \<Rightarrow> nat list option" where
  "assignments_at i d \<equiv> get_by_iteration i (assignments_table d)"

definition first_centroids :: "(nat \<Rightarrow> nat \<Rightarrow> 'n) \<Rightarrow> 'n list list" where
  "first_centroids random = map (\<lambda>i. map (random i) [0..<VECTOR_LENGTH]) [0..<CENTROIDS_COUNT]"

definition computed ::
  "('n::linordered_field list \<Rightarrow> 'n list \<Rightarrow> 'n) \<Rightarrow> 'n list list \<Rightarrow> 'n \<Rightarrow> 'n \<Rightarrow> (nat \<Rightarrow> nat \<Rightarrow> 'n) set \<Rightarrow> 'n kmeans \<Rightarrow> bool" where
  "computed distance points lo hi drawn d \<longleftrightarrow>
     (\<forall>cs. centroids_at (-1) d = Some cs \<longrightarrow> cs \<in> first_centroids ` drawn) \<and>
     (\<forall>i cs. centroids_at (int i) d = Some cs \<longrightarrow> (\<exists>a. assignments_at (int i) d = Some a \<and> cs = means points a)) \<and>
     (\<forall>i a. assignments_at (int i) d = Some a \<longrightarrow> (\<exists>cs. centroids_at (int i - 1) d = Some cs \<and> assigned distance points cs a)) \<and>
     (\<forall>i cs. centroids_at (int i - 1) d = Some cs \<longrightarrow> centroids_ok lo hi cs)"

definition iteration_path :: "int \<Rightarrow> string \<Rightarrow> task_key list" where
  "iteration_path i name = [StrKey ''kmeans'', StrKey ''iterations'', IntKey i, StrKey name]"

definition left_by_step :: "coordinates \<Rightarrow> 'n kmeans \<Rightarrow> bool" where
  "left_by_step c d \<longleftrightarrow>
     (path c = [StrKey ''kmeans'', StrKey ''intialize_centroids''] \<longrightarrow> centroids_at (-1) d \<noteq> None) \<and>
     (\<forall>i. path c = iteration_path i ''assign'' \<longrightarrow> assignments_at i d \<noteq> None) \<and>
     (\<forall>i. path c = iteration_path i ''recalculate'' \<longrightarrow> centroids_at i d \<noteq> None)"

lemma left_by_step_stays:
  assumes "left_by_step c d"
  shows "left_by_step c (d\<lparr>centroids_table := centroids_table d @ [r]\<rparr>)"
    and "left_by_step c (d\<lparr>assignments_table := assignments_table d @ [u]\<rparr>)"
  using assms by (cases r; cases u; auto simp: left_by_step_def get_append split: option.splits)+

lemma computed_mono: "computed distance points lo hi drawn d \<Longrightarrow> drawn \<subseteq> drawn' \<Longrightarrow> computed distance points lo hi drawn' d"
  unfolding computed_def by blast

lemma computedD:
  assumes "computed distance points lo hi drawn d"
  shows "centroids_at (-1) d = Some cs \<Longrightarrow> cs \<in> first_centroids ` drawn"
    and "centroids_at (int i) d = Some cs \<Longrightarrow> \<exists>a. assignments_at (int i) d = Some a \<and> cs = means points a"
    and "assignments_at (int i) d = Some a \<Longrightarrow> \<exists>cs. centroids_at (int i - 1) d = Some cs \<and> assigned distance points cs a"
    and "centroids_at (int i - 1) d = Some cs \<Longrightarrow> centroids_ok lo hi cs"
  using assms unfolding computed_def by blast+

section \<open>The steps\<close>

lemma initialize_step:
  assumes d: "computed distance points lo hi drawn d" and r: "random \<in> drawn" "\<forall>i j. lo \<le> random i j \<and> random i j \<le> hi"
  shows "\<exists>d'. intialize_centroids random d = (d', Inr ()) \<and> computed distance points lo hi drawn d' \<and>
    centroids_at (-1) d' \<noteq> None \<and> (\<forall>x. left_by_step x d \<longrightarrow> left_by_step x d')"
proof -
  let ?d = "d\<lparr>centroids_table := centroids_table d @ [(-1, first_centroids random)]\<rparr>"
  have "centroids_ok lo hi (first_centroids random)" using r(2) by (auto simp: centroids_ok_def first_centroids_def in_box_def)
  moreover have rows: "centroids_at j ?d =
      (if centroids_at j d = None \<and> j = -1 then Some (first_centroids random) else centroids_at j d)" for j
    by (simp add: get_append split: option.split)
  moreover have "assignments_table ?d = assignments_table d" by simp
  ultimately have "computed distance points lo hi drawn ?d"
    unfolding computed_def rows
  proof (intro conjI allI impI)
    fix i a assume "assignments_at (int i) ?d = Some a"
    with computedD(3) [OF d] show "\<exists>cs. (if centroids_at (int i - 1) d = None \<and> int i - 1 = - 1 then Some (first_centroids random)
        else centroids_at (int i - 1) d) = Some cs \<and> assigned distance points cs a" by fastforce
  qed (use computedD [OF d] r(1) in \<open>auto split: if_splits\<close>)
  moreover have "intialize_centroids random d = (?d, Inr ())" by (simp add: intialize_centroids_def first_centroids_def)
  moreover have "centroids_at (-1) ?d \<noteq> None" by (simp add: get_append split: option.split)
  ultimately show ?thesis using left_by_step_stays(1) by blast
qed

lemma assign_step:
  assumes d: "computed distance points lo hi drawn d" and cs: "centroids_at (int i - 1) d = Some cs"
  shows "\<exists>d'. assign distance points (int i) (Some cs) d = (d', Inr ()) \<and> computed distance points lo hi drawn d' \<and>
    assignments_at (int i) d' \<noteq> None \<and> centroids_table d' = centroids_table d \<and> (\<forall>x. left_by_step x d \<longrightarrow> left_by_step x d')"
proof -
  from d cs have "centroids_ok lo hi cs" by (auto simp: computed_def)
  from assignment_exists [OF this] obtain a where a: "traverse (assign_point distance (Some cs)) points = Inr a"
    "assigned distance points cs a" by blast
  let ?d = "d\<lparr>assignments_table := assignments_table d @ [(int i, a)]\<rparr>"
  have rows: "assignments_at j ?d = (if assignments_at j d = None \<and> j = int i then Some a else assignments_at j d)" for j
    by (simp add: get_append split: option.split)
  have "computed distance points lo hi drawn ?d"
    unfolding computed_def rows using computedD [OF d] cs a(2) by (auto split: if_splits) (metis option.distinct(1))+
  moreover have "assign distance points (int i) (Some cs) d = (?d, Inr ())" using a(1) by (simp add: assign_def)
  moreover have "assignments_at (int i) ?d \<noteq> None" by (simp add: get_append split: option.split)
  ultimately show ?thesis using left_by_step_stays(2) [of _ d] by fastforce
qed

lemma recalculate_step:
  assumes d: "computed distance points lo hi drawn d" and a: "assignments_at (int i) d = Some a"
    and P: "\<forall>p \<in> set points. in_box lo hi p" and box: "lo \<le> 0" "0 \<le> hi"
  shows "\<exists>d'. recalculate points (int i) d = (d', Inr ()) \<and> computed distance points lo hi drawn d' \<and>
    (\<forall>j. centroids_at j d \<noteq> None \<longrightarrow> centroids_at j d' \<noteq> None) \<and> centroids_at (int i) d' \<noteq> None \<and>
    (\<forall>x. left_by_step x d \<longrightarrow> left_by_step x d')"
proof -
  from d a obtain cs where cs: "assigned distance points cs a" "centroids_ok lo hi cs"
    unfolding computed_def by blast
  note means = recalculated_means [OF cs P box]
  let ?d = "d\<lparr>centroids_table := centroids_table d @ [(int i, means points a)]\<rparr>"
  have rows: "centroids_at j ?d = (if centroids_at j d = None \<and> j = int i then Some (means points a) else centroids_at j d)" for j
    by (simp add: get_append split: option.split)
  have "computed distance points lo hi drawn ?d"
    unfolding computed_def rows using computedD [OF d] a means(2) by (auto split: if_splits) (metis option.distinct(1))+
  moreover have "recalculate points (int i) d = (?d, Inr ())" using a means(1) by (simp add: recalculate_def)
  moreover have "\<forall>j. centroids_at j d \<noteq> None \<longrightarrow> centroids_at j ?d \<noteq> None" "centroids_at (int i) ?d \<noteq> None"
    by (auto simp: get_append split: option.split)
  ultimately show ?thesis using left_by_step_stays(1) by blast
qed

section \<open>The program performs the clustering\<close>

definition clustering_application where
  "clustering_application env tab F distance points lo hi drawn =
     \<lparr>app_env = env, app_tables = tab, app_faults = F, app_invariant = computed distance points lo hi drawn,
      app_left_by = left_by_step\<rparr>"

lemma clustering_application_simps [simp]:
  "app_env (clustering_application env tab F distance points lo hi drawn) = env"
  "app_tables (clustering_application env tab F distance points lo hi drawn) = tab"
  "app_faults (clustering_application env tab F distance points lo hi drawn) = F"
  "app_invariant (clustering_application env tab F distance points lo hi drawn) = computed distance points lo hi drawn"
  "app_left_by (clustering_application env tab F distance points lo hi drawn) = left_by_step"
  by (simp_all add: clustering_application_def)

definition up_to :: "nat \<Rightarrow> 'n kmeans \<Rightarrow> bool" where
  "up_to n d \<longleftrightarrow> (\<forall>i \<le> n. centroids_at (int i - 1) d \<noteq> None)"

definition iteration_steps :: "int \<Rightarrow> coordinates list" where
  "iteration_steps i =
     [\<lparr>path = iteration_path i ''assign'', order_of = [0, 1, i, 0], type_of = STEP\<rparr>,
      \<lparr>path = iteration_path i ''recalculate'', order_of = [0, 1, i, 1], type_of = STEP\<rparr>]"

definition clustering_steps :: "nat \<Rightarrow> coordinates list" where
  "clustering_steps n =
     \<lparr>path = [StrKey ''kmeans'', StrKey ''intialize_centroids''], order_of = [0, 0], type_of = STEP\<rparr> #
     concat (map (\<lambda>i. iteration_steps (int i)) [0..<n])"

lemma length_clustering_steps: "length (clustering_steps n) = Suc (2 * n)"
  by (simp add: clustering_steps_def iteration_steps_def length_concat comp_def sum_list_triv)

lemma plain_names:
  "plain_key (StrKey ''kmeans'')" "plain_key (StrKey ''iterations'')" "plain_key (StrKey ''intialize_centroids'')"
  "plain_key (StrKey ''assign'')" "plain_key (StrKey ''recalculate'')" "plain_key (IntKey i)"
  by (simp add: plain_key_def; fail | code_simp)+

lemma iteration_performs:
  assumes A: "application_ok (clustering_application env tab F distance points lo hi drawn)"
    and P: "\<forall>p \<in> set points. in_box lo hi p" and box: "lo \<le> 0" "0 \<le> hi"
  shows "performs (clustering_application env tab F distance points lo hi drawn) False
    [StrKey ''kmeans'', StrKey ''iterations'', IntKey (int i)] [0, 1, int i] 0 (up_to i)
    (Clusterizer_iteration env tab F distance points (int i)) 2 (up_to (Suc i)) (iteration_steps (int i))"
proof -
  let ?A = "clustering_application env tab F distance points lo hi drawn"
  let ?p = "[StrKey ''kmeans'', StrKey ''iterations'', IntKey (int i)]"
  let ?c1 = "\<lparr>path = iteration_path (int i) ''assign'', order_of = [0, 1, int i, 0], type_of = STEP\<rparr>"
  let ?c2 = "\<lparr>path = iteration_path (int i) ''recalculate'', order_of = [0, 1, int i, 1], type_of = STEP\<rparr>"
  let ?middle = "\<lambda>d. up_to i d \<and> assignments_at (int i) d \<noteq> None"
  have assign: "performs ?A False ?p [0, 1, int i] 0 (\<lambda>d. up_to i d \<and> centroids_at (int i - 1) d = v)
      (run_step (app_env ?A) ''assign'' (work (app_tables ?A) (app_faults ?A) (assign distance points (int i) v))) (0 + 1) ?middle [?c1]" for v
  proof (rule performs_step [OF A plain_names(4)])
    show "?c1 = \<lparr>path = ?p @ [StrKey ''assign''], order_of = [0, 1, int i] @ [0], type_of = STEP\<rparr>"
      by (simp add: iteration_path_def)
  next
    fix d assume "up_to i d \<and> centroids_at (int i - 1) d = v" "app_left_by ?A ?c1 d"
    then show "?middle d" by (auto simp: left_by_step_def)
  next
    fix d assume d: "app_invariant ?A d" "up_to i d \<and> centroids_at (int i - 1) d = v"
    then obtain cs where cs: "centroids_at (int i - 1) d = Some cs" "v = Some cs" by (auto simp: up_to_def)
    from assign_step [OF d(1) [unfolded clustering_application_simps] cs(1)] obtain d' where
      d': "assign distance points (int i) v d = (d', Inr ())" "computed distance points lo hi drawn d'"
        "assignments_at (int i) d' \<noteq> None" "centroids_table d' = centroids_table d" "\<forall>x. left_by_step x d \<longrightarrow> left_by_step x d'"
      unfolding cs(2) by blast
    moreover have "left_by_step ?c1 d'" using d'(3) by (simp add: left_by_step_def iteration_path_def)
    ultimately show "\<exists>d'. assign distance points (int i) v d = (d', Inr ()) \<and> app_invariant ?A d' \<and> app_left_by ?A ?c1 d' \<and>
        ?middle d' \<and> (\<forall>x. app_left_by ?A x d \<longrightarrow> app_left_by ?A x d')"
      using d(2) by (auto simp: up_to_def)
  qed
  have recalculate: "performs ?A False ?p [0, 1, int i] (0 + 1) ?middle
      (run_step (app_env ?A) ''recalculate'' (work (app_tables ?A) (app_faults ?A) (recalculate points (int i)))) (0 + 1 + 1) (up_to (Suc i)) [?c2]"
  proof (rule performs_step [OF A plain_names(5)])
    show "?c2 = \<lparr>path = ?p @ [StrKey ''recalculate''], order_of = [0, 1, int i] @ [0 + 1], type_of = STEP\<rparr>"
      by (simp add: iteration_path_def)
  next
    fix d assume "?middle d" "app_left_by ?A ?c2 d"
    then show "up_to (Suc i) d" by (auto simp: left_by_step_def up_to_def le_Suc_eq)
  next
    fix d assume d: "app_invariant ?A d" "?middle d"
    then obtain a where "assignments_at (int i) d = Some a" by blast
    from recalculate_step [OF d(1) [unfolded clustering_application_simps] this P box] obtain d' where
      d': "recalculate points (int i) d = (d', Inr ())" "computed distance points lo hi drawn d'"
        "\<forall>j. centroids_at j d \<noteq> None \<longrightarrow> centroids_at j d' \<noteq> None" "centroids_at (int i) d' \<noteq> None"
        "\<forall>x. left_by_step x d \<longrightarrow> left_by_step x d'" by blast
    moreover have "left_by_step ?c2 d'" using d'(4) by (simp add: left_by_step_def iteration_path_def)
    moreover have "up_to (Suc i) d'" using d(2) d'(3,4) by (auto simp: up_to_def le_Suc_eq simp del: not_None_eq)
    ultimately show "\<exists>d'. recalculate points (int i) d = (d', Inr ()) \<and> app_invariant ?A d' \<and> app_left_by ?A ?c2 d' \<and>
        up_to (Suc i) d' \<and> (\<forall>x. app_left_by ?A x d \<longrightarrow> app_left_by ?A x d')"
      by simp
  qed
  have "performs ?A False ?p [0, 1, int i] 0 (\<lambda>d. up_to i d \<and> centroids_at (int i - 1) d = v)
      (and_then (run_step env ''assign'' (work tab F (assign distance points (int i) v)))
        (run_step env ''recalculate'' (work tab F (recalculate points (int i))))) 2 (up_to (Suc i)) (iteration_steps (int i))" for v
    using performs_then [OF assign [of v] recalculate] by (simp add: iteration_steps_def)
  from performs_reads [where get = "centroids_at (int i - 1)", OF this] show ?thesis
    unfolding Clusterizer_iteration_def Let_def clustering_application_simps .
qed

lemma clustering_performs:
  assumes A: "application_ok (clustering_application env tab F distance points lo hi drawn)"
    and P: "\<forall>p \<in> set points. in_box lo hi p" and box: "lo \<le> 0" "0 \<le> hi"
    and r: "random \<in> drawn" "\<forall>i j. lo \<le> random i j \<and> random i j \<le> hi"
  shows "performs (clustering_application env tab F distance points lo hi drawn) True [] [] 0 (\<lambda>_. True)
    (Clusterizer_run env tab F distance random n points) 1 (up_to n) (clustering_steps n)"
proof -
  let ?A = "clustering_application env tab F distance points lo hi drawn"
  let ?p = "[StrKey ''kmeans'', StrKey ''iterations'']"
  let ?c = "\<lparr>path = [StrKey ''kmeans'', StrKey ''intialize_centroids''], order_of = [0, 0], type_of = STEP\<rparr>"
  have init: "performs ?A False [StrKey ''kmeans''] [0] 0 (\<lambda>_. True)
      (run_step (app_env ?A) ''intialize_centroids'' (work (app_tables ?A) (app_faults ?A) (intialize_centroids random))) (0 + 1) (up_to 0) [?c]"
  proof (rule performs_step [OF A plain_names(3)])
    fix d assume "app_invariant ?A d"
    from initialize_step [OF this [unfolded clustering_application_simps] r] obtain d' where
      "intialize_centroids random d = (d', Inr ())" "computed distance points lo hi drawn d'" "centroids_at (-1) d' \<noteq> None"
      "\<forall>x. left_by_step x d \<longrightarrow> left_by_step x d'" by blast
    moreover from this(3) have "left_by_step ?c d'" by (simp add: left_by_step_def iteration_path_def)
    ultimately show "\<exists>d'. intialize_centroids random d = (d', Inr ()) \<and> app_invariant ?A d' \<and> app_left_by ?A ?c d' \<and> up_to 0 d' \<and>
        (\<forall>x. app_left_by ?A x d \<longrightarrow> app_left_by ?A x d')"
      by (simp add: up_to_def)
  qed (auto simp: left_by_step_def up_to_def)
  have each: "performs ?A False ?p [0, 1] (0 + int i) (up_to i)
      (run_stage (app_env ?A) (IntKey (int i)) (Clusterizer_iteration env tab F distance points (int i)))
      (0 + int (Suc i)) (up_to (Suc i)) (iteration_steps (int i))" for i
  proof -
    have "performs ?A False (?p @ [IntKey (int i)]) ([0, 1] @ [int i]) 0 (up_to i)
        (Clusterizer_iteration env tab F distance points (int i)) 2 (up_to (Suc i)) (iteration_steps (int i))"
      using iteration_performs [OF A P box, of i] by simp
    from performs_stage [OF A plain_names(6) _ this, where root = False] show ?thesis by (simp add: add.commute)
  qed
  have "performs ?A False ?p [0, 1] 0 (up_to 0)
      (for_each (\<lambda>i. run_stage (app_env ?A) (IntKey (int i)) (Clusterizer_iteration env tab F distance points (int i))) [0..<n])
      (0 + int n) (up_to n) (concat (map (\<lambda>i. iteration_steps (int i)) [0..<n]))"
    by (rule performs_each [where P = up_to and i = 0]) (rule each)
  then have "performs ?A False [StrKey ''kmeans''] [0] (0 + 1) (up_to 0)
      (run_stage (app_env ?A) (StrKey ''iterations'')
        (for_each (\<lambda>i. run_stage (app_env ?A) (IntKey (int i)) (Clusterizer_iteration env tab F distance points (int i))) [0..<n]))
      (0 + 1 + 1) (up_to n) (concat (map (\<lambda>i. iteration_steps (int i)) [0..<n]))"
    by (intro performs_stage [OF A plain_names(2)]) simp_all
  from performs_then [OF init this] have "performs ?A False ([] @ [StrKey ''kmeans'']) ([] @ [0]) 0 (\<lambda>_. True)
      (and_then (run_step (app_env ?A) ''intialize_centroids'' (work (app_tables ?A) (app_faults ?A) (intialize_centroids random)))
        (run_stage (app_env ?A) (StrKey ''iterations'')
          (for_each (\<lambda>i. run_stage (app_env ?A) (IntKey (int i)) (Clusterizer_iteration env tab F distance points (int i))) [0..<n])))
      (0 + 1 + 1) (up_to n) (clustering_steps n)"
    by (simp add: clustering_steps_def)
  from performs_stage [OF A plain_names(1) _ this, where root = True] show ?thesis by (simp add: Clusterizer_run_def)
qed

section \<open>What the tables hold at the end\<close>

text \<open>Tables that reach up to the last iteration hold the clustering of the first centroids that were drawn.\<close>

lemma computed_result:
  assumes d: "computed distance points lo hi drawn d" and up: "up_to n d"
    and drawn: "\<forall>random \<in> drawn. \<forall>i j. lo \<le> random i j \<and> random i j \<le> hi"
    and P: "\<forall>p \<in> set points. in_box lo hi p" and box: "lo \<le> 0" "0 \<le> hi"
  shows "\<exists>random \<in> drawn. points_of (centroids_at (int n - 1) d) =
    snd (cluster distance random n points \<lparr>centroids_table = [], assignments_table = []\<rparr>)"
proof -
  define C where "C = (\<lambda>i :: nat. the (centroids_at (int i - 1) d))"
  define A where "A = (\<lambda>i :: nat. the (assignments_at (int i) d))"
  have C: "centroids_at (int i - 1) d = Some (C i)" if "i \<le> n" for i using up that by (auto simp: up_to_def C_def)
  have "iterated distance points C A i" if "i < n" for i
  proof -
    have "centroids_at (int i) d = Some (C (Suc i))" using C [of "Suc i"] that by simp
    from computedD(2) [OF d this] obtain a where a: "assignments_at (int i) d = Some a" "C (Suc i) = means points a" by blast
    from computedD(3) [OF d a(1)] C [of i] that have "assigned distance points (C i) a" by auto
    with a show ?thesis by (simp add: iterated_def A_def)
  qed
  then have it: "\<forall>i < n. iterated distance points C A i" by blast
  have "centroids_at (- 1) d = Some (C 0)" using C [of 0] by simp
  from computedD(1) [OF d this] obtain random where r: "random \<in> drawn" "C 0 = first_centroids random" by blast
  have "\<forall>i j. lo \<le> random i j \<and> random i j \<le> hi" using drawn r(1) by blast
  from cluster_runs [OF P this box, where distance = distance and n = n, folded first_centroids_def] obtain D B where
    D: "cluster distance random n points \<lparr>centroids_table = [], assignments_table = []\<rparr> = (tables_of D B n, Inr (D n))"
      "D 0 = first_centroids random" "\<forall>i < n. iterated distance points D B i"
    by (elim exE conjE)
  have "C 0 = D 0" using r(2) D(2) by simp
  from iterated_unique [OF it D(3) this order_refl] have "C n = D n" .
  with r(1) D(1) C [of n] show ?thesis by (intro bexI [of _ random]) (simp_all add: points_of_def)
qed

section \<open>Clustering in sessions\<close>

text \<open>The program of each session, with its own random numbers and faults.\<close>

definition clustering_in ::
  "'db environment \<Rightarrow> ('db, 'n kmeans) data_tables \<Rightarrow> (nat \<Rightarrow> coordinates \<Rightarrow> fault option) \<Rightarrow>
   ('n::linordered_field list \<Rightarrow> 'n list \<Rightarrow> 'n) \<Rightarrow> (nat \<Rightarrow> nat \<Rightarrow> nat \<Rightarrow> 'n) \<Rightarrow> nat \<Rightarrow> 'n list list \<Rightarrow> nat \<Rightarrow> 'db doing" where
  "clustering_in env tab F distance random iterations points k =
     Clusterizer_run env tab (F k) distance (random k) iterations points"

text \<open>C9: A clustering that is resumed computes what one that is never interrupted computes. Let sessions follow each other
  on one database, each with random numbers of its own, and let their steps fail, before or after their work is
  done, but none in two consecutive sessions. Then from the session whose number is the number of steps on,
  every session returns, and its result is that of clustering in one go with the random numbers of one of
  the sessions so far.\<close>

theorem resumed_clustering:
  assumes "dependable env" and "separate_tables env tab"
    and "tdb_all (database env) t = []" and "data_of tab t = \<lparr>centroids_table = [], assignments_table = []\<rparr>"
    and "\<forall>p \<in> set points. in_box lo hi p" and "\<forall>k i j. lo \<le> random k i j \<and> random k i j \<le> hi" and "lo \<le> 0" and "0 \<le> hi"
    and "\<forall>k c x. F k c = Some x \<longrightarrow> passes (fault_exn x) \<and> F (Suc k) c = None"
    and "Suc (2 * iterations) \<le> n"
  shows "program_result env pointer (clustering_in env tab F distance random iterations points) t n = None \<and>
    (\<exists>k \<le> n. Clusterizer_result tab iterations
        (database_before env pointer (clustering_in env tab F distance random iterations points) t (Suc n)) =
      snd (cluster distance (random k) iterations points \<lparr>centroids_table = [], assignments_table = []\<rparr>))"
proof -
  let ?program = "clustering_in env tab F distance random iterations points"
  let ?final = "database_before env pointer ?program t (Suc n)"
  define A where "A = (\<lambda>k. clustering_application env tab (F k) distance points lo hi (random ` {..k}))"
  have A: "application_ok (A k)" for k
    using assms(1,2,9) by (auto simp: A_def application_ok_def raised_by_def)
  have performs: "performs (A k) True [] [] 0 (\<lambda>_. True) (?program k) 1 (up_to iterations) (clustering_steps iterations)" for k
    unfolding A_def clustering_in_def
    by (rule clustering_performs [OF A [unfolded A_def] assms(5,7,8)]) (use assms(6) in auto)
  have "random ` {..k} \<subseteq> random ` {..Suc k}" for k by auto
  then have carried: "\<forall>k t. kept (A k) t \<longrightarrow> kept (A (Suc k)) t" by (auto simp: A_def kept_def intro: computed_mono)
  have transient: "\<forall>k c x. app_faults (A k) c = Some x \<longrightarrow> app_faults (A (Suc k)) c = None" using assms(9) by (auto simp: A_def)
  have start: "table_ok (tdb_all (database env) t)" "kept (A 0) t"
    using assms(3,4) by (simp_all add: A_def kept_def computed_def get_by_iteration_def recorded_def)
  have env: "app_env (A k) = env" "app_tables (A k) = tab" for k by (simp_all add: A_def)
  have len: "length (clustering_steps iterations) \<le> n" using assms(10) by (simp add: length_clustering_steps)
  note finish = programs_finish [where program = ?program and A = A and pointer = pointer, OF A env performs TrueI carried transient start len]
  from finish(3) have "computed distance points lo hi (random ` {..n}) (data_of tab ?final)"
    by (simp add: kept_def A_def del: database_before.simps)
  from computed_result [OF this finish(2) _ assms(5,7,8)] assms(6)
  have "\<exists>r \<in> random ` {..n}. Clusterizer_result tab iterations ?final =
      snd (cluster distance r iterations points \<lparr>centroids_table = [], assignments_table = []\<rparr>)"
    unfolding Clusterizer_result_def by blast
  with finish(1) show ?thesis by auto
qed

text \<open>The short run of the application, whose steps fail in turn, each after its work.\<close>

definition ex_memory_env :: "(execution_record list \<times> rat kmeans) environment" where
  "ex_memory_env =
     \<lparr>clock_at = int, callback_raises = (\<lambda>_. None),
      database = \<lparr>tdb_all = fst, tdb_search = (\<lambda>q t. filter q (fst t)), tdb_insert = (\<lambda>r t. (fst t @ [r], snd t))\<rparr>\<rparr>"

definition ex_kmeans_tables :: "(execution_record list \<times> rat kmeans, rat kmeans) data_tables" where
  "ex_kmeans_tables = \<lparr>data_of = snd, put_data = (\<lambda>d t. (fst t, d))\<rparr>"

definition ex_late_faults :: "nat \<Rightarrow> coordinates \<Rightarrow> fault option" where
  "ex_late_faults k c = (if even k \<and> type_of c = STEP then Some (After (AppError k)) else None)"

theorem resumed_clustering_witness:
  "program_result ex_memory_env (\<lambda>k. (k, 0))
     (clustering_in ex_memory_env ex_kmeans_tables ex_late_faults (between (\<lambda>x. x)) (\<lambda>k i j. of_nat (k mod 15)) (ITERATIONS True)
       [replicate 16 (3 :: rat), replicate 16 7]) ([], \<lparr>centroids_table = [], assignments_table = []\<rparr>) 21 = None"
proof -
  have "\<forall>p \<in> set [replicate 16 (3 :: rat), replicate 16 7]. in_box 0 15 p" by (auto simp: in_box_def VECTOR_LENGTH_def)
  moreover have "\<forall>k (i :: nat) (j :: nat). 0 \<le> (of_nat (k mod 15) :: rat) \<and> of_nat (k mod 15) \<le> (15 :: rat)"
  proof (intro allI conjI)
    fix k i j :: nat
    have "(of_nat (k mod 15) :: rat) \<le> of_nat 15" by (subst of_nat_le_iff) simp
    then show "(of_nat (k mod 15) :: rat) \<le> 15" by simp
  qed simp
  moreover have "dependable ex_memory_env" by (simp add: dependable_def tinydb_contract_def ex_memory_env_def)
  moreover have "separate_tables ex_memory_env ex_kmeans_tables" by (simp add: separate_tables_def ex_memory_env_def ex_kmeans_tables_def)
  moreover have "\<forall>k c x. ex_late_faults k c = Some x \<longrightarrow> passes (fault_exn x) \<and> ex_late_faults (Suc k) c = None"
    by (auto simp: ex_late_faults_def passes_def)
  ultimately show ?thesis
    by (intro conjunct1 [OF resumed_clustering [where lo = 0 and hi = 15]]) (simp_all add: ITERATIONS_def ex_memory_env_def ex_kmeans_tables_def)
qed

end
