(* ===== verification/Programming.thy ===== *)
theory Programming
  imports Py_Strings State_Result
begin

text \<open>
  Small helpers of \<open>thinking_programming\<close>: \<open>singleton.py\<close>, whose objects are the kinds of dependencies of
  \<open>thinking_injection/common/dependencies.py\<close>; \<open>str.py\<close>, the texts of objects; \<open>tracing.py\<close>, which logs calls.

  Classes and objects are numbers. What the interpreter knows of a class is its method resolution order.
\<close>

section \<open>One object for each class\<close>

text \<open>
  The attribute \<open>__instance__\<close> of each class that has one, and the classes of the objects made so far, by number.
\<close>

record singletons =
  instance_attribute :: "nat \<Rightarrow> nat option"
  class_of_object :: "nat list"

text \<open>Reading \<open>cls.__instance__\<close> follows the method resolution order.\<close>

fun read_instance :: "(nat \<Rightarrow> nat option) \<Rightarrow> nat list \<Rightarrow> nat res" where
  "read_instance a [] = Inl AttributeError"
| "read_instance a (c # cs) = (case a c of Some x \<Rightarrow> Inr x | None \<Rightarrow> read_instance a cs)"

text \<open>\<open>object.__new__\<close> takes no arguments but the class when \<open>__new__\<close> is overridden, as it is here.\<close>

definition NastySingleton_new :: "(nat \<Rightarrow> nat list) \<Rightarrow> nat \<Rightarrow> 'v list \<Rightarrow> singletons \<Rightarrow> singletons \<times> nat res" where
  "NastySingleton_new mro c args s =
     (case read_instance (instance_attribute s) (mro c) of
        Inr x \<Rightarrow> (s, Inr x)
      | Inl _ \<Rightarrow>
          (if args \<noteq> [] then (s, Inl TypeError)
           else (let x = length (class_of_object s)
                 in (\<lparr>instance_attribute = (instance_attribute s)(c := Some x), class_of_object = class_of_object s @ [c]\<rparr>,
                     Inr x))))"

text \<open>A sequence of calls without arguments, and what each returned.\<close>

fun new_each :: "(nat \<Rightarrow> nat list) \<Rightarrow> nat list \<Rightarrow> singletons \<Rightarrow> singletons \<times> nat res list" where
  "new_each mro [] s = (s, [])"
| "new_each mro (c # cs) s =
     (case NastySingleton_new mro c ([] :: unit list) s of (s1, r) \<Rightarrow>
        case new_each mro cs s1 of (s2, rs) \<Rightarrow> (s2, r # rs))"

text \<open>Every attribute refers to an object of its own class, and every class has itself as the first of its order.\<close>

definition singletons_ok :: "singletons \<Rightarrow> bool" where
  "singletons_ok s \<longleftrightarrow>
     (\<forall>c x. instance_attribute s c = Some x \<longrightarrow> x < length (class_of_object s) \<and> class_of_object s ! x = c)"

definition own_first :: "(nat \<Rightarrow> nat list) \<Rightarrow> bool" where
  "own_first mro \<longleftrightarrow> (\<forall>c. mro c \<noteq> [] \<and> hd (mro c) = c)"

text \<open>With single inheritance the order of a class is followed by that of its base.\<close>

definition single_inheritance :: "(nat \<Rightarrow> nat list) \<Rightarrow> bool" where
  "single_inheritance mro \<longleftrightarrow>
     own_first mro \<and> (\<forall>c. distinct (mro c)) \<and> (\<forall>c. \<forall>b \<in> set (mro c). \<exists>below. mro c = below @ mro b)"

lemma singletons_ok_start: "singletons_ok \<lparr>instance_attribute = (\<lambda>_. None), class_of_object = []\<rparr>"
  by (simp add: singletons_ok_def)

lemma singletons_ok_new: "singletons_ok s \<Longrightarrow> NastySingleton_new mro c args s = (s', r) \<Longrightarrow> singletons_ok s'"
  by (fastforce simp: NastySingleton_new_def singletons_ok_def nth_append Let_def split: sum.splits if_splits)

lemma read_instance_none: "read_instance a cs = Inl e \<longleftrightarrow> (\<forall>c \<in> set cs. a c = None) \<and> e = AttributeError"
  by (induction cs) (auto split: option.splits)

lemma read_instance_append:
  "read_instance a (cs @ ds) = (case read_instance a cs of Inr x \<Rightarrow> Inr x | Inl _ \<Rightarrow> read_instance a ds)"
  by (induction cs) (auto split: option.splits)

lemma read_instance_some:
  "read_instance a cs = Inr x \<Longrightarrow> \<exists>c \<in> set cs. a c = Some x"
  by (induction cs) (auto split: option.splits)

text \<open>The object that is returned is of the class, or of a base that had an object before.\<close>

lemma new_class:
  assumes "singletons_ok s" and "own_first mro" and "NastySingleton_new mro c args s = (s', Inr x)"
  shows "class_of_object s' ! x \<in> set (mro c)"
    and "class_of_object s' ! x \<noteq> c \<Longrightarrow> instance_attribute s (class_of_object s' ! x) = Some x"
proof -
  have "hd (mro c) = c" "mro c \<noteq> []" using assms(2) by (simp_all add: own_first_def)
  then have c: "c \<in> set (mro c)" by (metis hd_in_set)
  show "class_of_object s' ! x \<in> set (mro c)"
    and "class_of_object s' ! x \<noteq> c \<Longrightarrow> instance_attribute s (class_of_object s' ! x) = Some x"
    using assms(1,3) c
    by (auto simp: NastySingleton_new_def singletons_ok_def Let_def dest!: read_instance_some split: sum.splits if_splits)
qed

text \<open>A class that has an object of its own keeps it, whatever is called in between.\<close>

lemma new_keeps:
  assumes "own_first mro" and "instance_attribute s c = Some x" and "NastySingleton_new mro d args s = (s', r)"
  shows "instance_attribute s' c = Some x"
proof -
  have "d \<in> set (mro d)" using assms(1) by (metis own_first_def hd_in_set)
  with assms(2,3) show ?thesis
    by (auto simp: NastySingleton_new_def Let_def read_instance_none split: sum.splits if_splits)
qed

lemma new_own:
  assumes "own_first mro" and "instance_attribute s c = Some x"
  shows "NastySingleton_new mro c args s = (s, Inr x)"
  using assms by (cases "mro c") (auto simp: own_first_def NastySingleton_new_def dest: spec [of _ c])

text \<open>
  With single inheritance every call for a class returns the same object, whatever arguments it has and whatever
  is called before it: also when the object is that of a base.
\<close>

lemma read_instance_keeps:
  assumes "single_inheritance mro" and "read_instance (instance_attribute s) (mro c) = Inr x"
    and "NastySingleton_new mro d args s = (s', r)"
  shows "read_instance (instance_attribute s') (mro c) = Inr x"
proof (cases "read_instance (instance_attribute s) (mro d)")
  case (Inr y)
  with assms(2,3) show ?thesis by (simp add: NastySingleton_new_def)
next
  case (Inl e)
  with assms(3) have s': "instance_attribute s' = instance_attribute s \<or>
      instance_attribute s' = (instance_attribute s)(d := Some (length (class_of_object s)))"
    by (auto simp: NastySingleton_new_def Let_def split: if_splits)
  have unset: "read_instance (instance_attribute s) (mro d) = Inl AttributeError" using Inl read_instance_none by metis
  have first: "read_instance (a(d := v)) cs = read_instance a cs" if "d \<notin> set cs" for a v cs
    using that by (induction cs) (auto split: option.splits)
  show ?thesis
  proof (cases "d \<in> set (mro c)")
    case False
    with s' assms(2) first show ?thesis by auto
  next
    case True
    with assms(1) obtain below where below: "mro c = below @ mro d" unfolding single_inheritance_def by blast
    with assms(2) unset have "read_instance (instance_attribute s) below = Inr x"
      by (simp add: read_instance_append split: sum.splits)
    moreover have "d \<notin> set below"
    proof -
      have "d \<in> set (mro d)" using assms(1) by (metis single_inheritance_def own_first_def hd_in_set)
      moreover have "distinct (below @ mro d)" using assms(1) below by (metis single_inheritance_def)
      ultimately show ?thesis by auto
    qed
    ultimately show ?thesis using s' below first by (auto simp: read_instance_append)
  qed
qed


lemma same_object_forever:
  assumes "single_inheritance mro" and "NastySingleton_new mro c args s = (s1, Inr x)"
    and "new_each mro ds s1 = (s2, rs)"
  shows "NastySingleton_new mro c args' s2 = (s2, Inr x)"
proof -
  have own: "mro c \<noteq> []" "hd (mro c) = c" using assms(1) by (simp_all add: single_inheritance_def own_first_def)
  then have "read_instance (instance_attribute s1) (mro c) = Inr x"
    using assms(2) by (cases "mro c") (auto simp: NastySingleton_new_def Let_def split: sum.splits if_splits)
  then have "read_instance (instance_attribute s2) (mro c) = Inr x"
    using assms(3)
  proof (induction ds arbitrary: s1 rs)
    case (Cons d ds)
    obtain t r where t: "NastySingleton_new mro d ([] :: unit list) s1 = (t, r)" by fastforce
    from read_instance_keeps [OF assms(1) Cons.prems(1) t] Cons.IH [of t] Cons.prems(2) t
    show ?case by (auto split: prod.splits)
  qed simp
  then show ?thesis by (simp add: NastySingleton_new_def)
qed

text \<open>
  Classes of which none is a base of another, and whose bases have no object, get objects of their own, all different:
  so it is with \<open>SimpleDependency\<close>, \<open>OptionalDependency\<close> and \<open>CollectiveDependency\<close>, the values of \<open>DependencyKind\<close>.
  Had there been an object of \<open>KindDefinition\<close>, that would be the value of all three.
\<close>

definition no_instance :: "(nat \<Rightarrow> nat list) \<Rightarrow> nat list \<Rightarrow> singletons \<Rightarrow> bool" where
  "no_instance mro cs s \<longleftrightarrow> (\<forall>c \<in> set cs. \<forall>b \<in> set (mro c). instance_attribute s b = None)"

lemma siblings_get_own_objects:
  assumes "distinct cs" and "\<forall>c \<in> set cs. set (mro c) \<inter> set cs \<subseteq> {c}" and "no_instance mro cs s"
  shows "\<exists>s'. new_each mro cs s = (s', map Inr [length (class_of_object s) ..< length (class_of_object s) + length cs]) \<and>
    class_of_object s' = class_of_object s @ cs"
  using assms
proof (induction cs arbitrary: s)
  case (Cons c cs)
  let ?s1 = "\<lparr>instance_attribute = (instance_attribute s)(c := Some (length (class_of_object s))),
    class_of_object = class_of_object s @ [c]\<rparr>"
  have "read_instance (instance_attribute s) (mro c) = Inl AttributeError"
    using Cons.prems(3) by (simp add: no_instance_def read_instance_none)
  then have s1: "NastySingleton_new mro c ([] :: unit list) s = (?s1, Inr (length (class_of_object s)))"
    by (simp add: NastySingleton_new_def Let_def)
  have "no_instance mro cs ?s1" using Cons.prems by (fastforce simp: no_instance_def)
  with Cons.IH [of ?s1] Cons.prems obtain s' where "new_each mro cs ?s1 =
      (s', map Inr [Suc (length (class_of_object s)) ..< Suc (length (class_of_object s)) + length cs])"
    "class_of_object s' = class_of_object s @ c # cs" by (fastforce simp del: upt_Suc)
  with s1 show ?case by (simp add: upt_conv_Cons del: upt_Suc)
qed simp

lemma base_first:
  assumes "\<forall>c \<in> set cs. read_instance (instance_attribute s) (mro c) = Inr x"
  shows "new_each mro cs s = (s, replicate (length cs) (Inr x))"
  using assms by (induction cs) (simp_all add: NastySingleton_new_def)

text \<open>The singletons of \<open>thinking_injection/common/dependencies.py\<close>, from \<open>object\<close> on.\<close>

fun kinds_mro :: "nat \<Rightarrow> nat list" where
  "kinds_mro c =
     (if c = 0 then [0] else if c = 1 then [1, 0] else if c = 2 then [2, 1, 0] else [c, 2, 1, 0])"

lemma kinds_single_inheritance: "single_inheritance kinds_mro"
proof -
  have "\<exists>below. kinds_mro c = below @ kinds_mro b" if b: "b \<in> set (kinds_mro c)" for b c
  proof -
    consider "b = c" | "c = 1" "b = 0" | "c = 2" "b = 0" | "c = 2" "b = 1"
      | "c > 2" "b = 0" | "c > 2" "b = 1" | "c > 2" "b = 2"
      using b by (auto split: if_splits)
    then show ?thesis
    proof cases
      case 1 then show ?thesis by (intro exI [of _ "[]"]) simp
    next
      case 2 then show ?thesis by (intro exI [of _ "[1]"]) simp
    next
      case 3 then show ?thesis by (intro exI [of _ "[2, 1]"]) simp
    next
      case 4 then show ?thesis by (intro exI [of _ "[2]"]) simp
    next
      case 5 then show ?thesis by (intro exI [of _ "[c, 2, 1]"]) simp
    next
      case 6 then show ?thesis by (intro exI [of _ "[c, 2]"]) simp
    next
      case 7 then show ?thesis by (intro exI [of _ "[c]"]) simp
    qed
  qed
  moreover have "distinct (kinds_mro c)" and "kinds_mro c \<noteq> []" and "hd (kinds_mro c) = c" for c
    by auto
  ultimately show ?thesis by (simp add: single_inheritance_def own_first_def del: kinds_mro.simps)
qed

text \<open>The three kinds, 3, 4 and 5, are different objects, unless there was one of \<open>KindDefinition\<close>, 2.\<close>

lemma kinds_are_different:
  "snd (new_each kinds_mro [3, 4, 5, 3] \<lparr>instance_attribute = (\<lambda>_. None), class_of_object = []\<rparr>) = [Inr 0, Inr 1, Inr 2, Inr 0]"
  "snd (new_each kinds_mro [2, 3, 4, 5] \<lparr>instance_attribute = (\<lambda>_. None), class_of_object = []\<rparr>) = [Inr 0, Inr 0, Inr 0, Inr 0]"
  by (simp_all add: NastySingleton_new_def Let_def)

section \<open>Texts of objects\<close>

text \<open>A value is a string, or something else that has a text.\<close>

datatype shown_value = StrShown string | OtherShown string

fun quote_str :: "shown_value \<Rightarrow> string" where
  "quote_str (StrShown x) = [CHR 0x27] @ x @ [CHR 0x27]"
| "quote_str (OtherShown x) = x"

text \<open>
  An object with the mixin: the name of its class, the names of \<open>_str_properties\<close>, \<open>getattr\<close>, and what \<open>vars\<close> and
  \<open>_asdict\<close> give or raise.
\<close>

record represented =
  type_name :: string
  str_properties :: "string list"
  attribute_of :: "string \<Rightarrow> shown_value res"
  vars_of :: "(string, shown_value) dict res"
  asdict_of :: "(string, shown_value) dict res"
  tweak_repr_properties :: "(string, shown_value) dict \<Rightarrow> (string, shown_value) dict"

definition StrReprMixin_vars :: "represented \<Rightarrow> (string, shown_value) dict res" where
  "StrReprMixin_vars x =
     (case vars_of x of Inr d \<Rightarrow> Inr d
      | Inl _ \<Rightarrow> (case asdict_of x of Inr d \<Rightarrow> Inr d | Inl _ \<Rightarrow> Inl AssertionError))"

definition described :: "string \<Rightarrow> (string \<times> shown_value) list \<Rightarrow> string" where
  "described name ps = name @ ''('' @ py_join '', '' (map (\<lambda>(k, v). k @ ''='' @ quote_str v) ps) @ '')''"

definition StrReprMixin_str :: "represented \<Rightarrow> string res" where
  "StrReprMixin_str x =
     rbind (traverse (\<lambda>k. rbind (attribute_of x k) (\<lambda>v. Inr (k, v))) (str_properties x))
       (\<lambda>ps. Inr (described (type_name x) ps))"

definition StrReprMixin_repr :: "represented \<Rightarrow> string res" where
  "StrReprMixin_repr x =
     rbind (StrReprMixin_vars x) (\<lambda>d. Inr (described (type_name x) (tweak_repr_properties x d)))"

text \<open>Strings are not escaped, so that different objects may have the same text.\<close>

lemma description_ambiguous:
  "described ''X'' [(''a'', StrShown ''1''), (''b'', StrShown ''2'')] =
   described ''X'' [(''a'', StrShown (''1'' @ [CHR 0x27] @ '', b='' @ [CHR 0x27] @ ''2''))]"
  by (simp add: described_def)

text \<open>A named tuple, which has no \<open>__dict__\<close>, is described by its fields; an object with neither raises.\<close>

lemma repr_of_named_tuple:
  "vars_of x = Inl e \<Longrightarrow> asdict_of x = Inr d \<Longrightarrow>
     StrReprMixin_repr x = Inr (described (type_name x) (tweak_repr_properties x d))"
  "vars_of x = Inl e \<Longrightarrow> asdict_of x = Inl e' \<Longrightarrow> StrReprMixin_repr x = Inl AssertionError"
  by (simp_all add: StrReprMixin_repr_def StrReprMixin_vars_def)

section \<open>Calls that are logged\<close>

text \<open>
  A function that is traced: its name, the text of its arguments and of what it returns, if that is not \<open>None\<close>.
  The state is the log and whatever else the function changes.
\<close>

definition traced ::
  "string \<Rightarrow> string \<Rightarrow> string \<Rightarrow> ('v \<Rightarrow> string option) \<Rightarrow> (string list \<times> 's, 'v) operation \<Rightarrow>
   (string list \<times> 's, 'v) operation" where
  "traced name args kwargs text foo =
     (\<lambda>(log, s).
        case foo (log @ [''>>> '' @ name @ ''(*'' @ args @ '', **'' @ kwargs @ '')''], s) of
          (t, Inl e) \<Rightarrow> (t, Inl e)
        | ((log', s'), Inr out) \<Rightarrow>
            (let suffix = (case text out of None \<Rightarrow> [] | Some x \<Rightarrow> '' -> |'' @ x @ ''|'')
             in ((log' @ [''<<< '' @ name @ ''(...)'' @ suffix], s'), Inr out)))"

text \<open>A function that does not read the log does the same when it is traced.\<close>

definition ignores_log :: "(string list \<times> 's, 'v) operation \<Rightarrow> bool" where
  "ignores_log f \<longleftrightarrow> (\<forall>l l' s. snd (f (l, s)) = snd (f (l', s)) \<and> snd (fst (f (l, s))) = snd (fst (f (l', s))))"

lemma traced_is_transparent:
  assumes "ignores_log f"
  shows "ignores_log (traced name args kwargs text f)"
    and "snd (traced name args kwargs text f (l, s)) = snd (f (l, s))"
    and "snd (fst (traced name args kwargs text f (l, s))) = snd (fst (f (l, s)))"
proof -
  have *: "snd (traced name args kwargs text f (l, s)) = snd (f (l, s)) \<and>
      snd (fst (traced name args kwargs text f (l, s))) = snd (fst (f (l, s)))" for l s
  proof -
    let ?l = "l @ [''>>> '' @ name @ ''(*'' @ args @ '', **'' @ kwargs @ '')'']"
    have "snd (f (?l, s)) = snd (f (l, s))" "snd (fst (f (?l, s))) = snd (fst (f (l, s)))"
      using assms unfolding ignores_log_def by blast+
    then show ?thesis by (auto simp: traced_def Let_def split: prod.splits sum.splits)
  qed
  then show "snd (traced name args kwargs text f (l, s)) = snd (f (l, s))"
    and "snd (fst (traced name args kwargs text f (l, s))) = snd (fst (f (l, s)))" by blast+
  show "ignores_log (traced name args kwargs text f)"
    using * assms unfolding ignores_log_def by simp
qed

end
