(* ===== verification/Inspection.thy ===== *)
theory Inspection
  imports Declarations "HOL-Library.Multiset"
begin

text \<open>
  What a class has by kind, \<open>thinking_reflection/inspect_mate.py\<close>, and where an object is in the source,
  the functions of \<open>thinking_reflection/model/source_scope.py\<close>.

  A class is a number of the table of classes of \<open>Declarations\<close>, and anything else is \<open>None\<close>. A value that is read
  from a class is given by what its name is bound to, as there.
\<close>

section \<open>The kinds of attributes\<close>

definition is_property :: "binding \<Rightarrow> bool" where
  "is_property v = (case v of Property g s a \<Rightarrow> True | _ \<Rightarrow> False)"

definition is_attribute :: "interpreter \<Rightarrow> nat \<Rightarrow> string \<Rightarrow> binding \<Rightarrow> bool" where
  "is_attribute w t n v = (if \<not> is_routine v then (if \<not> is_property v then True else False) else False)"

definition is_property_method :: "interpreter \<Rightarrow> nat \<Rightarrow> string \<Rightarrow> binding \<Rightarrow> bool" where
  "is_property_method w t n v = (if \<not> is_routine v then (if is_property v then True else False) else False)"

text \<open>\<open>inspect.getmembers\<close>: the names of \<open>dir\<close> that can be read, with their values.\<close>

fun read_members :: "interpreter \<Rightarrow> nat \<Rightarrow> string list \<Rightarrow> (string \<times> binding) list" where
  "read_members w t [] = []"
| "read_members w t (n # ns) =
     (case bound_in w (rc_mro (reflected w t)) n of
        Some v \<Rightarrow> (n, v) # read_members w t ns
      | None \<Rightarrow> read_members w t ns)"

definition getmembers :: "interpreter \<Rightarrow> nat \<Rightarrow> (string \<times> binding) list" where
  "getmembers w t = read_members w t (rc_dir (reflected w t))"

definition ends_with :: "string \<Rightarrow> string \<Rightarrow> bool" where
  "ends_with p s = starts_with (rev p) (rev s)"

definition builtin_name :: "string \<Rightarrow> bool" where
  "builtin_name attr \<longleftrightarrow> starts_with ''__'' attr \<or> ends_with ''__'' attr"

definition get_members ::
  "interpreter \<Rightarrow> nat option \<Rightarrow> (interpreter \<Rightarrow> nat \<Rightarrow> string \<Rightarrow> binding \<Rightarrow> bool) \<Rightarrow> bool \<Rightarrow> (string \<times> binding) list res" where
  "get_members w klass tester_func return_builtin =
     (case klass of
        None \<Rightarrow> Inl ValueError
      | Some t \<Rightarrow>
          Inr (filter (\<lambda>(attr, value). tester_func w t attr value \<and> (if return_builtin then True else \<not> builtin_name attr))
            (getmembers w t)))"

definition get_attributes :: "interpreter \<Rightarrow> nat option \<Rightarrow> (string \<times> binding) list res" where
  "get_attributes w klass = get_members w klass is_attribute False"

definition get_property_methods :: "interpreter \<Rightarrow> nat option \<Rightarrow> (string \<times> binding) list res" where
  "get_property_methods w klass = get_members w klass is_property_method False"

definition get_regular_methods :: "interpreter \<Rightarrow> nat option \<Rightarrow> (string \<times> binding) list res" where
  "get_regular_methods w klass = get_members w klass is_regular_method False"

definition get_static_methods :: "interpreter \<Rightarrow> nat option \<Rightarrow> (string \<times> binding) list res" where
  "get_static_methods w klass = get_members w klass is_static_method False"

definition get_class_methods :: "interpreter \<Rightarrow> nat option \<Rightarrow> (string \<times> binding) list res" where
  "get_class_methods w klass = get_members w klass is_class_method False"

definition get_all_attributes :: "interpreter \<Rightarrow> nat option \<Rightarrow> (string \<times> binding) list res" where
  "get_all_attributes w klass =
     (case klass of
        None \<Rightarrow> Inl ValueError
      | Some t \<Rightarrow> Inr (filter (\<lambda>(attr, value). \<not> builtin_name attr) (filter (\<lambda>(_, x). \<not> is_routine x) (getmembers w t))))"

definition get_all_methods :: "interpreter \<Rightarrow> nat option \<Rightarrow> (string \<times> binding) list res" where
  "get_all_methods w klass =
     (case klass of
        None \<Rightarrow> Inl ValueError
      | Some t \<Rightarrow> Inr (filter (\<lambda>(attr, value). \<not> builtin_name attr) (filter (\<lambda>(_, x). is_routine x) (getmembers w t))))"

section \<open>Every attribute has one kind\<close>

text \<open>The tests, for a value that was read from the class under the name.\<close>

lemma kinds_of_bound:
  assumes "bound_in w (rc_mro (reflected w t)) n = Some v"
  shows "is_static_method w t n v \<longleftrightarrow> (\<exists>f. v = StaticMethod f)"
    and "is_class_method w t n v \<longleftrightarrow> (\<exists>f. v = ClassMethod f)"
    and "is_regular_method w t n v \<longleftrightarrow> is_routine v \<and> \<not> (\<exists>f. v = StaticMethod f) \<and> \<not> (\<exists>f. v = ClassMethod f)"
proof -
  show s: "is_static_method w t n v \<longleftrightarrow> (\<exists>f. v = StaticMethod f)"
    using bound_as_first [OF assms] by (cases v) (auto simp: is_static_method_def)
  show c: "is_class_method w t n v \<longleftrightarrow> (\<exists>f. v = ClassMethod f)"
    using bound_as_first [OF assms] by (cases v) (auto simp: is_class_method_def)
  show "is_regular_method w t n v \<longleftrightarrow> is_routine v \<and> \<not> (\<exists>f. v = StaticMethod f) \<and> \<not> (\<exists>f. v = ClassMethod f)"
    by (simp add: is_regular_method_def s c)
qed

lemma one_kind:
  assumes "bound_in w (rc_mro (reflected w t)) n = Some v"
  shows "length (filter (\<lambda>test. test w t n v)
    [is_attribute, is_property_method, is_regular_method, is_static_method, is_class_method]) = 1"
  by (cases v; cases "is_routine v") (use kinds_of_bound [OF assms] in \<open>simp_all add: is_attribute_def is_property_method_def is_property_def\<close>)

lemma read_members_bound:
  "(n, v) \<in> set (read_members w t ns) \<Longrightarrow> bound_in w (rc_mro (reflected w t)) n = Some v"
  by (induction ns) (auto split: option.splits)

lemma getmembers_bound:
  "(n, v) \<in> set (getmembers w t) \<Longrightarrow> bound_in w (rc_mro (reflected w t)) n = Some v"
  by (simp add: getmembers_def read_members_bound)

text \<open>The names of the listings are those of \<open>dir\<close>, in its order.\<close>

lemma read_members_names:
  "map fst (read_members w t ns) = filter (\<lambda>n. bound_in w (rc_mro (reflected w t)) n \<noteq> None) ns"
  by (induction ns) (auto split: option.splits)

text \<open>The listings as filters on what the names are bound to.\<close>

definition listed :: "interpreter \<Rightarrow> nat \<Rightarrow> (binding \<Rightarrow> bool) \<Rightarrow> (string \<times> binding) list" where
  "listed w t K = filter (\<lambda>(n, v). K v \<and> \<not> builtin_name n) (getmembers w t)"

lemma get_members_listed:
  assumes "\<And>n v. bound_in w (rc_mro (reflected w t)) n = Some v \<Longrightarrow> test w t n v = K v"
  shows "get_members w (Some t) test False = Inr (listed w t K)"
  using assms by (auto simp: get_members_def listed_def intro!: filter_cong dest!: getmembers_bound)

lemma listings:
  "get_attributes w (Some t) = Inr (listed w t (\<lambda>v. \<not> is_routine v \<and> \<not> is_property v))"
  "get_property_methods w (Some t) = Inr (listed w t is_property)"
  "get_regular_methods w (Some t) =
     Inr (listed w t (\<lambda>v. is_routine v \<and> \<not> (\<exists>f. v = StaticMethod f) \<and> \<not> (\<exists>f. v = ClassMethod f)))"
  "get_static_methods w (Some t) = Inr (listed w t (\<lambda>v. \<exists>f. v = StaticMethod f))"
  "get_class_methods w (Some t) = Inr (listed w t (\<lambda>v. \<exists>f. v = ClassMethod f))"
  "get_all_attributes w (Some t) = Inr (listed w t (\<lambda>v. \<not> is_routine v))"
  "get_all_methods w (Some t) = Inr (listed w t is_routine)"
proof -
  have "is_property v \<Longrightarrow> \<not> is_routine v" for v by (cases v) (simp_all add: is_property_def)
  then show "get_property_methods w (Some t) = Inr (listed w t is_property)"
    unfolding get_property_methods_def by (intro get_members_listed) (auto simp: is_property_method_def)
  show "get_all_attributes w (Some t) = Inr (listed w t (\<lambda>v. \<not> is_routine v))"
    by (auto simp: get_all_attributes_def listed_def intro!: filter_cong)
  show "get_all_methods w (Some t) = Inr (listed w t is_routine)"
    by (auto simp: get_all_methods_def listed_def intro!: filter_cong)
  show "get_attributes w (Some t) = Inr (listed w t (\<lambda>v. \<not> is_routine v \<and> \<not> is_property v))"
    unfolding get_attributes_def by (intro get_members_listed) (simp add: is_attribute_def)
qed (simp_all add: get_regular_methods_def get_static_methods_def get_class_methods_def
    get_members_listed kinds_of_bound)

text \<open>
  The five listings share out what the class has: the attributes and properties are all attributes, and the
  regular, static and class methods all methods, each in one listing.
\<close>

lemma listed_split:
  "(\<And>v. K v \<longleftrightarrow> L v \<or> M v) \<Longrightarrow> (\<And>v. \<not> (L v \<and> M v)) \<Longrightarrow> mset (listed w t K) = mset (listed w t L) + mset (listed w t M)"
proof -
  assume "\<And>v. K v \<longleftrightarrow> L v \<or> M v" "\<And>v. \<not> (L v \<and> M v)"
  then have "mset (filter (\<lambda>(n, v). K v \<and> P n) xs) = mset (filter (\<lambda>(n, v). L v \<and> P n) xs) + mset (filter (\<lambda>(n, v). M v \<and> P n) xs)"
    for P and xs :: "(string \<times> binding) list"
    by (induction xs) auto
  then show ?thesis by (simp add: listed_def)
qed

lemma attributes_shared_out:
  "\<exists>every own properties. get_all_attributes w (Some t) = Inr every \<and> get_attributes w (Some t) = Inr own \<and>
     get_property_methods w (Some t) = Inr properties \<and> mset every = mset own + mset properties"
proof -
  have "is_property v \<Longrightarrow> \<not> is_routine v" for v by (cases v) (simp_all add: is_property_def)
  then have "mset (listed w t (\<lambda>v. \<not> is_routine v)) =
      mset (listed w t (\<lambda>v. \<not> is_routine v \<and> \<not> is_property v)) + mset (listed w t is_property)"
    by (intro listed_split) auto
  then show ?thesis by (simp add: listings)
qed

lemma methods_shared_out:
  "\<exists>every regular static class_wide. get_all_methods w (Some t) = Inr every \<and> get_regular_methods w (Some t) = Inr regular \<and>
     get_static_methods w (Some t) = Inr static \<and> get_class_methods w (Some t) = Inr class_wide \<and>
     mset every = mset regular + (mset static + mset class_wide)"
proof -
  let ?s = "\<lambda>v. \<exists>f. v = StaticMethod f" and ?c = "\<lambda>v. \<exists>f. v = ClassMethod f"
  have "mset (listed w t is_routine) =
      mset (listed w t (\<lambda>v. is_routine v \<and> \<not> ?s v \<and> \<not> ?c v)) + mset (listed w t (\<lambda>v. ?s v \<or> ?c v))"
    by (intro listed_split) auto
  also have "mset (listed w t (\<lambda>v. ?s v \<or> ?c v)) = mset (listed w t ?s) + mset (listed w t ?c)"
    by (intro listed_split) auto
  finally show ?thesis by (simp add: listings)
qed

text \<open>What a subclass overrides is listed as its own: the first binding along the method resolution order counts.\<close>

lemma listed_iff:
  "(n, v) \<in> set (listed w t K) \<longleftrightarrow>
     n \<in> set (rc_dir (reflected w t)) \<and> bound_in w (rc_mro (reflected w t)) n = Some v \<and> K v \<and> \<not> builtin_name n"
proof -
  have "(n, v) \<in> set (read_members w t ns) \<longleftrightarrow> n \<in> set ns \<and> bound_in w (rc_mro (reflected w t)) n = Some v" for ns
    by (induction ns) (auto split: option.splits)
  then show ?thesis by (auto simp: listed_def getmembers_def)
qed

text \<open>The example of the module: \<open>MyClass\<close>, 1, has everything from \<open>Base\<close>, 2.\<close>

definition ex_mate :: interpreter where
  "ex_mate =
     (let f = \<lparr>fn_signature = \<lparr>parameters = [], return_annotation = NoAnnotation\<rparr>, fn_scope = None, fn_abstract = None\<rparr>;
          names = [''__init__'', ''attribute'', ''class_method'', ''property_method'', ''regular_method'', ''static_method''];
          base = \<lparr>rc_bases = [], rc_mro = [2], rc_annotations = [],
            rc_dict = [(''attribute'', PlainValue), (''property_method'', Property (Some f) None None),
              (''regular_method'', Function f), (''static_method'', StaticMethod f), (''class_method'', ClassMethod f),
              (''__init__'', Builtin)],
            rc_dir = names, rc_scope = None\<rparr>
      in \<lparr>reflected = (\<lambda>t. if t = 1 then base\<lparr>rc_bases := [2], rc_mro := [1, 2], rc_dict := []\<rparr> else base),
          object_cls = 0, NoneType_cls = 3, Protocol_cls = 4, ABC_cls = 5\<rparr>)"

lemma ex_mate_listings:
  "map (\<lambda>get. map_sum id (map fst) (get ex_mate (Some 1)))
     [get_attributes, get_property_methods, get_regular_methods, get_static_methods, get_class_methods] =
   map (\<lambda>n. Inr [n]) [''attribute'', ''property_method'', ''regular_method'', ''static_method'', ''class_method'']"
  by code_simp

section \<open>The source of an object\<close>

text \<open>
  The types that matter to \<open>has_source\<close>: \<open>type\<close>, the type of functions and \<open>object\<close>, all of \<^verbatim>\<open>builtins\<close>, and any other type with
  the module it is from.
\<close>

datatype type_of_object = TypeType | FunctionType | ObjectType | OtherType string

fun type_module :: "type_of_object \<Rightarrow> string" where
  "type_module (OtherType m) = m"
| "type_module _ = ''builtins''"

text \<open>What the standard library tells of an object: \<open>getsourcelines\<close> gives lines and the number of the first, or raises.\<close>

record inspected =
  isbuiltin :: bool
  type_of_it :: type_of_object
  getsourcelines :: "(string list \<times> int) res"
  getsourcefile :: string

definition has_source :: "inspected \<Rightarrow> bool" where
  "has_source x =
     (if isbuiltin x then False
      else if type_module (type_of_it x) = ''builtins'' \<and> type_of_it x \<notin> {TypeType, FunctionType} then False
      else if type_of_it x = ObjectType then False
      else True)"

definition get_source_scope :: "inspected \<Rightarrow> source_scope option res" where
  "get_source_scope x =
     (if \<not> has_source x then Inr None
      else case getsourcelines x of
             Inr (lines, first) \<Rightarrow>
               Inr (Some \<lparr>filename = getsourcefile x, first_line_no = first, line_count = int (length lines)\<rparr>)
           | Inl e \<Rightarrow> if e \<in> {TypeError, OSError} then Inr None else Inl e)"

text \<open>The scope is where the lines are, so that an object whose lines are among those of a class is in the scope of the class.\<close>

lemma scope_of_lines:
  assumes "get_source_scope x = Inr (Some s)"
  shows "has_source x" and "\<exists>lines. getsourcelines x = Inr (lines, first_line_no s) \<and>
    last_line_no s = first_line_no s + int (length lines) - 1"
  using assms by (auto simp: get_source_scope_def last_line_no_def split: if_splits sum.splits)

lemma nested_lines_in_scope:
  assumes "get_source_scope x = Inr (Some s)" and "get_source_scope y = Inr (Some t)"
    and "getsourcefile x = getsourcefile y"
    and "getsourcelines x = Inr (ls, i)" and "getsourcelines y = Inr (ms, j)" and "ls \<noteq> []"
    and "j \<le> i" and "i + int (length ls) \<le> j + int (length ms)"
  shows "in_source_scope (Some s) t"
proof -
  have n: "1 \<le> int (length ls)" using assms(6) by (cases ls) simp_all
  have "i \<le> j + int (length ms) - 1" "j \<le> i + int (length ls) - 1" using n assms(7,8) by linarith+
  with assms(1-5) show ?thesis
    by (auto simp: get_source_scope_def in_source_scope_def last_line_no_def split: if_splits)
qed

text \<open>The last test of \<open>has_source\<close> decides nothing: \<open>object\<close> is of \<^verbatim>\<open>builtins\<close>, so that its instances are refused before.\<close>

lemma has_source_iff: "has_source x \<longleftrightarrow> \<not> isbuiltin x \<and> (type_module (type_of_it x) = ''builtins'' \<longrightarrow> type_of_it x \<in> {TypeType, FunctionType})"
  by (cases "type_of_it x") (auto simp: has_source_def)

end
