(* ===== verification/Stored_Globals.thy ===== *)
theory Stored_Globals
  imports Serialization Tiny_Schema
begin

text \<open>
  The tables of \<open>thinking_executor/data/tiny_schema.py\<close> with the serialization of
  \<open>thinking_programming/serialization.py\<close> and the queries that serialize what they compare with. The table of globals of
  \<open>thinking_executor/globals_manager.py\<close> is shown to satisfy \<open>keyed\<close>, what \<open>Tiny_Schema\<close> asks of the values of a table.

  The queries of TinyDB are a parameter: \<open>eq n v\<close> is \<open>tinydb.Query()[n] == v\<close>, and \<open>query_contract\<close> is what is
  documented of it for text.
\<close>

section \<open>Queries\<close>

text \<open>The methods of \<open>tinydb.Query\<close> that are wrapped: their arguments are serialized first.\<close>

definition wrapped_methods :: "string list" where
  "wrapped_methods =
     [''__eq__'', ''__ne__'', ''__lt__'', ''__le__'', ''__gt__'', ''__ge__'', ''exists'', ''matches'', ''search'', ''test'',
      ''any'', ''all'', ''one_of'', ''fragment'']"

definition wrap_query ::
  "'f python \<Rightarrow> ('f py list \<Rightarrow> (string \<times> 'f py) list \<Rightarrow> 'q) \<Rightarrow> 'f py list \<Rightarrow> (string \<times> 'f py) list \<Rightarrow> 'q res" where
  "wrap_query p method vs kws =
     rbind (traverse (serialize p) vs)
       (\<lambda>rs. rbind (traverse (\<lambda>(k, v). rbind (serialize p v) (\<lambda>r. Inr (k, r))) kws) (\<lambda>ks. Inr (method rs ks)))"

text \<open>
  A query for a value is the query for what is stored of it. One for something that cannot be serialized is
  refused: a function, as \<open>test\<close> takes it, or a query, as \<open>any\<close> and \<open>all\<close> take it.
\<close>

lemma wrap_query_serialized:
  "serialize p v = Inr r \<Longrightarrow> wrap_query p method [v] [] = Inr (method [r] [])"
  "wrap_query p method (PyOther c # vs) kws = Inl AssertionError"
  by (simp_all add: wrap_query_def)

definition query_contract :: "'f python \<Rightarrow> (string \<Rightarrow> 'f py \<Rightarrow> 'f py query) \<Rightarrow> bool" where
  "query_contract p eq \<longleftrightarrow> (\<forall>n s d. eq n (PyStr s) (PyDict d) \<longleftrightarrow> dict_find p (PyStr n) d = Some (PyStr s))"

text \<open>\<open>dict.update\<close>, by which TinyDB changes the documents that match.\<close>

fun merge_documents :: "'f python \<Rightarrow> 'f py \<Rightarrow> 'f py \<Rightarrow> 'f py" where
  "merge_documents p (PyDict d) (PyDict e) = PyDict (fold (\<lambda>(k, v). dict_put p k v) e d)"
| "merge_documents p d e = d"

section \<open>Tables of objects\<close>

text \<open>
  The values of a table of the class \<open>c\<close> are the objects that fit it; with \<open>json\<close>, documents go through a file.
\<close>

definition object_table :: "'f python \<Rightarrow> bool \<Rightarrow> nat \<Rightarrow> ('f py, 'f py) typed" where
  "object_table p json c =
     \<lparr>of_type = (\<lambda>x. (\<exists>t attrs. x = PyObject t attrs) \<and> fits p json (HClass c) x),
      ser = (\<lambda>x. rbind (serialize p x) (\<lambda>r. Inr (carried p json r))),
      deser = (\<lambda>r. deserialize p r (HClass c))\<rparr>"

lemma fits_serialize: "fits p json h v \<Longrightarrow> serialize p v = Inr (plain p v)"
  using fits_comes_back by (auto simp: comes_back_def)

lemma object_table_document:
  assumes "of_type (object_table p json c) x"
  obtains t attrs where "x = PyObject t attrs" and "class_fits p c t" and "names_fit p t (map fst attrs)"
    and "ser (object_table p json c) x = Inr (PyDict (fields_of (stored_fields p json attrs @ type_entry p t)))"
    and "deser (object_table p json c) (PyDict (fields_of (stored_fields p json attrs @ type_entry p t))) = Inr x"
proof -
  from assms obtain t attrs where x: "x = PyObject t attrs" and f: "fits p json (HClass c) (PyObject t attrs)"
    by (auto simp: object_table_def)
  then have c: "class_fits p c t" and n: "names_fit p t (map fst attrs)"
    and a: "\<And>n x. (n, x) \<in> set attrs \<Longrightarrow> serialize p x = Inr (plain p x)"
    using fits_serialize by fastforce+
  from fits_comes_back [OF f] object_stored [OF n a] have
    "serialize p x = Inr (plain p x)"
    "carried p json (plain p x) = PyDict (fields_of (stored_fields p json attrs @ type_entry p t))"
    "deserialize p (PyDict (fields_of (stored_fields p json attrs @ type_entry p t))) (HClass c) = Inr x"
    by (simp_all add: comes_back_def x)
  with x c n that show thesis by (simp add: object_table_def)
qed

lemma dict_find_fields: "dict_find p (PyStr n) (fields_of as) = map_of as n"
  by (induction as) (auto simp: fields_of_def)

text \<open>Merging a document with one that has the same fields gives that one.\<close>

lemma merge_same_fields:
  assumes "map fst ds = map fst es" and "distinct (map fst es)"
  shows "merge_documents p (PyDict (fields_of ds)) (PyDict (fields_of es)) = PyDict (fields_of es)"
proof -
  have put: "dict_put p (PyStr n) v (fields_of (as @ (n, u) # ds)) = fields_of (as @ (n, v) # ds)"
    if "n \<notin> set (map fst as)" for as ds :: "(string \<times> 'a py) list" and n u v
    using that by (induction as) (auto simp: fields_of_def)
  have "fold (\<lambda>(k, v). dict_put p k v) (fields_of es) (fields_of (as @ ds)) = fields_of (as @ es)"
    if "map fst ds = map fst es" "distinct (map fst as @ map fst es)" for as ds es :: "(string \<times> 'a py) list"
    using that
  proof (induction es arbitrary: as ds)
    case (Cons e es)
    then obtain n v u ds' where e: "e = (n, v)" "ds = (n, u) # ds'" "map fst ds' = map fst es" by (cases e; cases ds) auto
    then have "fold (\<lambda>(k, v). dict_put p k v) (fields_of (e # es)) (fields_of (as @ ds)) =
        fold (\<lambda>(k, v). dict_put p k v) (fields_of es) (fields_of ((as @ [e]) @ ds'))"
      using put [of n as v u ds'] Cons.prems(2) fields_of_def [of "e # es"] fields_of_def [of es] by simp
    also have "\<dots> = fields_of ((as @ [e]) @ es)" using e(3) Cons.prems(2) by (intro Cons.IH) simp_all
    finally show ?case by simp
  qed (simp add: fields_of_def)
  from this [of ds es "[]"] assms show ?thesis by simp
qed

text \<open>
  A table of values that stand for objects: \<open>e x\<close> is the object of \<open>x\<close>, and \<open>back\<close> reads the value off an object.
\<close>

definition embedded_table ::
  "'f python \<Rightarrow> bool \<Rightarrow> nat \<Rightarrow> ('v \<Rightarrow> bool) \<Rightarrow> ('v \<Rightarrow> 'f py) \<Rightarrow> ('f py \<Rightarrow> 'v) \<Rightarrow> ('v, 'f py) typed" where
  "embedded_table p json c ok e back =
     \<lparr>of_type = ok, ser = (\<lambda>x. ser (object_table p json c) (e x)),
      deser = (\<lambda>r. rbind (deser (object_table p json c) r) (\<lambda>v. Inr (back v)))\<rparr>"

text \<open>
  Values are found by a key when a field of their documents holds a text of the key, and values with the same key are of
  the same class.
\<close>

definition text_field :: "'f python \<Rightarrow> bool \<Rightarrow> string \<Rightarrow> 'f py \<Rightarrow> string \<Rightarrow> bool" where
  "text_field p json n v s \<longleftrightarrow>
     (\<exists>t attrs. v = PyObject t attrs \<and> map_of (stored_fields p json attrs @ type_entry p t) n = Some (PyStr s))"

definition same_class :: "'f py \<Rightarrow> 'f py \<Rightarrow> bool" where
  "same_class v w \<longleftrightarrow> (\<exists>t as bs. v = PyObject t as \<and> w = PyObject t bs)"

lemma embedded_keyed:
  assumes q: "query_contract p eq"
    and e: "\<forall>x. ok x \<longrightarrow> of_type (object_table p json c) (e x) \<and> back (e x) = x \<and> text_field p json n (e x) (h (key x))"
    and h: "inj h"
    and c: "\<forall>x y. ok x \<longrightarrow> ok y \<longrightarrow> key x = key y \<longrightarrow> same_class (e x) (e y)"
  shows "keyed (embedded_table p json c ok e back) (merge_documents p) (\<lambda>k. eq n (PyStr (h k))) key"
  unfolding keyed_def
proof (intro conjI allI impI)
  let ?ty = "embedded_table p json c ok e back"
  fix x assume "of_type ?ty x"
  then have ok: "of_type (object_table p json c) (e x)" "back (e x) = x" "text_field p json n (e x) (h (key x))"
    using e by (simp_all add: embedded_table_def)
  from ok(1) obtain t attrs where x: "e x = PyObject t attrs"
    "ser (object_table p json c) (e x) = Inr (PyDict (fields_of (stored_fields p json attrs @ type_entry p t)))"
    "deser (object_table p json c) (PyDict (fields_of (stored_fields p json attrs @ type_entry p t))) = Inr (e x)"
    by (rule object_table_document)
  let ?d = "fields_of (stored_fields p json attrs @ type_entry p t)"
  have "dict_find p (PyStr n) ?d = Some (PyStr (h (key x)))"
    using ok(3) x(1) by (simp add: text_field_def dict_find_fields del: map_of_append)
  with q h have "\<forall>k. eq n (PyStr (h k)) (PyDict ?d) \<longleftrightarrow> key x = k" by (auto simp: query_contract_def inj_eq)
  with x(2,3) ok(2) show "\<exists>d. ser ?ty x = Inr d \<and> deser ?ty d = Inr x \<and> (\<forall>k. eq n (PyStr (h k)) d \<longleftrightarrow> key x = k)"
    by (intro exI [of _ "PyDict ?d"]) (simp add: embedded_table_def)
next
  let ?ty = "embedded_table p json c ok e back"
  fix x y d f
  assume "of_type ?ty x" "of_type ?ty y" and s: "ser ?ty x = Inr d" "ser ?ty y = Inr f" and "key x = key y"
  then have "of_type (object_table p json c) (e x)" "of_type (object_table p json c) (e y)" and t: "same_class (e x) (e y)"
    using e c by (simp_all add: embedded_table_def)
  then obtain t as u bs where x: "e x = PyObject t as" "names_fit p t (map fst as)"
      "ser (object_table p json c) (e x) = Inr (PyDict (fields_of (stored_fields p json as @ type_entry p t)))"
    and y: "e y = PyObject u bs" "names_fit p u (map fst bs)"
      "ser (object_table p json c) (e y) = Inr (PyDict (fields_of (stored_fields p json bs @ type_entry p u)))"
    by (elim object_table_document)
  have u: "u = t" using t x(1) y(1) by (simp add: same_class_def)
  have "distinct (map fst bs @ map fst (type_entry p t))" using names_fitD [OF y(2)] by (auto simp: type_entry_def u)
  moreover have "map fst as = map fst bs" using names_fitD(1) [OF x(2)] names_fitD(1) [OF y(2)] u by simp
  ultimately have "merge_documents p (PyDict (fields_of (stored_fields p json as @ type_entry p t)))
      (PyDict (fields_of (stored_fields p json bs @ type_entry p t))) = PyDict (fields_of (stored_fields p json bs @ type_entry p t))"
    by (intro merge_same_fields) (simp_all add: stored_fields_names del: set_map)
  with s x(3) y(3) u show "merge_documents p d f = f" by (simp add: embedded_table_def)
qed

lemma object_table_embedded:
  "object_table p json c = embedded_table p json c (of_type (object_table p json c)) (\<lambda>x. x) (\<lambda>x. x)"
proof -
  have "rbind (deserialize p r (HClass c)) Inr = deserialize p r (HClass c)" for r
    by (cases "deserialize p r (HClass c)") simp_all
  then show ?thesis by (simp add: embedded_table_def object_table_def)
qed

section \<open>The globals\<close>

text \<open>\<open>GlobalsManager._query\<close>, and the identifier by which an object of a polymorphic class is found.\<close>

definition globals_query :: "'f python \<Rightarrow> (string \<Rightarrow> 'f py \<Rightarrow> 'f py query) \<Rightarrow> string \<Rightarrow> 'f py query res" where
  "globals_query p eq type_id = wrap_query p (\<lambda>vs kws. eq TYPE_ID_FIELD (hd vs)) [PyStr type_id] []"

definition type_id_of :: "'f python \<Rightarrow> 'f py \<Rightarrow> string" where
  "type_id_of p x = (case x of PyObject c attrs \<Rightarrow> cd_type_id (class_of p c) | _ \<Rightarrow> [])"

lemma globals_query_eq: "globals_query p eq t = Inr (eq TYPE_ID_FIELD (PyStr t))"
  by (simp add: globals_query_def wrap_query_serialized)

lemma polymorphic_type_field:
  assumes "cd_polymorphic (class_of p g)" and "of_type (object_table p json g) x"
  shows "text_field p json TYPE_ID_FIELD x (type_id_of p x)"
proof -
  from assms(2) obtain c attrs where x: "x = PyObject c attrs" "class_fits p g c" "names_fit p c (map fst attrs)"
    by (rule object_table_document)
  have "map_of (stored_fields p json attrs) TYPE_ID_FIELD = None"
    using names_fitD(3) [OF x(3)] by (simp add: map_of_eq_None_iff stored_fields_names flip: set_map)
  moreover have "type_entry p c = [(TYPE_ID_FIELD, PyStr (cd_type_id (class_of p c)))]"
    using x(2) assms(1) by (simp add: class_fits_def type_entry_def)
  ultimately show ?thesis by (simp add: text_field_def x(1) type_id_of_def map_add_def)
qed

lemma polymorphic_same_class:
  assumes "cd_polymorphic (class_of p g)" and "of_type (object_table p json g) x" and "of_type (object_table p json g) y"
    and "type_id_of p x = type_id_of p y"
  shows "same_class x y"
proof -
  from assms(2) obtain c as where x: "x = PyObject c as" "class_fits p g c" by (rule object_table_document)
  from assms(3) obtain d bs where y: "y = PyObject d bs" "class_fits p g d" by (rule object_table_document)
  from assms(1,4) x y have "d = c" by (simp add: class_fits_def type_id_of_def)
  with x(1) y(1) show ?thesis by (simp add: same_class_def)
qed

lemma globals_keyed:
  assumes "query_contract p eq" and g: "cd_polymorphic (class_of p g)"
  shows "keyed (object_table p json g) (merge_documents p) (\<lambda>t. eq TYPE_ID_FIELD (PyStr t)) (type_id_of p)"
  by (subst object_table_embedded, rule embedded_keyed [where h = "\<lambda>t. t", OF assms(1)])
    (auto simp: polymorphic_type_field [OF g] polymorphic_same_class [OF g])

section \<open>The globals in their table\<close>

text \<open>C25: The globals are a map from types to values, in a table of TinyDB that holds them as the program serializes them,
  also when it is a file of JSON. Let the table hold one value for each of some types. Saving a value makes it the value of
  its type and changes no other. Finding a type gives its value back as it was saved, and when there is none stores the
  default and gives that. Neither raises, and there is never more than one document for a type.\<close>

theorem stored_globals_are_a_map:
  assumes "tiny_contract tdb (merge_documents p)" and "query_contract p eq" and "cd_polymorphic (class_of p g)"
    and "\<forall>t. globals_query p eq t = Inr (by_type t)"
    and "holds tdb (object_table p json g) (type_id_of p) db vs"
    and "fits p json (HClass g) (PyObject c attrs)"
    and "construct p k [] = Inr initial" and "fits p json (HClass g) initial"
  shows "(\<exists>db'. globals_save tdb (object_table p json g) by_type (type_id_of p) (PyObject c attrs) db = (db', Inr (PyObject c attrs)) \<and>
        holds tdb (object_table p json g) (type_id_of p) db' (put_value (type_id_of p) (PyObject c attrs) vs)) \<and>
    (\<exists>db'. globals_find tdb (object_table p json g) by_type (\<lambda>_. initial) (cd_type_id (class_of p k)) db =
        (db', Inr (case List.find (\<lambda>v. type_id_of p v = cd_type_id (class_of p k)) vs of Some v \<Rightarrow> v | None \<Rightarrow> initial)) \<and>
        holds tdb (object_table p json g) (type_id_of p) db'
          (case List.find (\<lambda>v. type_id_of p v = cd_type_id (class_of p k)) vs of
             Some v \<Rightarrow> vs | None \<Rightarrow> put_value (type_id_of p) initial vs)) \<and>
    (\<forall>t. List.find (\<lambda>v. type_id_of p v = t) (put_value (type_id_of p) (PyObject c attrs) vs) =
       (if t = type_id_of p (PyObject c attrs) then Some (PyObject c attrs) else List.find (\<lambda>v. type_id_of p v = t) vs))"
proof -
  have by_type: "by_type = (\<lambda>t. eq TYPE_ID_FIELD (PyStr t))" using assms(4) by (simp add: globals_query_eq fun_eq_iff)
  have K: "keyed (object_table p json g) (merge_documents p) by_type (type_id_of p)"
    unfolding by_type by (rule globals_keyed [OF assms(2,3)])
  from assms(7) obtain as where initial: "initial = PyObject k as"
    by (cases "traverse (\<lambda>(n, h, def). case def of Some v \<Rightarrow> Inr (n, v) | None \<Rightarrow> Inl TypeError) (cd_fields (class_of p k))")
      (auto simp: construct_def Let_def)
  have "of_type (object_table p json g) (PyObject c attrs)" "of_type (object_table p json g) initial"
    using assms(6,8) by (auto simp: object_table_def initial)
  moreover have "type_id_of p initial = cd_type_id (class_of p k)" by (simp add: type_id_of_def initial)
  ultimately show ?thesis
    by (intro globals_map [where made = "\<lambda>_. initial" and k = "cd_type_id (class_of p k)", OF assms(1) K assms(5)])
qed

text \<open>The table of the program, with the last session in it.\<close>

definition ex_documents :: "(int py list, int py) tiny" where
  "ex_documents =
     \<lparr>tiny_all = (\<lambda>db. db), tiny_search = filter, tiny_contains = (\<lambda>q db. \<exists>d \<in> set db. q d), tiny_get = List.find,
      tiny_insert = (\<lambda>x db. db @ [x]), tiny_update = updated (merge_documents ex_python),
      tiny_upsert = (\<lambda>x q db. if \<exists>d \<in> set db. q d then updated (merge_documents ex_python) x q db else db @ [x]),
      tiny_truncate = (\<lambda>db. []), tiny_remove = (\<lambda>q db. filter (\<lambda>d. \<not> q d) db)\<rparr>"

definition ex_eq :: "string \<Rightarrow> int py \<Rightarrow> int py query" where
  "ex_eq n v doc = (case doc of PyDict d \<Rightarrow> dict_find ex_python (PyStr n) d = Some v | _ \<Rightarrow> False)"

definition ex_last_session :: "nat \<Rightarrow> int py" where
  "ex_last_session u = PyObject 6 [(''sid'', PyUuid u)]"

definition ex_document :: "nat \<Rightarrow> int py" where
  "ex_document u =
     PyDict [(PyStr ''sid'', PyStr (''u'' @ str_of_int (int u))),
       (PyStr ''__type_id__'', PyStr ''thinking_executor.globals_manager.LastSession'')]"

theorem stored_globals_are_a_map_witness:
  "\<exists>db'. globals_save ex_documents (object_table ex_python True 5) (\<lambda>t. ex_eq TYPE_ID_FIELD (PyStr t)) (type_id_of ex_python)
       (ex_last_session 8) [ex_document 7] = (db', Inr (ex_last_session 8)) \<and>
     holds ex_documents (object_table ex_python True 5) (type_id_of ex_python) db' [ex_last_session 8]"
proof -
  have u: "uuid_of ex_python (PyStr (uuid_text ex_python u)) = Inr u" for u by (simp add: ex_python_def py_int_str_of_int)
  have c: "class_of ex_python = stored_class PyNone (PyStr ''localhost'') (PyInt 1)"
    "ID_TO_CLS ex_python = [(''thinking_executor.globals_manager.LastSession'', 6)]"
    "uuid_text ex_python v = ''u'' @ str_of_int (int v)" for v
    by (simp_all add: ex_python_def stored_class_def)
  have fits: "fits ex_python True (HClass 5) (ex_last_session v)" for v
    using u by (simp add: ex_last_session_def class_fits_def names_fit_def hint_of_def c stored_class_def TYPE_ID_FIELD_def)
  have initial: "construct ex_python 6 [] = Inr (PyObject 6 [(''sid'', PyNone)])"
    by (simp add: construct_def Let_def c stored_class_def)
  have fits_default: "fits ex_python True (HClass 5) (PyObject 6 [(''sid'', PyNone)])"
    by (simp add: class_fits_def names_fit_def hint_of_def c stored_class_def TYPE_ID_FIELD_def)
  have "ser (object_table ex_python True 5) (ex_last_session 7) = Inr (ex_document 7)"
    by (simp add: object_table_def ex_last_session_def ex_document_def enhance_def carried_def c stored_class_def TYPE_ID_FIELD_def
        dict_of_def)
  then have holds: "holds ex_documents (object_table ex_python True 5) (type_id_of ex_python) [ex_document 7] [ex_last_session 7]"
    using fits by (simp add: holds_def ex_documents_def) (simp add: object_table_def ex_last_session_def)
  have contract: "tiny_contract ex_documents (merge_documents ex_python)" by (simp add: tiny_contract_def ex_documents_def)
  have queries: "query_contract ex_python ex_eq" by (simp add: query_contract_def ex_eq_def)
  have polymorphic: "cd_polymorphic (class_of ex_python 5)" by (simp add: c stored_class_def)
  have "put_value (type_id_of ex_python) (ex_last_session 8) [ex_last_session 7] = [ex_last_session 8]"
    by (simp add: put_value_def ex_last_session_def type_id_of_def)
  with stored_globals_are_a_map [where by_type = "\<lambda>t. ex_eq TYPE_ID_FIELD (PyStr t)" and c = 6 and attrs = "[(''sid'', PyUuid 8)]",
      OF contract queries polymorphic allI [OF globals_query_eq] holds fits [of 8, unfolded ex_last_session_def] initial fits_default, THEN conjunct1]
  show ?thesis by (simp add: ex_last_session_def)
qed

end
