(* ===== verification/Stored_Sessions.thy ===== *)
theory Stored_Sessions
  imports Sessions Stored_Globals
begin

text \<open>
  Sessions as they lie in the tables of the program: the manager of \<open>thinking_executor/session.py\<close> with the classes of
  \<open>thinking_executor/session_model.py\<close>, serialized as \<open>thinking_programming/serialization.py\<close> does it and found by the
  queries of \<open>thinking_executor/data/tiny_schema.py\<close>. It is shown that they satisfy what \<open>Sessions\<close> asks of its tables.

  What is known of the machine stays a number in \<open>Sessions\<close>; \<open>meta\<close> is the object of class \<open>RuntimeSessionMetadata\<close> that it
  stands for, and \<open>unmeta\<close> reads the number off.
\<close>

section \<open>Sessions as objects\<close>

definition context_object :: "context_session \<Rightarrow> 'f py" where
  "context_object c =
     PyObject 4 [(''session_no'', PyInt (cs_session_no c)), (''sanitized'', PyBool (cs_sanitized c)),
       (''started_on'', PyDatetime (cs_started_on c)), (''invoked_steps'', PyList (map PyCoordinates (cs_invoked_steps c)))]"

definition session_object :: "(nat \<Rightarrow> 'f py) \<Rightarrow> runtime_session \<Rightarrow> 'f py" where
  "session_object meta r =
     PyObject 1 [(''sid'', PyUuid (rs_sid r)), (''metadata'', meta (rs_metadata r)),
       (''context_sessions'', PyDict (map (\<lambda>(i, c). (PyInt i, context_object c)) (rs_context_sessions r)))]"

fun global_object :: "global \<Rightarrow> 'f py" where
  "global_object (LastSession s) = PyObject 6 [(''sid'', case s of None \<Rightarrow> PyNone | Some u \<Rightarrow> PyUuid u)]"
| "global_object (OtherGlobal t) = PyOther t"

text \<open>Reading them off.\<close>

definition attribute :: "string \<Rightarrow> 'f py \<Rightarrow> 'f py" where
  "attribute n v = (case v of PyObject c attrs \<Rightarrow> (case map_of attrs n of Some x \<Rightarrow> x | None \<Rightarrow> PyNone) | _ \<Rightarrow> PyNone)"

definition int_in :: "'f py \<Rightarrow> int" where
  "int_in v = (case v of PyInt i \<Rightarrow> i | PyDatetime d \<Rightarrow> d | _ \<Rightarrow> 0)"

definition uuid_in :: "'f py \<Rightarrow> nat option" where
  "uuid_in v = (case v of PyUuid u \<Rightarrow> Some u | _ \<Rightarrow> None)"

definition coordinates_in :: "'f py \<Rightarrow> coordinates" where
  "coordinates_in v = (case v of PyCoordinates c \<Rightarrow> c | _ \<Rightarrow> \<lparr>path = [], order_of = [], type_of = STAGE\<rparr>)"

definition context_of :: "'f py \<Rightarrow> context_session" where
  "context_of v =
     \<lparr>cs_session_no = int_in (attribute ''session_no'' v), cs_sanitized = (attribute ''sanitized'' v = PyBool True),
      cs_started_on = int_in (attribute ''started_on'' v),
      cs_invoked_steps = (case attribute ''invoked_steps'' v of PyList xs \<Rightarrow> map coordinates_in xs | _ \<Rightarrow> [])\<rparr>"

definition session_of :: "('f py \<Rightarrow> nat) \<Rightarrow> 'f py \<Rightarrow> runtime_session" where
  "session_of unmeta v =
     \<lparr>rs_sid = the (uuid_in (attribute ''sid'' v)), rs_metadata = unmeta (attribute ''metadata'' v),
      rs_context_sessions = (case attribute ''context_sessions'' v of
         PyDict d \<Rightarrow> map (\<lambda>(k, x). (int_in k, context_of x)) d | _ \<Rightarrow> [])\<rparr>"

definition global_of :: "'f py \<Rightarrow> global" where
  "global_of v = LastSession (uuid_in (attribute ''sid'' v))"

lemma context_of_object: "context_of (context_object c) = c"
  by (cases c) (simp add: context_of_def context_object_def attribute_def int_in_def coordinates_in_def comp_def)

lemma session_of_object: "unmeta (meta (rs_metadata r)) = rs_metadata r \<Longrightarrow> session_of unmeta (session_object meta r) = r"
  by (cases r) (simp add: session_of_def session_object_def attribute_def uuid_in_def int_in_def context_of_object comp_def
      split_def)

lemma global_of_object: "global_of (global_object (LastSession s)) = LastSession s"
  by (cases s) (simp_all add: global_of_def attribute_def uuid_in_def)

section \<open>They fit their classes\<close>

text \<open>
  The classes of \<open>stored_class\<close>, with UUIDs that are read back from their text. A moment of time is kept if its time stamp
  is one that gives it back.
\<close>

definition session_classes :: "'f python \<Rightarrow> 'f py \<Rightarrow> 'f py \<Rightarrow> 'f py \<Rightarrow> bool" where
  "session_classes p runtime hostname pid \<longleftrightarrow>
     class_of p = stored_class runtime hostname pid \<and>
     map_of (ID_TO_CLS p) ''thinking_executor.globals_manager.LastSession'' = Some 6 \<and>
     (\<forall>u. uuid_of p (PyStr (uuid_text p u)) = Inr u)"

definition time_kept :: "'f python \<Rightarrow> int \<Rightarrow> bool" where
  "time_kept p d \<longleftrightarrow> fromtimestamp p (PyFloat (timestamp p d)) = Inr d"

definition metadata_kept :: "'f python \<Rightarrow> bool \<Rightarrow> (nat \<Rightarrow> 'f py) \<Rightarrow> ('f py \<Rightarrow> nat) \<Rightarrow> bool" where
  "metadata_kept p json meta unmeta \<longleftrightarrow> (\<forall>m. fits p json (HClass 2) (meta m) \<and> unmeta (meta m) = m)"

lemma inj_uuid_text: "session_classes p runtime hostname pid \<Longrightarrow> inj (uuid_text p)"
  unfolding session_classes_def by (rule injI) (metis sum.inject(2))

lemma context_object_fits:
  assumes "session_classes p runtime hostname pid" and "context_fits (time_kept p) c"
  shows "fits p json (HClass 4) (context_object c)"
  using assms
  by (simp add: session_classes_def context_fits_def time_kept_def context_object_def class_fits_def names_fit_def hint_of_def
      stored_class_def TYPE_ID_FIELD_def list_all_iff)

lemma session_object_fits:
  assumes P: "session_classes p runtime hostname pid" and M: "metadata_kept p json meta unmeta"
    and r: "session_fits (time_kept p) r"
  shows "fits p json (HClass 1) (session_object meta r)"
proof -
  let ?d = "rs_context_sessions r"
  have "distinct (map fst ?d)" using r by (simp add: session_fits_def numbered_def distinct_map)
  then have "keys_fit p json HInt (map (PyInt \<circ> fst) ?d)"
    by (simp add: keys_fit_def list_all_iff distinct_map inj_on_def)
  moreover have "fits p json (HClass 4) (context_object c)" if "(i, c) \<in> set ?d" for i c
    using r that by (intro context_object_fits [OF P]) (auto simp: session_fits_def)
  ultimately show ?thesis using P M
    by (auto simp: session_classes_def metadata_kept_def session_object_def class_fits_def names_fit_def hint_of_def stored_class_def
        TYPE_ID_FIELD_def comp_def split_def)
qed

lemma global_object_fits:
  assumes "session_classes p runtime hostname pid"
  shows "fits p json (HClass 5) (global_object (LastSession s))"
  using assms
  by (cases s) (simp_all add: session_classes_def class_fits_def names_fit_def hint_of_def stored_class_def TYPE_ID_FIELD_def)

section \<open>The tables of the program\<close>

definition session_table ::
  "'f python \<Rightarrow> bool \<Rightarrow> (nat \<Rightarrow> 'f py) \<Rightarrow> ('f py \<Rightarrow> nat) \<Rightarrow> (runtime_session, 'f py) typed" where
  "session_table p json meta unmeta =
     embedded_table p json 1 (session_fits (time_kept p)) (session_object meta) (session_of unmeta)"

definition last_session_table :: "'f python \<Rightarrow> bool \<Rightarrow> (global, 'f py) typed" where
  "last_session_table p json = embedded_table p json 5 (\<lambda>g. \<exists>s. g = LastSession s) global_object global_of"

text \<open>The queries are \<open>Query().sid == str(sid)\<close> and that of the globals; \<open>tid\<close> gives the identifiers of the types of globals.\<close>

definition sid_query :: "'f python \<Rightarrow> (string \<Rightarrow> 'f py \<Rightarrow> 'f py query) \<Rightarrow> nat \<Rightarrow> 'f py query res" where
  "sid_query p eq sid = wrap_query p (\<lambda>vs kws. eq ''sid'' (hd vs)) [PyStr (uuid_text p sid)] []"

lemma sid_query_eq: "sid_query p eq sid = Inr (eq ''sid'' (PyStr (uuid_text p sid)))"
  by (simp add: sid_query_def wrap_query_serialized)

lemma sessions_keyed:
  assumes P: "session_classes p runtime hostname pid" and M: "metadata_kept p json meta unmeta" and q: "query_contract p eq"
  shows "keyed (session_table p json meta unmeta) (merge_documents p) (\<lambda>u. eq ''sid'' (PyStr (uuid_text p u))) rs_sid"
  unfolding session_table_def
proof (rule embedded_keyed [OF q _ inj_uuid_text [OF P]]; intro allI impI)
  fix r assume r: "session_fits (time_kept p) r"
  have "unmeta (meta (rs_metadata r)) = rs_metadata r" using M by (simp add: metadata_kept_def)
  then show "of_type (object_table p json 1) (session_object meta r) \<and> session_of unmeta (session_object meta r) = r \<and>
      text_field p json ''sid'' (session_object meta r) (uuid_text p (rs_sid r))"
    using session_object_fits [OF P M r] P
    by (simp add: object_table_def session_of_object)
      (simp add: session_object_def text_field_def stored_fields_def carried_native type_entry_def session_classes_def stored_class_def)
next
  fix r r' :: runtime_session
  show "same_class (session_object meta r) (session_object meta r')" by (simp add: same_class_def session_object_def)
qed

lemma last_session_keyed:
  assumes P: "session_classes p runtime hostname pid" and q: "query_contract p eq"
    and t: "inj tid" "tid 0 = cd_type_id (class_of p 6)"
  shows "keyed (last_session_table p json) (merge_documents p) (\<lambda>k. eq TYPE_ID_FIELD (PyStr (tid k))) global_type"
  unfolding last_session_table_def
proof (rule embedded_keyed [OF q _ t(1)]; intro allI impI)
  fix g assume "\<exists>s. g = LastSession s"
  then obtain s where g: "g = LastSession s" by blast
  have ty: "of_type (object_table p json 5) (global_object g)"
    using global_object_fits [OF P, of json s] by (simp add: object_table_def g)
  have "cd_polymorphic (class_of p 5)" using P by (simp add: session_classes_def stored_class_def)
  from polymorphic_type_field [OF this ty] ty
  show "of_type (object_table p json 5) (global_object g) \<and> global_of (global_object g) = g \<and>
      text_field p json TYPE_ID_FIELD (global_object g) (tid (global_type g))"
    by (simp add: g global_of_object t(2) type_id_of_def del: global_object.simps)
      (simp add: type_id_of_def)
next
  fix g g' assume "\<exists>s. g = LastSession s" "\<exists>s. g' = LastSession s"
  then show "same_class (global_object g) (global_object g')" by (auto simp: same_class_def)
qed

definition program_environment ::
  "'f python \<Rightarrow> bool \<Rightarrow> (nat \<Rightarrow> 'f py) \<Rightarrow> ('f py \<Rightarrow> nat) \<Rightarrow> (string \<Rightarrow> 'f py \<Rightarrow> 'f py query) \<Rightarrow> (nat \<Rightarrow> string) \<Rightarrow>
   ('db, 'f py) tiny \<Rightarrow> ('gdb, 'f py) tiny \<Rightarrow> (runtime_session option \<Rightarrow> runtime_session option) \<Rightarrow>
   ('db, 'f py, 'gdb, 'f py) session_environment" where
  "program_environment p json meta unmeta eq tid tdb gdb callback =
     \<lparr>se_tiny = tdb, se_typed = session_table p json meta unmeta, se_by_sid = (\<lambda>u. eq ''sid'' (PyStr (uuid_text p u))),
      se_globals = gdb, se_global_typed = last_session_table p json, se_by_type = (\<lambda>k. eq TYPE_ID_FIELD (PyStr (tid k))),
      se_on_new_runtime_session =
        (\<lambda>st. (st\<lparr>sm_previous_runtime_session := callback (sm_previous_runtime_session st)\<rparr>, Inr ())),
      se_before_context_session = (\<lambda>p i. sret ()), se_after_context_session = (\<lambda>p i. sret ())\<rparr>"

lemma program_environment_ok:
  assumes "session_classes p runtime hostname pid" and "metadata_kept p json meta unmeta" and "query_contract p eq"
    and "inj tid" and "tid 0 = cd_type_id (class_of p 6)"
    and "tiny_contract tdb (merge_documents p)" and "tiny_contract gdb (merge_documents p)"
  shows "environment_ok (program_environment p json meta unmeta eq tid tdb gdb callback) (time_kept p)
    (merge_documents p) (merge_documents p)"
  using assms(6,7) sessions_keyed [OF assms(1-3)] last_session_keyed [OF assms(1,3-5), of json]
  unfolding environment_ok_def program_environment_def
  by (simp add: session_table_def last_session_table_def embedded_table_def) blast

text \<open>C13: What the manager of sessions stores. However often the manager is opened and closed in a
  runtime session, with whatever steps marked and however each opening ends, no operation raises; the context sessions are
  numbered consecutively from where they were, each with its start, its steps in order and
  whether it was closed without an exception; the table has the runtime session, as it is serialized, exactly as it
  is in memory and no other entry has changed, among them the one of the previous runtime
  session, whatever the callbacks did to the object that they were given; and the last
  session among the globals is this one. So it is when the tables are a file of JSON, too.\<close>

theorem sessions_stored:
  assumes "session_classes p runtime hostname pid" and "metadata_kept p json meta unmeta" and "query_contract p eq"
    and "inj tid" and "tid 0 = cd_type_id (class_of p 6)"
    and "tiny_contract tdb (merge_documents p)" and "tiny_contract gdb (merge_documents p)"
    and env: "env = program_environment p json meta unmeta eq tid tdb gdb callback"
    and "stored env st vs gs"
    and "sm_current_context_session st = None" and "session_fits (time_kept p) (sm_runtime_session st)"
    and "\<forall>run \<in> set runs. run_fits (time_kept p) run" and "runs \<noteq> []"
  shows "\<exists>st'. seach (one_context env) runs st = (st', Inr ()) \<and> sm_current_context_session st' = None \<and>
    sm_runtime_session st' = (sm_runtime_session st)
      \<lparr>rs_context_sessions := rs_context_sessions (sm_runtime_session st) @
         numbered_contexts (int (length (rs_context_sessions (sm_runtime_session st)))) runs\<rparr> \<and>
    stored env st' (put_value rs_sid (sm_runtime_session st') vs)
      (put_value global_type (LastSession (Some (rs_sid (sm_runtime_session st)))) gs)"
proof -
  have "environment_ok env (time_kept p) (merge_documents p) (merge_documents p)"
    unfolding env by (rule program_environment_ok [OF assms(1-7)])
  from sessions_run [OF this assms(9-13)] show ?thesis .
qed

text \<open>
  A session after another one, whose object a callback marks as sanitized, as the data versioning does. The first
  opening ends well, the second with an exception.
\<close>

definition sanitize_last :: "runtime_session \<Rightarrow> runtime_session" where
  "sanitize_last r =
     r\<lparr>rs_context_sessions := map_values (\<lambda>i c. c\<lparr>cs_sanitized := True\<rparr>) (rs_context_sessions r)\<rparr>"

definition ex_meta :: "nat \<Rightarrow> int py" where
  "ex_meta n = PyObject 2 [(''runtime'', PyNone), (''hostname'', PyStr ''localhost''), (''pid'', PyInt (int n))]"

definition ex_tid :: "nat \<Rightarrow> string" where
  "ex_tid k = ''thinking_executor.globals_manager.LastSession'' @ replicate k (CHR ''x'')"

definition ex_session_environment :: "(int py list, int py, int py list, int py) session_environment" where
  "ex_session_environment =
     program_environment ex_python True ex_meta (\<lambda>v. nat (int_in (attribute ''pid'' v))) ex_eq ex_tid ex_documents ex_documents
       (map_option sanitize_last)"

definition ex_previous :: runtime_session where
  "ex_previous =
     \<lparr>rs_sid = 1, rs_metadata = 0,
      rs_context_sessions = [(0, \<lparr>cs_session_no = 0, cs_sanitized = False, cs_started_on = 5, cs_invoked_steps = []\<rparr>)]\<rparr>"

definition ex_session_manager :: "int py \<Rightarrow> (int py list, int py list) session_manager" where
  "ex_session_manager d =
     \<lparr>sm_runtime_session = \<lparr>rs_sid = 2, rs_metadata = 0, rs_context_sessions = []\<rparr>,
      sm_previous_runtime_session = None, sm_current_context_session = None, sm_current_session_pointer = None,
      sm_table = [d], sm_globals = [ex_document 1]\<rparr>"

theorem sessions_stored_witness:
  "\<exists>d d' st'. ser (se_typed ex_session_environment) ex_previous = Inr d \<and>
     seach (one_context ex_session_environment) [(10, [], None), (20, [], Some RuntimeError)] (ex_session_manager d) = (st', Inr ()) \<and>
     ser (se_typed ex_session_environment) (sm_runtime_session st') = Inr d' \<and> sm_table st' = [d, d'] \<and>
     map (cs_sanitized \<circ> snd) (rs_context_sessions (sm_runtime_session st')) = [True, False]"
proof -
  let ?runs = "[(10, [], None), (20, [], Some RuntimeError)] :: (int \<times> coordinates list \<times> exn option) list"
  have P: "session_classes ex_python PyNone (PyStr ''localhost'') (PyInt 1)"
    by (simp add: session_classes_def ex_python_def py_int_str_of_int) (simp add: stored_class_def)
  have c: "class_of ex_python = stored_class PyNone (PyStr ''localhost'') (PyInt 1)" using P by (simp add: session_classes_def)
  have M: "metadata_kept ex_python True ex_meta (\<lambda>v. nat (int_in (attribute ''pid'' v)))"
    by (simp add: metadata_kept_def ex_meta_def attribute_def int_in_def class_fits_def names_fit_def hint_of_def c stored_class_def
        TYPE_ID_FIELD_def)
  have q: "query_contract ex_python ex_eq" by (simp add: query_contract_def ex_eq_def)
  have contract: "tiny_contract ex_documents (merge_documents ex_python)" by (simp add: tiny_contract_def ex_documents_def)
  have tid: "inj ex_tid" "ex_tid 0 = cd_type_id (class_of ex_python 6)"
    by (simp_all add: ex_tid_def inj_def c stored_class_def)
  have time: "time_kept ex_python d" for d by (simp add: time_kept_def ex_python_def)
  have previous: "session_fits (time_kept ex_python) ex_previous"
    by (simp add: session_fits_def numbered_def context_fits_def ex_previous_def time)
  from session_object_fits [OF P M previous] obtain d where d: "ser (se_typed ex_session_environment) ex_previous = Inr d"
    by (auto simp: ex_session_environment_def program_environment_def session_table_def embedded_table_def object_table_def
        dest: fits_serialize)
  have g: "ser (last_session_table ex_python True) (LastSession (Some 1)) = Inr (ex_document 1)"
    by (simp add: last_session_table_def embedded_table_def object_table_def ex_document_def enhance_def carried_def c stored_class_def
        TYPE_ID_FIELD_def dict_of_def) (simp add: ex_python_def)
  have S: "stored ex_session_environment (ex_session_manager d) [ex_previous] [LastSession (Some 1)]"
    using d g previous
    by (simp add: stored_def holds_def ex_session_environment_def program_environment_def ex_session_manager_def ex_documents_def)
      (simp add: session_table_def last_session_table_def embedded_table_def)
  have N: "sm_current_context_session (ex_session_manager d) = None"
    and fits: "session_fits (time_kept ex_python) (sm_runtime_session (ex_session_manager d))"
    by (simp_all add: ex_session_manager_def session_fits_def numbered_def)
  have runs: "\<forall>run \<in> set ?runs. run_fits (time_kept ex_python) run" by (simp add: run_fits_def time)
  have "?runs \<noteq> []" by simp
  from sessions_stored [OF P M q tid contract contract ex_session_environment_def S N fits runs this]
  obtain st' where st': "seach (one_context ex_session_environment) ?runs (ex_session_manager d) = (st', Inr ())"
    and r: "sm_runtime_session st' = (sm_runtime_session (ex_session_manager d))
      \<lparr>rs_context_sessions := rs_context_sessions (sm_runtime_session (ex_session_manager d)) @
         numbered_contexts (int (length (rs_context_sessions (sm_runtime_session (ex_session_manager d))))) ?runs\<rparr>"
    and s: "stored ex_session_environment st' (put_value rs_sid (sm_runtime_session st') [ex_previous])
      (put_value global_type (LastSession (Some (rs_sid (sm_runtime_session (ex_session_manager d))))) [LastSession (Some 1)])"
    by (elim exE conjE) (rule that)
  have p: "put_value rs_sid (sm_runtime_session st') [ex_previous] = [ex_previous, sm_runtime_session st']"
    unfolding r by (simp add: put_value_def ex_previous_def ex_session_manager_def)
  have "list_all2 (\<lambda>v d. ser (se_typed ex_session_environment) v = Inr d) [ex_previous, sm_runtime_session st']
      (tiny_all ex_documents (sm_table st'))"
    using s unfolding p stored_def holds_def by (simp add: ex_session_environment_def program_environment_def)
  then obtain d' where a: "ser (se_typed ex_session_environment) (sm_runtime_session st') = Inr d'" "sm_table st' = [d, d']"
    using d by (auto simp: ex_documents_def list_all2_Cons1)
  have "map (cs_sanitized \<circ> snd) (rs_context_sessions (sm_runtime_session st')) = [True, False]"
    unfolding r by (simp add: ex_session_manager_def recorded_context_def)
  with d st' a show ?thesis by (intro exI [of _ d] exI [of _ d'] exI [of _ st'] conjI)
qed

end
