(* ===== verification/Spec2Isabelle.thy ===== *)
theory Spec2Isabelle
  imports Configuration_Properties Injection_Properties Callbacks Tracking Dolt_Daemon Consistency
    Typed_Columns Dolt_Storage Declarations Resumption Executor_Access Mocking Connections Type_Sets
    Type_Graph Calculator Resumed_Clustering Programming Inspection Stored_Sessions
begin

text \<open>
  A verification library of the thinking-injection repository.

  \<^bold>\<open>The program.\<close> The repository holds a dependency injection framework
  (\<^verbatim>\<open>thinking_injection\<close>), the reflection and programming helpers it stands on
  (\<^verbatim>\<open>thinking_reflection\<close>, \<^verbatim>\<open>thinking_programming\<close>), an executor of resumable tasks
  (\<^verbatim>\<open>thinking_executor\<close>), the versioning of the data that tasks write with Dolt
  (\<^verbatim>\<open>thinking_executor_data\<close>), and helpers for processes and containers
  (\<^verbatim>\<open>thinking_services\<close>). A context registers types, reads from the signature of
  \<open>inject_requirements\<close> what each needs, freezes the registry to an index, orders the concrete
  types so that each follows what is injected into it, makes and injects the objects, and closes them in
  reverse order. The executor is such an object: it runs named steps and stages, records the
  finished ones in a TinyDB table, skips what is on record, and tells its callbacks, among them the
  one that gives every step a branch of its own in the database.

  \<^bold>\<open>Theories\<close>, in the order in which they build on each other:

  \<^item> \<open>Prelude\<close>: results (\<open>exn + 'a\<close>), all exceptions of the program, ordered dictionaries and sets.
  \<^item> \<open>Guards\<close>, \<open>Py_Strings\<close>, \<open>State_Result\<close>: \<^verbatim>\<open>exceptions.py\<close>, \<^verbatim>\<open>guard.py\<close>, \<^verbatim>\<open>collectable.py\<close>,
    \<^verbatim>\<open>outcome.py\<close>; what the code uses of Python's strings; operations that change a state
    and may raise, with the locale \<open>frame_relation\<close> for relations that they keep.
  \<^item> \<open>Py_Types\<close>, \<open>Dependency_Kinds\<close>: \<^verbatim>\<open>discovery.py\<close>, \<^verbatim>\<open>interfaces.py\<close> and
    \<^verbatim>\<open>common/dependencies.py\<close>. A \<open>world\<close> is what the interpreter knows of the classes.
  \<^item> \<open>Registry\<close>, \<open>Registry_Correct\<close>: \<open>SimpleRegistry\<close> and its customizers, with the
    invariant \<open>registry_ok\<close>.
  \<^item> \<open>Topological\<close>, \<open>Type_Index\<close>, \<open>Init_Order\<close>: \<open>SimpleTypeIndex\<close> and the order of initialisation. The
    contract of networkx is \<open>topo_contract\<close>; Kahn's algorithm satisfies it.
  \<^item> \<open>Lifecycle\<close>, \<open>Instance_Index\<close>, \<open>Injection_Properties\<close>: \<^verbatim>\<open>lifecycle.py\<close> and
    \<open>SimpleInstanceIndex\<close>. A block is the trace of what happened to the objects and the exception that
    leaves it.
  \<^item> \<open>Contexts\<close>, \<open>Configurable\<close>, \<open>Configuration_Properties\<close>: \<open>SimpleContext\<close>, the invoker, the union
    of indexes, configurators and \<open>ConfigurableContext\<close>.
  \<^item> \<open>Example_World\<close>: an application of a few classes, for the witnesses.
  \<^item> \<open>Task_Model\<close>, \<open>Task_Executor\<close>: \<^verbatim>\<open>executor_model.py\<close> and \<^verbatim>\<open>executor.py\<close>. The body of a task is a
    tree of actions, so that recursion follows it and no fuel is needed.
  \<^item> \<open>Callbacks\<close>, \<open>Tracking\<close>: \<^verbatim>\<open>callbacks.py\<close> and \<^verbatim>\<open>tracking.py\<close>.
  \<^item> \<open>Services\<close>: \<^verbatim>\<open>processes.py\<close>, \<^verbatim>\<open>logs.py\<close>, \<^verbatim>\<open>polling.py\<close>, \<^verbatim>\<open>credentials.py\<close>. The loop of
    \<open>poll\<close> recurs on the number of its retries.
  \<^item> \<open>Dolt_Daemon\<close>: \<^verbatim>\<open>dolt/daemon.py\<close>.
  \<^item> \<open>Data_Versioning\<close>, \<open>Dolt_Versioning\<close>: \<^verbatim>\<open>names.py\<close>, \<^verbatim>\<open>common/versioning.py\<close>,
    \<^verbatim>\<open>common/writability.py\<close>, \<^verbatim>\<open>dolt/sqlalchemy/versioning.py\<close>, with the repository of branches
    and working sets that they implement.
  \<^item> \<open>Tiny_Schema\<close>, \<open>Sessions\<close>: \<^verbatim>\<open>tiny_schema.py\<close>, \<^verbatim>\<open>globals_manager.py\<close>,
    \<^verbatim>\<open>session_model.py\<close> and \<^verbatim>\<open>session.py\<close>.
  \<^item> \<open>Stored_Globals\<close>, \<open>Stored_Sessions\<close>: the queries that serialize their arguments, and the tables of globals and
    of sessions with the program's own serialization, which satisfy what \<open>Tiny_Schema\<close> asks of the values of a table.
  \<^item> \<open>Consistency\<close>: \<^verbatim>\<open>callbacks/executor.py\<close> and \<^verbatim>\<open>common/consistency.py\<close>, joined with the runs of
    the executor.
  \<^item> \<open>Serialization\<close>, \<open>Typed_Columns\<close>: \<^verbatim>\<open>serialization.py\<close>, with the classes that the
    program stores, and the columns of \<^verbatim>\<open>dolt/sqlalchemy/base.py\<close>. Deserialization recurs on the
    size of the value.
  \<^item> \<open>Dolt_Storage\<close>: the repositories of \<^verbatim>\<open>dolt/sqlalchemy/storage.py\<close>, related to tables of
    entities by identifier.
  \<^item> \<open>Declarations\<close>: \<^verbatim>\<open>declarations.py\<close>, \<^verbatim>\<open>source_scope.py\<close> and \<^verbatim>\<open>members.py\<close>. A class is what
    the interpreter reports of it.
  \<^item> \<open>Inspection\<close>: \<^verbatim>\<open>inspect_mate.py\<close>, whose listings share out what a class has, and the source of objects.
  \<^item> \<open>Programming\<close>: \<^verbatim>\<open>singleton.py\<close>, \<^verbatim>\<open>str.py\<close> and \<^verbatim>\<open>tracing.py\<close>.
  \<^item> \<open>Definitions\<close>, \<open>Mocking\<close>: \<^verbatim>\<open>model/classes.py\<close> and \<^verbatim>\<open>definitions.py\<close>, with what the merged
    descriptors collect; the mock classes of \<^verbatim>\<open>mocking.py\<close> and their objects, in a heap of mocks.
  \<^item> \<open>Resumption\<close>: scripts whose steps may fail, run in one session after the other. When no
    step fails in two consecutive sessions, as many sessions as there are steps, and one more, are enough.
  \<^item> \<open>Executor_Access\<close>: the rest of \<^verbatim>\<open>executor.py\<close>, and \<^verbatim>\<open>contextful.py\<close>.
  \<^item> \<open>Containers\<close>, \<open>Connections\<close>: the Docker client of \<^verbatim>\<open>containers/\<close>; \<^verbatim>\<open>engine.py\<close>,
    \<^verbatim>\<open>tinydb.py\<close>, \<^verbatim>\<open>persistence.py\<close> and \<^verbatim>\<open>ui.py\<close>.
  \<^item> \<open>Type_Graph\<close>: the pictures of an index, which can always be drawn.
  \<^item> \<open>Type_Sets\<close>: \<^verbatim>\<open>typeset.py\<close> and \<^verbatim>\<open>ordering.py\<close>.
  \<^item> \<open>Calculator\<close>, \<open>Clustering\<close>: the two example applications.
  \<^item> \<open>Task_Programs\<close>, \<open>Resumed_Clustering\<close>: rules for programs whose steps change data and may fail before or
    after their work, and the clustering as such a program: interrupted and resumed, it computes what
    clustering in one go computes.

  \<^bold>\<open>What stands for code outside the repository.\<close> networkx, TinyDB, SQLAlchemy with Dolt,
  bidict, Docker, the operating system, the clock, UUIDs of version 5, floating-point numbers and the
  objects of an application are parameters. What the code relies on is a named hypothesis: \<open>topo_contract\<close>,
  \<open>tinydb_contract\<close>, \<open>tiny_contract\<close>, \<open>dolt_contract\<close>, \<open>config_contract\<close>, \<open>unique_ids\<close>,
  \<open>images_ok\<close>, \<open>containers_ok\<close>, \<open>volumes_ok\<close>, \<open>separate_tables\<close>, \<open>query_contract\<close>; each has an
  instance in the witnesses. What methods of applications raise is arbitrary.

  \<^bold>\<open>Not modelled.\<close> Logging; how the standard library inspects live objects and source files, whose
  answers are given; the demonstration code in \<^verbatim>\<open>inspect_mate.py\<close>; threads and real processes;
  declarations of protocols without code; test code, build scripts, data files and the set-up of the runtime by the
  scripts that start the example applications.
\<close>

end
